(* ===== verification/Prelude.thy ===== *)
theory Prelude
  imports Main "HOL-Library.Word"
begin

text \<open>
  Shared vocabulary of the development: names for the machine integers of the Rust sources,
  little-endian byte images of integers, reads and writes of byte ranges inside a buffer,
  Rust's \<^verbatim>\<open>Vec::resize\<close>, and the power-of-two masking used by every ring buffer of the
  repository.  The collection \<open>buf_simps\<close> gathers the length and read-over-write laws that
  the component proofs pass to the simplifier.
\<close>

unbundle bit_operations_syntax

named_theorems buf_simps \<open>reads and writes of byte ranges\<close>
named_theorems mask_simps \<open>power-of-two masks as remainders\<close>

type_synonym u8 = "8 word"
type_synonym u16 = "16 word"
type_synonym u32 = "32 word"
type_synonym u64 = "64 word"
type_synonym bytes = "u8 list"

lemma unat_u32_lt: "unat (k :: u32) < 2 ^ 32"
  using unsigned_less [of k, where 'a = nat] by simp

lemma unat_u64_lt: "unat (k :: u64) < 2 ^ 64"
  using unsigned_less [of k, where 'a = nat] by simp

section \<open>Little-endian images of integers\<close>

fun nat_bytes :: "nat \<Rightarrow> nat \<Rightarrow> bytes" where
  "nat_bytes 0 n = []"
| "nat_bytes (Suc k) n = word_of_nat (n mod 256) # nat_bytes k (n div 256)"

fun bytes_nat :: "bytes \<Rightarrow> nat" where
  "bytes_nat [] = 0"
| "bytes_nat (b # bs) = unat b + 256 * bytes_nat bs"

text \<open>
  \<open>le_bytes k w\<close> is the memory image that \<^verbatim>\<open>ptr::write(p, w.to_le())\<close> leaves in the \<open>k\<close>
  bytes at \<open>p\<close>; \<open>le_word\<close> is \<^verbatim>\<open>from_le(ptr::read(p))\<close>.
\<close>

definition le_bytes :: "nat \<Rightarrow> 'a::len word \<Rightarrow> bytes" where
  "le_bytes k w = nat_bytes k (unat w)"

definition le_word :: "bytes \<Rightarrow> 'a::len word" where
  "le_word bs = word_of_nat (bytes_nat bs)"

lemma length_nat_bytes [simp]: "length (nat_bytes k n) = k"
  by (induction k arbitrary: n) simp_all

lemma length_le_bytes [simp, buf_simps]: "length (le_bytes k w) = k"
  by (simp add: le_bytes_def)

lemma bytes_nat_nat_bytes: "bytes_nat (nat_bytes k n) = n mod 256 ^ k"
proof (induction k arbitrary: n)
  case 0
  then show ?case by simp
next
  case (Suc k)
  have "unat (word_of_nat (n mod 256) :: u8) = n mod 256"
    by (simp add: unat_of_nat)
  then show ?case
    using Suc.IH by (simp add: mod_mult2_eq mult.commute)
qed

lemma le_word_le_bytes:
  fixes w :: "'a::len word"
  assumes "LENGTH('a) = 8 * k"
  shows "le_word (le_bytes k w) = w"
proof -
  have "256 ^ k = (2::nat) ^ LENGTH('a)"
    using assms by (simp add: power_mult)
  then have "unat w < 256 ^ k" by simp
  then show ?thesis
    by (simp add: le_word_def le_bytes_def bytes_nat_nat_bytes)
qed

lemma le_word_le_bytes_u16 [simp]: "le_word (le_bytes 2 w) = (w :: u16)"
  by (rule le_word_le_bytes) simp

lemma le_word_le_bytes_u32 [simp]: "le_word (le_bytes 4 w) = (w :: u32)"
  by (rule le_word_le_bytes) simp

lemma le_word_le_bytes_u64 [simp]: "le_word (le_bytes 8 w) = (w :: u64)"
  by (rule le_word_le_bytes) simp

section \<open>Byte ranges of a buffer\<close>

definition read_at :: "nat \<Rightarrow> nat \<Rightarrow> 'a list \<Rightarrow> 'a list" where
  "read_at off n buf = take n (drop off buf)"

definition write_at :: "nat \<Rightarrow> 'a list \<Rightarrow> 'a list \<Rightarrow> 'a list" where
  "write_at off xs buf = take off buf @ xs @ drop (off + length xs) buf"

lemma length_write_at [buf_simps]:
  "off + length xs \<le> length buf \<Longrightarrow> length (write_at off xs buf) = length buf"
  by (simp add: write_at_def)

lemma nth_write_at:
  assumes "off + length xs \<le> length b" "i < length b"
  shows "write_at off xs b ! i = (if off \<le> i \<and> i < off + length xs then xs ! (i - off) else b ! i)"
  using assms by (auto simp: write_at_def nth_append min_def)

lemma length_read_at [buf_simps]:
  "off + n \<le> length buf \<Longrightarrow> length (read_at off n buf) = n"
  by (simp add: read_at_def)

lemma read_write_same:
  "off + length xs \<le> length buf \<Longrightarrow> read_at off (length xs) (write_at off xs buf) = xs"
  by (simp add: read_at_def write_at_def)

lemma read_write_inside:
  assumes "off + length xs \<le> length buf" "off \<le> p" "p + n \<le> off + length xs"
  shows "read_at p n (write_at off xs buf) = read_at (p - off) n xs"
proof -
  have "drop p (write_at off xs buf) = drop (p - off) xs @ drop (off + length xs) buf"
    using assms by (simp add: write_at_def)
  moreover have "n \<le> length (drop (p - off) xs)" using assms by simp
  ultimately show ?thesis by (simp add: read_at_def)
qed

lemma read_write_before:
  "p + n \<le> off \<Longrightarrow> off \<le> length buf \<Longrightarrow> read_at p n (write_at off xs buf) = read_at p n buf"
  by (simp add: read_at_def write_at_def drop_take)

lemma read_write_after:
  "off + length xs \<le> p \<Longrightarrow> off + length xs \<le> length buf \<Longrightarrow>
     read_at p n (write_at off xs buf) = read_at p n buf"
  by (simp add: read_at_def write_at_def)

lemma read_at_read_at:
  "p + n \<le> m \<Longrightarrow> read_at p n (read_at off m buf) = read_at (off + p) n buf"
  by (simp add: read_at_def drop_take add.commute)

lemma read_at_append:
  "read_at off (m + n) buf = read_at off m buf @ read_at (off + m) n buf"
  by (simp add: read_at_def take_add add.commute)

lemma read_at_append_left:
  "off + n \<le> length xs \<Longrightarrow> read_at off n (xs @ ys) = read_at off n xs"
  by (simp add: read_at_def)

lemma read_at_append_right:
  "length xs \<le> off \<Longrightarrow> read_at off n (xs @ ys) = read_at (off - length xs) n ys"
  by (simp add: read_at_def)

lemma read_at_all: "length xs = n \<Longrightarrow> read_at 0 n xs = xs"
  by (simp add: read_at_def)

section \<open>Vectors\<close>

text \<open>\<^verbatim>\<open>Vec::resize(n, x)\<close>: truncate or pad with \<open>x\<close>.\<close>

definition resize :: "nat \<Rightarrow> 'a \<Rightarrow> 'a list \<Rightarrow> 'a list" where
  "resize n x xs = take n xs @ replicate (n - length xs) x"

lemma length_resize [simp]: "length (resize n x xs) = n"
  by (simp add: resize_def)

lemma nth_resize: "i < n \<Longrightarrow> resize n x xs ! i = (if i < length xs then xs ! i else x)"
  by (auto simp: resize_def nth_append)

definition get_opt :: "'a list \<Rightarrow> nat \<Rightarrow> 'a option" where
  "get_opt xs i = (if i < length xs then Some (xs ! i) else None)"

section \<open>Power-of-two masks\<close>

definition is_pow2 :: "nat \<Rightarrow> bool" where
  "is_pow2 n \<longleftrightarrow> (\<exists>k. n = 2 ^ k)"

lemma is_pow2_pos: "is_pow2 n \<Longrightarrow> 0 < n"
  by (auto simp: is_pow2_def)

lemma and_pow2_mod [mask_simps]:
  assumes "is_pow2 n"
  shows "p AND (n - 1) = p mod (n :: nat)"
proof -
  obtain k where "n = 2 ^ k" using assms by (auto simp: is_pow2_def)
  then show ?thesis
    by (metis mask_eq_exp_minus_1 take_bit_eq_mask take_bit_eq_mod)
qed

lemmas and_pow2_mod_Suc [mask_simps] = and_pow2_mod [unfolded One_nat_def]

lemma unat_ucast_u32_u64 [simp]: "unat (ucast (x :: u32) :: u64) = unat x"
proof -
  have "unat x < 2 ^ 64" using unat_u32_lt [of x] by simp
  then show ?thesis by (simp add: unsigned_ucast_eq take_bit_nat_eq_self)
qed

lemma unat_u64_small: "n < 2 ^ 64 \<Longrightarrow> unat (word_of_nat n :: u64) = n"
  by (subst unat_of_nat) simp

lemma word_and_not_mask:
  fixes w :: "'a::len word"
  shows "unat (w AND NOT (mask k)) = (unat w div 2 ^ k) * 2 ^ k"
proof -
  have "(w AND NOT (mask k)) + take_bit k w = (w AND NOT (mask k)) OR take_bit k w"
    by (rule disjunctive_add_eq_or) (simp add: bit_eq_iff bit_simps)
  also have "\<dots> = w" by (auto simp: bit_eq_iff bit_simps)
  finally have "w AND NOT (mask k) = w - take_bit k w"
    by (simp add: eq_diff_eq)
  moreover have "take_bit k w \<le> w"
    by (simp add: word_le_nat_alt unsigned_take_bit_eq take_bit_nat_less_eq_self)
  ultimately have "unat (w AND NOT (mask k)) = unat w - unat (take_bit k w)"
    by (simp add: unat_sub)
  then have "unat (w AND NOT (mask k)) = unat w - unat w mod 2 ^ k"
    by (simp only: unsigned_take_bit_eq) (simp add: take_bit_eq_mod)
  then show ?thesis by (simp add: minus_mod_eq_div_mult)
qed

text \<open>\<^verbatim>\<open>usize::next_power_of_two\<close>, by doubling from the candidate \<open>p\<close>.\<close>

function next_pow2_from :: "nat \<Rightarrow> nat \<Rightarrow> nat" where
  "next_pow2_from p n = (if p < n \<and> 0 < p then next_pow2_from (2 * p) n else p)"
  by pat_completeness auto
termination
  by (relation "measure (\<lambda>(p, n). n - p)") auto

declare next_pow2_from.simps [simp del]

definition next_power_of_two :: "nat \<Rightarrow> nat" where
  "next_power_of_two n = next_pow2_from 1 n"

lemma is_pow2_double: "is_pow2 p \<Longrightarrow> is_pow2 (2 * p)"
  unfolding is_pow2_def by (metis power_Suc)

lemma next_pow2_from_props:
  assumes "is_pow2 p"
  shows "is_pow2 (next_pow2_from p n) \<and> n \<le> next_pow2_from p n \<and>
         (p < n \<longrightarrow> next_pow2_from p n < 2 * n)"
  using assms
proof (induction p n rule: next_pow2_from.induct)
  case (1 p n)
  show ?case
  proof (cases "p < n \<and> 0 < p")
    case True
    with "1.IH" "1.prems" have IH:
      "is_pow2 (next_pow2_from (2 * p) n)" "n \<le> next_pow2_from (2 * p) n"
      "2 * p < n \<longrightarrow> next_pow2_from (2 * p) n < 2 * n"
      by (simp_all add: is_pow2_double)
    have "next_pow2_from (2 * p) n < 2 * n"
    proof (cases "2 * p < n")
      case False
      with True show ?thesis by (subst next_pow2_from.simps) auto
    qed (use IH in blast)
    with IH True show ?thesis by (simp add: next_pow2_from.simps [of p n])
  next
    case False
    with "1.prems" show ?thesis
      using is_pow2_pos by (auto simp: next_pow2_from.simps [of p n])
  qed
qed

lemma is_pow2_1: "is_pow2 1"
  unfolding is_pow2_def by (rule exI [of _ 0]) simp

lemma next_power_of_two_props:
  "is_pow2 (next_power_of_two n)" "n \<le> next_power_of_two n"
  "1 < n \<Longrightarrow> next_power_of_two n < 2 * n"
  using next_pow2_from_props [OF is_pow2_1, of n] by (auto simp: next_power_of_two_def)

section \<open>Positions in a ring\<close>

lemma pow2_dvd_32:
  assumes "is_pow2 n" "32 \<le> n"
  shows "32 dvd n"
proof -
  obtain k where k: "n = 2 ^ k" using assms(1) by (auto simp: is_pow2_def)
  have "5 \<le> k"
  proof (rule ccontr)
    assume "\<not> 5 \<le> k"
    then have "n \<le> 2 ^ 4" unfolding k by (intro power_increasing) simp_all
    with assms(2) show False by simp
  qed
  then have "2 ^ 5 dvd n" unfolding k by (rule le_imp_power_dvd)
  then show ?thesis by simp
qed

lemma aligned_room:
  assumes "32 dvd p" "32 dvd n" "0 < n"
  shows "p mod n + 32 \<le> (n :: nat)"
proof -
  have "32 dvd n - p mod n" using assms by (simp add: dvd_mod)
  moreover have "p mod n < n" using assms by simp
  ultimately show ?thesis by (auto dest!: dvd_imp_le)
qed

lemma mod_add_small:
  "m mod n + d < n \<Longrightarrow> (m + d) mod n = m mod n + (d :: nat)"
  by (metis mod_add_left_eq mod_less)

lemma mod_fill:
  assumes "0 < n"
  shows "(m + (n - m mod n)) mod n = (0 :: nat)"
proof -
  have "m mod n < n" using assms by simp
  then have "m + (n - m mod n) = m div n * n + n"
    using div_mult_mod_eq [of m n] by linarith
  then show ?thesis by simp
qed

end
