(* ===== verification/Byte_Codec.thy ===== *)
theory Byte_Codec
  imports Prelude
begin

text \<open>
  The contract of the fixed-width wire records of the repository (message headers, batch
  metadata, request and response headers, endpoint entries): an image of known width and a
  reader that looks at exactly that many bytes.  The clients write images into larger buffers
  and read them back after unrelated writes; those facts are proved once here.
\<close>

locale byte_codec =
  fixes width :: nat
    and image :: "'a \<Rightarrow> bytes"
    and reader :: "bytes \<Rightarrow> nat \<Rightarrow> 'a"
  assumes length_image [simp]: "length (image x) = width"
    and reader_local: "read_at off width buf = read_at off' width buf' \<Longrightarrow>
          width \<le> length (drop off buf) \<Longrightarrow> width \<le> length (drop off' buf') \<Longrightarrow>
          reader buf off = reader buf' off'"
    and reader_image: "reader (image x) 0 = x"
begin

lemma reader_at:
  assumes "read_at off width buf = image x"
  shows "reader buf off = x"
proof -
  have "width \<le> length (drop off buf)"
  proof -
    have "length (read_at off width buf) = width" using assms by simp
    then show ?thesis by (simp add: read_at_def)
  qed
  then have "reader buf off = reader (image x) 0"
    using assms by (intro reader_local) (simp_all add: read_at_all)
  then show ?thesis by (simp add: reader_image)
qed

lemma reader_write:
  "off + width \<le> length buf \<Longrightarrow> reader (write_at off (image x) buf) off = x"
  using read_write_same [of off "image x" buf] by (intro reader_at) simp

lemma reader_write_before:
  "off + width \<le> p \<Longrightarrow> p + length xs \<le> length buf \<Longrightarrow>
     reader (write_at p xs buf) off = reader buf off"
  by (rule reader_local) (simp_all add: read_write_before length_write_at)

lemma reader_write_after:
  "p + length xs \<le> off \<Longrightarrow> off + width \<le> length buf \<Longrightarrow>
     reader (write_at p xs buf) off = reader buf off"
  by (rule reader_local) (simp_all add: read_write_after length_write_at)

lemma image_inject: "image x = image y \<Longrightarrow> x = y"
  using reader_image by metis

end

text \<open>Reading a 32-bit or 64-bit little-endian field.\<close>

definition read_u32 :: "bytes \<Rightarrow> nat \<Rightarrow> u32" where
  "read_u32 buf off = le_word (read_at off 4 buf)"

definition read_u64 :: "bytes \<Rightarrow> nat \<Rightarrow> u64" where
  "read_u64 buf off = le_word (read_at off 8 buf)"

definition read_u16 :: "bytes \<Rightarrow> nat \<Rightarrow> u16" where
  "read_u16 buf off = le_word (read_at off 2 buf)"

text \<open>A field is determined by the enclosing range.\<close>

lemma read_at_sub:
  assumes "read_at off w buf = read_at off' w buf'" "i + n \<le> w"
  shows "read_at (off + i) n buf = read_at (off' + i) n buf'"
  using arg_cong [OF assms(1), of "read_at i n"] assms(2) by (simp add: read_at_read_at)

lemma read_u32_sub:
  "read_at off w buf = read_at off' w buf' \<Longrightarrow> i + 4 \<le> w \<Longrightarrow>
     read_u32 buf (off + i) = read_u32 buf' (off' + i)"
  unfolding read_u32_def by (rule arg_cong [OF read_at_sub])

lemma read_u64_sub:
  "read_at off w buf = read_at off' w buf' \<Longrightarrow> i + 8 \<le> w \<Longrightarrow>
     read_u64 buf (off + i) = read_u64 buf' (off' + i)"
  unfolding read_u64_def by (rule arg_cong [OF read_at_sub])

lemma read_u16_sub:
  "read_at off w buf = read_at off' w buf' \<Longrightarrow> i + 2 \<le> w \<Longrightarrow>
     read_u16 buf (off + i) = read_u16 buf' (off' + i)"
  unfolding read_u16_def by (rule arg_cong [OF read_at_sub])

text \<open>Fields of an image built by concatenation.\<close>

lemma read_u32_here: "read_u32 (le_bytes 4 x @ rest) 0 = x"
  by (simp add: read_u32_def read_at_append_left read_at_all)

lemma read_u64_here: "read_u64 (le_bytes 8 x @ rest) 0 = x"
  by (simp add: read_u64_def read_at_append_left read_at_all)

lemma read_u16_here: "read_u16 (le_bytes 2 x @ rest) 0 = x"
  by (simp add: read_u16_def read_at_append_left read_at_all)

lemma read_u32_skip: "length xs \<le> off \<Longrightarrow> read_u32 (xs @ ys) off = read_u32 ys (off - length xs)"
  by (simp add: read_u32_def read_at_append_right)

lemma read_u64_skip: "length xs \<le> off \<Longrightarrow> read_u64 (xs @ ys) off = read_u64 ys (off - length xs)"
  by (simp add: read_u64_def read_at_append_right)

lemma read_u16_skip: "length xs \<le> off \<Longrightarrow> read_u16 (xs @ ys) off = read_u16 ys (off - length xs)"
  by (simp add: read_u16_def read_at_append_right)

lemmas read_field_simps =
  read_u16_here read_u32_here read_u64_here read_u16_skip read_u32_skip read_u64_skip
  read_u16_here [where rest = "[]", simplified] read_u32_here [where rest = "[]", simplified]
  read_u64_here [where rest = "[]", simplified]

end
