(* ===== verification/Copyrpc_Encoding.thy ===== *)
theory Copyrpc_Encoding
  imports Byte_Codec
begin

text \<open>
  Model of \<^verbatim>\<open>copyrpc/src/encoding.rs\<close>: the immediate value carried by an RDMA write, the
  12-byte message header, the response bit of a call identifier, the padded message size and
  the 32-byte flow-control record.  Integers keep their Rust widths.
\<close>

definition ALIGNMENT :: u64 where "ALIGNMENT = 32"

definition encode_imm :: "u64 \<Rightarrow> u32" where
  "encode_imm delta = ucast (delta div ALIGNMENT)"

definition decode_imm :: "u32 \<Rightarrow> u64" where
  "decode_imm imm = ucast imm * ALIGNMENT"

definition HEADER_SIZE :: nat where "HEADER_SIZE = 12"

definition RESPONSE_FLAG :: u32 where "RESPONSE_FLAG = 0x80000000"

definition WRAP_MESSAGE_COUNT :: u32 where "WRAP_MESSAGE_COUNT = 0xFFFFFFFF"

definition FLOW_METADATA_SIZE :: nat where "FLOW_METADATA_SIZE = 32"

definition header_image :: "u32 \<times> u32 \<times> u32 \<Rightarrow> bytes" where
  "header_image = (\<lambda>(call_id, piggyback, payload_len).
     le_bytes 4 call_id @ le_bytes 4 piggyback @ le_bytes 4 payload_len)"

definition encode_header :: "bytes \<Rightarrow> nat \<Rightarrow> u32 \<Rightarrow> u64 \<Rightarrow> u32 \<Rightarrow> bytes" where
  "encode_header buf off call_id piggyback payload_len =
     write_at off (header_image (call_id, ucast piggyback, payload_len)) buf"

definition decode_header :: "bytes \<Rightarrow> nat \<Rightarrow> u32 \<times> u32 \<times> u32" where
  "decode_header buf off = (read_u32 buf off, read_u32 buf (off + 4), read_u32 buf (off + 8))"

definition is_response :: "u32 \<Rightarrow> bool" where
  "is_response call_id \<longleftrightarrow> call_id AND RESPONSE_FLAG \<noteq> 0"

definition to_response_id :: "u32 \<Rightarrow> u32" where
  "to_response_id call_id = call_id OR RESPONSE_FLAG"

definition from_response_id :: "u32 \<Rightarrow> u32" where
  "from_response_id call_id = call_id AND NOT RESPONSE_FLAG"

definition padded_message_size :: "u32 \<Rightarrow> u64" where
  "padded_message_size payload_len =
     (let total = word_of_nat HEADER_SIZE + ucast payload_len
      in (total + ALIGNMENT - 1) AND NOT (ALIGNMENT - 1))"

definition flow_image :: "u64 \<times> u64 \<times> u32 \<Rightarrow> bytes" where
  "flow_image = (\<lambda>(ring_credit_return, credit_grant, message_count).
     le_bytes 8 ring_credit_return @ le_bytes 8 credit_grant @ le_bytes 4 message_count
       @ replicate 12 0)"

definition encode_flow_metadata :: "bytes \<Rightarrow> nat \<Rightarrow> u64 \<Rightarrow> u64 \<Rightarrow> u32 \<Rightarrow> bytes" where
  "encode_flow_metadata buf off ring_credit_return credit_grant message_count =
     write_at off (flow_image (ring_credit_return, credit_grant, message_count)) buf"

definition decode_flow_metadata :: "bytes \<Rightarrow> nat \<Rightarrow> u64 \<times> u64 \<times> u32" where
  "decode_flow_metadata buf off = (read_u64 buf off, read_u64 buf (off + 8), read_u32 buf (off + 16))"

section \<open>The records are fixed-width codecs\<close>

interpretation hdr: byte_codec HEADER_SIZE header_image decode_header
proof unfold_locales
  fix x :: "u32 \<times> u32 \<times> u32"
  show "length (header_image x) = HEADER_SIZE"
    by (simp add: header_image_def HEADER_SIZE_def split: prod.split)
  show "decode_header (header_image x) 0 = x"
    by (cases x) (simp add: header_image_def decode_header_def read_field_simps)
next
  fix off off' and buf buf' :: bytes
  assume "read_at off HEADER_SIZE buf = read_at off' HEADER_SIZE buf'"
  note sub = read_u32_sub [OF this]
  show "decode_header buf off = decode_header buf' off'"
    using sub [of 0] sub [of 4] sub [of 8] by (simp add: decode_header_def HEADER_SIZE_def)
qed

interpretation flow: byte_codec FLOW_METADATA_SIZE flow_image decode_flow_metadata
proof unfold_locales
  fix x :: "u64 \<times> u64 \<times> u32"
  show "length (flow_image x) = FLOW_METADATA_SIZE"
    by (simp add: flow_image_def FLOW_METADATA_SIZE_def split: prod.split)
  show "decode_flow_metadata (flow_image x) 0 = x"
    by (cases x) (simp add: flow_image_def decode_flow_metadata_def read_field_simps)
next
  fix off off' and buf buf' :: bytes
  assume eq: "read_at off FLOW_METADATA_SIZE buf = read_at off' FLOW_METADATA_SIZE buf'"
  show "decode_flow_metadata buf off = decode_flow_metadata buf' off'"
    using read_u64_sub [OF eq, of 0] read_u64_sub [OF eq, of 8] read_u32_sub [OF eq, of 16]
    by (simp add: decode_flow_metadata_def FLOW_METADATA_SIZE_def)
qed

section \<open>Sizes and identifiers\<close>

lemma unat_align32:
  assumes "unat (w :: u64) + 31 < 2 ^ 64"
  shows "unat ((w + ALIGNMENT - 1) AND NOT (ALIGNMENT - 1)) = (unat w + 31) div 32 * 32"
proof -
  have "unat (w + 31) = unat w + 31"
    using assms by (simp add: unat_word_ariths)
  moreover have "(31 :: u64) = mask 5" by (simp add: mask_eq_exp_minus_1)
  ultimately show ?thesis
    using word_and_not_mask [of "w + 31" 5] by (simp add: ALIGNMENT_def add.commute)
qed

lemma unat_padded_message_size:
  "unat (padded_message_size l) = (unat l + 43) div 32 * 32"
proof -
  have l: "unat l < 2 ^ 32" using unat_u32_lt [of l] by simp
  then have "unat (12 + ucast l :: u64) = 12 + unat l"
    by (simp add: unat_word_ariths)
  with l show ?thesis
    using unat_align32 [of "12 + ucast l"]
    by (simp add: padded_message_size_def HEADER_SIZE_def Let_def add.commute)
qed

lemma padded_message_size_bounds:
  "HEADER_SIZE + unat l \<le> unat (padded_message_size l)"
  "unat (padded_message_size l) < HEADER_SIZE + unat l + 32"
  "32 dvd unat (padded_message_size l)"
  by (simp_all add: unat_padded_message_size HEADER_SIZE_def)

lemma bit_RESPONSE_FLAG: "bit RESPONSE_FLAG n \<longleftrightarrow> n = 31"
proof -
  have "RESPONSE_FLAG = 2 ^ 31" by (simp add: RESPONSE_FLAG_def)
  moreover have "bit ((2 :: u32) ^ 31) n \<longleftrightarrow> n = 31"
    by (subst bit_exp_iff) auto
  ultimately show ?thesis by simp
qed

lemma is_response_bit: "is_response c \<longleftrightarrow> bit c 31"
proof -
  have "bit (c AND RESPONSE_FLAG) n \<longleftrightarrow> n = 31 \<and> bit c 31" for n
    by (auto simp: bit_and_iff bit_RESPONSE_FLAG)
  then have "c AND RESPONSE_FLAG = (if bit c 31 then RESPONSE_FLAG else 0)"
    by (intro bit_word_eqI) (simp add: bit_RESPONSE_FLAG)
  then show ?thesis by (simp add: is_response_def RESPONSE_FLAG_def)
qed

lemma is_response_to_response_id: "is_response (to_response_id c)"
  by (simp add: is_response_bit to_response_id_def bit_or_iff bit_RESPONSE_FLAG)

lemma from_to_response_id:
  assumes "\<not> is_response c"
  shows "from_response_id (to_response_id c) = c"
proof (rule bit_word_eqI)
  fix n assume "n < LENGTH(32)"
  then show "bit (from_response_id (to_response_id c)) n = bit c n"
    using assms
    by (auto simp: is_response_bit from_response_id_def to_response_id_def bit_simps
        bit_RESPONSE_FLAG)
qed

lemma not_is_response_small: "n < 2 ^ 31 \<Longrightarrow> \<not> is_response (word_of_nat n)"
proof -
  assume "n < 2 ^ 31"
  then have "unat (word_of_nat n :: u32) < 2 ^ 31" by (simp add: unat_of_nat)
  then have "\<not> bit (unat (word_of_nat n :: u32)) 31"
    by (simp add: bit_iff_odd)
  then show ?thesis by (simp add: is_response_bit bit_unsigned_iff)
qed

lemma decode_imm_unat: "unat (decode_imm i) = 32 * unat i"
proof -
  have "unat i < 2 ^ 32" using unat_u32_lt [of i] by simp
  then show ?thesis by (simp add: decode_imm_def ALIGNMENT_def unat_word_ariths)
qed

lemma encode_imm_unat:
  assumes "unat d < 2 ^ 37"
  shows "unat (encode_imm d) = unat d div 32"
  using assms by (simp add: encode_imm_def ALIGNMENT_def unsigned_ucast_eq unat_div
      take_bit_nat_eq_self)

section \<open>Properties\<close>

text \<open>
  An aligned offset below 128 GiB survives the trip through the 32-bit immediate value,
  and every immediate value is the encoding of the offset it decodes to.
\<close>
theorem imm_roundtrip:
  "(32 dvd unat d \<longrightarrow> unat d < 2 ^ 37 \<longrightarrow> decode_imm (encode_imm d) = d) \<and>
   encode_imm (decode_imm i) = i"
proof -
  have "decode_imm (encode_imm d) = d" if "32 dvd unat d" "unat d < 2 ^ 37"
    using that by (simp add: word_unat_eq_iff decode_imm_unat encode_imm_unat)
  moreover have "unat (decode_imm i) < 2 ^ 37"
    using unat_u32_lt [of i] by (simp add: decode_imm_unat)
  then have "encode_imm (decode_imm i) = i"
    by (simp add: word_unat_eq_iff encode_imm_unat) (simp add: decode_imm_unat)
  ultimately show ?thesis by blast
qed

theorem imm_roundtrip_witness:
  "decode_imm (encode_imm 4096) = 4096 \<and> encode_imm (decode_imm 7) = 7"
  using imm_roundtrip [of 4096 7] by simp

text \<open>
  The padded size of a message holds its header and payload, wastes less than one
  alignment unit and is a multiple of it, for every payload length a \<^verbatim>\<open>u32\<close> can express.
\<close>
theorem padded_size_tight:
  "HEADER_SIZE + unat l \<le> unat (padded_message_size l) \<and>
   unat (padded_message_size l) < HEADER_SIZE + unat l + unat ALIGNMENT \<and>
   unat ALIGNMENT dvd unat (padded_message_size l)"
  using padded_message_size_bounds [of l] by (simp add: ALIGNMENT_def)

text \<open>
  C14. Writing a message header and a flow-control record at disjoint places of a buffer and
  reading both back yields the values written (the piggyback truncated to 32 bits); a
  request identifier is recovered from the response identifier derived from it.
\<close>
theorem header_flow_roundtrip:
  assumes "p + FLOW_METADATA_SIZE \<le> q" and "q + HEADER_SIZE \<le> length buf"
  shows "let buf1 = encode_flow_metadata buf p ret grant count;
             buf2 = encode_header buf1 q c pb l
         in decode_flow_metadata buf2 p = (ret, grant, count) \<and>
            decode_header buf2 q = (c, ucast pb, l) \<and>
            length buf2 = length buf \<and>
            is_response (to_response_id c) \<and>
            (is_response c \<or> from_response_id (to_response_id c) = c)"
  using assms
  by (simp add: encode_flow_metadata_def encode_header_def Let_def flow.reader_write_before
      flow.reader_write hdr.reader_write length_write_at is_response_to_response_id)
    (use from_to_response_id in blast)

theorem header_flow_roundtrip_witness:
  "decode_header (encode_header (encode_flow_metadata (replicate 64 0) 0 5 64 1) 32 3 2 20) 32
     = (3, 2, 20)"
  using header_flow_roundtrip [of 0 32 "replicate 64 0" 5 64 1 3 2 20]
  by (simp add: Let_def FLOW_METADATA_SIZE_def HEADER_SIZE_def del: replicate.simps)

end
