(* ===== verification/Map_Interface.thy ===== *)
theory Map_Interface
  imports Prelude
begin

text \<open>
  The interface of a keyed container as its clients in the repository use it (the endpoint
  registries of copyrpc look endpoints up by queue pair number or endpoint identifier): the
  locale \<open>keyed_map\<close> states the laws of insertion, removal and lookup against a partial
  function, and derives once that every sequence of operations returns what the same sequence
  returns on that partial function.
\<close>

datatype ('k, 'v) map_op = Insert 'k 'v | Remove 'k

text \<open>The specification machine: a partial function and the value each operation displaces.\<close>

fun spec_map_step :: "('k \<rightharpoonup> 'v) \<Rightarrow> ('k, 'v) map_op \<Rightarrow> 'v option \<times> ('k \<rightharpoonup> 'v)" where
  "spec_map_step m (Insert k v) = (m k, m(k \<mapsto> v))"
| "spec_map_step m (Remove k) = (m k, m(k := None))"

text \<open>Runs any step function over a list of operations, collecting the answers.\<close>

fun run_ops :: "('s \<Rightarrow> 'o \<Rightarrow> 'r \<times> 's) \<Rightarrow> 's \<Rightarrow> 'o list \<Rightarrow> 'r list \<times> 's" where
  "run_ops step s [] = ([], s)"
| "run_ops step s (x # xs) =
     (let (r, s1) = step s x; (rs, s2) = run_ops step s1 xs in (r # rs, s2))"

lemma run_ops_simulation:
  assumes sim: "\<And>s t x. R s t \<Longrightarrow> fst (step s x) = fst (astep t x) \<and> R (snd (step s x)) (snd (astep t x))"
    and "R s t"
  shows "fst (run_ops step s xs) = fst (run_ops astep t xs) \<and>
         R (snd (run_ops step s xs)) (snd (run_ops astep t xs))"
  using assms(2)
proof (induction xs arbitrary: s t)
  case Nil
  then show ?case by simp
next
  case (Cons x xs)
  have "fst (step s x) = fst (astep t x)" and "R (snd (step s x)) (snd (astep t x))"
    using sim [OF Cons.prems] by blast+
  with Cons.IH [of "snd (step s x)" "snd (astep t x)"] show ?case
    by (simp add: split_beta Let_def)
qed

lemma run_ops_invariant:
  assumes "\<And>s x. I s \<Longrightarrow> I (snd (step s x))" and "I s"
  shows "I (snd (run_ops step s xs))"
  using assms(2)
proof (induction xs arbitrary: s)
  case Nil
  then show ?case by simp
next
  case (Cons x xs)
  then show ?case using assms(1) [of s x] by (simp add: split_beta Let_def)
qed

locale keyed_map =
  fixes empty :: 'm
    and lookup :: "'m \<Rightarrow> 'k \<Rightarrow> 'v option"
    and put :: "'m \<Rightarrow> 'k \<Rightarrow> 'v \<Rightarrow> 'v option \<times> 'm"
    and del :: "'m \<Rightarrow> 'k \<Rightarrow> 'v option \<times> 'm"
    and invar :: "'m \<Rightarrow> bool"
  assumes lookup_empty: "lookup empty = Map.empty"
    and invar_empty: "invar empty"
    and put_old: "invar m \<Longrightarrow> fst (put m k v) = lookup m k"
    and lookup_put: "invar m \<Longrightarrow> lookup (snd (put m k v)) = (lookup m)(k \<mapsto> v)"
    and invar_put: "invar m \<Longrightarrow> invar (snd (put m k v))"
    and del_old: "invar m \<Longrightarrow> fst (del m k) = lookup m k"
    and lookup_del: "invar m \<Longrightarrow> lookup (snd (del m k)) = (lookup m)(k := None)"
    and invar_del: "invar m \<Longrightarrow> invar (snd (del m k))"
begin

fun map_step :: "'m \<Rightarrow> ('k, 'v) map_op \<Rightarrow> 'v option \<times> 'm" where
  "map_step m (Insert k v) = put m k v"
| "map_step m (Remove k) = del m k"

lemma map_step_simulates:
  assumes "invar m"
  shows "fst (map_step m x) = fst (spec_map_step (lookup m) x)"
    and "lookup (snd (map_step m x)) = snd (spec_map_step (lookup m) x)"
    and "invar (snd (map_step m x))"
  using assms by (cases x; simp add: put_old lookup_put invar_put del_old lookup_del invar_del)+

theorem run_refines:
  "fst (run_ops map_step empty xs) = fst (run_ops spec_map_step Map.empty xs)"
  "lookup (snd (run_ops map_step empty xs)) = snd (run_ops spec_map_step Map.empty xs)"
  "invar (snd (run_ops map_step empty xs))"
proof -
  let ?R = "\<lambda>m a. invar m \<and> lookup m = a"
  have "fst (run_ops map_step empty xs) = fst (run_ops spec_map_step Map.empty xs) \<and>
        ?R (snd (run_ops map_step empty xs)) (snd (run_ops spec_map_step Map.empty xs))"
    by (rule run_ops_simulation) (use map_step_simulates lookup_empty invar_empty in auto)
  then show "fst (run_ops map_step empty xs) = fst (run_ops spec_map_step Map.empty xs)"
    and "lookup (snd (run_ops map_step empty xs)) = snd (run_ops spec_map_step Map.empty xs)"
    and "invar (snd (run_ops map_step empty xs))"
    by blast+
qed

end

end
