(* ===== verification/Copyrpc_Ring.thy ===== *)
theory Copyrpc_Ring
  imports Copyrpc_Encoding Map_Interface
begin

text \<open>
  Model of \<^verbatim>\<open>copyrpc/src/ring.rs\<close>: the position bookkeeping of a single-producer
  single-consumer ring, the ring with its backing memory, and the address arithmetic for the
  peer's ring.  Positions are \<^verbatim>\<open>u64\<close> values with the wrapping arithmetic of a release build;
  slice indexing out of bounds is \<open>None\<close> (a panic).
\<close>

record ring_state =
  rs_producer :: u64
  rs_consumer :: u64
  rs_size :: u64

definition rs_new :: "u64 \<Rightarrow> ring_state" where
  "rs_new sz = \<lparr>rs_producer = 0, rs_consumer = 0, rs_size = sz\<rparr>"

definition available_write :: "ring_state \<Rightarrow> u64" where
  "available_write s = rs_size s - (rs_producer s - rs_consumer s)"

definition available_read :: "ring_state \<Rightarrow> u64" where
  "available_read s = rs_producer s - rs_consumer s"

definition rs_can_write :: "ring_state \<Rightarrow> u64 \<Rightarrow> bool" where
  "rs_can_write s n \<longleftrightarrow> n \<le> available_write s"

definition rs_advance_producer :: "ring_state \<Rightarrow> u64 \<Rightarrow> ring_state" where
  "rs_advance_producer s delta = s\<lparr>rs_producer := rs_producer s + delta\<rparr>"

definition rs_advance_consumer :: "ring_state \<Rightarrow> u64 \<Rightarrow> ring_state" where
  "rs_advance_consumer s delta = s\<lparr>rs_consumer := rs_consumer s + delta\<rparr>"

definition rs_update_consumer :: "ring_state \<Rightarrow> u64 \<Rightarrow> ring_state" where
  "rs_update_consumer s new_consumer =
     (if rs_consumer s < new_consumer then s\<lparr>rs_consumer := new_consumer\<rparr> else s)"

definition to_offset :: "ring_state \<Rightarrow> u64 \<Rightarrow> nat" where
  "to_offset s pos = unat (pos AND (rs_size s - 1))"

definition check_wrap :: "ring_state \<Rightarrow> u64 \<Rightarrow> nat \<times> bool" where
  "check_wrap s n =
     (let start = to_offset s (rs_producer s); stop = start + unat n
      in (start, unat (rs_size s) < stop))"

record ring_buffer =
  rb_buf :: bytes
  rb_state :: ring_state

definition rb_new :: "nat \<Rightarrow> ring_buffer" where
  "rb_new sz =
     (let n = next_power_of_two sz
      in \<lparr>rb_buf = replicate n 0, rb_state = rs_new (word_of_nat n)\<rparr>)"

definition rb_can_write :: "ring_buffer \<Rightarrow> u32 \<Rightarrow> bool" where
  "rb_can_write r payload_len = rs_can_write (rb_state r) (padded_message_size payload_len)"

definition slice_at :: "ring_buffer \<Rightarrow> u64 \<Rightarrow> nat \<Rightarrow> bytes option" where
  "slice_at r pos n =
     (let offset = to_offset (rb_state r) pos
      in if offset + n \<le> length (rb_buf r) then Some (read_at offset n (rb_buf r)) else None)"

definition rb_write :: "ring_buffer \<Rightarrow> bytes \<Rightarrow> (u64 \<times> ring_buffer) option" where
  "rb_write r data =
     (let pos = rs_producer (rb_state r);
          offset = to_offset (rb_state r) pos;
          stop = offset + length data;
          n = length (rb_buf r)
      in if stop \<le> n then Some (pos, r\<lparr>rb_buf := write_at offset data (rb_buf r)\<rparr>)
         else if n < offset then None
         else let first_len = n - offset;
                  b1 = write_at offset (take first_len data) (rb_buf r)
              in if n < length data - first_len then None
                 else Some (pos, r\<lparr>rb_buf := write_at 0 (drop first_len data) b1\<rparr>))"

definition rb_advance_producer :: "ring_buffer \<Rightarrow> u64 \<Rightarrow> ring_buffer" where
  "rb_advance_producer r delta = r\<lparr>rb_state := rs_advance_producer (rb_state r) delta\<rparr>"

definition rb_advance_consumer :: "ring_buffer \<Rightarrow> u64 \<Rightarrow> ring_buffer" where
  "rb_advance_consumer r delta = r\<lparr>rb_state := rs_advance_consumer (rb_state r) delta\<rparr>"

definition rb_update_consumer :: "ring_buffer \<Rightarrow> u64 \<Rightarrow> ring_buffer" where
  "rb_update_consumer r new_consumer = r\<lparr>rb_state := rs_update_consumer (rb_state r) new_consumer\<rparr>"

record remote_ring_info =
  ri_addr :: u64
  ri_rkey :: u32
  ri_size :: u64

definition remote_addr :: "remote_ring_info \<Rightarrow> u64 \<Rightarrow> u64" where
  "remote_addr ri pos = ri_addr ri + (pos AND (ri_size ri - 1))"

section \<open>Invariant of the positions\<close>

text \<open>The consumer is never ahead and never more than a ring behind, modulo \<^verbatim>\<open>u64\<close>.\<close>

definition ring_ok :: "ring_state \<Rightarrow> bool" where
  "ring_ok s \<longleftrightarrow> rs_producer s - rs_consumer s \<le> rs_size s"

datatype ring_op = Produce u64 | Consume u64

text \<open>The guarded operations a client performs: produce what fits, consume what is there.\<close>

fun ring_step :: "ring_state \<Rightarrow> ring_op \<Rightarrow> bool \<times> ring_state" where
  "ring_step s (Produce n) =
     (if rs_can_write s n then (True, rs_advance_producer s n) else (False, s))"
| "ring_step s (Consume n) =
     (if n \<le> available_read s then (True, rs_advance_consumer s n) else (False, s))"

text \<open>Bounded counter: what the ring promises its two users.\<close>

fun spec_ring_step :: "nat \<Rightarrow> nat \<Rightarrow> ring_op \<Rightarrow> bool \<times> nat" where
  "spec_ring_step cap used (Produce n) =
     (if used + unat n \<le> cap then (True, used + unat n) else (False, used))"
| "spec_ring_step cap used (Consume n) =
     (if unat n \<le> used then (True, used - unat n) else (False, used))"

lemma ring_ok_alt: "ring_ok s \<longleftrightarrow> unat (available_read s) \<le> unat (rs_size s)"
  by (simp add: ring_ok_def available_read_def word_le_nat_alt)

lemma available_read_write:
  assumes "ring_ok s"
  shows "unat (available_write s) + unat (available_read s) = unat (rs_size s)"
  using assms by (simp add: ring_ok_def available_write_def available_read_def unat_sub word_le_nat_alt)

lemma available_read_advance:
  "available_read (rs_advance_producer s n) = available_read s + n"
  "available_read (rs_advance_consumer s n) = available_read s - n"
  "rs_size (rs_advance_producer s n) = rs_size s"
  "rs_size (rs_advance_consumer s n) = rs_size s"
  by (simp_all add: available_read_def rs_advance_producer_def rs_advance_consumer_def)

lemma can_write_iff:
  assumes "ring_ok s"
  shows "rs_can_write s n \<longleftrightarrow> unat (available_read s) + unat n \<le> unat (rs_size s)"
  using available_read_write [OF assms] by (auto simp: rs_can_write_def word_le_nat_alt)

lemma unat_add_fits:
  "unat (a :: u64) + unat b \<le> unat (c :: u64) \<Longrightarrow> unat (a + b) = unat a + unat b"
  using unat_u64_lt [of c] by (simp add: unat_word_ariths)

lemma ring_step_sim:
  assumes "ring_ok s"
  shows "fst (ring_step s x) = fst (spec_ring_step (unat (rs_size s)) (unat (available_read s)) x)"
    and "unat (available_read (snd (ring_step s x))) =
         snd (spec_ring_step (unat (rs_size s)) (unat (available_read s)) x)"
    and "ring_ok (snd (ring_step s x))"
    and "rs_size (snd (ring_step s x)) = rs_size s"
proof -
  note facts = can_write_iff [OF assms] available_read_advance unat_add_fits
  have used: "unat (available_read s) \<le> unat (rs_size s)" using assms by (simp add: ring_ok_alt)
  show "fst (ring_step s x) = fst (spec_ring_step (unat (rs_size s)) (unat (available_read s)) x)"
    by (cases x) (simp_all add: facts word_le_nat_alt)
  show "unat (available_read (snd (ring_step s x))) =
         snd (spec_ring_step (unat (rs_size s)) (unat (available_read s)) x)"
    by (cases x) (simp_all add: facts unat_sub word_le_nat_alt)
  show "ring_ok (snd (ring_step s x))"
    using used by (cases x) (auto simp: facts ring_ok_alt unat_sub word_le_nat_alt)
  show "rs_size (snd (ring_step s x)) = rs_size s"
    by (cases x) (simp_all add: facts)
qed

section \<open>Offsets and writes\<close>

lemma to_offset_mod:
  assumes "unat (rs_size s) = 2 ^ k"
  shows "to_offset s pos = unat pos mod unat (rs_size s)"
proof -
  have "rs_size s = word_of_nat (unat (rs_size s))" by simp
  then have "rs_size s = 2 ^ k" unfolding assms by simp
  then have "rs_size s - 1 = mask k" by (simp add: mask_eq_exp_minus_1)
  then have "to_offset s pos = unat (take_bit k pos)"
    by (simp only: to_offset_def take_bit_eq_mask)
  then show ?thesis
    by (simp only: assms unsigned_take_bit_eq) (simp add: take_bit_eq_mod)
qed

text \<open>A ring and its memory agree on the size, a power of two.\<close>

definition rb_ok :: "ring_buffer \<Rightarrow> bool" where
  "rb_ok r \<longleftrightarrow> is_pow2 (length (rb_buf r)) \<and> unat (rs_size (rb_state r)) = length (rb_buf r)"

lemma rb_ok_offset:
  assumes "rb_ok r"
  shows "to_offset (rb_state r) pos = unat pos mod length (rb_buf r)"
    and "0 < length (rb_buf r)"
  using assms to_offset_mod [of "rb_state r"] is_pow2_pos
  by (auto simp: rb_ok_def is_pow2_def)

lemma nth_rb_write:
  assumes "rb_ok r" "length data \<le> length (rb_buf r)"
  obtains r' where "rb_write r data = Some (rs_producer (rb_state r), r')"
    "rb_state r' = rb_state r" "length (rb_buf r') = length (rb_buf r)"
    "\<And>i. i < length data \<Longrightarrow>
       rb_buf r' ! ((unat (rs_producer (rb_state r)) + i) mod length (rb_buf r)) = data ! i"
    "\<And>j. j < length (rb_buf r) \<Longrightarrow>
       (\<forall>i<length data. (unat (rs_producer (rb_state r)) + i) mod length (rb_buf r) \<noteq> j) \<Longrightarrow>
       rb_buf r' ! j = rb_buf r ! j"
proof -
  let ?n = "length (rb_buf r)" and ?p = "unat (rs_producer (rb_state r))"
  let ?o = "?p mod ?n"
  note off = rb_ok_offset [OF assms(1)]
  have o: "?o < ?n" using off(2) by simp
  have wrapped: "(?p + i) mod ?n = (if ?o + i < ?n then ?o + i else ?o + i - ?n)"
    if "i < length data" for i
  proof -
    have "(?p + i) mod ?n = (?o + i) mod ?n" by (simp add: mod_add_left_eq)
    also have "\<dots> = (if ?o + i < ?n then ?o + i else ?o + i - ?n)"
      using that o assms(2) by (simp add: le_mod_geq)
    finally show ?thesis .
  qed
  show ?thesis
  proof (cases "?o + length data \<le> ?n")
    case True
    let ?b = "write_at ?o data (rb_buf r)"
    show ?thesis
    proof (rule that [of "r\<lparr>rb_buf := ?b\<rparr>"])
      show "rb_write r data = Some (rs_producer (rb_state r), r\<lparr>rb_buf := ?b\<rparr>)"
        using True by (simp add: rb_write_def off Let_def)
      show "rb_buf (r\<lparr>rb_buf := ?b\<rparr>) ! ((?p + i) mod ?n) = data ! i" if "i < length data" for i
        using True that wrapped [OF that] by (simp add: nth_write_at)
      show "rb_buf (r\<lparr>rb_buf := ?b\<rparr>) ! j = rb_buf r ! j"
        if "j < ?n" "\<forall>i<length data. (?p + i) mod ?n \<noteq> j" for j
      proof -
        have "\<not> (?o \<le> j \<and> j < ?o + length data)"
        proof
          assume h: "?o \<le> j \<and> j < ?o + length data"
          then have i: "j - ?o < length data" by linarith
          with h that wrapped [OF i] show False by (metis le_add_diff_inverse)
        qed
        with True that(1) show ?thesis by (auto simp: nth_write_at)
      qed
    qed (use True in \<open>simp_all add: length_write_at\<close>)
  next
    case False
    let ?f = "?n - ?o"
    let ?b1 = "write_at ?o (take ?f data) (rb_buf r)"
    let ?b = "write_at 0 (drop ?f data) ?b1"
    have f: "?f < length data" using False o by simp
    have l1: "length ?b1 = ?n" using f o by (simp add: length_write_at)
    have l2: "length (drop ?f data) \<le> ?o" using assms(2) o by simp
    have nth: "?b ! j = (if j < length data - ?f then data ! (?f + j)
                         else if ?o \<le> j then data ! (j - ?o) else rb_buf r ! j)"
      if "j < ?n" for j
      using that f o l1 l2 by (auto simp: nth_write_at)
    show ?thesis
    proof (rule that [of "r\<lparr>rb_buf := ?b\<rparr>"])
      show "rb_write r data = Some (rs_producer (rb_state r), r\<lparr>rb_buf := ?b\<rparr>)"
        using False o l2 by (simp add: rb_write_def off Let_def)
      show "length (rb_buf (r\<lparr>rb_buf := ?b\<rparr>)) = ?n"
        using l1 l2 o by (simp add: length_write_at)
      show "rb_buf (r\<lparr>rb_buf := ?b\<rparr>) ! ((?p + i) mod ?n) = data ! i" if "i < length data" for i
        using that wrapped [OF that] nth [of "(?p + i) mod ?n"] o l2 by (auto split: if_splits)
      show "rb_buf (r\<lparr>rb_buf := ?b\<rparr>) ! j = rb_buf r ! j"
        if "j < ?n" "\<forall>i<length data. (?p + i) mod ?n \<noteq> j" for j
      proof -
        have "\<not> ?o \<le> j"
        proof
          assume h: "?o \<le> j"
          with f that(1) have i: "j - ?o < length data" by linarith
          with h that wrapped [OF i] show False by (metis le_add_diff_inverse)
        qed
        moreover have "\<not> j < length data - ?f"
        proof
          assume "j < length data - ?f"
          then have i: "?f + j < length data" by linarith
          have "?o + (?f + j) = ?n + j" using o by linarith
          then have "(?p + (?f + j)) mod ?n = j" unfolding wrapped [OF i] by simp
          with that(2) i show False by blast
        qed
        ultimately show ?thesis using nth [OF that(1)] by simp
      qed
    qed simp
  qed
qed

section \<open>Properties\<close>

text \<open>
  Under any interleaving of guarded produce and consume operations on a fresh ring of any
  size, even after the 64-bit positions wrap around, every operation is accepted exactly when
  a bounded counter accepts it, and readable plus writable bytes always add up to the size.
\<close>
theorem ring_positions_bounded:
  "let (oks, s) = run_ops ring_step (rs_new sz) xs;
       (oks', used) = run_ops (spec_ring_step (unat sz)) 0 xs
   in oks = oks' \<and> unat (available_read s) = used \<and>
      unat (available_write s) = unat sz - used \<and> used \<le> unat sz"
proof -
  let ?R = "\<lambda>s used. ring_ok s \<and> rs_size s = sz \<and> unat (available_read s) = used"
  define f where "f = run_ops ring_step (rs_new sz) xs"
  define g where "g = run_ops (spec_ring_step (unat sz)) 0 xs"
  have "fst f = fst g \<and> ?R (snd f) (snd g)"
    unfolding f_def g_def
  proof (rule run_ops_simulation [where R = ?R])
    fix s used x
    assume R: "?R s used"
    then show "fst (ring_step s x) = fst (spec_ring_step (unat sz) used x) \<and>
        ?R (snd (ring_step s x)) (snd (spec_ring_step (unat sz) used x))"
      using ring_step_sim [of s x] by simp
  next
    show "?R (rs_new sz) 0" by (simp add: rs_new_def ring_ok_def available_read_def)
  qed
  moreover from this have "unat (available_write (snd f)) + unat (available_read (snd f)) = unat sz"
    using available_read_write [of "snd f"] by simp
  ultimately show ?thesis
    unfolding f_def [symmetric] g_def [symmetric] split_beta Let_def by linarith
qed

text \<open>
  A write of at most one ring's worth of data never panics, stores byte \<open>i\<close> at offset
  \<open>(producer + i) mod size\<close> also when it wraps around the end of the buffer, and changes no
  other byte.
\<close>
theorem rb_write_bytes:
  assumes "rb_ok r" and "length data \<le> length (rb_buf r)"
  shows "\<exists>r'. rb_write r data = Some (rs_producer (rb_state r), r') \<and> rb_state r' = rb_state r \<and>
     length (rb_buf r') = length (rb_buf r) \<and>
     (\<forall>i<length data.
        rb_buf r' ! ((unat (rs_producer (rb_state r)) + i) mod length (rb_buf r)) = data ! i) \<and>
     (\<forall>j<length (rb_buf r).
        (\<forall>i<length data. (unat (rs_producer (rb_state r)) + i) mod length (rb_buf r) \<noteq> j) \<longrightarrow>
        rb_buf r' ! j = rb_buf r ! j)"
  using nth_rb_write [OF assms] by metis

theorem rb_write_bytes_witness:
  "\<exists>r'. rb_write ((rb_new 4)\<lparr>rb_state := (rs_new 4)\<lparr>rs_producer := 3\<rparr>\<rparr>) [7, 8] = Some (3, r') \<and>
     rb_buf r' ! 0 = 8"
proof -
  let ?r = "(rb_new 4)\<lparr>rb_state := (rs_new 4)\<lparr>rs_producer := 3\<rparr>\<rparr>"
  have len: "length (rb_buf ?r) = 4"
    by (simp add: rb_new_def next_power_of_two_def next_pow2_from.simps Let_def)
  have "is_pow2 4" unfolding is_pow2_def by (rule exI [of _ 2]) simp
  then have ok: "rb_ok ?r" using len by (simp add: rb_ok_def rs_new_def)
  have small: "length [7 :: u8, 8] \<le> length (rb_buf ?r)" using len by simp
  obtain r' where "rb_write ?r [7, 8] = Some (3, r')"
      and at: "\<forall>i<length [7 :: u8, 8]. rb_buf r' ! ((unat (3 :: u64) + i) mod 4) = [7, 8] ! i"
    using rb_write_bytes [OF ok small] unfolding len by (auto simp: rs_new_def)
  moreover have "rb_buf r' ! 0 = 8" using at [rule_format, of 1] by simp
  ultimately show ?thesis by blast
qed

end
