(* ===== verification/Outcome.thy ===== *)
theory Outcome
  imports Prelude
begin

text \<open>
  The result of a fallible operation: a value, an error or no result at all, together with the
  chaining of operations that may fail, and the answers of the device's send queues.
\<close>

text \<open>
  \<open>Panic\<close> stands for a Rust panic and for an access outside an allocation made through a raw
  pointer: in both cases the source gives no result.
\<close>

datatype ('a, 'e) outcome = Ok 'a | Err 'e | Panic

text \<open>
  Operations return an outcome and the state they leave behind, also when they fail.
  \<open>and_then r f\<close> is the \<^verbatim>\<open>?\<close> operator: an error or a panic of \<open>r\<close> ends the operation with the
  state reached so far.
\<close>

definition and_then ::
  "('a, 'e) outcome \<times> 's \<Rightarrow> ('a \<Rightarrow> 's \<Rightarrow> ('b, 'e) outcome \<times> 's) \<Rightarrow> ('b, 'e) outcome \<times> 's" where
  "and_then r f =
     (case fst r of Ok a \<Rightarrow> f a (snd r) | Err e \<Rightarrow> (Err e, snd r) | Panic \<Rightarrow> (Panic, snd r))"

definition map_err :: "('e \<Rightarrow> 'f) \<Rightarrow> ('a, 'e) outcome \<times> 's \<Rightarrow> ('a, 'f) outcome \<times> 's" where
  "map_err f r =
     (case fst r of Ok a \<Rightarrow> Ok a | Err e \<Rightarrow> Err (f e) | Panic \<Rightarrow> Panic, snd r)"

named_theorems outcome_simps \<open>evaluating a chain of fallible operations\<close>

lemma and_then_simps [outcome_simps]:
  "and_then (Ok a, s) f = f a s"
  "and_then (Err e, s) f = (Err e, s)"
  "and_then (Panic, s) f = (Panic, s)"
  "map_err g (Ok a, s) = (Ok a, s)"
  "map_err g (Err e, s) = (Err (g e), s)"
  "map_err g (Panic, s) = (Panic, s)"
  by (simp_all add: and_then_def map_err_def)

lemma snd_map_err [simp]: "snd (map_err f r) = snd r"
  by (simp add: map_err_def)

lemma fst_map_err_Ok [simp]: "fst (map_err f r) = Ok a \<longleftrightarrow> fst r = Ok a"
  by (simp add: map_err_def split: outcome.splits)

lemma fst_map_err_Panic [simp]: "fst (map_err f r) = Panic \<longleftrightarrow> fst r = Panic"
  by (simp add: map_err_def split: outcome.splits)

text \<open>A state predicate and the absence of panics go through a chain step by step.\<close>

lemma and_then_state:
  assumes "P (snd r)" and "\<And>a. fst r = Ok a \<Longrightarrow> P (snd (f a (snd r)))"
  shows "P (snd (and_then r f))"
  using assms by (cases r; cases "fst r") (auto simp: outcome_simps)

lemma and_then_not_Panic:
  assumes "fst r \<noteq> Panic" and "\<And>a. fst r = Ok a \<Longrightarrow> fst (f a (snd r)) \<noteq> Panic"
  shows "fst (and_then r f) \<noteq> Panic"
  using assms by (cases r; cases "fst r") (auto simp: outcome_simps)

lemma and_then_Ok:
  "fst (and_then r f) = Ok b \<longleftrightarrow> (\<exists>a. fst r = Ok a \<and> fst (f a (snd r)) = Ok b)"
  by (cases r; cases "fst r") (auto simp: outcome_simps)

lemma and_then_Ok_eq:
  "fst r = Ok a \<Longrightarrow> and_then r f = f a (snd r)"
  by (cases r) (auto simp: outcome_simps)

text \<open>
  Posting a work request to the send queue is done by the \<^verbatim>\<open>mlx5\<close> crate; its clients see
  only whether it was accepted.  The model takes the answers as a parameter: for the
  \<open>n\<close>-th attempt on a queue, \<open>None\<close> when the request was accepted, or the reason it was not.
\<close>

datatype submit_error = EmitCtxError | SqFull | OtherSubmitError

type_synonym submit_oracle = "nat \<Rightarrow> submit_error option"

end
