(* ===== verification/Copyrpc_Framing.thy ===== *)
theory Copyrpc_Framing
  imports Copyrpc_Encoding Outcome
begin

text \<open>
  What the reliable-connection and the dynamically-connected transport of copyrpc share: the
  error enumerations of \<^verbatim>\<open>copyrpc/src/error.rs\<close>, the posted work requests, and the
  layout of a batch, a run of frames that each hold a header, a payload and padding.  The
  locale \<open>framing\<close> proves what both transports need of that layout: a frame appended behind a
  batch is parsed back, and parsing looks at nothing outside the batch.
\<close>

section \<open>Errors and work requests\<close>

datatype rpc_error =
    Io
  | RingFull
  | RemoteConsumerUnknown
  | CallIdNotFound u32
  | InvalidHeader
  | EndpointNotFound u32

datatype 'u call_error =
    CallRingFull 'u
  | InsufficientCredit 'u
  | Other rpc_error

fun into_inner :: "'u call_error \<Rightarrow> 'u option" where
  "into_inner (CallRingFull u) = Some u"
| "into_inner (InsufficientCredit u) = Some u"
| "into_inner (Other e) = None"

text \<open>
  A posted RDMA WRITE with immediate.  Inline bytes are copied into the request when it is
  posted; a gather entry names an offset and a length inside the send ring, which the device
  reads later.
\<close>

record wqe =
  w_remote_addr :: nat
  w_rkey :: u32
  w_imm :: u32
  w_inline :: bytes
  w_sge :: "(nat \<times> nat) option"
  w_signaled :: bool

definition gather :: "bytes \<Rightarrow> wqe \<Rightarrow> bytes" where
  "gather send_ring w =
     w_inline w @ (case w_sge w of None \<Rightarrow> [] | Some (off, n) \<Rightarrow> read_at off n send_ring)"

text \<open>The device places the gathered bytes at the remote address, \<open>base\<close> being the ring's address.\<close>

definition rdma_place :: "nat \<Rightarrow> bytes \<Rightarrow> wqe \<Rightarrow> bytes \<Rightarrow> bytes" where
  "rdma_place base send_ring w remote_ring =
     write_at (w_remote_addr w - base) (gather send_ring w) remote_ring"

section \<open>Frames\<close>

fun parse_frames ::
  "(bytes \<Rightarrow> nat \<Rightarrow> 'h) \<Rightarrow> ('h \<Rightarrow> u32) \<Rightarrow> (u32 \<Rightarrow> u64) \<Rightarrow> nat \<Rightarrow> nat \<Rightarrow> bytes \<Rightarrow> nat \<Rightarrow> ('h \<times> bytes) list"
where
  "parse_frames reader plen psize hsize 0 buf off = []"
| "parse_frames reader plen psize hsize (Suc n) buf off =
     (let h = reader buf off
      in (h, read_at (off + hsize) (unat (plen h)) buf)
         # parse_frames reader plen psize hsize n buf (off + unat (psize (plen h))))"

text \<open>Bytes a list of parsed frames occupies.\<close>

definition frames_span :: "('h \<Rightarrow> u32) \<Rightarrow> (u32 \<Rightarrow> u64) \<Rightarrow> ('h \<times> bytes) list \<Rightarrow> nat" where
  "frames_span plen psize fs = sum_list (map (\<lambda>(h, _). unat (psize (plen h))) fs)"

lemma frames_span_simps [simp]:
  "frames_span plen psize [] = 0"
  "frames_span plen psize ((h, d) # fs) = unat (psize (plen h)) + frames_span plen psize fs"
  "frames_span plen psize (fs @ gs) = frames_span plen psize fs + frames_span plen psize gs"
  by (simp_all add: frames_span_def)

lemma length_parse_frames [simp]: "length (parse_frames reader plen psize hsize n buf off) = n"
  by (induction n arbitrary: off) (simp_all add: Let_def)

locale framing = byte_codec hsize image reader
  for hsize :: nat and image :: "'h \<Rightarrow> bytes" and reader :: "bytes \<Rightarrow> nat \<Rightarrow> 'h" +
  fixes plen :: "'h \<Rightarrow> u32"
    and psize :: "u32 \<Rightarrow> u64"
  assumes psize_ge: "hsize + unat l \<le> unat (psize l)"
begin

abbreviation parse :: "nat \<Rightarrow> bytes \<Rightarrow> nat \<Rightarrow> ('h \<times> bytes) list" where
  "parse \<equiv> parse_frames reader plen psize hsize"

abbreviation span :: "('h \<times> bytes) list \<Rightarrow> nat" where
  "span \<equiv> frames_span plen psize"

lemma parse_local:
  assumes "read_at off m buf = read_at off' m buf'"
    and "off + m \<le> length buf" "off' + m \<le> length buf'"
    and "span (parse n buf off) \<le> m"
  shows "parse n buf' off' = parse n buf off"
  using assms
proof (induction n arbitrary: off off' m)
  case 0
  then show ?case by simp
next
  case (Suc n)
  let ?h = "reader buf off"
  let ?k = "unat (psize (plen ?h))"
  have m: "?k + span (parse n buf (off + ?k)) \<le> m"
    using Suc.prems(4) by (simp add: Let_def)
  have hs: "hsize + unat (plen ?h) \<le> ?k" by (rule psize_ge)
  have "read_at off hsize buf = read_at off' hsize buf'"
    using read_at_sub [OF Suc.prems(1), of 0 hsize] hs m by simp
  then have h: "reader buf' off' = ?h"
    using Suc.prems(2,3) hs m by (intro reader_local) simp_all
  have payload: "read_at (off' + hsize) (unat (plen ?h)) buf' = read_at (off + hsize) (unat (plen ?h)) buf"
    using read_at_sub [OF Suc.prems(1), of hsize "unat (plen ?h)"] hs m by simp
  have "parse n buf' (off' + ?k) = parse n buf (off + ?k)"
  proof (rule Suc.IH [where m = "m - ?k"])
    show "read_at (off + ?k) (m - ?k) buf = read_at (off' + ?k) (m - ?k) buf'"
      using m by (intro read_at_sub [OF Suc.prems(1)]) simp
  qed (use Suc.prems m in simp_all)
  then show ?case using h payload by (simp add: Let_def)
qed

lemma parse_snoc:
  "parse (Suc n) buf off =
     parse n buf off @ [(let p = off + span (parse n buf off); h = reader buf p
                         in (h, read_at (p + hsize) (unat (plen h)) buf))]"
proof (induction n arbitrary: off)
  case 0
  then show ?case by (simp add: Let_def)
next
  case (Suc n)
  let ?k = "unat (psize (plen (reader buf off)))"
  have "parse (Suc (Suc n)) buf off =
      (reader buf off, read_at (off + hsize) (unat (plen (reader buf off))) buf)
      # parse (Suc n) buf (off + ?k)"
    by (simp add: Let_def)
  then show ?case unfolding Suc.IH [of "off + ?k"] by (simp add: Let_def add.assoc)
qed

text \<open>
  Writing a header and its payload right behind the batch appends exactly that frame and
  leaves the earlier ones as they are.
\<close>

lemma parse_append_frame:
  assumes fit: "off + span (parse n buf off) + hsize + length data \<le> length buf"
    and len: "unat (plen h) = length data"
  defines "p \<equiv> off + span (parse n buf off)"
  shows "parse (Suc n) (write_at (p + hsize) data (write_at p (image h) buf)) off =
         parse n buf off @ [(h, data)]"
proof -
  let ?b1 = "write_at p (image h) buf"
  let ?b2 = "write_at (p + hsize) data ?b1"
  have l1: "length ?b1 = length buf" using fit by (simp add: p_def length_write_at)
  have l2: "length ?b2 = length buf" using fit l1 by (simp add: p_def length_write_at)
  have before: "read_at off (p - off) buf = read_at off (p - off) ?b2"
    using fit l1 by (simp add: p_def read_write_before)
  have old: "parse n ?b2 off = parse n buf off"
    using before fit l2 by (intro parse_local [where m = "p - off"]) (simp_all add: p_def)
  have "reader ?b2 p = reader ?b1 p"
    using fit l1 by (intro reader_write_before) (simp_all add: p_def)
  also have "\<dots> = h" using fit by (intro reader_write) (simp add: p_def)
  finally have h: "reader ?b2 p = h" .
  have data: "read_at (p + hsize) (unat (plen h)) ?b2 = data"
    using read_write_same [of "p + hsize" data ?b1] fit l1 len by (simp add: p_def)
  show ?thesis
    unfolding parse_snoc [of n] old using h data by (simp add: Let_def p_def)
qed

end

section \<open>The frames of the reliable connection transport\<close>

definition rc_plen :: "u32 \<times> u32 \<times> u32 \<Rightarrow> u32" where
  "rc_plen h = snd (snd h)"

interpretation rcf: framing HEADER_SIZE header_image decode_header rc_plen padded_message_size
  by unfold_locales (rule padded_message_size_bounds(1))

end
