(* ===== verification/FastMap.thy ===== *)
theory FastMap
  imports Map_Interface
begin

text \<open>
  Model of \<^verbatim>\<open>fastmap/src/lib.rs\<close>: a vector of optional values indexed by the key's distance
  from a fm_base key.  Keys are 32-bit words; comparisons and subtractions on them are those of
  \<^verbatim>\<open>u32\<close>.  Methods that return references to stored values are modelled by what the caller
  can do with them: \<^verbatim>\<open>get_mut\<close> and \<^verbatim>\<open>iter_mut\<close> take the function the caller applies.
\<close>

record 'v fastmap =
  fm_entries :: "'v option list"
  fm_base :: u32
  fm_count :: nat

definition fm_new :: "'v fastmap" where
  "fm_new = \<lparr>fm_entries = [], fm_base = 0, fm_count = 0\<rparr>"

definition fm_insert :: "'v fastmap \<Rightarrow> u32 \<Rightarrow> 'v \<Rightarrow> 'v option \<times> 'v fastmap" where
  "fm_insert m key value =
     (if fm_entries m = [] then (None, \<lparr>fm_entries = [Some value], fm_base = key, fm_count = 1\<rparr>)
      else if key < fm_base m then
        (let shift = unat (fm_base m - key);
             new_entries = replicate shift None @ fm_entries m
         in (None, \<lparr>fm_entries = new_entries[0 := Some value], fm_base = key, fm_count = fm_count m + 1\<rparr>))
      else
        (let offset = unat (key - fm_base m);
             es = (if length (fm_entries m) \<le> offset then resize (offset + 1) None (fm_entries m)
                   else fm_entries m);
             old = es ! offset
         in (old, m\<lparr>fm_entries := es[offset := Some value],
                    fm_count := (if old = None then fm_count m + 1 else fm_count m)\<rparr>)))"

definition fm_get :: "'v fastmap \<Rightarrow> u32 \<Rightarrow> 'v option" where
  "fm_get m key =
     (if fm_entries m = [] \<or> key < fm_base m then None
      else Option.bind (get_opt (fm_entries m) (unat (key - fm_base m))) id)"

definition fm_get_mut :: "'v fastmap \<Rightarrow> u32 \<Rightarrow> ('v \<Rightarrow> 'v) \<Rightarrow> 'v fastmap" where
  "fm_get_mut m key f =
     (if fm_entries m = [] \<or> key < fm_base m then m
      else let offset = unat (key - fm_base m) in
        (case get_opt (fm_entries m) offset of
           Some (Some v) \<Rightarrow> m\<lparr>fm_entries := (fm_entries m)[offset := Some (f v)]\<rparr>
         | _ \<Rightarrow> m))"

definition fm_remove :: "'v fastmap \<Rightarrow> u32 \<Rightarrow> 'v option \<times> 'v fastmap" where
  "fm_remove m key =
     (if fm_entries m = [] \<or> key < fm_base m then (None, m)
      else let offset = unat (key - fm_base m) in
        if length (fm_entries m) \<le> offset then (None, m)
        else let old = fm_entries m ! offset in
          (old, m\<lparr>fm_entries := (fm_entries m)[offset := None],
                  fm_count := (if old \<noteq> None then fm_count m - 1 else fm_count m)\<rparr>))"

definition fm_contains_key :: "'v fastmap \<Rightarrow> u32 \<Rightarrow> bool" where
  "fm_contains_key m key = (fm_get m key \<noteq> None)"

definition fm_len :: "'v fastmap \<Rightarrow> nat" where
  "fm_len m = fm_count m"

definition fm_is_empty :: "'v fastmap \<Rightarrow> bool" where
  "fm_is_empty m = (fm_count m = 0)"

definition fm_iter :: "'v fastmap \<Rightarrow> (u32 \<times> 'v) list" where
  "fm_iter m =
     List.map_filter (\<lambda>(i, v). map_option (Pair (fm_base m + word_of_nat i)) v)
       (List.enumerate 0 (fm_entries m))"

definition fm_iter_mut :: "'v fastmap \<Rightarrow> (u32 \<Rightarrow> 'v \<Rightarrow> 'v) \<Rightarrow> 'v fastmap" where
  "fm_iter_mut m f =
     m\<lparr>fm_entries := map (\<lambda>(i, v). map_option (f (fm_base m + word_of_nat i)) v)
                    (List.enumerate 0 (fm_entries m))\<rparr>"

definition fm_values :: "'v fastmap \<Rightarrow> 'v list" where
  "fm_values m = List.map_filter id (fm_entries m)"

definition fm_values_mut :: "'v fastmap \<Rightarrow> ('v \<Rightarrow> 'v) \<Rightarrow> 'v fastmap" where
  "fm_values_mut m f = m\<lparr>fm_entries := map (map_option f) (fm_entries m)\<rparr>"

section \<open>Representation invariant\<close>

text \<open>
  The slots never run past the largest key, and the counter counts the occupied slots.
\<close>

definition occupied :: "'v option list \<Rightarrow> nat" where
  "occupied es = length (filter (\<lambda>e. e \<noteq> None) es)"

definition fm_invar :: "'v fastmap \<Rightarrow> bool" where
  "fm_invar m \<longleftrightarrow> unat (fm_base m) + length (fm_entries m) \<le> 2 ^ 32 \<and> fm_count m = occupied (fm_entries m)"

lemma occupied_append [simp]: "occupied (xs @ ys) = occupied xs + occupied ys"
  by (simp add: occupied_def)

lemma occupied_replicate_None [simp]: "occupied (replicate n None) = 0"
  by (simp add: occupied_def)

lemma occupied_resize: "length es \<le> n \<Longrightarrow> occupied (resize n None es) = occupied es"
  by (simp add: resize_def)

lemma occupied_update:
  assumes "i < length es"
  shows "occupied (es[i := v]) + (if es ! i = None then 0 else 1) =
         occupied es + (if v = None then 0 else 1)"
  using assms
proof (induction es arbitrary: i)
  case Nil
  then show ?case by simp
next
  case (Cons e es)
  show ?case
  proof (cases i)
    case 0
    then show ?thesis by (auto simp: occupied_def)
  next
    case (Suc j)
    with Cons.prems Cons.IH [of j] show ?thesis by (auto simp: occupied_def)
  qed
qed

text \<open>Lookup at a position of the vector, the form in which the proofs use it.\<close>

lemma unat_diff_word: "(b :: u32) \<le> k \<Longrightarrow> unat (k - b) = unat k - unat b"
  by (simp add: unat_sub)

lemma fm_get_alt:
  "fm_get m k = (if fm_base m \<le> k \<and> unat k - unat (fm_base m) < length (fm_entries m)
                 then fm_entries m ! (unat k - unat (fm_base m)) else None)"
  by (auto simp: fm_get_def get_opt_def not_less unat_diff_word)

lemma fm_get_new [simp]: "fm_get fm_new = Map.empty"
  by (rule ext) (simp add: fm_get_def fm_new_def)

lemma fm_invar_new [simp]: "fm_invar fm_new"
  by (simp add: fm_invar_def fm_new_def occupied_def)

section \<open>Insertion\<close>

lemma word_le_unat: "(b :: u32) \<le> k \<longleftrightarrow> unat b \<le> unat k"
  by (rule word_le_nat_alt)

lemma fm_insert_empty:
  assumes "fm_entries m = []"
  shows "fm_insert m k v = (None, \<lparr>fm_entries = [Some v], fm_base = k, fm_count = 1\<rparr>)"
  using assms by (simp add: fm_insert_def)

lemma fm_insert_front:
  assumes "fm_entries m \<noteq> []" "k < fm_base m"
  shows "fm_insert m k v =
    (None, \<lparr>fm_entries = (replicate (unat (fm_base m) - unat k) None @ fm_entries m)[0 := Some v],
            fm_base = k, fm_count = fm_count m + 1\<rparr>)"
  using assms by (simp add: fm_insert_def unat_diff_word less_imp_le Let_def)

text \<open>Growing to the back first pads the vector; the padded map is the same map.\<close>

definition padded :: "nat \<Rightarrow> 'v option list \<Rightarrow> 'v option list" where
  "padded i es = (if length es \<le> i then resize (i + 1) None es else es)"

lemma length_padded: "length (padded i es) = max (length es) (i + 1)"
  by (simp add: padded_def)

lemma occupied_padded [simp]: "occupied (padded i es) = occupied es"
  by (simp add: padded_def occupied_resize)

lemma nth_padded:
  "j < length (padded i es) \<Longrightarrow> padded i es ! j = (if j < length es then es ! j else None)"
  by (auto simp: padded_def nth_resize split: if_splits)

lemma fm_insert_back:
  assumes "fm_entries m \<noteq> []" "fm_base m \<le> k"
  defines "i \<equiv> unat k - unat (fm_base m)"
  shows "fm_insert m k v =
    (padded i (fm_entries m) ! i,
     m\<lparr>fm_entries := (padded i (fm_entries m))[i := Some v],
       fm_count := (if padded i (fm_entries m) ! i = None then fm_count m + 1 else fm_count m)\<rparr>)"
  using assms by (simp add: fm_insert_def unat_diff_word padded_def Let_def not_less [symmetric])

lemma fm_insert_cases:
  fixes m :: "'v fastmap" and k :: u32
  obtains (empty) "fm_entries m = []"
    | (front) "fm_entries m \<noteq> []" "k < fm_base m"
    | (rear) "fm_entries m \<noteq> []" "fm_base m \<le> k"
  using not_le by blast

lemma fm_put_old: "fst (fm_insert m k v) = fm_get m k"
proof (cases "fm_entries m = []")
  case True
  then show ?thesis by (simp add: fm_insert_empty fm_get_def)
next
  case ne: False
  show ?thesis
  proof (cases "k < fm_base m")
    case True
    with ne show ?thesis by (simp add: fm_insert_front fm_get_def)
  next
    case False
    with ne show ?thesis
      by (simp add: fm_insert_back not_less fm_get_alt nth_padded length_padded)
  qed
qed

lemma unat_eq_offset:
  assumes "(b :: u32) \<le> k" "b \<le> j"
  shows "unat k - unat b = unat j - unat b \<longleftrightarrow> k = j"
  using assms by (auto simp: word_le_nat_alt intro: word_unat_eq_iff [THEN iffD2])

lemma fm_get_put: "fm_get (snd (fm_insert m k v)) = (fm_get m)(k \<mapsto> v)"
proof (rule ext)
  fix j
  show "fm_get (snd (fm_insert m k v)) j = ((fm_get m)(k \<mapsto> v)) j"
  proof (cases rule: fm_insert_cases [where m = m and k = k])
    case empty
    then show ?thesis
      using unat_eq_offset [of k j k] by (auto simp: fm_insert_empty fm_get_alt)
  next
    case front
    then have lt: "unat k < unat (fm_base m)" by (simp add: word_less_nat_alt)
    show ?thesis
    proof (cases "j = k")
      case True
      with front lt show ?thesis by (simp add: fm_insert_front fm_get_alt)
    next
      case False
      then have "k \<le> j \<Longrightarrow> 0 < unat j - unat k"
        by (simp add: word_le_nat_alt word_unat_eq_iff)
      with front lt False show ?thesis
        by (auto simp: fm_insert_front fm_get_alt nth_append word_le_nat_alt less_diff_conv2)
    qed
  next
    case rear
    then show ?thesis
      by (auto simp: fm_insert_back fm_get_alt nth_list_update nth_padded length_padded
          unat_eq_offset)
  qed
qed

lemma fm_invar_put:
  assumes "fm_invar m"
  shows "fm_invar (snd (fm_insert m k v))"
proof (cases rule: fm_insert_cases [where m = m and k = k])
  case empty
  then show ?thesis
    using unat_u32_lt [of k] by (simp add: fm_insert_empty fm_invar_def occupied_def)
next
  case front
  then have lt: "unat k < unat (fm_base m)" by (simp add: word_less_nat_alt)
  let ?es = "replicate (unat (fm_base m) - unat k) None @ fm_entries m"
  have "?es ! 0 = None" using lt by (simp add: nth_append)
  then have "occupied (?es[0 := Some v]) = occupied (fm_entries m) + 1"
    using occupied_update [of 0 ?es "Some v"] lt by simp
  with front lt assms show ?thesis by (simp add: fm_insert_front fm_invar_def)
next
  case rear
  let ?i = "unat k - unat (fm_base m)"
  have i: "?i < length (padded ?i (fm_entries m))" by (simp add: length_padded)
  have "unat (fm_base m) + ?i + 1 \<le> 2 ^ 32"
    using rear unat_u32_lt [of k] by (simp add: word_le_nat_alt)
  with rear assms occupied_update [OF i, of "Some v"] show ?thesis
    by (simp add: fm_insert_back fm_invar_def length_padded split: if_splits)
qed

section \<open>Removal, update in place, iteration\<close>

lemma fm_remove_alt:
  "fm_remove m k =
     (if fm_base m \<le> k \<and> unat k - unat (fm_base m) < length (fm_entries m)
      then let i = unat k - unat (fm_base m) in
        (fm_entries m ! i, m\<lparr>fm_entries := (fm_entries m)[i := None],
           fm_count := (if fm_entries m ! i \<noteq> None then fm_count m - 1 else fm_count m)\<rparr>)
      else (None, m))"
  by (auto simp: fm_remove_def not_less unat_diff_word Let_def)

lemma fm_del_old: "fst (fm_remove m k) = fm_get m k"
  by (simp add: fm_remove_alt fm_get_alt Let_def)

lemma fm_get_del: "fm_get (snd (fm_remove m k)) = (fm_get m)(k := None)"
proof (rule ext)
  fix j
  show "fm_get (snd (fm_remove m k)) j = ((fm_get m)(k := None)) j"
    by (auto simp: fm_remove_alt fm_get_alt Let_def nth_list_update unat_eq_offset)
qed

lemma fm_invar_del:
  assumes "fm_invar m"
  shows "fm_invar (snd (fm_remove m k))"
  using assms occupied_update [of "unat k - unat (fm_base m)" "fm_entries m" None]
  by (auto simp: fm_remove_alt fm_invar_def Let_def split: if_splits)

lemma fm_get_get_mut:
  "fm_get (fm_get_mut m k f) = (fm_get m)(k := map_option f (fm_get m k))"
proof (rule ext)
  fix j
  show "fm_get (fm_get_mut m k f) j = ((fm_get m)(k := map_option f (fm_get m k))) j"
    by (auto simp: fm_get_mut_def fm_get_alt get_opt_def Let_def nth_list_update not_less
        unat_diff_word unat_eq_offset split: option.splits)
qed

lemma fm_invar_get_mut:
  assumes "fm_invar m"
  shows "fm_invar (fm_get_mut m k f)"
proof (cases "fm_get m k")
  case None
  then show ?thesis
    using assms
    by (auto simp: fm_get_mut_def fm_get_def get_opt_def Let_def split: option.splits)
next
  case (Some v)
  then show ?thesis
    using assms occupied_update [of "unat k - unat (fm_base m)" "fm_entries m" "Some (f v)"]
    by (auto simp: fm_get_mut_def fm_get_alt fm_invar_def get_opt_def Let_def not_less
        unat_diff_word split: if_splits)
qed

interpretation fm: keyed_map fm_new fm_get fm_insert fm_remove fm_invar
  by unfold_locales
    (simp_all add: fm_put_old fm_get_put fm_invar_put fm_del_old fm_get_del fm_invar_del)

fun fm_step :: "'v fastmap \<Rightarrow> (u32, 'v) map_op \<Rightarrow> 'v option \<times> 'v fastmap" where
  "fm_step m (Insert k v) = fm_insert m k v"
| "fm_step m (Remove k) = fm_remove m k"

lemma fm_step_eq: "fm.map_step = fm_step"
proof (intro ext)
  fix m and x :: "(u32, 'v) map_op"
  show "fm.map_step m x = fm_step m x" by (cases x) simp_all
qed

lemmas fm_reachable_invar = fm.run_refines(3) [unfolded fm_step_eq]

section \<open>Counting and iterating\<close>

lemma fm_dom:
  assumes "fm_invar m"
  shows "dom (fm_get m) =
    (\<lambda>i. fm_base m + word_of_nat i) ` {i. i < length (fm_entries m) \<and> fm_entries m ! i \<noteq> None}"
    (is "_ = ?f ` ?I")
proof -
  have off: "unat (?f i) = unat (fm_base m) + i" if "i < length (fm_entries m)" for i
    using that assms by (simp add: fm_invar_def unat_word_ariths unat_of_nat)
  have "k \<in> ?f ` ?I" if "k \<in> dom (fm_get m)" for k
  proof (rule image_eqI [where x = "unat k - unat (fm_base m)"])
    from that show "unat k - unat (fm_base m) \<in> ?I"
      by (auto simp: fm_get_alt dom_def split: if_splits)
    from that have "unat (fm_base m) \<le> unat k" "unat k - unat (fm_base m) < length (fm_entries m)"
      by (auto simp: fm_get_alt dom_def word_le_nat_alt split: if_splits)
    then show "k = ?f (unat k - unat (fm_base m))"
      by (simp add: word_unat_eq_iff off)
  qed
  moreover have "?f i \<in> dom (fm_get m)" if "i \<in> ?I" for i
    using that off [of i] by (auto simp: fm_get_alt dom_def word_le_nat_alt)
  ultimately show ?thesis by blast
qed

lemma fm_len_card:
  assumes "fm_invar m"
  shows "fm_len m = card (dom (fm_get m))"
proof -
  have "inj_on (\<lambda>i. fm_base m + word_of_nat i) {i. i < length (fm_entries m) \<and> fm_entries m ! i \<noteq> None}"
  proof (rule inj_onI)
    fix i j
    assume "i \<in> {i. i < length (fm_entries m) \<and> fm_entries m ! i \<noteq> None}"
      and "j \<in> {i. i < length (fm_entries m) \<and> fm_entries m ! i \<noteq> None}"
      and eq: "fm_base m + word_of_nat i = fm_base m + word_of_nat j"
    then have "i < 2 ^ 32" "j < 2 ^ 32" using assms by (auto simp: fm_invar_def)
    moreover from eq have "(word_of_nat i :: u32) = word_of_nat j" by simp
    ultimately show "i = j" by (simp add: word_unat_eq_iff unat_of_nat)
  qed
  then show ?thesis
    using assms
    by (simp add: fm_dom card_image fm_len_def fm_invar_def occupied_def length_filter_conv_card)
qed

text \<open>Iteration from slot \<open>n\<close> on, the form the induction needs.\<close>

definition iter_from :: "u32 \<Rightarrow> nat \<Rightarrow> 'v option list \<Rightarrow> (u32 \<times> 'v) list" where
  "iter_from b n es =
     List.map_filter (\<lambda>(i, v). map_option (Pair (b + word_of_nat i)) v) (List.enumerate n es)"

lemma iter_from_simps [simp]:
  "iter_from b n [] = []"
  "iter_from b n (None # es) = iter_from b (Suc n) es"
  "iter_from b n (Some v # es) = (b + word_of_nat n, v) # iter_from b (Suc n) es"
  by (simp_all add: iter_from_def)

lemma unat_slot_key:
  "unat (b :: u32) + i < 2 ^ 32 \<Longrightarrow> unat (b + word_of_nat i) = unat b + i"
  by (simp add: unat_word_ariths unat_of_nat)

lemma iter_from_keys:
  assumes "unat b + n + length es \<le> 2 ^ 32" "(k, v) \<in> set (iter_from b n es)"
  shows "unat b + n \<le> unat k"
  using assms
proof (induction es arbitrary: n)
  case Nil
  then show ?case by simp
next
  case (Cons e es)
  then show ?case using Cons.IH [of "Suc n"] unat_slot_key [of b n] by (cases e) auto
qed

lemma iter_from_sorted:
  assumes "unat b + n + length es \<le> 2 ^ 32"
  shows "sorted_wrt (<) (map fst (iter_from b n es))"
  using assms
proof (induction es arbitrary: n)
  case Nil
  then show ?case by simp
next
  case (Cons e es)
  have "b + word_of_nat n < k" if "(k, v) \<in> set (iter_from b (Suc n) es)" for k v
    using iter_from_keys [of b "Suc n" es k v] that Cons.prems unat_slot_key [of b n]
    by (simp add: word_less_nat_alt)
  then show ?case using Cons by (cases e) auto
qed

lemma map_of_iter_from:
  assumes "unat b + n + length es \<le> 2 ^ 32"
  shows "map_of (iter_from b n es) k =
    (if unat b + n \<le> unat k \<and> unat k - (unat b + n) < length es
     then es ! (unat k - (unat b + n)) else None)"
  using assms
proof (induction es arbitrary: n)
  case Nil
  then show ?case by simp
next
  case (Cons e es)
  have key: "k = b + word_of_nat n \<longleftrightarrow> unat k = unat b + n"
    using unat_slot_key [of b n] Cons.prems by (simp add: word_unat_eq_iff)
  have IH: "map_of (iter_from b (Suc n) es) k =
    (if unat b + Suc n \<le> unat k \<and> unat k - (unat b + Suc n) < length es
     then es ! (unat k - (unat b + Suc n)) else None)"
    using Cons by simp
  show ?case
  proof (cases "unat k = unat b + n")
    case True
    then show ?thesis using IH key by (cases e) auto
  next
    case False
    then have "unat k - (unat b + n) = Suc (unat k - (unat b + Suc n))" if "unat b + n \<le> unat k"
      using that by simp
    then show ?thesis using IH key False by (cases e) auto
  qed
qed

lemma map_of_fm_iter: "fm_invar m \<Longrightarrow> map_of (fm_iter m) = fm_get m"
  using map_of_iter_from [of "fm_base m" 0 "fm_entries m"]
  by (auto simp: fm_iter_def iter_from_def [symmetric] fm_invar_def fm_get_alt word_le_nat_alt)

section \<open>Properties\<close>

text \<open>
  C40. Starting from \<^verbatim>\<open>FastMap::new()\<close>, any sequence of insertions and removals returns exactly
  the displaced values a partial function returns, and afterwards \<^verbatim>\<open>get\<close> is that partial
  function on every key.
\<close>
theorem fm_refines_map:
  "fst (run_ops fm_step fm_new xs) = fst (run_ops spec_map_step Map.empty xs) \<and>
   fm_get (snd (run_ops fm_step fm_new xs)) = snd (run_ops spec_map_step Map.empty xs)"
  using fm.run_refines [of xs] by (simp add: fm_step_eq)

text \<open>
  After any sequence of operations \<^verbatim>\<open>len\<close> is the number of keys present, \<^verbatim>\<open>is_empty\<close> says
  whether there is one, and \<^verbatim>\<open>iter\<close> lists every entry once, in increasing key order.
\<close>
theorem fm_len_iter:
  "let m = snd (run_ops fm_step fm_new xs)
   in fm_len m = card (dom (fm_get m)) \<and>
      (fm_is_empty m \<longleftrightarrow> fm_get m = Map.empty) \<and>
      sorted_wrt (<) (map fst (fm_iter m)) \<and>
      map_of (fm_iter m) = fm_get m"
proof -
  define m where "m = snd (run_ops fm_step fm_new xs)"
  have inv: "fm_invar m" by (simp add: m_def fm_reachable_invar)
  have fin: "finite (dom (fm_get m))" by simp
  have fm_count: "fm_len m = card (dom (fm_get m))" by (rule fm_len_card [OF inv])
  then have "fm_is_empty m \<longleftrightarrow> fm_get m = Map.empty"
    using fin by (simp add: fm_is_empty_def fm_len_def)
  moreover have "sorted_wrt (<) (map fst (fm_iter m))"
    using inv iter_from_sorted [of "fm_base m" 0 "fm_entries m"]
    by (simp add: fm_iter_def iter_from_def [symmetric] fm_invar_def)
  ultimately show ?thesis
    unfolding m_def [symmetric] Let_def using fm_count map_of_fm_iter [OF inv] by blast
qed

end
