(* ===== verification/Copyrpc_RC.thy ===== *)
theory Copyrpc_RC
  imports Copyrpc_Framing FastMap
begin

text \<open>
  Model of the reliable-connection transport, \<^verbatim>\<open>copyrpc/src/rc.rs\<close>: the endpoint with its
  send and receive rings, batching, wrap-around, credit accounting, calls and replies, and the
  context that owns the endpoints, dispatches completions and flushes dirty endpoints.

  Ring positions are the source's virtual \<^verbatim>\<open>u64\<close> positions as natural numbers: they only grow,
  by the bytes sent, so the model is exact until \<open>2 ^ 64\<close> bytes have passed through a ring.
  Values that go over the wire are encoded at their widths.  Saturating subtractions of the
  source are subtractions of natural numbers.  The slab of pending calls is a finite map with
  an allocation function as parameter (the \<^verbatim>\<open>slab\<close> crate chooses the key of an insertion);
  the send queue of \<^verbatim>\<open>mlx5\<close> is the \<open>submit\<close> parameter.
\<close>

definition SIGNAL_INTERVAL :: nat where "SIGNAL_INTERVAL = 64"

definition MAX_INLINE_ONLY :: nat where "MAX_INLINE_ONLY = 220"

definition MAX_INLINE_HYBRID :: nat where "MAX_INLINE_HYBRID = 204"

definition RAW_RDMA_SENTINEL_QPN :: u32 where "RAW_RDMA_SENTINEL_QPN = 0xFFFFFFFF"

record rc_remote_ring =
  rr_addr :: nat
  rr_rkey :: u32
  rr_size :: nat

record rc_config =
  cfg_send_ring_size :: nat
  cfg_recv_ring_size :: nat
  cfg_max_resp_reservation :: nat

record rc_remote_info =
  rem_qp_number :: u32
  rem_packet_sequence_number :: u32
  rem_local_identifier :: u16
  rem_ring_addr :: nat
  rem_ring_rkey :: u32
  rem_ring_size :: nat
  rem_initial_credit :: nat

record rc_local_info =
  loc_qp_number :: u32
  loc_ring_addr :: nat
  loc_ring_rkey :: u32
  loc_ring_size :: nat
  loc_initial_credit :: nat

text \<open>A raw RDMA READ or WRITE, posted next to the messages.\<close>

datatype raw_op = RawRead | RawWrite

record raw_wqe =
  raw_op :: raw_op
  raw_remote_addr :: u64
  raw_remote_rkey :: u32
  raw_local_addr :: u64
  raw_local_lkey :: u32
  raw_len :: u32

text \<open>
  The last four fields stand for the queue pair: the writes with immediate posted so far, the
  raw requests posted so far, the number of attempts to post one, and how many of the posted
  writes the doorbell has published.
\<close>

record 'u rc_endpoint =
  rc_qpn :: u32
  send_ring :: bytes
  recv_ring :: bytes
  recv_ring_addr :: nat
  recv_ring_rkey :: u32
  remote_recv_ring :: "rc_remote_ring option"
  send_ring_producer :: nat
  recv_ring_producer :: nat
  last_recv_pos :: nat
  last_notified_recv_pos :: nat
  remote_consumer_pos :: nat
  unsignaled_count :: nat
  pending_calls :: "nat \<rightharpoonup> 'u"
  flush_start_pos :: nat
  resp_reservation :: nat
  max_resp_reservation :: nat
  peer_credit_balance :: nat
  meta_pos :: nat
  batch_message_count :: nat
  raw_rdma_posted :: u32
  raw_rdma_done :: u32
  needs_doorbell :: bool
  is_dirty :: bool
  sq :: "wqe list"
  raw_sq :: "raw_wqe list"
  sq_attempts :: nat
  sq_rung :: nat

text \<open>The number of the queue pair and the registered address and key come from the device.\<close>

definition rc_endpoint_new ::
  "u32 \<Rightarrow> nat \<Rightarrow> u32 \<Rightarrow> rc_config \<Rightarrow> 'u rc_endpoint" where
  "rc_endpoint_new qpn addr rkey config =
     (let send_ring_size = next_power_of_two (cfg_send_ring_size config);
          recv_ring_size = next_power_of_two (cfg_recv_ring_size config)
      in \<lparr>rc_qpn = qpn,
          send_ring = replicate send_ring_size 0,
          recv_ring = replicate recv_ring_size 0,
          recv_ring_addr = addr,
          recv_ring_rkey = rkey,
          remote_recv_ring = None,
          send_ring_producer = 0,
          recv_ring_producer = 0,
          last_recv_pos = 0,
          last_notified_recv_pos = 0,
          remote_consumer_pos = 0,
          unsignaled_count = 0,
          pending_calls = Map.empty,
          flush_start_pos = 0,
          resp_reservation = 0,
          max_resp_reservation =
            min (cfg_max_resp_reservation config) (cfg_send_ring_size config div 4),
          peer_credit_balance = 0,
          meta_pos = 0,
          batch_message_count = 0,
          raw_rdma_posted = 0,
          raw_rdma_done = 0,
          needs_doorbell = False,
          is_dirty = False,
          sq = [],
          raw_sq = [],
          sq_attempts = 0,
          sq_rung = 0\<rparr>)"

definition local_info :: "'u rc_endpoint \<Rightarrow> rc_local_info" where
  "local_info ep =
     \<lparr>loc_qp_number = rc_qpn ep,
      loc_ring_addr = recv_ring_addr ep,
      loc_ring_rkey = recv_ring_rkey ep,
      loc_ring_size = length (recv_ring ep),
      loc_initial_credit = min (max_resp_reservation ep) (length (send_ring ep) div 4)\<rparr>"

section \<open>Batches\<close>

text \<open>Virtual positions are reduced to offsets by the ring mask.\<close>

definition send_off :: "'u rc_endpoint \<Rightarrow> nat \<Rightarrow> nat" where
  "send_off ep pos = pos AND (length (send_ring ep) - 1)"

definition recv_off :: "'u rc_endpoint \<Rightarrow> nat \<Rightarrow> nat" where
  "recv_off ep pos = pos AND (length (recv_ring ep) - 1)"

text \<open>A request that writes the bytes from virtual position \<open>start\<close> up to \<open>stop\<close>.\<close>

definition batch_wqe :: "rc_remote_ring \<Rightarrow> nat \<Rightarrow> nat \<Rightarrow> bool \<Rightarrow> 'u rc_endpoint \<Rightarrow> wqe" where
  "batch_wqe remote_ring start stop should_signal ep =
     (let delta = stop - start;
          start_offset = send_off ep start;
          remote_offset = start AND (rr_size remote_ring - 1)
      in \<lparr>w_remote_addr = rr_addr remote_ring + remote_offset,
          w_rkey = rr_rkey remote_ring,
          w_imm = encode_imm (word_of_nat delta),
          w_inline = (if delta \<le> MAX_INLINE_ONLY then read_at start_offset delta (send_ring ep)
                      else read_at start_offset MAX_INLINE_HYBRID (send_ring ep)),
          w_sge = (if delta \<le> MAX_INLINE_ONLY then None
                   else Some (start_offset + MAX_INLINE_HYBRID,
                              unat (word_of_nat (delta - MAX_INLINE_HYBRID) :: u32))),
          w_signaled = should_signal\<rparr>)"

text \<open>
  The subtraction \<^verbatim>\<open>end - start\<close> and the slice of the inline bytes are the panics of
  \<^verbatim>\<open>emit_raw\<close>; opening the queue's emit context fails before the slice is taken.
\<close>

definition emit_raw ::
  "submit_oracle \<Rightarrow> 'u rc_endpoint \<Rightarrow> (bool, rpc_error) outcome \<times> 'u rc_endpoint" where
  "emit_raw submit ep =
     (case remote_recv_ring ep of
        None \<Rightarrow> (Err RemoteConsumerUnknown, ep)
      | Some remote_ring \<Rightarrow>
          (let start = flush_start_pos ep; stop = send_ring_producer ep
           in if start = stop then (Ok False, ep)
              else if stop < start then (Panic, ep)
              else let delta = stop - start;
                       count = unsignaled_count ep;
                       should_signal = SIGNAL_INTERVAL \<le> count;
                       inline_len = (if delta \<le> MAX_INLINE_ONLY then delta else MAX_INLINE_HYBRID);
                       answer = submit (sq_attempts ep);
                       ep1 = ep\<lparr>sq_attempts := sq_attempts ep + 1\<rparr>
                   in if answer = Some EmitCtxError then (Err Io, ep1)
                      else if length (send_ring ep) < send_off ep start + inline_len then (Panic, ep)
                      else if answer \<noteq> None then (Err Io, ep1)
                      else (Ok True,
                            ep1\<lparr>sq := sq ep @ [batch_wqe remote_ring start stop should_signal ep],
                                unsignaled_count := (if should_signal then 0 else count + 1),
                                flush_start_pos := stop,
                                needs_doorbell := True\<rparr>)))"

definition prepare_next_batch :: "'u rc_endpoint \<Rightarrow> 'u rc_endpoint" where
  "prepare_next_batch ep =
     (let producer = send_ring_producer ep
      in ep\<lparr>meta_pos := producer,
            batch_message_count := 0,
            send_ring_producer := producer + FLOW_METADATA_SIZE\<rparr>)"

definition align_down :: "nat \<Rightarrow> nat" where
  "align_down n = unat ((word_of_nat n :: u64) AND NOT (ALIGNMENT - 1))"

definition compute_credit_grant :: "'u rc_endpoint \<Rightarrow> nat" where
  "compute_credit_grant ep =
     (case remote_recv_ring ep of
        None \<Rightarrow> 0
      | Some remote_ring \<Rightarrow>
          (let in_flight = send_ring_producer ep - remote_consumer_pos ep;
               current_r = resp_reservation ep;
               max_by_invariant = (rr_size remote_ring - in_flight) div 2 - current_r;
               max_by_policy = max_resp_reservation ep - current_r
           in align_down (min max_by_invariant max_by_policy)))"

text \<open>
  The part that \<^verbatim>\<open>fill_metadata\<close> and \<^verbatim>\<open>emit_wrap\<close> have in common: return ring credit, grant
  response credit, and write the record at a ring offset.
\<close>

definition write_metadata :: "nat \<Rightarrow> u32 \<Rightarrow> 'u rc_endpoint \<Rightarrow> 'u rc_endpoint" where
  "write_metadata offset message_count ep =
     (let ring_credit_return = last_recv_pos ep - last_notified_recv_pos ep;
          credit_grant = compute_credit_grant ep
      in ep\<lparr>last_notified_recv_pos := last_recv_pos ep,
            resp_reservation := resp_reservation ep + credit_grant,
            send_ring := encode_flow_metadata (send_ring ep) offset
              (word_of_nat ring_credit_return) (word_of_nat credit_grant) message_count\<rparr>)"

definition fill_metadata :: "'u rc_endpoint \<Rightarrow> 'u rc_endpoint" where
  "fill_metadata ep =
     write_metadata (send_off ep (meta_pos ep)) (word_of_nat (batch_message_count ep)) ep"

definition emit_wqe ::
  "submit_oracle \<Rightarrow> 'u rc_endpoint \<Rightarrow> (bool, rpc_error) outcome \<times> 'u rc_endpoint" where
  "emit_wqe submit ep =
     (if batch_message_count ep = 0 then (Ok False, ep)
      else and_then (emit_raw submit (fill_metadata ep)) (\<lambda>_ ep1. (Ok True, prepare_next_batch ep1)))"

definition ring_sq_doorbell_bf :: "'u rc_endpoint \<Rightarrow> 'u rc_endpoint" where
  "ring_sq_doorbell_bf ep = ep\<lparr>sq_rung := length (sq ep)\<rparr>"

definition flush :: "submit_oracle \<Rightarrow> 'u rc_endpoint \<Rightarrow> (unit, rpc_error) outcome \<times> 'u rc_endpoint" where
  "flush submit ep =
     and_then (emit_wqe submit ep) (\<lambda>_ ep1.
       (Ok (), if needs_doorbell ep1 then (ring_sq_doorbell_bf ep1)\<lparr>needs_doorbell := False\<rparr> else ep1))"

definition has_pending_send :: "'u rc_endpoint \<Rightarrow> bool" where
  "has_pending_send ep \<longleftrightarrow> 0 < batch_message_count ep \<or> needs_doorbell ep"

definition emit_wrap ::
  "submit_oracle \<Rightarrow> 'u rc_endpoint \<Rightarrow> (unit, rpc_error) outcome \<times> 'u rc_endpoint" where
  "emit_wrap submit ep =
     (let pos = meta_pos ep;
          ep1 = ep\<lparr>send_ring_producer := pos\<rparr>;
          offset = send_off ep pos;
          remaining = length (send_ring ep) - offset;
          ep2 = write_metadata offset WRAP_MESSAGE_COUNT ep1;
          ep3 = ep2\<lparr>send_ring_producer := pos + remaining\<rparr>
      in and_then (emit_raw submit ep3) (\<lambda>_ ep4. (Ok (), prepare_next_batch ep4)))"

definition handle_wrap_if_needed ::
  "submit_oracle \<Rightarrow> nat \<Rightarrow> 'u rc_endpoint \<Rightarrow> (bool, rpc_error) outcome \<times> 'u rc_endpoint" where
  "handle_wrap_if_needed submit total_size ep =
     (let meta_offset = send_off ep (meta_pos ep);
          batch_span = (send_ring_producer ep - meta_pos ep) + total_size
      in if meta_offset + batch_span < length (send_ring ep) then (Ok False, ep)
         else and_then
           (if 0 < batch_message_count ep then
              and_then (emit_raw submit (fill_metadata ep)) (\<lambda>_ ep1.
                (Ok (), prepare_next_batch (ep1\<lparr>flush_start_pos := send_ring_producer ep1\<rparr>)))
            else (Ok (), ep))
           (\<lambda>_ ep2. and_then (emit_wrap submit ep2) (\<lambda>_ ep3. (Ok True, ep3))))"

section \<open>Connecting, calling and replying\<close>

text \<open>
  \<open>qp_connect\<close> is the result of moving the queue pair to its ready states, done by the
  \<^verbatim>\<open>mlx5\<close> crate from the peer's coordinates, with or without rights for raw requests.
\<close>

definition connect_ex ::
  "(rc_remote_info \<Rightarrow> bool \<Rightarrow> bool) \<Rightarrow> rc_remote_info \<Rightarrow> bool \<Rightarrow> 'u rc_endpoint
     \<Rightarrow> (unit, rpc_error) outcome \<times> 'u rc_endpoint" where
  "connect_ex qp_connect remote enable_raw_rdma ep =
     (let ep1 = ep\<lparr>remote_recv_ring := Some \<lparr>rr_addr = rem_ring_addr remote,
                                            rr_rkey = rem_ring_rkey remote,
                                            rr_size = rem_ring_size remote\<rparr>,
                   resp_reservation := min (max_resp_reservation ep) (rem_ring_size remote div 4),
                   peer_credit_balance := rem_initial_credit remote\<rparr>
      in if qp_connect remote enable_raw_rdma then (Ok (), prepare_next_batch ep1)
         else (Err Io, ep1))"

definition rc_connect ::
  "(rc_remote_info \<Rightarrow> bool \<Rightarrow> bool) \<Rightarrow> rc_remote_info \<Rightarrow> 'u rc_endpoint
     \<Rightarrow> (unit, rpc_error) outcome \<times> 'u rc_endpoint" where
  "rc_connect qp_connect remote ep = connect_ex qp_connect remote False ep"

text \<open>
  Placing a message behind the batch, as \<^verbatim>\<open>call\<close> and \<^verbatim>\<open>reply\<close> both do: header and payload are
  written through a raw pointer, the producer and the message count advance.
\<close>

definition write_message ::
  "u32 \<Rightarrow> u64 \<Rightarrow> bytes \<Rightarrow> 'u rc_endpoint \<Rightarrow> (unit, 'e) outcome \<times> 'u rc_endpoint" where
  "write_message call_id piggyback data ep =
     (let producer = send_ring_producer ep;
          offset = send_off ep producer;
          msg_size = unat (padded_message_size (word_of_nat (length data)))
      in if length (send_ring ep) < offset + HEADER_SIZE + length data then (Panic, ep)
         else (Ok (), ep\<lparr>send_ring := write_at (offset + HEADER_SIZE) data
                             (encode_header (send_ring ep) offset call_id piggyback
                               (word_of_nat (length data))),
                         send_ring_producer := producer + msg_size,
                         batch_message_count := batch_message_count ep + 1\<rparr>))"

definition internal_allowance :: "u64 \<Rightarrow> u64" where
  "internal_allowance response_allowance =
     (let resp_msg_size = padded_message_size (ucast response_allowance);
          with_metadata = resp_msg_size + word_of_nat FLOW_METADATA_SIZE
      in (with_metadata + ALIGNMENT - 1) AND NOT (ALIGNMENT - 1))"

text \<open>
  \<open>slab_key\<close> is the key the slab of pending calls chooses for an insertion.
\<close>

definition rc_call ::
  "submit_oracle \<Rightarrow> ((nat \<rightharpoonup> 'u) \<Rightarrow> nat) \<Rightarrow> bytes \<Rightarrow> 'u \<Rightarrow> u64 \<Rightarrow> 'u rc_endpoint
     \<Rightarrow> (u32, 'u call_error) outcome \<times> 'u rc_endpoint" where
  "rc_call submit slab_key data user_data response_allowance ep =
     (case remote_recv_ring ep of
        None \<Rightarrow> (Err (Other RemoteConsumerUnknown), ep)
      | Some remote_ring \<Rightarrow>
          (let allowance = internal_allowance response_allowance
           in if peer_credit_balance ep < unat allowance then
                and_then (map_err Other (flush submit ep))
                  (\<lambda>_ ep1. (Err (InsufficientCredit user_data), ep1))
              else
                let msg_size = unat (padded_message_size (word_of_nat (length data)))
                in and_then (map_err Other (handle_wrap_if_needed submit msg_size ep)) (\<lambda>_ ep1.
                     let available = rr_size remote_ring
                           - (send_ring_producer ep1 - remote_consumer_pos ep1);
                         reserved = 2 * resp_reservation ep1
                     in if available < msg_size + reserved then
                          and_then (map_err Other (flush submit ep1))
                            (\<lambda>_ ep2. (Err (CallRingFull user_data), ep2))
                        else
                          let key = slab_key (pending_calls ep1);
                              call_id = word_of_nat key;
                              ep2 = ep1\<lparr>pending_calls := (pending_calls ep1)(key \<mapsto> user_data)\<rparr>;
                              blocks = ucast (allowance div ALIGNMENT) :: u32
                          in and_then (write_message call_id (ucast blocks) data ep2) (\<lambda>_ ep3.
                               (Ok call_id, ep3\<lparr>peer_credit_balance :=
                                               peer_credit_balance ep3 - unat allowance\<rparr>)))))"

definition rc_reply ::
  "submit_oracle \<Rightarrow> u32 \<Rightarrow> u64 \<Rightarrow> bytes \<Rightarrow> 'u rc_endpoint
     \<Rightarrow> (unit, rpc_error) outcome \<times> 'u rc_endpoint" where
  "rc_reply submit call_id response_allowance data ep =
     (case remote_recv_ring ep of
        None \<Rightarrow> (Err RemoteConsumerUnknown, ep)
      | Some _ \<Rightarrow>
          (let msg_size = unat (padded_message_size (word_of_nat (length data)))
           in and_then (handle_wrap_if_needed submit msg_size ep) (\<lambda>_ ep1.
                write_message (to_response_id call_id) 0 data
                  (ep1\<lparr>resp_reservation := resp_reservation ep1 - unat response_allowance\<rparr>))))"

section \<open>Raw requests\<close>

definition post_raw ::
  "submit_oracle \<Rightarrow> raw_wqe \<Rightarrow> 'u rc_endpoint \<Rightarrow> (unit, rpc_error) outcome \<times> 'u rc_endpoint" where
  "post_raw submit w ep =
     (let ep1 = ep\<lparr>raw_rdma_posted := raw_rdma_posted ep + 1, sq_attempts := sq_attempts ep + 1\<rparr>
      in case submit (sq_attempts ep) of
           Some _ \<Rightarrow> (Err Io, ep1)
         | None \<Rightarrow> (Ok (), ring_sq_doorbell_bf (ep1\<lparr>raw_sq := raw_sq ep @ [w]\<rparr>)))"

definition post_rdma_read ::
  "submit_oracle \<Rightarrow> u64 \<Rightarrow> u32 \<Rightarrow> u64 \<Rightarrow> u32 \<Rightarrow> u32 \<Rightarrow> 'u rc_endpoint
     \<Rightarrow> (unit, rpc_error) outcome \<times> 'u rc_endpoint" where
  "post_rdma_read submit remote_addr remote_rkey local_addr local_lkey n ep =
     post_raw submit \<lparr>raw_op = RawRead, raw_remote_addr = remote_addr,
       raw_remote_rkey = remote_rkey, raw_local_addr = local_addr,
       raw_local_lkey = local_lkey, raw_len = n\<rparr> ep"

definition post_rdma_write ::
  "submit_oracle \<Rightarrow> u64 \<Rightarrow> u32 \<Rightarrow> u64 \<Rightarrow> u32 \<Rightarrow> u32 \<Rightarrow> 'u rc_endpoint
     \<Rightarrow> (unit, rpc_error) outcome \<times> 'u rc_endpoint" where
  "post_rdma_write submit remote_addr remote_rkey local_addr local_lkey n ep =
     post_raw submit \<lparr>raw_op = RawWrite, raw_remote_addr = remote_addr,
       raw_remote_rkey = remote_rkey, raw_local_addr = local_addr,
       raw_local_lkey = local_lkey, raw_len = n\<rparr> ep"

definition raw_rdma_pending :: "'u rc_endpoint \<Rightarrow> u32" where
  "raw_rdma_pending ep = raw_rdma_posted ep - raw_rdma_done ep"

end
