(* ===== verification/Copyrpc_RC_Context.thy ===== *)
theory Copyrpc_RC_Context
  imports Copyrpc_RC
begin

text \<open>
  The receive path and the context of \<^verbatim>\<open>copyrpc/src/rc.rs\<close>: processing one completion (the
  flow-control record, the wrap, the messages), polling with the repost of receive buffers,
  the queue of dirty endpoints and its flush loop, and the handles with which a server answers.

  A completion is an event of the model: the device has already placed the bytes in the
  receive ring, and the completion carries the queue pair and the immediate value.  The
  callback \<^verbatim>\<open>on_response\<close> becomes a list of the responses handed to it, in order.  The shared
  pointers to endpoints are queue pair numbers; an endpoint is never removed from its context.
\<close>

record rc_recv_msg =
  rm_qpn :: u32
  rm_call_id :: u32
  rm_data_offset :: nat
  rm_data_len :: nat
  rm_response_allowance :: u64

text \<open>Endpoint, responses delivered so far, and the stack of received requests.\<close>

type_synonym 'u rx = "'u rc_endpoint \<times> ('u \<times> bytes) list \<times> rc_recv_msg list"

section \<open>One completion\<close>

definition process_message :: "u32 \<Rightarrow> 'u rx \<Rightarrow> (unit, rpc_error) outcome \<times> 'u rx" where
  "process_message qpn = (\<lambda>(ep, responses, stack).
     let pos = last_recv_pos ep;
         header_offset = recv_off ep pos
     in if length (recv_ring ep) < header_offset + HEADER_SIZE then (Panic, (ep, responses, stack))
        else let (call_id, piggyback, payload_len) = decode_header (recv_ring ep) header_offset;
                 msg_size = unat (padded_message_size payload_len);
                 ep1 = ep\<lparr>last_recv_pos := pos + msg_size\<rparr>;
                 data_offset = header_offset + HEADER_SIZE
             in if is_response call_id then
                  let original_call_id = unat (from_response_id call_id)
                  in case pending_calls ep1 original_call_id of
                       None \<Rightarrow> (Ok (), (ep1, responses, stack))
                     | Some user_data \<Rightarrow>
                         let ep2 = ep1\<lparr>pending_calls := (pending_calls ep1)(original_call_id := None)\<rparr>
                         in if length (recv_ring ep) < data_offset + unat payload_len
                            then (Panic, (ep2, responses, stack))
                            else (Ok (), (ep2, responses @
                                   [(user_data, read_at data_offset (unat payload_len) (recv_ring ep))],
                                   stack))
                else (Ok (), (ep1, responses, stack @
                       [\<lparr>rm_qpn = qpn, rm_call_id = call_id, rm_data_offset = data_offset,
                         rm_data_len = unat payload_len,
                         rm_response_allowance = ucast piggyback * ALIGNMENT\<rparr>])))"

primrec process_messages :: "nat \<Rightarrow> u32 \<Rightarrow> 'u rx \<Rightarrow> (unit, rpc_error) outcome \<times> 'u rx" where
  "process_messages 0 qpn s = (Ok (), s)"
| "process_messages (Suc n) qpn s =
     and_then (process_message qpn s) (\<lambda>_ s1. process_messages n qpn s1)"

text \<open>The record read through the pointer to it occupies its first 20 bytes.\<close>

definition process_cqe :: "u32 \<Rightarrow> u32 \<Rightarrow> 'u rx \<Rightarrow> (unit, rpc_error) outcome \<times> 'u rx" where
  "process_cqe imm qpn = (\<lambda>(ep, responses, stack).
     let ep1 = ep\<lparr>recv_ring_producer := recv_ring_producer ep + unat (decode_imm imm)\<rparr>;
         pos = last_recv_pos ep1;
         meta_offset = recv_off ep1 pos
     in if length (recv_ring ep1) < meta_offset + 20 then (Panic, (ep1, responses, stack))
        else let (ring_credit_return, credit_grant, message_count) =
                   decode_flow_metadata (recv_ring ep1) meta_offset;
                 ep2 = ep1\<lparr>remote_consumer_pos := remote_consumer_pos ep1 + unat ring_credit_return,
                           peer_credit_balance := peer_credit_balance ep1 + unat credit_grant,
                           last_recv_pos := pos + FLOW_METADATA_SIZE\<rparr>
             in if message_count = WRAP_MESSAGE_COUNT then
                  let pos' = last_recv_pos ep2;
                      recv_ring_len = length (recv_ring ep2);
                      remaining = recv_ring_len - recv_off ep2 pos'
                  in (Ok (), (ep2\<lparr>last_recv_pos := pos' + remaining\<rparr>, responses, stack))
                else process_messages (unat message_count) qpn (ep2, responses, stack))"

section \<open>The context\<close>

record 'u rc_context =
  endpoints :: "'u rc_endpoint fastmap"
  dirty_endpoints :: "u32 list"
  recv_stack :: "rc_recv_msg list"
  srq_posted :: nat
  srq_max_wr :: nat
  send_cqe_buffer :: "u32 list"

definition context_build :: "nat \<Rightarrow> 'u rc_context" where
  "context_build max_wr =
     \<lparr>endpoints = fm_new, dirty_endpoints = [], recv_stack = [], srq_posted = max_wr,
      srq_max_wr = max_wr, send_cqe_buffer = []\<rparr>"

definition create_endpoint :: "u32 \<Rightarrow> nat \<Rightarrow> u32 \<Rightarrow> rc_config \<Rightarrow> 'u rc_context \<Rightarrow> 'u rc_context" where
  "create_endpoint qpn addr rkey config ctx =
     ctx\<lparr>endpoints := snd (fm_insert (endpoints ctx) qpn (rc_endpoint_new qpn addr rkey config))\<rparr>"

text \<open>Storing an endpoint back behind its shared pointer.\<close>

definition put_endpoint :: "u32 \<Rightarrow> 'u rc_endpoint \<Rightarrow> 'u rc_context \<Rightarrow> 'u rc_context" where
  "put_endpoint qpn ep ctx = ctx\<lparr>endpoints := fm_get_mut (endpoints ctx) qpn (\<lambda>_. ep)\<rparr>"

definition mark_endpoint_dirty :: "u32 \<Rightarrow> 'u rc_context \<Rightarrow> 'u rc_context" where
  "mark_endpoint_dirty qpn ctx =
     (case fm_get (endpoints ctx) qpn of
        None \<Rightarrow> ctx
      | Some ep \<Rightarrow>
          if is_dirty ep then ctx
          else (put_endpoint qpn (ep\<lparr>is_dirty := True\<rparr>) ctx)
                 \<lparr>dirty_endpoints := dirty_endpoints ctx @ [qpn]\<rparr>)"

definition endpoint_call ::
  "submit_oracle \<Rightarrow> ((nat \<rightharpoonup> 'u) \<Rightarrow> nat) \<Rightarrow> u32 \<Rightarrow> bytes \<Rightarrow> 'u \<Rightarrow> u64 \<Rightarrow> 'u rc_context
     \<Rightarrow> (u32, 'u call_error) outcome \<times> 'u rc_context" where
  "endpoint_call submit slab_key qpn data user_data response_allowance ctx =
     (case fm_get (endpoints ctx) qpn of
        None \<Rightarrow> (Panic, ctx)
      | Some ep \<Rightarrow>
          (let (result, ep1) = rc_call submit slab_key data user_data response_allowance ep;
               ctx1 = put_endpoint qpn ep1 ctx
           in case result of
                Ok call_id \<Rightarrow> (Ok call_id, mark_endpoint_dirty qpn ctx1)
              | _ \<Rightarrow> (result, ctx1)))"

text \<open>A handle is the message popped from the stack; \<open>handle_data\<close> reads the ring in place.\<close>

definition recv :: "'u rc_context \<Rightarrow> rc_recv_msg option \<times> 'u rc_context" where
  "recv ctx =
     (if recv_stack ctx = [] then (None, ctx)
      else (Some (last (recv_stack ctx)), ctx\<lparr>recv_stack := butlast (recv_stack ctx)\<rparr>))"

definition handle_data :: "'u rc_context \<Rightarrow> rc_recv_msg \<Rightarrow> bytes option" where
  "handle_data ctx h =
     map_option (\<lambda>ep. read_at (rm_data_offset h) (rm_data_len h) (recv_ring ep))
       (fm_get (endpoints ctx) (rm_qpn h))"

definition handle_reply ::
  "submit_oracle \<Rightarrow> rc_recv_msg \<Rightarrow> bytes \<Rightarrow> 'u rc_context
     \<Rightarrow> (unit, rpc_error) outcome \<times> 'u rc_context" where
  "handle_reply submit h data ctx =
     (case fm_get (endpoints ctx) (rm_qpn h) of
        None \<Rightarrow> (Panic, ctx)
      | Some ep \<Rightarrow>
          (let (result, ep1) = rc_reply submit (rm_call_id h) (rm_response_allowance h) data ep;
               ctx1 = put_endpoint (rm_qpn h) ep1 ctx
           in case result of
                Ok _ \<Rightarrow> (Ok (), mark_endpoint_dirty (rm_qpn h) ctx1)
              | _ \<Rightarrow> (result, ctx1)))"

section \<open>Polling\<close>

text \<open>A receive completion: queue pair, whether it reports an error, immediate value.\<close>

record rc_cqe =
  cqe_qpn :: u32
  cqe_error :: bool
  cqe_imm :: u32

definition process_cqe_static ::
  "rc_cqe \<Rightarrow> ('u \<times> bytes) list \<times> 'u rc_context
     \<Rightarrow> (unit, rpc_error) outcome \<times> ('u \<times> bytes) list \<times> 'u rc_context" where
  "process_cqe_static cqe = (\<lambda>(responses, ctx).
     if cqe_error cqe then (Ok (), (responses, ctx))
     else case fm_get (endpoints ctx) (cqe_qpn cqe) of
       None \<Rightarrow> (Ok (), (responses, ctx))
     | Some ep \<Rightarrow>
         (let (result, (ep1, responses1, stack1)) =
                process_cqe (cqe_imm cqe) (cqe_qpn cqe) (ep, responses, recv_stack ctx)
          in (result, (responses1, (put_endpoint (cqe_qpn cqe) ep1 ctx)\<lparr>recv_stack := stack1\<rparr>))))"

fun drain_recv_cq ::
  "rc_cqe list \<Rightarrow> ('u \<times> bytes) list \<times> 'u rc_context
     \<Rightarrow> (unit, rpc_error) outcome \<times> ('u \<times> bytes) list \<times> 'u rc_context" where
  "drain_recv_cq [] s = (Ok (), s)"
| "drain_recv_cq (c # cs) s = and_then (process_cqe_static c s) (\<lambda>_ s1. drain_recv_cq cs s1)"

text \<open>Reposting receive buffers once fewer than two thirds are left.\<close>

definition srq_repost :: "nat \<Rightarrow> 'u rc_context \<Rightarrow> 'u rc_context" where
  "srq_repost recv_count ctx =
     (if 0 < recv_count then
        let posted = srq_posted ctx - recv_count;
            threshold = srq_max_wr ctx * 2 div 3
        in if posted < threshold then ctx\<lparr>srq_posted := srq_max_wr ctx\<rparr>
           else ctx\<lparr>srq_posted := posted\<rparr>
      else ctx)"

definition poll_recv_only ::
  "rc_cqe list \<Rightarrow> 'u rc_context \<Rightarrow> (nat, rpc_error) outcome \<times> ('u \<times> bytes) list \<times> 'u rc_context" where
  "poll_recv_only cqes ctx =
     and_then (drain_recv_cq cqes ([], ctx)) (\<lambda>_ (responses, ctx1).
       (Ok (length cqes), (responses, srq_repost (length cqes) ctx1)))"

text \<open>
  A send completion as the callback of the queue pair sees it: the owning queue pair, whether
  it reports an error, and the queue pair number stored in its entry, which is the sentinel
  for raw requests.
\<close>

record rc_send_cqe =
  scqe_owner :: u32
  scqe_error :: bool
  scqe_entry :: u32

definition sq_callback :: "rc_send_cqe \<Rightarrow> 'u rc_context \<Rightarrow> 'u rc_context" where
  "sq_callback c ctx =
     (if scqe_error c then ctx
      else if scqe_entry c = RAW_RDMA_SENTINEL_QPN then
        ctx\<lparr>endpoints := fm_get_mut (endpoints ctx) (scqe_owner c)
              (\<lambda>ep. ep\<lparr>raw_rdma_done := raw_rdma_done ep + 1\<rparr>)\<rparr>
      else ctx\<lparr>send_cqe_buffer := send_cqe_buffer ctx @ [scqe_entry c]\<rparr>)"

text \<open>
  One round of the loop over the dirty queue.  Every endpoint has its own queue pair and hence
  its own submission answers.
\<close>

definition flush_one ::
  "(u32 \<Rightarrow> submit_oracle) \<Rightarrow> 'u rc_context \<Rightarrow> (unit, rpc_error) outcome \<times> 'u rc_context" where
  "flush_one submit ctx =
     (case dirty_endpoints ctx of
        [] \<Rightarrow> (Ok (), ctx)
      | qpn # rest \<Rightarrow>
          (let ctx1 = ctx\<lparr>dirty_endpoints := rest\<rparr>
           in case fm_get (endpoints ctx1) qpn of
                None \<Rightarrow> (Ok (), ctx1)
              | Some ep \<Rightarrow>
                  (let (result, ep1) = flush (submit qpn) ep
                   in case result of
                        Err _ \<Rightarrow> (Ok (), put_endpoint qpn (ep1\<lparr>is_dirty := False\<rparr>) ctx1)
                      | Ok _ \<Rightarrow>
                          (Ok (), if has_pending_send ep1 then
                                    (put_endpoint qpn ep1 ctx1)\<lparr>dirty_endpoints := rest @ [qpn]\<rparr>
                                  else put_endpoint qpn (ep1\<lparr>is_dirty := False\<rparr>) ctx1)
                      | Panic \<Rightarrow> (Panic, put_endpoint qpn ep1 ctx1))))"

partial_function (option) flush_dirty ::
  "(u32 \<Rightarrow> submit_oracle) \<Rightarrow> 'u rc_context
     \<Rightarrow> ((unit, rpc_error) outcome \<times> 'u rc_context) option" where
  "flush_dirty submit ctx =
     (if dirty_endpoints ctx = [] then Some (Ok (), ctx)
      else if fst (flush_one submit ctx) = Ok () then flush_dirty submit (snd (flush_one submit ctx))
      else Some (flush_one submit ctx))"

definition flush_endpoints ::
  "(u32 \<Rightarrow> submit_oracle) \<Rightarrow> rc_send_cqe list \<Rightarrow> 'u rc_context
     \<Rightarrow> ((unit, rpc_error) outcome \<times> 'u rc_context) option" where
  "flush_endpoints submit send_cqes ctx =
     flush_dirty submit ((fold sq_callback send_cqes ctx)\<lparr>send_cqe_buffer := []\<rparr>)"

definition poll ::
  "(u32 \<Rightarrow> submit_oracle) \<Rightarrow> rc_cqe list \<Rightarrow> rc_send_cqe list \<Rightarrow> 'u rc_context
     \<Rightarrow> ((unit, rpc_error) outcome \<times> ('u \<times> bytes) list \<times> 'u rc_context) option" where
  "poll submit cqes send_cqes ctx =
     (let (result, (responses, ctx1)) = poll_recv_only cqes ctx
      in case result of
           Ok _ \<Rightarrow> map_option (\<lambda>(r, ctx2). (r, (responses, ctx2))) (flush_endpoints submit send_cqes ctx1)
         | Err e \<Rightarrow> Some (Err e, (responses, ctx1))
         | Panic \<Rightarrow> Some (Panic, (responses, ctx1)))"

end
