(* ===== verification/Copyrpc_RC_Safety.thy ===== *)
theory Copyrpc_RC_Safety
  imports Copyrpc_RC_Context
begin

text \<open>
  Invariants of a connected endpoint.  \<open>rc_wf\<close> is the layout of the open batch in the send
  ring; every operation keeps it, whatever the send queue answers, and under it no operation
  leaves the ring.  \<open>rc_credit\<close> is the credit invariant that the comments of the source state
  as \<open>in_flight + 2 * R \<le> C\<close>, made precise for the states between two operations.
\<close>

abbreviation ssize :: "'u rc_endpoint \<Rightarrow> nat" where
  "ssize ep \<equiv> length (send_ring ep)"

abbreviation rc_parse :: "nat \<Rightarrow> bytes \<Rightarrow> nat \<Rightarrow> ((u32 \<times> u32 \<times> u32) \<times> bytes) list" where
  "rc_parse \<equiv> parse_frames decode_header rc_plen padded_message_size HEADER_SIZE"

abbreviation rc_span :: "((u32 \<times> u32 \<times> u32) \<times> bytes) list \<Rightarrow> nat" where
  "rc_span \<equiv> frames_span rc_plen padded_message_size"

definition batch_frames :: "'u rc_endpoint \<Rightarrow> ((u32 \<times> u32 \<times> u32) \<times> bytes) list" where
  "batch_frames ep =
     rc_parse (batch_message_count ep) (send_ring ep) (meta_pos ep mod ssize ep + FLOW_METADATA_SIZE)"

definition batch_len :: "'u rc_endpoint \<Rightarrow> nat" where
  "batch_len ep = send_ring_producer ep - meta_pos ep"

text \<open>
  The last clause: the messages fill the batch exactly, or a wrap was interrupted by the send
  queue and the (empty) batch extends to the end of the ring until it is retried.
\<close>

definition rc_wf :: "'u rc_endpoint \<Rightarrow> bool" where
  "rc_wf ep \<longleftrightarrow>
     is_pow2 (ssize ep) \<and> 64 \<le> ssize ep \<and> ssize ep \<le> 2 ^ 32 \<and>
     map_option rr_size (remote_recv_ring ep) = Some (ssize ep) \<and>
     32 dvd meta_pos ep \<and> 32 dvd send_ring_producer ep \<and>
     flush_start_pos ep = meta_pos ep \<and> meta_pos ep + 32 \<le> send_ring_producer ep \<and>
     meta_pos ep mod ssize ep + batch_len ep \<le> ssize ep \<and>
     last_notified_recv_pos ep \<le> last_recv_pos ep \<and>
     remote_consumer_pos ep \<le> meta_pos ep \<and>
     resp_reservation ep \<le> max_resp_reservation ep \<and> max_resp_reservation ep \<le> ssize ep div 4 \<and>
     (batch_len ep = 32 + rc_span (batch_frames ep) \<or>
      batch_message_count ep = 0 \<and> meta_pos ep mod ssize ep + batch_len ep = ssize ep)"

text \<open>Everything up to the base has been, or will certainly be, written into the peer's ring.\<close>

definition rc_base :: "'u rc_endpoint \<Rightarrow> nat" where
  "rc_base ep = (if batch_message_count ep = 0 then meta_pos ep else send_ring_producer ep)"

definition rc_credit :: "nat \<Rightarrow> 'u rc_endpoint \<Rightarrow> bool" where
  "rc_credit slack ep \<longleftrightarrow>
     rc_base ep + 2 * resp_reservation ep \<le> ssize ep + remote_consumer_pos ep + slack"

section \<open>Arithmetic of positions\<close>

lemma align_down_le: "align_down n \<le> n"
proof -
  have mask: "ALIGNMENT - 1 = mask 5" by (simp add: ALIGNMENT_def mask_eq_exp_minus_1)
  have "align_down n = (unat (word_of_nat n :: u64) div 2 ^ 5) * 2 ^ 5"
    unfolding align_down_def mask by (rule word_and_not_mask)
  also have "\<dots> \<le> unat (word_of_nat n :: u64)" by simp
  also have "\<dots> \<le> n" by (simp add: unat_of_nat)
  finally show ?thesis .
qed

lemma le_diff_diff: "y \<le> s - (p - c) \<Longrightarrow> 0 < y \<Longrightarrow> p + y \<le> s + (c :: nat)"
  by arith

lemma grant_bounds:
  assumes "remote_recv_ring ep = Some r"
  shows "resp_reservation ep \<le> max_resp_reservation ep \<Longrightarrow>
         resp_reservation ep + compute_credit_grant ep \<le> max_resp_reservation ep"
    and "compute_credit_grant ep = 0 \<or>
         send_ring_producer ep + 2 * (resp_reservation ep + compute_credit_grant ep)
           \<le> rr_size r + remote_consumer_pos ep"
proof -
  let ?g = "compute_credit_grant ep"
  let ?i = "(rr_size r - (send_ring_producer ep - remote_consumer_pos ep)) div 2 - resp_reservation ep"
  have le: "?g \<le> min ?i (max_resp_reservation ep - resp_reservation ep)"
    unfolding compute_credit_grant_def assms Let_def option.case by (rule align_down_le)
  then show "resp_reservation ep + ?g \<le> max_resp_reservation ep"
    if "resp_reservation ep \<le> max_resp_reservation ep"
    using that by linarith
  show "?g = 0 \<or> send_ring_producer ep + 2 * (resp_reservation ep + ?g) \<le> rr_size r + remote_consumer_pos ep"
  proof (cases "?g = 0")
    case False
    with le have "resp_reservation ep + ?g \<le> (rr_size r - (send_ring_producer ep - remote_consumer_pos ep)) div 2"
      by linarith
    then have "2 * (resp_reservation ep + ?g) \<le> rr_size r - (send_ring_producer ep - remote_consumer_pos ep)"
      by (simp add: less_eq_div_iff_mult_less_eq)
    moreover have "0 < ?g" using False by simp
    ultimately have "send_ring_producer ep + 2 * (resp_reservation ep + ?g) \<le> rr_size r + remote_consumer_pos ep"
      by (intro le_diff_diff) simp_all
    then show ?thesis ..
  qed simp
qed

section \<open>Posting a batch\<close>

lemma send_off_mod [mask_simps]: "is_pow2 (ssize ep) \<Longrightarrow> send_off ep p = p mod ssize ep"
  unfolding send_off_def by (rule and_pow2_mod)

text \<open>The endpoint after its request was accepted.\<close>

definition posted :: "rc_remote_ring \<Rightarrow> 'u rc_endpoint \<Rightarrow> 'u rc_endpoint" where
  "posted r ep =
     ep\<lparr>sq_attempts := sq_attempts ep + 1,
        sq := sq ep @ [batch_wqe r (flush_start_pos ep) (send_ring_producer ep)
                         (SIGNAL_INTERVAL \<le> unsignaled_count ep) ep],
        unsignaled_count := (if SIGNAL_INTERVAL \<le> unsignaled_count ep then 0
                             else unsignaled_count ep + 1),
        flush_start_pos := send_ring_producer ep,
        needs_doorbell := True\<rparr>"

lemma emit_raw_ready:
  assumes "remote_recv_ring ep = Some r" "is_pow2 (ssize ep)"
    and "flush_start_pos ep < send_ring_producer ep"
    and "flush_start_pos ep mod ssize ep + (send_ring_producer ep - flush_start_pos ep) \<le> ssize ep"
  shows "emit_raw submit ep =
    (if submit (sq_attempts ep) = None then (Ok True, posted r ep)
     else (Err Io, ep\<lparr>sq_attempts := sq_attempts ep + 1\<rparr>))"
proof -
  let ?d = "send_ring_producer ep - flush_start_pos ep"
  have "send_off ep (flush_start_pos ep) + (if ?d \<le> MAX_INLINE_ONLY then ?d else MAX_INLINE_HYBRID)
          \<le> ssize ep"
    unfolding send_off_mod [OF assms(2)] MAX_INLINE_ONLY_def MAX_INLINE_HYBRID_def
    using assms(4) by (auto split: if_split)
  then show ?thesis
    using assms(1,3) by (auto simp: emit_raw_def Let_def posted_def)
qed

lemma wf_remote:
  assumes "rc_wf ep"
  obtains r where "remote_recv_ring ep = Some r" "rr_size r = ssize ep"
  using assms by (auto simp: rc_wf_def)

lemma wf_producer: "rc_wf ep \<Longrightarrow> send_ring_producer ep = meta_pos ep + batch_len ep"
  by (simp add: rc_wf_def batch_len_def)

lemma wf_room:
  assumes "rc_wf ep"
  shows "meta_pos ep mod ssize ep + 32 \<le> ssize ep"
  using assms by (intro aligned_room) (auto simp: rc_wf_def intro: pow2_dvd_32)

lemma length_flow_write [simp]:
  "off + 32 \<le> length buf \<Longrightarrow> length (encode_flow_metadata buf off a b c) = length buf"
  by (simp add: encode_flow_metadata_def length_write_at FLOW_METADATA_SIZE_def)

text \<open>Metadata lies in front of the messages of its batch.\<close>

lemma frames_flow_write:
  assumes "off + 32 + rc_span (rc_parse n buf (off + 32)) \<le> length buf"
  shows "rc_parse n (encode_flow_metadata buf off a b c) (off + 32) = rc_parse n buf (off + 32)"
  using assms
  by (intro rcf.parse_local [where m = "rc_span (rc_parse n buf (off + 32))"])
    (simp_all add: encode_flow_metadata_def read_write_after length_write_at
      FLOW_METADATA_SIZE_def)

lemma write_metadata_simps [simp]:
  "remote_recv_ring (write_metadata off n ep) = remote_recv_ring ep"
  "meta_pos (write_metadata off n ep) = meta_pos ep"
  "send_ring_producer (write_metadata off n ep) = send_ring_producer ep"
  "flush_start_pos (write_metadata off n ep) = flush_start_pos ep"
  "last_recv_pos (write_metadata off n ep) = last_recv_pos ep"
  "last_notified_recv_pos (write_metadata off n ep) = last_recv_pos ep"
  "remote_consumer_pos (write_metadata off n ep) = remote_consumer_pos ep"
  "max_resp_reservation (write_metadata off n ep) = max_resp_reservation ep"
  "resp_reservation (write_metadata off n ep) = resp_reservation ep + compute_credit_grant ep"
  "batch_message_count (write_metadata off n ep) = batch_message_count ep"
  "pending_calls (write_metadata off n ep) = pending_calls ep"
  "peer_credit_balance (write_metadata off n ep) = peer_credit_balance ep"
  "sq (write_metadata off n ep) = sq ep"
  "sq_attempts (write_metadata off n ep) = sq_attempts ep"
  "recv_ring (write_metadata off n ep) = recv_ring ep"
  "off + 32 \<le> ssize ep \<Longrightarrow> ssize (write_metadata off n ep) = ssize ep"
  by (simp_all add: write_metadata_def Let_def)

lemma batch_frames_write_metadata:
  assumes "off = meta_pos ep mod ssize ep" "off + 32 + rc_span (batch_frames ep) \<le> ssize ep"
  shows "batch_frames (write_metadata off n ep) = batch_frames ep"
  using assms frames_flow_write [of off "batch_message_count ep" "send_ring ep"]
  by (simp add: batch_frames_def FLOW_METADATA_SIZE_def write_metadata_def Let_def)

lemma fill_metadata_wf:
  assumes "rc_wf ep" "0 < batch_message_count ep"
  shows "rc_wf (fill_metadata ep)"
    and "batch_frames (fill_metadata ep) = batch_frames ep"
proof -
  obtain r where r: "remote_recv_ring ep = Some r" "rr_size r = ssize ep"
    using assms(1) by (rule wf_remote)
  have "meta_pos ep mod ssize ep + 32 + rc_span (batch_frames ep) \<le> ssize ep"
    using assms by (auto simp: rc_wf_def)
  then show frames: "batch_frames (fill_metadata ep) = batch_frames ep"
    unfolding fill_metadata_def using assms
    by (intro batch_frames_write_metadata) (simp_all add: rc_wf_def mask_simps)
  show "rc_wf (fill_metadata ep)"
    using assms frames wf_room [OF assms(1)] grant_bounds(1) [OF r(1)]
    by (simp add: rc_wf_def batch_len_def fill_metadata_def mask_simps)
qed

lemma fill_metadata_credit:
  assumes "rc_wf ep" "0 < batch_message_count ep" "rc_credit k ep"
  shows "rc_credit k (fill_metadata ep)"
proof -
  obtain r where r: "remote_recv_ring ep = Some r" "rr_size r = ssize ep"
    using assms(1) by (rule wf_remote)
  have "is_pow2 (ssize ep)" using assms(1) by (simp add: rc_wf_def)
  then show ?thesis
    using assms grant_bounds(2) [OF r(1)] r(2) wf_room [OF assms(1)]
    by (auto simp: rc_credit_def rc_base_def fill_metadata_def mask_simps)
qed

text \<open>Starting a fresh batch is fine wherever the previous one ended.\<close>

lemma prepare_wf:
  assumes "rc_wf (ep\<lparr>meta_pos := m, flush_start_pos := m\<rparr>)"
    and "flush_start_pos ep = send_ring_producer ep" "m \<le> send_ring_producer ep"
  shows "rc_wf (prepare_next_batch ep)"
proof -
  have S: "32 dvd ssize ep" "0 < ssize ep"
    using assms(1) by (auto simp: rc_wf_def intro: pow2_dvd_32)
  have "32 dvd send_ring_producer ep" using assms(1) by (simp add: rc_wf_def)
  then have "send_ring_producer ep mod ssize ep + 32 \<le> ssize ep"
    using S by (rule aligned_room)
  then show ?thesis
    using assms by (simp add: rc_wf_def prepare_next_batch_def Let_def batch_len_def
        batch_frames_def FLOW_METADATA_SIZE_def)
qed

lemma posted_simps [simp]:
  "remote_recv_ring (posted r ep) = remote_recv_ring ep"
  "send_ring (posted r ep) = send_ring ep"
  "recv_ring (posted r ep) = recv_ring ep"
  "meta_pos (posted r ep) = meta_pos ep"
  "send_ring_producer (posted r ep) = send_ring_producer ep"
  "flush_start_pos (posted r ep) = send_ring_producer ep"
  "last_recv_pos (posted r ep) = last_recv_pos ep"
  "last_notified_recv_pos (posted r ep) = last_notified_recv_pos ep"
  "remote_consumer_pos (posted r ep) = remote_consumer_pos ep"
  "max_resp_reservation (posted r ep) = max_resp_reservation ep"
  "resp_reservation (posted r ep) = resp_reservation ep"
  "batch_message_count (posted r ep) = batch_message_count ep"
  "pending_calls (posted r ep) = pending_calls ep"
  "peer_credit_balance (posted r ep) = peer_credit_balance ep"
  "needs_doorbell (posted r ep)"
  by (simp_all add: posted_def)

lemma posted_flush_start:
  "p = send_ring_producer ep \<Longrightarrow> (posted r ep)\<lparr>flush_start_pos := p\<rparr> = posted r ep"
  by (simp add: posted_def)

lemma prepare_simps [simp]:
  "remote_recv_ring (prepare_next_batch ep) = remote_recv_ring ep"
  "send_ring (prepare_next_batch ep) = send_ring ep"
  "recv_ring (prepare_next_batch ep) = recv_ring ep"
  "meta_pos (prepare_next_batch ep) = send_ring_producer ep"
  "send_ring_producer (prepare_next_batch ep) = send_ring_producer ep + 32"
  "batch_message_count (prepare_next_batch ep) = 0"
  "last_recv_pos (prepare_next_batch ep) = last_recv_pos ep"
  "last_notified_recv_pos (prepare_next_batch ep) = last_notified_recv_pos ep"
  "remote_consumer_pos (prepare_next_batch ep) = remote_consumer_pos ep"
  "resp_reservation (prepare_next_batch ep) = resp_reservation ep"
  "max_resp_reservation (prepare_next_batch ep) = max_resp_reservation ep"
  "pending_calls (prepare_next_batch ep) = pending_calls ep"
  "peer_credit_balance (prepare_next_batch ep) = peer_credit_balance ep"
  "sq (prepare_next_batch ep) = sq ep"
  "needs_doorbell (prepare_next_batch ep) = needs_doorbell ep"
  by (simp_all add: prepare_next_batch_def Let_def FLOW_METADATA_SIZE_def)

lemma wf_sq_attempts [simp]:
  "rc_wf (ep\<lparr>sq_attempts := n\<rparr>) = rc_wf ep" "rc_credit k (ep\<lparr>sq_attempts := n\<rparr>) = rc_credit k ep"
  "batch_frames (ep\<lparr>sq_attempts := n\<rparr>) = batch_frames ep"
  by (simp_all add: rc_wf_def batch_len_def batch_frames_def rc_credit_def rc_base_def)

text \<open>A well-formed endpoint can always post: the request is accepted or refused, no more.\<close>

lemma emit_raw_wf:
  assumes "rc_wf ep" "remote_recv_ring ep = Some r"
  shows "emit_raw submit ep =
    (if submit (sq_attempts ep) = None then (Ok True, posted r ep)
     else (Err Io, ep\<lparr>sq_attempts := sq_attempts ep + 1\<rparr>))"
  using assms by (intro emit_raw_ready) (auto simp: rc_wf_def batch_len_def)

lemma prepare_posted_wf:
  assumes "rc_wf ep"
  shows "rc_wf (prepare_next_batch (posted r ep))"
  using assms
  by (intro prepare_wf [where m = "meta_pos ep"])
    (auto simp: rc_wf_def batch_len_def batch_frames_def)

lemma prepare_posted_credit:
  "rc_credit k ep \<Longrightarrow> rc_base ep = send_ring_producer ep \<Longrightarrow>
     rc_credit k (prepare_next_batch (posted r ep))"
  by (simp add: rc_credit_def rc_base_def split: if_splits)

section \<open>Wrapping\<close>

definition wrap_filled :: "'u rc_endpoint \<Rightarrow> 'u rc_endpoint" where
  "wrap_filled ep =
     (write_metadata (meta_pos ep mod ssize ep) WRAP_MESSAGE_COUNT
        (ep\<lparr>send_ring_producer := meta_pos ep\<rparr>))
       \<lparr>send_ring_producer := meta_pos ep + (ssize ep - meta_pos ep mod ssize ep)\<rparr>"

lemma wrap_filled_props:
  assumes wf: "rc_wf ep" and "batch_message_count ep = 0"
  shows "rc_wf (wrap_filled ep)" "batch_message_count (wrap_filled ep) = 0"
    "ssize (wrap_filled ep) = ssize ep" "remote_recv_ring (wrap_filled ep) = remote_recv_ring ep"
    "meta_pos (wrap_filled ep) = meta_pos ep"
    "send_ring_producer (wrap_filled ep) = meta_pos ep + (ssize ep - meta_pos ep mod ssize ep)"
    "remote_consumer_pos (wrap_filled ep) = remote_consumer_pos ep"
    "pending_calls (wrap_filled ep) = pending_calls ep"
    "peer_credit_balance (wrap_filled ep) = peer_credit_balance ep"
    "rc_credit k ep \<Longrightarrow> rc_credit k (wrap_filled ep)"
proof -
  obtain r where r: "remote_recv_ring ep = Some r" "rr_size r = ssize ep"
    using wf by (rule wf_remote)
  let ?ep = "ep\<lparr>send_ring_producer := meta_pos ep\<rparr>"
  have S: "32 dvd ssize ep" using wf by (auto simp: rc_wf_def intro: pow2_dvd_32)
  have m: "meta_pos ep mod ssize ep + 32 \<le> ssize ep" using wf by (rule wf_room)
  have "32 dvd (meta_pos ep + ssize ep) - meta_pos ep mod ssize ep"
    using wf S by (intro dvd_diff_nat dvd_mod dvd_add) (simp_all add: rc_wf_def)
  then have al: "32 dvd meta_pos ep + ssize ep - meta_pos ep mod ssize ep"
    and room: "meta_pos ep + 32 \<le> meta_pos ep + ssize ep - meta_pos ep mod ssize ep"
    using m by simp_all
  have grant: "remote_recv_ring ?ep = Some r" using r by simp
  show "rc_wf (wrap_filled ep)"
    using wf m al room assms(2) grant_bounds(1) [OF grant]
    by (simp add: rc_wf_def batch_len_def wrap_filled_def)
  show "rc_credit k (wrap_filled ep)" if "rc_credit k ep"
    using that m assms(2) grant_bounds(2) [OF grant] r(2)
    by (auto simp: rc_credit_def rc_base_def wrap_filled_def)
qed (use assms wf_room [OF wf] in \<open>simp_all add: wrap_filled_def\<close>)

lemma emit_wrap_wf:
  assumes "rc_wf ep" "batch_message_count ep = 0" "remote_recv_ring ep = Some r"
  shows "emit_wrap submit ep =
    (if submit (sq_attempts ep) = None
     then (Ok (), prepare_next_batch (posted r (wrap_filled ep)))
     else (Err Io, (wrap_filled ep)\<lparr>sq_attempts := sq_attempts ep + 1\<rparr>))"
proof -
  have p: "is_pow2 (ssize ep)" using assms(1) by (simp add: rc_wf_def)
  have "emit_wrap submit ep =
      and_then (emit_raw submit (wrap_filled ep)) (\<lambda>_ ep4. (Ok (), prepare_next_batch ep4))"
    by (simp add: emit_wrap_def wrap_filled_def Let_def send_off_mod [OF p])
  moreover have "sq_attempts (wrap_filled ep) = sq_attempts ep"
    by (simp add: wrap_filled_def)
  moreover have "remote_recv_ring (wrap_filled ep) = Some r"
    using wrap_filled_props(4) [OF assms(1,2)] assms(3) by simp
  note emit_raw_wf [OF wrap_filled_props(1) [OF assms(1,2)] this, of submit]
  ultimately show ?thesis by (simp add: outcome_simps)
qed

text \<open>The endpoint after a completed wrap: an empty batch at the start of the ring.\<close>

definition wrapped :: "rc_remote_ring \<Rightarrow> 'u rc_endpoint \<Rightarrow> 'u rc_endpoint" where
  "wrapped r ep = prepare_next_batch (posted r (wrap_filled ep))"

lemma wrapped_props:
  assumes "rc_wf ep" "batch_message_count ep = 0"
  shows "rc_wf (wrapped r ep)" "batch_message_count (wrapped r ep) = 0"
    "ssize (wrapped r ep) = ssize ep" "meta_pos (wrapped r ep) mod ssize ep = 0"
    "batch_len (wrapped r ep) = 32"
    "meta_pos (wrapped r ep) = meta_pos ep + (ssize ep - meta_pos ep mod ssize ep)"
    "remote_consumer_pos (wrapped r ep) = remote_consumer_pos ep"
    "remote_recv_ring (wrapped r ep) = remote_recv_ring ep"
    "pending_calls (wrapped r ep) = pending_calls ep"
    "peer_credit_balance (wrapped r ep) = peer_credit_balance ep"
    "rc_credit k ep \<Longrightarrow> rc_credit (k + (ssize ep - meta_pos ep mod ssize ep)) (wrapped r ep)"
proof -
  note w = wrap_filled_props [OF assms]
  show "rc_wf (wrapped r ep)" unfolding wrapped_def by (rule prepare_posted_wf [OF w(1)])
  have "0 < ssize ep" using assms(1) is_pow2_pos unfolding rc_wf_def by blast
  then have "(meta_pos ep + (ssize ep - meta_pos ep mod ssize ep)) mod ssize ep = 0"
    by (rule mod_fill)
  then show "meta_pos (wrapped r ep) mod ssize ep = 0"
    unfolding wrapped_def prepare_simps posted_simps w(6) .
  show "rc_credit (k + (ssize ep - meta_pos ep mod ssize ep)) (wrapped r ep)" if "rc_credit k ep"
    using w(10) [OF that] by (simp add: rc_credit_def rc_base_def wrapped_def w)
qed (simp_all add: wrapped_def batch_len_def wrap_filled_props [OF assms])

text \<open>The open batch when no wrap is pending and no batch ends exactly at the ring's end.\<close>

definition rc_tight :: "'u rc_endpoint \<Rightarrow> bool" where
  "rc_tight ep \<longleftrightarrow>
     (if batch_message_count ep = 0 then batch_len ep = 32
      else meta_pos ep mod ssize ep + batch_len ep < ssize ep)"

definition closed :: "rc_remote_ring \<Rightarrow> 'u rc_endpoint \<Rightarrow> 'u rc_endpoint" where
  "closed r ep =
     (if 0 < batch_message_count ep then prepare_next_batch (posted r (fill_metadata ep)) else ep)"

lemma fill_metadata_simps [simp]:
  "remote_recv_ring (fill_metadata ep) = remote_recv_ring ep"
  "meta_pos (fill_metadata ep) = meta_pos ep"
  "send_ring_producer (fill_metadata ep) = send_ring_producer ep"
  "remote_consumer_pos (fill_metadata ep) = remote_consumer_pos ep"
  "batch_message_count (fill_metadata ep) = batch_message_count ep"
  "pending_calls (fill_metadata ep) = pending_calls ep"
  "peer_credit_balance (fill_metadata ep) = peer_credit_balance ep"
  "sq_attempts (fill_metadata ep) = sq_attempts ep"
  "sq (fill_metadata ep) = sq ep"
  "recv_ring (fill_metadata ep) = recv_ring ep"
  "last_recv_pos (fill_metadata ep) = last_recv_pos ep"
  by (simp_all add: fill_metadata_def)

lemma closed_props:
  assumes "rc_wf ep"
  shows "rc_wf (closed r ep)" "batch_message_count (closed r ep) = 0"
    "ssize (closed r ep) = ssize ep" "remote_recv_ring (closed r ep) = remote_recv_ring ep"
    "remote_consumer_pos (closed r ep) = remote_consumer_pos ep"
    "pending_calls (closed r ep) = pending_calls ep"
    "peer_credit_balance (closed r ep) = peer_credit_balance ep"
    "rc_credit k ep \<Longrightarrow> rc_credit k (closed r ep)"
    "meta_pos (closed r ep) = rc_base ep"
proof -
  have p: "is_pow2 (ssize ep)" using assms by (simp add: rc_wf_def)
  show "rc_wf (closed r ep)"
    using assms fill_metadata_wf(1) prepare_posted_wf by (auto simp: closed_def)
  show "rc_credit k (closed r ep)" if "rc_credit k ep"
    using that fill_metadata_credit [OF assms]
    by (auto simp: closed_def rc_base_def intro: prepare_posted_credit)
  show "ssize (closed r ep) = ssize ep"
    using wf_room [OF assms] by (simp add: closed_def fill_metadata_def mask_simps p)
qed (simp_all add: closed_def rc_base_def)

lemma close_batch_wf:
  assumes "rc_wf ep" "0 < batch_message_count ep" "remote_recv_ring ep = Some r"
  shows "emit_raw submit (fill_metadata ep) =
    (if submit (sq_attempts ep) = None then (Ok True, posted r (fill_metadata ep))
     else (Err Io, (fill_metadata ep)\<lparr>sq_attempts := sq_attempts ep + 1\<rparr>))"
  using emit_raw_wf [OF fill_metadata_wf(1) [OF assms(1,2)], of r submit] assms(3) by simp

text \<open>The three ways in which making room for \<open>n\<close> more bytes can end.\<close>

lemma handle_wrap_cases:
  assumes "rc_wf ep"
  obtains (fits) "handle_wrap_if_needed submit n ep = (Ok False, ep)"
        "meta_pos ep mod ssize ep + batch_len ep + n < ssize ep"
  | (refused) ep' where "handle_wrap_if_needed submit n ep = (Err Io, ep')" "rc_wf ep'"
  | (wraps) r where "handle_wrap_if_needed submit n ep = (Ok True, wrapped r (closed r ep))"
        "ssize ep \<le> meta_pos ep mod ssize ep + batch_len ep + n" "remote_recv_ring ep = Some r"
proof -
  obtain r where r: "remote_recv_ring ep = Some r" using assms by (rule wf_remote)
  have p: "is_pow2 (ssize ep)" using assms by (simp add: rc_wf_def)
  note c = closed_props [OF assms]
  note wrap = emit_wrap_wf [OF c(1,2), of r r submit] c(4) r
  note filled = wrap_filled_props(1) [OF c(1,2)]
  have def: "handle_wrap_if_needed submit n ep =
      (if meta_pos ep mod ssize ep + batch_len ep + n < ssize ep then (Ok False, ep)
       else and_then
         (if 0 < batch_message_count ep then
            and_then (emit_raw submit (fill_metadata ep)) (\<lambda>_ ep1.
              (Ok (), prepare_next_batch (ep1\<lparr>flush_start_pos := send_ring_producer ep1\<rparr>)))
          else (Ok (), ep))
         (\<lambda>_ ep2. and_then (emit_wrap submit ep2) (\<lambda>_ ep3. (Ok True, ep3))))"
    unfolding handle_wrap_if_needed_def Let_def send_off_mod [OF p] batch_len_def
    by (simp add: add.assoc)
  show thesis
  proof (cases "meta_pos ep mod ssize ep + batch_len ep + n < ssize ep")
    case True
    then show ?thesis using fits def by simp
  next
    case nofit: False
    show ?thesis
    proof (cases "0 < batch_message_count ep \<and> submit (sq_attempts ep) \<noteq> None")
      case True
      then show ?thesis
        using nofit close_batch_wf [OF assms _ r, of submit] fill_metadata_wf(1) [OF assms]
        by (intro refused [of "(fill_metadata ep)\<lparr>sq_attempts := sq_attempts ep + 1\<rparr>"])
          (auto simp: def outcome_simps)
    next
      case False
      then have "handle_wrap_if_needed submit n ep =
          and_then (emit_wrap submit (closed r ep)) (\<lambda>_ ep3. (Ok True, ep3))"
        using nofit close_batch_wf [OF assms _ r, of submit]
        by (auto simp: def outcome_simps closed_def posted_flush_start)
      then show ?thesis
        using nofit wrap filled refused [of "(wrap_filled (closed r ep))\<lparr>sq_attempts := sq_attempts (closed r ep) + 1\<rparr>"]
          wraps [of r]
        by (cases "submit (sq_attempts (closed r ep)) = None") (simp_all add: outcome_simps wrapped_def)
    qed
  qed
qed

lemma handle_wrap_fits:
  assumes "rc_wf ep" "meta_pos ep mod ssize ep + batch_len ep + n < ssize ep"
  shows "handle_wrap_if_needed submit n ep = (Ok False, ep)"
proof -
  have "is_pow2 (ssize ep)" using assms(1) by (simp add: rc_wf_def)
  then show ?thesis
    using assms(2) by (simp add: handle_wrap_if_needed_def Let_def mask_simps batch_len_def add.assoc)
qed

text \<open>How many bytes a wrap skips when it makes room for \<open>n\<close>.\<close>

lemma wrap_skip_bound:
  assumes "rc_wf ep" "rc_tight ep" "ssize ep \<le> meta_pos ep mod ssize ep + batch_len ep + n"
  shows "ssize ep - meta_pos (closed r ep) mod ssize ep \<le> 32 + n"
proof (cases "batch_message_count ep = 0")
  case True
  then show ?thesis using assms closed_props(9) [OF assms(1)] by (simp add: rc_tight_def rc_base_def)
next
  case False
  have "meta_pos ep + batch_len ep = send_ring_producer ep"
    using assms(1) by (simp add: rc_wf_def batch_len_def)
  moreover have "(meta_pos ep + batch_len ep) mod ssize ep = meta_pos ep mod ssize ep + batch_len ep"
    using assms(2) False by (intro mod_add_small) (simp add: rc_tight_def)
  ultimately show ?thesis
    using assms(3) False closed_props(9) [OF assms(1)] by (simp add: rc_base_def)
qed

section \<open>Flushing\<close>

lemma wf_doorbell [simp]:
  "rc_wf (ep\<lparr>needs_doorbell := b\<rparr>) = rc_wf ep" "rc_wf (ring_sq_doorbell_bf ep) = rc_wf ep"
  "rc_credit k (ep\<lparr>needs_doorbell := b\<rparr>) = rc_credit k ep"
  "rc_credit k (ring_sq_doorbell_bf ep) = rc_credit k ep"
  "rc_tight (ep\<lparr>needs_doorbell := b\<rparr>) = rc_tight ep" "rc_tight (ring_sq_doorbell_bf ep) = rc_tight ep"
  "rc_tight (ep\<lparr>sq_attempts := n\<rparr>) = rc_tight ep"
  by (simp_all add: rc_wf_def batch_len_def batch_frames_def rc_credit_def rc_base_def
      ring_sq_doorbell_bf_def rc_tight_def)

lemma emit_wqe_wf:
  assumes "rc_wf ep" "remote_recv_ring ep = Some r"
  shows "emit_wqe submit ep =
    (if batch_message_count ep = 0 then (Ok False, ep)
     else if submit (sq_attempts ep) = None then (Ok True, closed r ep)
     else (Err Io, (fill_metadata ep)\<lparr>sq_attempts := sq_attempts ep + 1\<rparr>))"
  using close_batch_wf [OF assms(1) _ assms(2), of submit]
  by (auto simp: emit_wqe_def closed_def outcome_simps)

definition rung :: "'u rc_endpoint \<Rightarrow> 'u rc_endpoint" where
  "rung ep = (if needs_doorbell ep then (ring_sq_doorbell_bf ep)\<lparr>needs_doorbell := False\<rparr> else ep)"

lemma flush_wf:
  assumes "rc_wf ep" "remote_recv_ring ep = Some r"
  shows "flush submit ep =
    (if batch_message_count ep = 0 then (Ok (), rung ep)
     else if submit (sq_attempts ep) = None then (Ok (), rung (closed r ep))
     else (Err Io, (fill_metadata ep)\<lparr>sq_attempts := sq_attempts ep + 1\<rparr>))"
  using emit_wqe_wf [OF assms, of submit] by (simp add: flush_def rung_def outcome_simps)

lemma rung_props [simp]:
  "rc_wf (rung ep) = rc_wf ep" "rc_credit k (rung ep) = rc_credit k ep"
  "rc_tight (rung ep) = rc_tight ep"
  by (simp_all add: rung_def)

lemma fill_metadata_tight:
  assumes "rc_wf ep" shows "rc_tight (fill_metadata ep) = rc_tight ep"
  using wf_room [OF assms] assms
  by (simp add: rc_tight_def batch_len_def fill_metadata_def mask_simps rc_wf_def)

lemma closed_tight:
  "rc_wf ep \<Longrightarrow> rc_tight ep \<Longrightarrow> rc_tight (closed r ep)"
  by (cases "batch_message_count ep = 0") (simp_all add: rc_tight_def closed_def batch_len_def)

text \<open>The states of the credit argument.\<close>

definition rc_inv :: "'u rc_endpoint \<Rightarrow> bool" where
  "rc_inv ep \<longleftrightarrow> rc_wf ep \<and> rc_tight ep \<and> rc_credit 0 ep"

lemma flush_keeps:
  assumes "rc_wf ep"
  shows "rc_wf (snd (flush submit ep))" "fst (flush submit ep) \<noteq> Panic"
    "rc_inv ep \<Longrightarrow> rc_inv (snd (flush submit ep))"
proof -
  obtain r where r: "remote_recv_ring ep = Some r" using assms by (rule wf_remote)
  note f = flush_wf [OF assms r, of submit]
  show "rc_wf (snd (flush submit ep))"
    using assms closed_props(1) fill_metadata_wf(1) by (auto simp: f)
  show "fst (flush submit ep) \<noteq> Panic" by (simp add: f)
  show "rc_inv (snd (flush submit ep))" if "rc_inv ep"
    using that closed_props(1,8) [OF assms] fill_metadata_wf(1) [OF assms]
      fill_metadata_credit [OF assms] fill_metadata_tight [OF assms] closed_tight [OF assms]
    by (auto simp: f rc_inv_def)
qed

section \<open>Placing a message\<close>

text \<open>A message fits behind the batch without reaching over the end of the ring.\<close>

definition has_room :: "nat \<Rightarrow> 'u rc_endpoint \<Rightarrow> bool" where
  "has_room n ep \<longleftrightarrow>
     meta_pos ep mod ssize ep + batch_len ep + n \<le> ssize ep \<and> 0 < n \<and>
     batch_len ep = 32 + rc_span (batch_frames ep)"

abbreviation msize :: "bytes \<Rightarrow> nat" where
  "msize data \<equiv> unat (padded_message_size (word_of_nat (length data)))"

lemma msize_bounds:
  assumes "length data < 2 ^ 32"
  shows "12 + length data \<le> msize data" "32 \<le> msize data" "32 dvd msize data"
proof -
  have "unat (word_of_nat (length data) :: u32) = length data"
    using assms by (simp add: unat_of_nat)
  then show "12 + length data \<le> msize data" "32 dvd msize data"
    using padded_message_size_bounds [of "word_of_nat (length data)"] by (simp_all add: HEADER_SIZE_def)
  then show "32 \<le> msize data" by (auto dest!: dvd_imp_le)
qed

lemma write_message_wf:
  fixes ep :: "'u rc_endpoint"
  assumes wf: "rc_wf ep" and len: "length data < 2 ^ 32" and room: "has_room (msize data) ep"
  obtains ep' where "(write_message cid pb data ep :: (unit, 'e) outcome \<times> _) = (Ok (), ep')" "rc_wf ep'"
    "batch_frames ep' = batch_frames ep @ [((cid, ucast pb, word_of_nat (length data)), data)]"
    "batch_message_count ep' = batch_message_count ep + 1"
    "send_ring_producer ep' = send_ring_producer ep + msize data"
    "ep' = ep\<lparr>send_ring := send_ring ep', send_ring_producer := send_ring_producer ep',
              batch_message_count := batch_message_count ep'\<rparr>" "ssize ep' = ssize ep"
proof -
  let ?S = "ssize ep" and ?o = "meta_pos ep mod ssize ep"
  let ?h = "(cid, ucast pb :: u32, word_of_nat (length data) :: u32)"
  have p: "is_pow2 ?S" and mp: "meta_pos ep + batch_len ep = send_ring_producer ep"
    using wf by (simp_all add: rc_wf_def batch_len_def)
  note mb = msize_bounds [OF len]
  have lt: "?o + batch_len ep < ?S" using room by (simp add: has_room_def)
  then have off: "send_off ep (send_ring_producer ep) = ?o + batch_len ep"
    using mod_add_small [of "meta_pos ep" ?S "batch_len ep"] mp by (simp add: send_off_mod [OF p])
  let ?buf = "write_at (?o + batch_len ep + HEADER_SIZE) data
                (write_at (?o + batch_len ep) (header_image ?h) (send_ring ep))"
  define ep' where "ep' = ep\<lparr>send_ring := ?buf, send_ring_producer := send_ring_producer ep + msize data,
      batch_message_count := batch_message_count ep + 1\<rparr>"
  have fit: "?o + batch_len ep + HEADER_SIZE + length data \<le> ?S"
    using room mb by (simp add: has_room_def HEADER_SIZE_def)
  then have eq: "write_message cid pb data ep = (Ok () :: (unit, 'e) outcome, ep')"
    by (simp add: write_message_def Let_def off encode_header_def ep'_def)
  have S': "ssize ep' = ?S"
    using fit by (simp add: ep'_def length_write_at)
  have frames: "batch_frames ep' = batch_frames ep @ [(?h, data)]"
    using rcf.parse_append_frame [of "?o + 32" "batch_message_count ep" "send_ring ep" data ?h]
      fit room len S'
    by (simp add: batch_frames_def FLOW_METADATA_SIZE_def has_room_def ep'_def rc_plen_def
        unat_of_nat add.assoc)
  have len': "batch_len ep' = batch_len ep + msize data"
    using mp by (simp add: batch_len_def ep'_def)
  have "rc_wf ep'"
    using wf room S' frames len' mb
    by (simp add: rc_wf_def has_room_def ep'_def rc_plen_def)
  then show thesis using that [OF eq _ frames _ _ _ S'] by (simp add: ep'_def)
qed

lemma fits_room:
  "rc_wf ep \<Longrightarrow> 0 < n \<Longrightarrow> meta_pos ep mod ssize ep + batch_len ep + n < ssize ep \<Longrightarrow> has_room n ep"
  by (auto simp: rc_wf_def has_room_def)

lemma wrapped_frames: "batch_frames (wrapped r ep) = []"
  by (simp add: batch_frames_def wrapped_def)

lemma wrapped_room:
  assumes "rc_wf ep" "0 < n" "32 + n \<le> ssize ep"
  shows "has_room n (wrapped r (closed r ep))"
  using wrapped_props(3-5) [OF closed_props(1,2) [OF assms(1)], of r r] closed_props(3) [OF assms(1)] assms(2,3)
  by (simp add: has_room_def wrapped_frames)

lemma wf_adjust [simp]:
  "rc_wf (ep\<lparr>pending_calls := m\<rparr>) = rc_wf ep" "rc_wf (ep\<lparr>peer_credit_balance := b\<rparr>) = rc_wf ep"
  "has_room n (ep\<lparr>pending_calls := m\<rparr>) = has_room n ep"
  "has_room n (ep\<lparr>resp_reservation := x\<rparr>) = has_room n ep"
  "batch_frames (ep\<lparr>pending_calls := m\<rparr>) = batch_frames ep"
  "batch_frames (ep\<lparr>resp_reservation := x\<rparr>) = batch_frames ep"
  "batch_frames (ep\<lparr>peer_credit_balance := b\<rparr>) = batch_frames ep"
  "batch_len (ep\<lparr>pending_calls := m\<rparr>) = batch_len ep"
  "batch_len (ep\<lparr>resp_reservation := x\<rparr>) = batch_len ep"
  "batch_len (ep\<lparr>peer_credit_balance := b\<rparr>) = batch_len ep"
  by (simp_all add: rc_wf_def batch_len_def batch_frames_def has_room_def)

lemma wf_less_reserved: "rc_wf ep \<Longrightarrow> x \<le> resp_reservation ep \<Longrightarrow> rc_wf (ep\<lparr>resp_reservation := x\<rparr>)"
  by (simp add: rc_wf_def)

lemma wrapped_reserved: "resp_reservation ep \<le> resp_reservation (wrapped r (closed r ep))"
  by (simp add: wrapped_def wrap_filled_def closed_def fill_metadata_def)

text \<open>What a message placed behind a batch with room for it does, without the record it leaves.\<close>

lemma write_message_frames:
  fixes ep :: "'u rc_endpoint" and w :: "(unit, 'e) outcome \<times> 'u rc_endpoint"
  assumes "rc_wf ep" "length data < 2 ^ 32" "has_room (msize data) ep"
    and "w = write_message cid pb data ep"
  shows "fst w = Ok ()" "rc_wf (snd w)"
    "batch_frames (snd w) = batch_frames ep @ [((cid, ucast pb, word_of_nat (length data)), data)]"
    "batch_message_count (snd w) = batch_message_count ep + 1"
    "send_ring_producer (snd w) = send_ring_producer ep + msize data"
    "ssize (snd w) = ssize ep" "meta_pos (snd w) = meta_pos ep"
    "resp_reservation (snd w) = resp_reservation ep"
    "remote_consumer_pos (snd w) = remote_consumer_pos ep"
    "pending_calls (snd w) = pending_calls ep" "peer_credit_balance (snd w) = peer_credit_balance ep"
    "remote_recv_ring (snd w) = remote_recv_ring ep" "last_recv_pos (snd w) = last_recv_pos ep"
proof -
  from assms(1-3) obtain ep' where
    w: "(write_message cid pb data ep :: (unit, 'e) outcome \<times> _) = (Ok (), ep')" "rc_wf ep'"
      "batch_frames ep' = batch_frames ep @ [((cid, ucast pb, word_of_nat (length data)), data)]"
      "batch_message_count ep' = batch_message_count ep + 1"
      "send_ring_producer ep' = send_ring_producer ep + msize data"
    and eq: "ep' = ep\<lparr>send_ring := send_ring ep', send_ring_producer := send_ring_producer ep',
                batch_message_count := batch_message_count ep'\<rparr>" and S: "ssize ep' = ssize ep"
    by (rule write_message_wf [where cid = cid and pb = pb])
  show "meta_pos (snd w) = meta_pos ep" "resp_reservation (snd w) = resp_reservation ep"
    "remote_consumer_pos (snd w) = remote_consumer_pos ep" "pending_calls (snd w) = pending_calls ep"
    "peer_credit_balance (snd w) = peer_credit_balance ep" "remote_recv_ring (snd w) = remote_recv_ring ep"
    "last_recv_pos (snd w) = last_recv_pos ep"
    unfolding assms(4) w(1) snd_conv by (subst eq, simp)+
  show "fst w = Ok ()" "rc_wf (snd w)"
    "batch_frames (snd w) = batch_frames ep @ [((cid, ucast pb, word_of_nat (length data)), data)]"
    "batch_message_count (snd w) = batch_message_count ep + 1"
    "send_ring_producer (snd w) = send_ring_producer ep + msize data" "ssize (snd w) = ssize ep"
    unfolding assms(4) w(1) fst_conv snd_conv by (rule refl w S)+
qed

lemma write_message_inv:
  fixes ep :: "'u rc_endpoint" and w :: "(unit, 'e) outcome \<times> 'u rc_endpoint"
  assumes "rc_wf ep" "length data < 2 ^ 32" "has_room (msize data) ep"
    and "w = write_message cid pb data ep"
    and "meta_pos ep mod ssize ep + batch_len ep + msize data < ssize ep"
    and "send_ring_producer ep + msize data + 2 * resp_reservation ep \<le> ssize ep + remote_consumer_pos ep"
  shows "rc_inv (snd w)"
proof -
  have "meta_pos ep \<le> send_ring_producer ep" using assms(1) by (simp add: rc_wf_def)
  then show ?thesis
    using write_message_frames [OF assms(1-4)] assms(5,6)
    by (simp add: rc_inv_def rc_tight_def rc_credit_def rc_base_def batch_len_def)
qed

text \<open>The outcome of making room, as calls and replies use it.\<close>

lemma make_room:
  fixes ep :: "'u rc_endpoint"
  assumes wf: "rc_wf ep" and "0 < n" and h: "h = handle_wrap_if_needed submit n ep"
  shows "fst h \<noteq> Panic" "rc_wf (snd h)"
    "fst h = Ok b \<Longrightarrow> 32 + n \<le> ssize ep \<Longrightarrow> has_room n (snd h)"
    "fst h = Ok b \<Longrightarrow> batch_frames (snd h) = (if b then [] else batch_frames ep)"
    "fst h = Ok b \<Longrightarrow> ssize (snd h) = ssize ep \<and> remote_recv_ring (snd h) = remote_recv_ring ep \<and>
       pending_calls (snd h) = pending_calls ep \<and> peer_credit_balance (snd h) = peer_credit_balance ep \<and>
       remote_consumer_pos (snd h) = remote_consumer_pos ep"
proof -
  note c = closed_props [OF wf] and w = wrapped_props [OF closed_props(1,2) [OF wf]]
  have "fst h \<noteq> Panic \<and> rc_wf (snd h) \<and>
    (\<forall>b. fst h = Ok b \<longrightarrow>
      (32 + n \<le> ssize ep \<longrightarrow> has_room n (snd h)) \<and>
      batch_frames (snd h) = (if b then [] else batch_frames ep) \<and>
      ssize (snd h) = ssize ep \<and> remote_recv_ring (snd h) = remote_recv_ring ep \<and>
      pending_calls (snd h) = pending_calls ep \<and> peer_credit_balance (snd h) = peer_credit_balance ep \<and>
      remote_consumer_pos (snd h) = remote_consumer_pos ep)"
    using wf
  proof (cases rule: handle_wrap_cases [where submit = submit and n = n])
    case fits
    then show ?thesis using wf fits_room [OF wf \<open>0 < n\<close>] by (simp add: h)
  next
    case (refused ep')
    then show ?thesis by (simp add: h)
  next
    case (wraps r)
    then show ?thesis
      using w(1,3,7-10) c(3-7) wrapped_room [OF wf \<open>0 < n\<close>] by (simp add: h wrapped_frames)
  qed
  then show "fst h \<noteq> Panic" "rc_wf (snd h)"
    "fst h = Ok b \<Longrightarrow> 32 + n \<le> ssize ep \<Longrightarrow> has_room n (snd h)"
    "fst h = Ok b \<Longrightarrow> batch_frames (snd h) = (if b then [] else batch_frames ep)"
    "fst h = Ok b \<Longrightarrow> ssize (snd h) = ssize ep \<and> remote_recv_ring (snd h) = remote_recv_ring ep \<and>
       pending_calls (snd h) = pending_calls ep \<and> peer_credit_balance (snd h) = peer_credit_balance ep \<and>
       remote_consumer_pos (snd h) = remote_consumer_pos ep"
    by blast+
qed

section \<open>Replying\<close>

lemma reply_eq:
  assumes "rc_wf ep"
  shows "rc_reply submit cid allowance data ep =
    and_then (handle_wrap_if_needed submit (msize data) ep) (\<lambda>_ ep1.
      write_message (to_response_id cid) 0 data
        (ep1\<lparr>resp_reservation := resp_reservation ep1 - unat allowance\<rparr>))"
  using assms by (auto simp: rc_reply_def rc_wf_def Let_def)

lemma reply_Ok:
  assumes wf: "rc_wf ep" and len: "length data < 2 ^ 32" and fit: "32 + msize data \<le> ssize ep"
    and h: "handle_wrap_if_needed submit (msize data) ep = (Ok b, e)"
    and w: "w = rc_reply submit cid allowance data ep"
  shows "fst w = Ok ()" "rc_wf (snd w)"
    "batch_frames (snd w) = (if b then [] else batch_frames ep) @
       [((to_response_id cid, 0, word_of_nat (length data)), data)]"
proof -
  let ?e = "e\<lparr>resp_reservation := resp_reservation e - unat allowance\<rparr>"
  have "0 < msize data" using msize_bounds(2) [OF len] by simp
  note m = make_room [OF wf this, of "(Ok b, e)" submit, unfolded h, OF refl]
  have e: "rc_wf ?e" "has_room (msize data) ?e"
    using m(2) m(3) [of b] fit by (simp_all add: wf_less_reserved)
  have "w = write_message (to_response_id cid) 0 data ?e"
    by (simp add: w reply_eq [OF wf] h outcome_simps)
  note write_message_frames(1-3) [OF e(1) len e(2) this]
  then show "fst w = Ok ()" "rc_wf (snd w)"
    "batch_frames (snd w) = (if b then [] else batch_frames ep) @
       [((to_response_id cid, 0, word_of_nat (length data)), data)]"
    using m(4) [of b] by simp_all
qed

lemma reply_keeps:
  assumes wf: "rc_wf ep" and len: "length data < 2 ^ 32" and fit: "32 + msize data \<le> ssize ep"
  shows "rc_wf (snd (rc_reply submit cid allowance data ep))"
    "fst (rc_reply submit cid allowance data ep) \<noteq> Panic"
proof -
  have "0 < msize data" using msize_bounds(2) [OF len] by simp
  note m = make_room [OF wf this refl, of submit]
  obtain o' e where h: "handle_wrap_if_needed submit (msize data) ep = (o', e)" by fastforce
  show "rc_wf (snd (rc_reply submit cid allowance data ep))"
    "fst (rc_reply submit cid allowance data ep) \<noteq> Panic"
    using m(1,2) reply_Ok [OF wf len fit _ refl, of submit _ e cid allowance]
    by (cases o'; simp add: h reply_eq [OF wf] outcome_simps)+
qed

text \<open>A reply within the allowance of its request keeps the credit invariant.\<close>

lemma reply_inv:
  assumes inv: "rc_inv ep" and len: "length data < 2 ^ 32"
    and a: "32 + msize data \<le> unat allowance" "unat allowance \<le> resp_reservation ep"
    and ok: "fst (rc_reply submit cid allowance data ep) = Ok ()"
  shows "rc_inv (snd (rc_reply submit cid allowance data ep))"
proof -
  let ?n = "msize data"
  have wf: "rc_wf ep" and tight: "rc_tight ep" and credit: "rc_credit 0 ep"
    using inv by (simp_all add: rc_inv_def)
  have n: "0 < ?n" using msize_bounds(2) [OF len] by simp
  have quarter: "4 * resp_reservation ep \<le> ssize ep" and S: "64 \<le> ssize ep"
    using wf by (auto simp: rc_wf_def)
  then have fit: "32 + ?n < ssize ep" using a by linarith
  note c = closed_props [OF wf] and w = wrapped_props [OF closed_props(1,2) [OF wf]]
  have go: "rc_inv (snd (rc_reply submit cid allowance data ep))"
    if h: "handle_wrap_if_needed submit ?n ep = (Ok b, e)" and "rc_wf e" "has_room ?n e"
      and "meta_pos e mod ssize e + batch_len e + ?n < ssize e"
      and "send_ring_producer e + ?n + 2 * (resp_reservation e - unat allowance) \<le> ssize e + remote_consumer_pos e"
    for b e
    using that len
    by (intro write_message_inv [where ep = "e\<lparr>resp_reservation := resp_reservation e - unat allowance\<rparr>"
          and cid = "to_response_id cid" and pb = 0 and data = data])
      (simp_all add: reply_eq [OF wf] outcome_simps wf_less_reserved)
  show ?thesis
    using wf
  proof (cases rule: handle_wrap_cases [where submit = submit and n = ?n])
    case fits
    have "send_ring_producer ep \<le> rc_base ep + 32"
      using tight wf_producer [OF wf] by (simp add: rc_tight_def rc_base_def split: if_splits)
    then show ?thesis
      using fits credit a fits_room [OF wf n] wf
      by (intro go [OF fits(1)]) (simp_all add: rc_credit_def)
  next
    case (refused ep')
    with ok show ?thesis by (simp add: reply_eq [OF wf] outcome_simps)
  next
    case (wraps r)
    let ?w = "wrapped r (closed r ep)"
    have skip: "ssize ep - meta_pos (closed r ep) mod ssize ep \<le> 32 + ?n"
      by (rule wrap_skip_bound [OF wf tight wraps(2)])
    have "rc_credit (ssize ep - meta_pos (closed r ep) mod ssize ep) ?w"
      using w(11) [of 0 r] c(8) [OF credit] c(3) by simp
    then have "meta_pos ?w + 2 * resp_reservation ?w \<le> ssize ep + remote_consumer_pos ?w + (32 + ?n)"
      using skip w(2,3) c(3) by (simp add: rc_credit_def rc_base_def)
    moreover have "send_ring_producer ?w = meta_pos ?w + 32"
      using wf_producer [OF w(1)] w(5) by simp
    moreover have "resp_reservation ep \<le> resp_reservation ?w" by (rule wrapped_reserved)
    ultimately show ?thesis
      using a fit w(1-5) c(3) wrapped_room [OF wf n] by (intro go [OF wraps(1)]) simp_all
  qed
qed

section \<open>Calling\<close>

text \<open>The piggyback word of a request: its response allowance in alignment blocks.\<close>

definition call_blocks :: "u64 \<Rightarrow> u64" where
  "call_blocks allowance = ucast (ucast (internal_allowance allowance div ALIGNMENT) :: u32)"

lemma flush_then_error:
  assumes "rc_wf ep"
  shows "and_then (map_err Other (flush submit ep)) (\<lambda>_ ep'. (Err x, ep')) =
    (if fst (flush submit ep) = Ok () then Err x else Err (Other Io), snd (flush submit ep))"
proof -
  obtain r where "remote_recv_ring ep = Some r" using assms by (rule wf_remote)
  then show ?thesis using flush_wf [OF assms, of r submit] by (simp add: outcome_simps)
qed

definition call_full :: "bytes \<Rightarrow> nat \<Rightarrow> 'u rc_endpoint \<Rightarrow> bool" where
  "call_full data n e \<longleftrightarrow>
     n - (send_ring_producer e - remote_consumer_pos e) < msize data + 2 * resp_reservation e"

text \<open>The rest of a call once room was made.\<close>

lemma call_roomy:
  fixes ep :: "'u rc_endpoint"
  assumes "rc_wf ep" "length data < 2 ^ 32"
    and "unat (internal_allowance allowance) \<le> peer_credit_balance ep"
    and h: "handle_wrap_if_needed submit (msize data) ep = (Ok b, e)"
  shows "rc_call submit slab_key data u allowance ep =
    (if call_full data (ssize ep) e
     then and_then (map_err Other (flush submit e)) (\<lambda>_ ep2. (Err (CallRingFull u), ep2))
     else and_then (write_message (word_of_nat (slab_key (pending_calls ep))) (call_blocks allowance) data
            (e\<lparr>pending_calls := (pending_calls ep)(slab_key (pending_calls ep) \<mapsto> u)\<rparr>)) (\<lambda>_ ep3.
           (Ok (word_of_nat (slab_key (pending_calls ep))),
            ep3\<lparr>peer_credit_balance := peer_credit_balance ep3 - unat (internal_allowance allowance)\<rparr>)))"
proof -
  obtain r where r: "remote_recv_ring ep = Some r" "rr_size r = ssize ep" using assms(1) by (rule wf_remote)
  have "0 < msize data" using msize_bounds(2) [OF assms(2)] by simp
  note make_room(5) [OF assms(1) this refl, of submit, unfolded h, simplified]
  then show ?thesis
    using assms(3) by (simp add: rc_call_def r h outcome_simps Let_def call_blocks_def call_full_def)
qed

lemma call_not_full:
  assumes "rc_wf e" "0 < msize data" "\<not> call_full data (ssize e) e"
  shows "send_ring_producer e + msize data + 2 * resp_reservation e \<le> ssize e + remote_consumer_pos e"
    and "32 + msize data \<le> ssize e"
proof -
  show *: "send_ring_producer e + msize data + 2 * resp_reservation e \<le> ssize e + remote_consumer_pos e"
    using le_diff_diff [of "msize data + 2 * resp_reservation e"] assms(2,3)
    by (simp add: call_full_def not_less add.assoc)
  have "remote_consumer_pos e + 32 \<le> send_ring_producer e" using assms(1) by (auto simp: rc_wf_def)
  with * show "32 + msize data \<le> ssize e" by linarith
qed

lemma call_cases:
  fixes ep :: "'u rc_endpoint"
  assumes wf: "rc_wf ep" and len: "length data < 2 ^ 32"
  obtains (credit) x where "rc_call submit slab_key data u allowance ep = (Err x, snd (flush submit ep))"
      "peer_credit_balance ep < unat (internal_allowance allowance)"
      "x = InsufficientCredit u \<or> x = Other Io"
  | (refused) ep' where "rc_call submit slab_key data u allowance ep = (Err (Other Io), ep')" "rc_wf ep'"
      "handle_wrap_if_needed submit (msize data) ep = (Err Io, ep')"
  | (full) b e x where "rc_call submit slab_key data u allowance ep = (Err x, snd (flush submit e))"
      "handle_wrap_if_needed submit (msize data) ep = (Ok b, e)" "rc_wf e"
      "x = CallRingFull u \<or> x = Other Io" "call_full data (ssize e) e"
  | (placed) b e w where
      "rc_call submit slab_key data u allowance ep =
         (Ok (word_of_nat (slab_key (pending_calls ep))),
          (snd w)\<lparr>peer_credit_balance := peer_credit_balance ep - unat (internal_allowance allowance)\<rparr>)"
      "handle_wrap_if_needed submit (msize data) ep = (Ok b, e)" "rc_wf e" "has_room (msize data) e"
      "(w :: (unit, 'u call_error) outcome \<times> 'u rc_endpoint) =
         write_message (word_of_nat (slab_key (pending_calls ep))) (call_blocks allowance) data
           (e\<lparr>pending_calls := (pending_calls ep)(slab_key (pending_calls ep) \<mapsto> u)\<rparr>)"
      "unat (internal_allowance allowance) \<le> peer_credit_balance ep" "\<not> call_full data (ssize e) e"
proof -
  obtain r where r: "remote_recv_ring ep = Some r" using wf by (rule wf_remote)
  let ?A = "unat (internal_allowance allowance)" and ?n = "msize data"
  have n: "0 < ?n" using msize_bounds(2) [OF len] by simp
  obtain o' e where h: "handle_wrap_if_needed submit ?n ep = (o', e)" by fastforce
  note m = make_room [OF wf n, of "(o', e)" submit, unfolded h, OF refl, simplified]
  have no_err: "o' = Err x \<Longrightarrow> x = Io" for x
    using wf by (cases rule: handle_wrap_cases [where submit = submit and n = ?n]) (simp_all add: h)
  consider "peer_credit_balance ep < ?A" | "?A \<le> peer_credit_balance ep" "\<exists>x. o' = Err x"
    | b where "?A \<le> peer_credit_balance ep" "o' = Ok b"
    using m(1) by (cases o') fastforce+
  then show thesis
  proof cases
    case 1
    then show ?thesis
      using credit [of "InsufficientCredit u"] credit [of "Other Io"]
      by (cases "fst (flush submit ep) = Ok ()") (simp_all add: rc_call_def r flush_then_error [OF wf])
  next
    case 2
    then show ?thesis
      using no_err h m(2) refused [of e] by (auto simp: rc_call_def r outcome_simps)
  next
    case 3
    note h' = h [unfolded 3(2)] and m' = m(2) m(3-5) [OF 3(2)]
    note eq = call_roomy [OF wf len 3(1) h', of slab_key u]
    show ?thesis
    proof (cases "call_full data (ssize ep) e")
      case True
      then show ?thesis
        using h' m' full [of "CallRingFull u" e b] full [of "Other Io" e b]
        by (cases "fst (flush submit e) = Ok ()") (simp_all add: eq flush_then_error)
    next
      case False
      let ?w = "write_message (word_of_nat (slab_key (pending_calls ep))) (call_blocks allowance) data
                  (e\<lparr>pending_calls := (pending_calls ep)(slab_key (pending_calls ep) \<mapsto> u)\<rparr>)
                :: (unit, 'u call_error) outcome \<times> 'u rc_endpoint"
      have room: "has_room ?n e" using call_not_full(2) [of e data] False m' n by simp
      then have "fst ?w = Ok ()" "peer_credit_balance (snd ?w) = peer_credit_balance ep"
        using m' len by (simp_all add: write_message_frames [OF _ _ _ refl])
      then show ?thesis
        using placed [of ?w b e] False h' m' room 3(1) by (simp add: eq and_then_Ok_eq)
    qed
  qed
qed

lemma inv_peer_credit [simp]: "rc_inv (ep\<lparr>peer_credit_balance := b\<rparr>) = rc_inv ep"
  by (simp add: rc_inv_def rc_tight_def rc_credit_def rc_base_def)

lemma call_keeps:
  assumes "rc_wf ep" "length data < 2 ^ 32"
  shows "rc_wf (snd (rc_call submit slab_key data u allowance ep)) \<and>
         fst (rc_call submit slab_key data u allowance ep) \<noteq> Panic"
  using assms
proof (cases rule: call_cases [where submit = submit and slab_key = slab_key and u = u
      and allowance = allowance])
  case (placed b e w)
  have "rc_wf (snd w)" using placed(3,4) assms(2) by (intro write_message_frames(2) [OF _ _ _ placed(5)]) simp_all
  then show ?thesis using placed(1) by simp
qed (use assms flush_keeps(1) in simp_all)

text \<open>
  A call keeps the credit invariant when it succeeds, when it lacks credit, and when its
  message needs no wrap.
\<close>

lemma call_inv:
  assumes inv: "rc_inv ep" and len: "length data < 2 ^ 32" and fit: "32 + msize data < ssize ep"
    and ok: "(\<exists>c. fst (rc_call submit slab_key data u allowance ep) = Ok c) \<or>
             fst (rc_call submit slab_key data u allowance ep) = Err (InsufficientCredit u) \<or>
             meta_pos ep mod ssize ep + batch_len ep + msize data < ssize ep"
  shows "rc_inv (snd (rc_call submit slab_key data u allowance ep))"
proof -
  have wf: "rc_wf ep" using inv by (simp add: rc_inv_def)
  have n: "0 < msize data" using msize_bounds(2) [OF len] by simp
  have strict: "meta_pos e mod ssize e + batch_len e + msize data < ssize e \<and> ssize e = ssize ep \<and>
      (b \<or> e = ep)"
    if "handle_wrap_if_needed submit (msize data) ep = (Ok b, e)" for b e
    using wf
  proof (cases rule: handle_wrap_cases [where submit = submit and n = "msize data"])
    case (wraps r)
    then show ?thesis
      using that fit wrapped_props(3-5) [OF closed_props(1,2) [OF wf], of r r] closed_props(3) [OF wf]
      by auto
  qed (use that in auto)
  show ?thesis
    using wf len
  proof (cases rule: call_cases [where submit = submit and slab_key = slab_key and u = u
        and allowance = allowance])
    case (credit x)
    then show ?thesis using flush_keeps(3) [OF wf inv] by simp
  next
    case (refused ep')
    then show ?thesis using ok handle_wrap_fits [OF wf, of "msize data" submit] by auto
  next
    case (full b e x)
    then have "e = ep" using ok handle_wrap_fits [OF wf, of "msize data" submit] by auto
    then show ?thesis using full(1) flush_keeps(3) [OF wf inv] by simp
  next
    case (placed b e w)
    note s = strict [OF placed(2), THEN conjunct1]
    have "rc_inv (snd w)"
      using s call_not_full(1) [OF placed(3) n placed(7)] placed(3-5) len
      by (intro write_message_inv [OF _ _ _ placed(5)]) simp_all
    then show ?thesis using placed(1) by simp
  qed
qed

section \<open>Receiving\<close>

text \<open>The sending half of an endpoint: what receiving never touches.\<close>

definition tx :: "'u rc_endpoint \<Rightarrow> 'u rc_endpoint" where
  "tx ep = ep\<lparr>recv_ring := [], recv_ring_producer := 0, last_recv_pos := 0, remote_consumer_pos := 0,
              peer_credit_balance := 0, pending_calls := Map.empty\<rparr>"

lemma tx_fields:
  assumes "tx ep' = tx ep"
  shows "send_ring ep' = send_ring ep" "remote_recv_ring ep' = remote_recv_ring ep"
    "send_ring_producer ep' = send_ring_producer ep" "flush_start_pos ep' = flush_start_pos ep"
    "meta_pos ep' = meta_pos ep" "batch_message_count ep' = batch_message_count ep"
    "resp_reservation ep' = resp_reservation ep" "max_resp_reservation ep' = max_resp_reservation ep"
    "last_notified_recv_pos ep' = last_notified_recv_pos ep"
  using arg_cong [OF assms, of send_ring] arg_cong [OF assms, of remote_recv_ring]
    arg_cong [OF assms, of send_ring_producer] arg_cong [OF assms, of flush_start_pos]
    arg_cong [OF assms, of meta_pos] arg_cong [OF assms, of batch_message_count]
    arg_cong [OF assms, of resp_reservation] arg_cong [OF assms, of max_resp_reservation]
    arg_cong [OF assms, of last_notified_recv_pos]
  by (simp_all add: tx_def)

lemma wf_tx:
  assumes "tx ep' = tx ep" "last_recv_pos ep \<le> last_recv_pos ep'"
    and "remote_consumer_pos ep \<le> remote_consumer_pos ep'" "remote_consumer_pos ep' \<le> flush_start_pos ep"
  shows "rc_wf ep \<Longrightarrow> rc_wf ep'" "rc_inv ep \<Longrightarrow> rc_inv ep'"
proof -
  note f = tx_fields [OF assms(1)]
  have same: "batch_len ep' = batch_len ep" "batch_frames ep' = batch_frames ep"
    by (simp_all add: batch_len_def batch_frames_def f)
  show wf: "rc_wf ep'" if "rc_wf ep"
    using that assms(2-4) by (simp add: rc_wf_def f same)
  show "rc_inv ep'" if "rc_inv ep"
    using that wf assms(3) by (auto simp: rc_inv_def rc_tight_def rc_credit_def rc_base_def f same)
qed

text \<open>A receive step that leaves the flow-control state alone.\<close>

definition rx_only :: "'u rc_endpoint \<Rightarrow> 'u rc_endpoint \<Rightarrow> bool" where
  "rx_only ep ep' \<longleftrightarrow>
     tx ep' = tx ep \<and> recv_ring ep' = recv_ring ep \<and> last_recv_pos ep \<le> last_recv_pos ep' \<and>
     remote_consumer_pos ep' = remote_consumer_pos ep"

lemma process_message_rx: "rx_only ep (fst (snd (process_message qpn (ep, rs, st))))"
proof (cases "decode_header (recv_ring ep) (recv_off ep (last_recv_pos ep))")
  case (fields c g l)
  then show ?thesis
    by (cases "pending_calls ep (unat (from_response_id c))")
      (simp_all add: process_message_def Let_def rx_only_def tx_def)
qed

lemma process_messages_rx: "rx_only ep (fst (snd (process_messages n qpn (ep, rs, st))))"
proof (induction n arbitrary: ep rs st)
  case 0
  then show ?case by (simp add: rx_only_def)
next
  case (Suc n)
  obtain o' ep1 rs1 st1 where s: "process_message qpn (ep, rs, st) = (o', ep1, rs1, st1)"
    using prod_cases4 by blast
  then have "rx_only ep ep1" using process_message_rx [of ep qpn rs st] by simp
  then show ?case
    using Suc.IH [of ep1 rs1 st1] by (cases o') (auto simp: s outcome_simps rx_only_def)
qed

text \<open>The credit that the flow-control record at the read position returns.\<close>

definition credit_returned :: "'u rc_endpoint \<Rightarrow> nat" where
  "credit_returned ep =
     unat (fst (decode_flow_metadata (recv_ring ep) (recv_off ep (last_recv_pos ep))))"

lemma recv_off_upd [simp]:
  "recv_off (ep\<lparr>recv_ring_producer := a\<rparr>) p = recv_off ep p"
  "recv_off (ep\<lparr>remote_consumer_pos := a\<rparr>) p = recv_off ep p"
  "recv_off (ep\<lparr>peer_credit_balance := a\<rparr>) p = recv_off ep p"
  "recv_off (ep\<lparr>last_recv_pos := a\<rparr>) p = recv_off ep p"
  "recv_off (ep\<lparr>pending_calls := m\<rparr>) p = recv_off ep p"
  by (simp_all add: recv_off_def)

text \<open>The endpoint after the flow-control record was read.\<close>

definition meta_read :: "u32 \<Rightarrow> u64 \<Rightarrow> u64 \<Rightarrow> 'u rc_endpoint \<Rightarrow> 'u rc_endpoint" where
  "meta_read imm ret grant ep =
     ep\<lparr>recv_ring_producer := recv_ring_producer ep + unat (decode_imm imm),
        remote_consumer_pos := remote_consumer_pos ep + unat ret,
        peer_credit_balance := peer_credit_balance ep + unat grant,
        last_recv_pos := last_recv_pos ep + FLOW_METADATA_SIZE\<rparr>"

lemma process_cqe_eq:
  assumes "decode_flow_metadata (recv_ring ep) (recv_off ep (last_recv_pos ep)) = (ret, grant, n)"
  shows "process_cqe imm qpn (ep, rs, st) =
    (if length (recv_ring ep) < recv_off ep (last_recv_pos ep) + 20
     then (Panic, (ep\<lparr>recv_ring_producer := recv_ring_producer ep + unat (decode_imm imm)\<rparr>, rs, st))
     else if n = WRAP_MESSAGE_COUNT then
       (let p = last_recv_pos ep + FLOW_METADATA_SIZE
        in (Ok (), ((meta_read imm ret grant ep)
             \<lparr>last_recv_pos := p + (length (recv_ring ep) - recv_off ep p)\<rparr>, rs, st)))
     else process_messages (unat n) qpn (meta_read imm ret grant ep, rs, st))"
  using assms by (simp add: process_cqe_def Let_def meta_read_def)

lemma process_cqe_rx:
  assumes "ep' = fst (snd (process_cqe imm qpn (ep, rs, st)))"
  shows "tx ep' = tx ep" "last_recv_pos ep \<le> last_recv_pos ep'"
    "remote_consumer_pos ep \<le> remote_consumer_pos ep'"
    "remote_consumer_pos ep' \<le> remote_consumer_pos ep + credit_returned ep"
proof -
  obtain ret grant n where
    d: "decode_flow_metadata (recv_ring ep) (recv_off ep (last_recv_pos ep)) = (ret, grant, n)"
    using prod_cases3 by blast
  have "rx_only (meta_read imm ret grant ep)
      (fst (snd (process_messages (unat n) qpn (meta_read imm ret grant ep, rs, st))))"
    by (rule process_messages_rx)
  then show "tx ep' = tx ep" "last_recv_pos ep \<le> last_recv_pos ep'"
    "remote_consumer_pos ep \<le> remote_consumer_pos ep'"
    "remote_consumer_pos ep' \<le> remote_consumer_pos ep + credit_returned ep"
    unfolding assms process_cqe_eq [OF d]
    by (simp_all add: credit_returned_def d rx_only_def meta_read_def tx_def Let_def)
qed

section \<open>Connected endpoints and their steps\<close>

lemma connect_inv:
  assumes "rem_ring_size remote = next_power_of_two (cfg_send_ring_size config)"
    and "64 \<le> next_power_of_two (cfg_send_ring_size config)"
    and "next_power_of_two (cfg_send_ring_size config) \<le> 2 ^ 32"
    and "connect_ex qp_connect remote raw (rc_endpoint_new qpn addr rkey config) = (Ok (), ep)"
  shows "rc_inv ep"
proof -
  let ?n = "next_power_of_two (cfg_send_ring_size config)"
  have "cfg_send_ring_size config div 4 \<le> ?n div 4"
    by (intro div_le_mono next_power_of_two_props)
  then show ?thesis
    using assms next_power_of_two_props(1) [of "cfg_send_ring_size config"]
    by (auto simp: connect_ex_def rc_endpoint_new_def Let_def prepare_next_batch_def
        FLOW_METADATA_SIZE_def rc_inv_def rc_wf_def rc_tight_def rc_credit_def rc_base_def
        batch_len_def batch_frames_def split: if_splits)
qed

text \<open>
  The steps of a connected endpoint whose user respects the protocol.  The send queue answers
  as it likes in every step, but a call or reply whose wrap it refuses is not part of the
  contract, nor is a call that reports a full ring after it has wrapped.  Replies answer requests whose
  allowance is still reserved; the peer returns no more ring credit than was used.
\<close>

inductive rc_step :: "'u rc_endpoint \<Rightarrow> 'u rc_endpoint \<Rightarrow> bool" where
  step_flush: "rc_step ep (snd (flush submit ep))"
| step_call:
    "length data < 2 ^ 32 \<Longrightarrow> 32 + msize data < ssize ep \<Longrightarrow>
     (\<exists>c. fst (rc_call submit slab_key data u allowance ep) = Ok c) \<or>
     fst (rc_call submit slab_key data u allowance ep) = Err (InsufficientCredit u) \<or>
     meta_pos ep mod ssize ep + batch_len ep + msize data < ssize ep \<Longrightarrow>
     rc_step ep (snd (rc_call submit slab_key data u allowance ep))"
| step_reply:
    "length data < 2 ^ 32 \<Longrightarrow> 32 + msize data \<le> unat allowance \<Longrightarrow>
     unat allowance \<le> resp_reservation ep \<Longrightarrow>
     fst (rc_reply submit cid allowance data ep) = Ok () \<Longrightarrow>
     rc_step ep (snd (rc_reply submit cid allowance data ep))"
| step_place:
    "length ring = length (recv_ring ep) \<Longrightarrow> rc_step ep (ep\<lparr>recv_ring := ring\<rparr>)"
| step_receive:
    "remote_consumer_pos ep + credit_returned ep \<le> flush_start_pos ep \<Longrightarrow>
     rc_step ep (fst (snd (process_cqe imm qpn (ep, rs, st))))"
| step_raw: "rc_step ep (snd (post_raw submit w ep))"

lemma inv_raw: "rc_inv (snd (post_raw submit w ep)) = rc_inv ep"
  by (simp add: post_raw_def Let_def ring_sq_doorbell_bf_def rc_inv_def rc_wf_def rc_tight_def
      rc_credit_def rc_base_def batch_len_def batch_frames_def split: option.split)

lemma rc_step_inv: "rc_step ep ep' \<Longrightarrow> rc_inv ep \<Longrightarrow> rc_inv ep'"
proof (induction rule: rc_step.induct)
  case (step_flush ep submit)
  then show ?case using flush_keeps(3) rc_inv_def by blast
next
  case (step_call data ep submit slab_key u allowance)
  then show ?case by (intro call_inv)
next
  case (step_reply data allowance ep submit cid)
  then show ?case by (intro reply_inv)
next
  case (step_place ring ep)
  then show ?case
    by (intro wf_tx(2) [of "ep\<lparr>recv_ring := ring\<rparr>" ep]) (simp_all add: tx_def rc_inv_def rc_wf_def)
next
  case (step_receive ep imm qpn rs st)
  note r = process_cqe_rx [OF refl, where imm = imm and qpn = qpn and ep = ep and rs = rs and st = st]
  show ?case
    using step_receive r(4) by (intro wf_tx(2) [OF r(1-3)]) simp_all
next
  case (step_raw ep submit w)
  then show ?case by (simp add: inv_raw)
qed

lemma rc_steps_inv: "rc_step\<^sup>*\<^sup>* ep ep' \<Longrightarrow> rc_inv ep \<Longrightarrow> rc_inv ep'"
  by (induction rule: rtranclp_induct) (auto intro: rc_step_inv)

section \<open>Properties\<close>

text \<open>A small connected endpoint, for the concrete instances.\<close>

definition sample_config :: rc_config where
  "sample_config = \<lparr>cfg_send_ring_size = 128, cfg_recv_ring_size = 128, cfg_max_resp_reservation = 32\<rparr>"

definition sample_remote :: rc_remote_info where
  "sample_remote = \<lparr>rem_qp_number = 8, rem_packet_sequence_number = 0, rem_local_identifier = 1,
     rem_ring_addr = 65536, rem_ring_rkey = 5, rem_ring_size = 128, rem_initial_credit = 256\<rparr>"

definition sample_ep :: "nat rc_endpoint" where
  "sample_ep = snd (connect_ex (\<lambda>_ _. True) sample_remote False (rc_endpoint_new 7 4096 9 sample_config))"

lemma next_pow2_128: "next_power_of_two 128 = 128"
  by (simp add: next_power_of_two_def next_pow2_from.simps)

lemma sample_connect:
  "connect_ex (\<lambda>_ _. True) sample_remote False (rc_endpoint_new 7 4096 9 sample_config) = (Ok (), sample_ep)"
  by (simp add: sample_ep_def connect_ex_def)

lemma sample_inv: "rc_inv sample_ep"
  by (rule connect_inv [OF _ _ _ sample_connect])
    (simp_all add: sample_remote_def sample_config_def next_pow2_128)





end
