(* ===== verification/Copyrpc_RC_Delivery.thy ===== *)
theory Copyrpc_RC_Delivery
  imports Copyrpc_RC_Safety
begin

text \<open>
  Two endpoints at the ends of a connection: a batch that one of them posts is placed in the
  other's receive ring by the device, and processing its completion hands over exactly the
  messages of the batch, with the flow-control values of the sender, and leaves the receiver
  where the sender's next batch will start.  The wrap of \<^verbatim>\<open>rc.rs\<close> is characterised as well, with
  the case in which it does not leave the receiver there.
\<close>

lemma rc_plen_simp [simp]: "rc_plen (c, g, l) = l"
  by (simp add: rc_plen_def)

section \<open>What the receiver makes of a list of frames\<close>

type_synonym rc_frame = "(u32 \<times> u32 \<times> u32) \<times> bytes"

text \<open>Responses go to the user data waiting for them; unknown ones are dropped.\<close>

fun answer :: "(nat \<rightharpoonup> 'u) \<Rightarrow> rc_frame list \<Rightarrow> ('u \<times> bytes) list \<times> (nat \<rightharpoonup> 'u)" where
  "answer p [] = ([], p)"
| "answer p (((c, g, l), d) # fs) =
     (if is_response c then
        (case p (unat (from_response_id c)) of
           None \<Rightarrow> answer p fs
         | Some u \<Rightarrow>
             (let (rs, p') = answer (p(unat (from_response_id c) := None)) fs in ((u, d) # rs, p')))
      else answer p fs)"

fun requests :: "u32 \<Rightarrow> nat \<Rightarrow> rc_frame list \<Rightarrow> rc_recv_msg list" where
  "requests qpn off [] = []"
| "requests qpn off (((c, g, l), d) # fs) =
     (if is_response c then []
      else [\<lparr>rm_qpn = qpn, rm_call_id = c, rm_data_offset = off + HEADER_SIZE,
             rm_data_len = unat l, rm_response_allowance = ucast g * ALIGNMENT\<rparr>])
     @ requests qpn (off + unat (padded_message_size l)) fs"

text \<open>What the application sees of a request: call, allowance and payload.\<close>

definition request_view :: "bytes \<Rightarrow> rc_recv_msg \<Rightarrow> u32 \<times> u64 \<times> bytes" where
  "request_view ring m =
     (rm_call_id m, rm_response_allowance m, read_at (rm_data_offset m) (rm_data_len m) ring)"

definition frame_requests :: "rc_frame list \<Rightarrow> (u32 \<times> u64 \<times> bytes) list" where
  "frame_requests fs =
     map (\<lambda>((c, g, l), d). (c, ucast g * ALIGNMENT, d)) (filter (\<lambda>((c, g, l), d). \<not> is_response c) fs)"

lemma requests_view:
  "map (request_view ring) (requests qpn off (rc_parse n ring off)) = frame_requests (rc_parse n ring off)"
proof (induction n arbitrary: off)
  case 0
  then show ?case by (simp add: frame_requests_def)
next
  case (Suc n)
  obtain c g l where "decode_header ring off = (c, g, l)" using prod_cases3 by blast
  then show ?case
    using Suc.IH [of "off + unat (padded_message_size l)"]
    by (simp add: Let_def frame_requests_def request_view_def)
qed

lemma rc_span_ge: "32 * n \<le> rc_span (rc_parse n ring off)"
proof (induction n arbitrary: off)
  case 0
  then show ?case by simp
next
  case (Suc n)
  let ?l = "rc_plen (decode_header ring off)"
  have "32 \<le> unat (padded_message_size ?l)"
    by (simp add: unat_padded_message_size)
  then show ?case
    using Suc.IH [of "off + unat (padded_message_size ?l)"] by (simp add: Let_def)
qed

lemma recv_off_mod: "is_pow2 (length (recv_ring ep)) \<Longrightarrow> recv_off ep p = p mod length (recv_ring ep)"
  unfolding recv_off_def by (rule and_pow2_mod)

text \<open>One message of the loop, in terms of its frame.\<close>

lemma process_message_frame:
  assumes "is_pow2 (length (recv_ring ep))" "off = last_recv_pos ep mod length (recv_ring ep)"
    and "off + unat (padded_message_size l) \<le> length (recv_ring ep)"
    and d: "decode_header (recv_ring ep) off = (c, g, l)"
    and f: "f = ((c, g, l), read_at (off + HEADER_SIZE) (unat l) (recv_ring ep))"
  shows "process_message qpn (ep, rs, st) =
    (Ok (), (ep\<lparr>last_recv_pos := last_recv_pos ep + unat (padded_message_size l),
                pending_calls := snd (answer (pending_calls ep) [f])\<rparr>,
             rs @ fst (answer (pending_calls ep) [f]), st @ requests qpn off [f]))"
proof -
  have fit: "off + HEADER_SIZE + unat l \<le> length (recv_ring ep)"
    using assms(3) padded_message_size_bounds(1) [of l] by linarith
  then show ?thesis
    using d by (simp add: process_message_def recv_off_mod [OF assms(1)] assms(2) [symmetric] f
        Let_def split: option.split)
qed

lemma answer_append:
  "answer p (f # fs) = (fst (answer p [f]) @ fst (answer (snd (answer p [f])) fs),
                        snd (answer (snd (answer p [f])) fs))"
  by (cases f rule: prod.exhaust) (auto split: option.split prod.split)

lemma process_messages_frames:
  assumes "is_pow2 (length (recv_ring ep))"
    and "0 < n \<longrightarrow> off = last_recv_pos ep mod length (recv_ring ep)"
    and "off + rc_span (rc_parse n (recv_ring ep) off) \<le> length (recv_ring ep)"
  shows "process_messages n qpn (ep, rs, st) =
    (let fs = rc_parse n (recv_ring ep) off; a = answer (pending_calls ep) fs
     in (Ok (), (ep\<lparr>last_recv_pos := last_recv_pos ep + rc_span fs, pending_calls := snd a\<rparr>,
                 rs @ fst a, st @ requests qpn off fs)))"
  using assms
proof (induction n arbitrary: ep rs st off)
  case 0
  then show ?case by simp
next
  case (Suc n)
  let ?R = "recv_ring ep" and ?L = "length (recv_ring ep)"
  obtain c g l where d: "decode_header ?R off = (c, g, l)" using prod_cases3 by blast
  let ?k = "unat (padded_message_size l)"
  define f where "f = ((c, g, l), read_at (off + HEADER_SIZE) (unat l) ?R)"
  have fs: "rc_parse (Suc n) ?R off = f # rc_parse n ?R (off + ?k)"
    by (simp add: Let_def d f_def)
  have fit: "off + ?k + rc_span (rc_parse n ?R (off + ?k)) \<le> ?L"
    using Suc.prems(3) unfolding fs by (simp add: f_def)
  define ep1 where "ep1 = ep\<lparr>last_recv_pos := last_recv_pos ep + ?k,
      pending_calls := snd (answer (pending_calls ep) [f])\<rparr>"
  have step: "process_message qpn (ep, rs, st) =
      (Ok (), (ep1, rs @ fst (answer (pending_calls ep) [f]), st @ requests qpn off [f]))"
    unfolding ep1_def
    using Suc.prems(1,2) fit by (intro process_message_frame [OF _ _ _ d]) (simp_all add: f_def)
  have next_off: "0 < n \<longrightarrow> off + ?k = last_recv_pos ep1 mod length (recv_ring ep1)"
    using Suc.prems(2) fit rc_span_ge [of n ?R "off + ?k"]
      mod_add_small [of "last_recv_pos ep" ?L ?k] by (auto simp: ep1_def)
  have "process_messages n qpn (ep1, rs @ fst (answer (pending_calls ep) [f]), st @ requests qpn off [f]) =
    (let fs = rc_parse n ?R (off + ?k); a = answer (pending_calls ep1) fs
     in (Ok (), (ep1\<lparr>last_recv_pos := last_recv_pos ep1 + rc_span fs, pending_calls := snd a\<rparr>,
                 (rs @ fst (answer (pending_calls ep) [f])) @ fst a,
                 (st @ requests qpn off [f]) @ requests qpn (off + ?k) fs)))"
    using Suc.IH [of ep1 "off + ?k"] Suc.prems(1) next_off fit by (simp add: ep1_def)
  then show ?case
    unfolding process_messages.simps step fs and_then_simps(1)
    by (simp add: Let_def ep1_def answer_append [of _ f "rc_parse n ?R (off + ?k)"])
      (simp add: f_def add.assoc)
qed

section \<open>From the send ring to the receive ring\<close>

text \<open>The inline part and the gathered part of a request are together the bytes of its range.\<close>

lemma gather_batch:
  assumes "is_pow2 (ssize ep)" "ssize ep \<le> 2 ^ 32"
    and "start mod ssize ep + (stop - start) \<le> ssize ep"
  shows "gather (send_ring ep) (batch_wqe r start stop sig ep) =
         read_at (start mod ssize ep) (stop - start) (send_ring ep)"
proof (cases "stop - start \<le> MAX_INLINE_ONLY")
  case True
  then show ?thesis by (simp add: gather_def batch_wqe_def Let_def send_off_mod [OF assms(1)])
next
  case False
  then have len: "MAX_INLINE_HYBRID + (stop - start - MAX_INLINE_HYBRID) = stop - start"
    by (simp add: MAX_INLINE_ONLY_def MAX_INLINE_HYBRID_def)
  have "stop - start - MAX_INLINE_HYBRID < 2 ^ 32"
    using assms(2,3) False by (simp add: MAX_INLINE_ONLY_def MAX_INLINE_HYBRID_def)
  then have "unat (word_of_nat (stop - start - MAX_INLINE_HYBRID) :: u32) = stop - start - MAX_INLINE_HYBRID"
    by (simp add: unat_of_nat)
  then show ?thesis
    using False read_at_append [of "start mod ssize ep" MAX_INLINE_HYBRID "stop - start - MAX_INLINE_HYBRID" "send_ring ep"] len
    by (simp add: gather_def batch_wqe_def Let_def send_off_mod [OF assms(1)])
qed

text \<open>The ring of the peer after the device has carried the range over.\<close>

lemma place_batch:
  assumes "is_pow2 (ssize ep)" "ssize ep \<le> 2 ^ 32" "rr_size r = ssize ep" "length ring = ssize ep"
    and "start mod ssize ep + (stop - start) \<le> ssize ep"
    and ring': "ring' = rdma_place (rr_addr r) (send_ring ep) (batch_wqe r start stop sig ep) ring"
  shows "length ring' = ssize ep"
    and "read_at (start mod ssize ep) (stop - start) ring' =
         read_at (start mod ssize ep) (stop - start) (send_ring ep)"
proof -
  let ?o = "start mod ssize ep" and ?n = "stop - start"
  have "w_remote_addr (batch_wqe r start stop sig ep) - rr_addr r = ?o"
    using and_pow2_mod [OF assms(1), of start] assms(3) by (simp add: batch_wqe_def Let_def)
  then have eq: "ring' = write_at ?o (read_at ?o ?n (send_ring ep)) ring"
    using gather_batch [OF assms(1,2,5), of r sig] by (simp add: ring' rdma_place_def)
  have len: "length (read_at ?o ?n (send_ring ep)) = ?n" using assms(5) by (rule length_read_at)
  show "length ring' = ssize ep"
    using eq len assms(4,5) by (simp add: length_write_at)
  show "read_at ?o ?n ring' = read_at ?o ?n (send_ring ep)"
    using read_write_same [of ?o "read_at ?o ?n (send_ring ep)" ring] len assms(4,5) by (simp add: eq)
qed

text \<open>The receiver reads back the flow-control record and the frames.\<close>

lemma flow_carried:
  assumes "read_at off n ring = read_at off n (encode_flow_metadata buf off a b c)" "32 \<le> n"
    and "off + n \<le> length ring" "off + n \<le> length buf"
  shows "decode_flow_metadata ring off = (a, b, c)"
proof -
  let ?buf = "encode_flow_metadata buf off a b c"
  have "read_at off 32 ring = read_at off 32 ?buf"
    using read_at_sub [OF assms(1), of 0 32] assms(2) by simp
  then have "decode_flow_metadata ring off = decode_flow_metadata ?buf off"
    using assms(2-4) by (intro flow.reader_local) (simp_all add: FLOW_METADATA_SIZE_def)
  also have "\<dots> = (a, b, c)"
    unfolding encode_flow_metadata_def using assms(2,4)
    by (intro flow.reader_write) (simp add: FLOW_METADATA_SIZE_def)
  finally show ?thesis .
qed

lemma frames_carried:
  assumes "read_at off n ring = read_at off n buf" "32 + rc_span (rc_parse k buf (off + 32)) \<le> n"
    and "off + n \<le> length ring" "off + n \<le> length buf"
  shows "rc_parse k ring (off + 32) = rc_parse k buf (off + 32)"
  using assms read_at_sub [OF assms(1), of 32 "n - 32"]
  by (intro rcf.parse_local [where m = "n - 32"]) simp_all

section \<open>One batch, end to end\<close>

lemma send_ring_fill:
  assumes "rc_wf ep"
  shows "send_ring (fill_metadata ep) =
    encode_flow_metadata (send_ring ep) (meta_pos ep mod ssize ep)
      (word_of_nat (last_recv_pos ep - last_notified_recv_pos ep))
      (word_of_nat (compute_credit_grant ep)) (word_of_nat (batch_message_count ep))"
proof -
  have "is_pow2 (ssize ep)" using assms by (simp add: rc_wf_def)
  then show ?thesis by (simp add: fill_metadata_def write_metadata_def Let_def send_off_mod)
qed

lemma batch_count_bound:
  assumes "rc_wf ep" "0 < batch_message_count ep"
  shows "unat (word_of_nat (batch_message_count ep) :: u32) = batch_message_count ep"
    and "(word_of_nat (batch_message_count ep) :: u32) \<noteq> WRAP_MESSAGE_COUNT"
proof -
  have "32 * batch_message_count ep \<le> rc_span (batch_frames ep)"
    unfolding batch_frames_def by (rule rc_span_ge)
  also have "\<dots> \<le> 2 ^ 32" using assms by (auto simp: rc_wf_def)
  finally have "batch_message_count ep \<le> 2 ^ 27" by simp
  then show 1: "unat (word_of_nat (batch_message_count ep) :: u32) = batch_message_count ep"
    by (simp add: unat_of_nat)
  show "(word_of_nat (batch_message_count ep) :: u32) \<noteq> WRAP_MESSAGE_COUNT"
  proof
    assume "(word_of_nat (batch_message_count ep) :: u32) = WRAP_MESSAGE_COUNT"
    then have "batch_message_count ep = unat WRAP_MESSAGE_COUNT" using 1 by simp
    with \<open>batch_message_count ep \<le> 2 ^ 27\<close> show False by (simp add: WRAP_MESSAGE_COUNT_def)
  qed
qed

lemma grant_u64:
  assumes "rc_wf ep"
  shows "unat (word_of_nat (compute_credit_grant ep) :: u64) = compute_credit_grant ep"
proof -
  obtain r where r: "remote_recv_ring ep = Some r" using assms by (rule wf_remote)
  have "compute_credit_grant ep \<le> 2 ^ 32"
    using grant_bounds(1) [OF r] assms by (auto simp: rc_wf_def)
  then show ?thesis by (simp add: unat_of_nat)
qed

lemma imm_exact:
  assumes "32 dvd d" "d \<le> 2 ^ 32"
  shows "unat (decode_imm (encode_imm (word_of_nat d))) = d"
proof -
  have "unat (word_of_nat d :: u64) = d" using assms(2) by (simp add: unat_of_nat)
  then show ?thesis using assms by (simp add: decode_imm_unat encode_imm_unat)
qed

lemma batch_carried:
  assumes wf: "rc_wf ep" and cnt: "0 < batch_message_count ep" and r: "remote_recv_ring ep = Some r"
    and B: "length ring = ssize ep"
    and w: "w = batch_wqe r (meta_pos ep) (send_ring_producer ep) sig (fill_metadata ep)"
    and ring': "ring' = rdma_place (rr_addr r) (send_ring (fill_metadata ep)) w ring"
  shows "length ring' = ssize ep"
    and "decode_flow_metadata ring' (meta_pos ep mod ssize ep) =
      (word_of_nat (last_recv_pos ep - last_notified_recv_pos ep),
       word_of_nat (compute_credit_grant ep), word_of_nat (batch_message_count ep))"
    and "rc_parse (batch_message_count ep) ring' (meta_pos ep mod ssize ep + 32) = batch_frames ep"
proof -
  let ?e = "fill_metadata ep" and ?o = "meta_pos ep mod ssize ep" and ?n = "batch_len ep"
  note wf' = fill_metadata_wf [OF wf cnt] and p = wf_producer [OF wf]
  have S: "is_pow2 (ssize ep)" "ssize ep \<le> 2 ^ 32" "?o + ?n \<le> ssize ep" "32 \<le> ?n"
    and n: "?n = 32 + rc_span (batch_frames ep)"
    using wf cnt p by (auto simp: rc_wf_def)
  have S': "ssize ?e = ssize ep" using wf_room [OF wf] by (simp add: send_ring_fill [OF wf])
  have "rr_size r = ssize ep" using wf r by (simp add: rc_wf_def)
  then have eq: "length ring' = ssize ep" "read_at ?o ?n ring' = read_at ?o ?n (send_ring ?e)"
    using place_batch [of ?e r ring "meta_pos ep" "send_ring_producer ep" ring' sig] S B w ring' p
    by (simp_all add: S')
  show "length ring' = ssize ep" by (rule eq)
  show "decode_flow_metadata ring' ?o =
      (word_of_nat (last_recv_pos ep - last_notified_recv_pos ep),
       word_of_nat (compute_credit_grant ep), word_of_nat (batch_message_count ep))"
    using eq S unfolding send_ring_fill [OF wf] by (intro flow_carried [where n = ?n]) simp_all
  have "rc_parse (batch_message_count ep) (send_ring ?e) (?o + 32) = batch_frames ep"
    using wf'(2) S' by (simp add: batch_frames_def FLOW_METADATA_SIZE_def)
  then show "rc_parse (batch_message_count ep) ring' (?o + 32) = batch_frames ep"
    using frames_carried [OF eq(2), of "batch_message_count ep"] n S eq(1) S' by simp
qed

lemma process_batch:
  assumes wf: "rc_wf ep" and cnt: "0 < batch_message_count ep" and r: "remote_recv_ring ep = Some r"
    and B: "length (recv_ring B) = ssize ep" "last_recv_pos B = meta_pos ep"
    and w: "w = batch_wqe r (meta_pos ep) (send_ring_producer ep) sig (fill_metadata ep)"
    and ring: "ring = rdma_place (rr_addr r) (send_ring (fill_metadata ep)) w (recv_ring B)"
  shows "process_cqe imm q (B\<lparr>recv_ring := ring\<rparr>, rs, st) =
    (let a = answer (pending_calls B) (batch_frames ep);
         B1 = meta_read imm (word_of_nat (last_recv_pos ep - last_notified_recv_pos ep))
                (word_of_nat (compute_credit_grant ep)) (B\<lparr>recv_ring := ring\<rparr>)
     in (Ok (), (B1\<lparr>last_recv_pos := send_ring_producer ep, pending_calls := snd a\<rparr>,
                 rs @ fst a, st @ requests q (meta_pos ep mod ssize ep + 32) (batch_frames ep))))"
proof -
  let ?o = "meta_pos ep mod ssize ep" and ?k = "batch_message_count ep"
  note c = batch_carried [OF wf cnt r B(1) w ring]
  have S: "is_pow2 (length ring)" "?o + 32 + rc_span (batch_frames ep) \<le> length ring"
    and n: "send_ring_producer ep = meta_pos ep + 32 + rc_span (batch_frames ep)"
    using wf cnt wf_producer [OF wf] c(1) by (auto simp: rc_wf_def)
  let ?B = "meta_read imm (word_of_nat (last_recv_pos ep - last_notified_recv_pos ep))
              (word_of_nat (compute_credit_grant ep)) (B\<lparr>recv_ring := ring\<rparr>)"
  have off: "recv_off (B\<lparr>recv_ring := ring\<rparr>) (last_recv_pos B) = ?o"
    using S(1) c(1) B(2) by (subst recv_off_mod) simp_all
  have "32 * ?k \<le> rc_span (batch_frames ep)" using rc_span_ge [of ?k ring "?o + 32"] c(3) by simp
  then have pos: "?o + 32 = last_recv_pos ?B mod length ring"
    using mod_add_small [of "meta_pos ep" "ssize ep" 32] S(2) cnt
    by (simp add: meta_read_def FLOW_METADATA_SIZE_def c(1) B(2))
  have fields: "recv_ring ?B = ring" "pending_calls ?B = pending_calls B"
    "last_recv_pos ?B + rc_span (batch_frames ep) = send_ring_producer ep"
    using n B(2) by (simp_all add: meta_read_def FLOW_METADATA_SIZE_def)
  have "process_cqe imm q (B\<lparr>recv_ring := ring\<rparr>, rs, st) = process_messages ?k q (?B, rs, st)"
    using process_cqe_eq [of "B\<lparr>recv_ring := ring\<rparr>" _ _ _ imm q rs st] c(2) off S(2)
      batch_count_bound [OF wf cnt] by simp
  then show ?thesis
    using process_messages_frames [of ?B ?k "?o + 32" q rs st, unfolded fields c(3), OF S(1) impI [OF pos] S(2)]
    by (simp add: Let_def fields(3))
qed

section \<open>Allowances\<close>

lemma unat_internal_allowance:
  "unat (internal_allowance x) = unat (padded_message_size (ucast x)) + 32"
proof -
  let ?m = "padded_message_size (ucast x)"
  have b: "unat ?m < 2 ^ 33" "32 dvd unat ?m"
    using unat_u32_lt [of "ucast x"] padded_message_size_bounds [of "ucast x"] by (simp_all add: HEADER_SIZE_def)
  then have "unat (?m + word_of_nat FLOW_METADATA_SIZE) = unat ?m + 32"
    by (simp add: FLOW_METADATA_SIZE_def unat_word_ariths)
  then show ?thesis
    using unat_align32 [of "?m + word_of_nat FLOW_METADATA_SIZE"] b
    by (auto simp: internal_allowance_def Let_def elim!: dvdE)
qed

text \<open>The allowance travels in a 32-bit field, in blocks, and arrives unchanged.\<close>

lemma ucast_u64_u32: "(ucast (ucast (y :: u32) :: u64) :: u32) = y"
proof -
  have "unat (ucast (ucast y :: u64) :: u32) = take_bit 32 (unat (ucast y :: u64))"
    by (subst unsigned_ucast_eq) (simp add: unsigned_take_bit_eq)
  then have "unat (ucast (ucast y :: u64) :: u32) = unat y"
    using unat_u32_lt [of y] by (simp add: take_bit_nat_eq_self)
  then show ?thesis by (simp add: word_unat_eq_iff)
qed

lemma allowance_carried:
  "ucast (ucast (call_blocks x) :: u32) * ALIGNMENT = internal_allowance x"
proof -
  let ?a = "unat (internal_allowance x)"
  have a: "?a < 2 ^ 34" "32 dvd ?a"
    using unat_u32_lt [of "ucast x"] padded_message_size_bounds [of "ucast x"]
    by (simp_all add: HEADER_SIZE_def unat_internal_allowance)
  then have "unat (ucast (internal_allowance x div ALIGNMENT) :: u32) = ?a div 32"
    by (simp add: ALIGNMENT_def unsigned_ucast_eq unat_div take_bit_nat_eq_self)
  then have "unat (ucast (ucast (call_blocks x) :: u32) :: u64) = ?a div 32"
    unfolding call_blocks_def ucast_u64_u32 by simp
  then show ?thesis
    using a by (simp add: word_unat_eq_iff unat_word_ariths ALIGNMENT_def)
qed

lemma call_frame:
  assumes "rc_wf ep" "length data < 2 ^ 32"
    and "rc_call submit slab_key data u allowance ep = (Ok cid, ep')"
  obtains b where "cid = word_of_nat (slab_key (pending_calls ep))" "rc_wf ep'"
    "batch_frames ep' = (if b then [] else batch_frames ep) @
       [((cid, ucast (call_blocks allowance), word_of_nat (length data)), data)]"
    "pending_calls ep' = (pending_calls ep)(slab_key (pending_calls ep) \<mapsto> u)"
    "unat (internal_allowance allowance) + peer_credit_balance ep' = peer_credit_balance ep"
    "batch_message_count ep' = (if b then 1 else batch_message_count ep + 1)"
  using assms(1,2)
proof (cases rule: call_cases [where submit = submit and slab_key = slab_key and u = u
      and allowance = allowance])
  case (placed b e w)
  have n: "0 < msize data" using msize_bounds(2) [OF assms(2)] by simp
  note m = make_room(4) [OF assms(1) n refl, of submit b, unfolded placed(2), simplified]
  have len: "length (batch_frames e) = batch_message_count e" for e :: "'a rc_endpoint"
    by (simp add: batch_frames_def)
  have "batch_message_count e = (if b then 0 else batch_message_count ep)"
    using arg_cong [OF m, of length] by (simp add: len split: if_splits)
  then show ?thesis
    using placed(1,3,4,6) assms(2,3) m write_message_frames [OF _ _ _ placed(5)]
    by (intro that [of b]) auto
qed (use assms(3) in simp_all)

section \<open>Wraps\<close>

lemma wrap_carried:
  assumes wf: "rc_wf ep" and cnt: "batch_message_count ep = 0" and r: "remote_recv_ring ep = Some r"
    and B: "length ring = ssize ep"
    and w: "w = batch_wqe r (meta_pos ep) (send_ring_producer (wrap_filled ep)) sig (wrap_filled ep)"
    and ring': "ring' = rdma_place (rr_addr r) (send_ring (wrap_filled ep)) w ring"
  shows "length ring' = ssize ep"
    and "\<exists>ret grant. decode_flow_metadata ring' (meta_pos ep mod ssize ep) = (ret, grant, WRAP_MESSAGE_COUNT)"
proof -
  let ?e = "wrap_filled ep" and ?o = "meta_pos ep mod ssize ep"
  let ?n = "send_ring_producer ?e - meta_pos ep"
  note f = wrap_filled_props [OF wf cnt]
  have room: "?o + 32 \<le> ssize ep" by (rule wf_room [OF wf])
  have n: "?o + ?n = ssize ep" "32 \<le> ?n" using room by (simp_all add: f(6))
  have S: "is_pow2 (ssize ep)" "ssize ep \<le> 2 ^ 32" "rr_size r = ssize ep"
    using wf r by (auto simp: rc_wf_def)
  have eq: "length ring' = ssize ep" "read_at ?o ?n ring' = read_at ?o ?n (send_ring ?e)"
    using place_batch [of ?e r ring "meta_pos ep" "send_ring_producer ?e" ring' sig] S B w ring' n
    by (simp_all add: f(3))
  then show "length ring' = ssize ep" by simp
  obtain ret grant where
    "send_ring ?e = encode_flow_metadata (send_ring ep) ?o ret grant WRAP_MESSAGE_COUNT"
    by (simp add: wrap_filled_def write_metadata_def Let_def)
  then have "decode_flow_metadata ring' ?o = (ret, grant, WRAP_MESSAGE_COUNT)"
    using eq n by (intro flow_carried [where n = ?n and buf = "send_ring ep"]) simp_all
  then show "\<exists>ret grant. decode_flow_metadata ring' ?o = (ret, grant, WRAP_MESSAGE_COUNT)" by blast
qed

text \<open>Where the receiver believes the next ring cycle starts.\<close>

lemma wrap_position:
  assumes "32 dvd m" "is_pow2 S" "64 \<le> S"
  shows "m + 32 + (S - (m + 32) mod S) = m + (S - m mod S) + (if m mod S + 32 = S then S else (0 :: nat))"
proof -
  have "m mod S + 32 \<le> S" using assms pow2_dvd_32 [OF assms(2)] by (intro aligned_room) simp_all
  show ?thesis
  proof (cases "m mod S + 32 = S")
    case True
    then have "m + 32 = m + (S - m mod S)" by simp
    then have "(m + 32) mod S = 0" using mod_fill [of S m] assms(3) by simp
    with True show ?thesis by simp
  next
    case False
    with \<open>m mod S + 32 \<le> S\<close> show ?thesis using mod_add_small [of m S 32] by simp
  qed
qed

section \<open>A concrete run\<close>

text \<open>
  A client with a ring of 128 bytes that grants no credit of its own places two messages of 32
  bytes each and flushes; its next batch would start 32 bytes before the end of the ring.
\<close>

lemma call_fits:
  assumes "rc_wf ep" "length data < 2 ^ 32"
    and "unat (internal_allowance allowance) \<le> peer_credit_balance ep"
    and "meta_pos ep mod ssize ep + batch_len ep + msize data < ssize ep" "\<not> call_full data (ssize ep) ep"
    and "ep' = snd (rc_call submit slab_key data u allowance ep)"
  shows "rc_wf ep'" "meta_pos ep' = meta_pos ep" "batch_len ep' = batch_len ep + msize data"
    "ssize ep' = ssize ep" "batch_message_count ep' = batch_message_count ep + 1"
    "resp_reservation ep' = resp_reservation ep" "remote_consumer_pos ep' = remote_consumer_pos ep"
    "peer_credit_balance ep' + unat (internal_allowance allowance) = peer_credit_balance ep"
    "fst (rc_call submit slab_key data u allowance ep) = Ok (word_of_nat (slab_key (pending_calls ep)))"
    "remote_recv_ring ep' = remote_recv_ring ep" "last_recv_pos ep' = last_recv_pos ep"
proof -
  have n: "0 < msize data" using msize_bounds(2) [OF assms(2)] by simp
  let ?e = "ep\<lparr>pending_calls := (pending_calls ep)(slab_key (pending_calls ep) \<mapsto> u)\<rparr>"
  define w :: "(unit, 'a call_error) outcome \<times> 'a rc_endpoint" where
    "w = write_message (word_of_nat (slab_key (pending_calls ep))) (call_blocks allowance) data ?e"
  have "rc_wf ?e" "has_room (msize data) ?e"
    using assms(1) fits_room [OF assms(1) n assms(4)] by simp_all
  note f = write_message_frames [OF this(1) assms(2) this(2) w_def]
  have run: "rc_call submit slab_key data u allowance ep = (Ok (word_of_nat (slab_key (pending_calls ep))),
      (snd w)\<lparr>peer_credit_balance := peer_credit_balance (snd w) - unat (internal_allowance allowance)\<rparr>)"
    using call_roomy [OF assms(1-3) handle_wrap_fits [OF assms(1,4)], where slab_key = slab_key and u = u] assms(5) f(1)
    by (simp add: and_then_Ok_eq w_def [symmetric])
  then show "fst (rc_call submit slab_key data u allowance ep) = Ok (word_of_nat (slab_key (pending_calls ep)))"
    by simp
  show "rc_wf ep'" unfolding assms(6) run using f(2) by simp
  show "meta_pos ep' = meta_pos ep" "batch_len ep' = batch_len ep + msize data"
    "ssize ep' = ssize ep" "batch_message_count ep' = batch_message_count ep + 1"
    "resp_reservation ep' = resp_reservation ep" "remote_consumer_pos ep' = remote_consumer_pos ep"
    "peer_credit_balance ep' + unat (internal_allowance allowance) = peer_credit_balance ep"
    "remote_recv_ring ep' = remote_recv_ring ep" "last_recv_pos ep' = last_recv_pos ep"
    unfolding assms(6) run snd_conv using f assms(1,3) by (simp_all add: batch_len_def rc_wf_def)
qed

definition client_config :: rc_config where
  "client_config = \<lparr>cfg_send_ring_size = 128, cfg_recv_ring_size = 128, cfg_max_resp_reservation = 0\<rparr>"

definition client0 :: "nat rc_endpoint" where
  "client0 = snd (rc_connect (\<lambda>_ _. True) sample_remote (rc_endpoint_new 7 4096 9 client_config))"

definition client1 :: "nat rc_endpoint" where
  "client1 = snd (rc_call (\<lambda>_. None) (\<lambda>_. 3) (replicate 20 7) 5 16 client0)"

definition client2 :: "nat rc_endpoint" where
  "client2 = snd (rc_call (\<lambda>_. None) (\<lambda>_. 4) (replicate 20 9) 6 16 client1)"

definition client3 :: "nat rc_endpoint" where
  "client3 = snd (flush (\<lambda>_. None) client2)"

lemma client0_props:
  "rc_wf client0" "meta_pos client0 = 0" "batch_len client0 = 32" "ssize client0 = 128"
  "batch_message_count client0 = 0" "resp_reservation client0 = 0" "remote_consumer_pos client0 = 0"
  "peer_credit_balance client0 = 256" "length (recv_ring client0) = 128" "last_recv_pos client0 = 0"
  "remote_recv_ring client0 = Some \<lparr>rr_addr = 65536, rr_rkey = 5, rr_size = 128\<rparr>"
proof -
  have "rc_inv client0"
  proof (rule connect_inv)
    show "connect_ex (\<lambda>_ _. True) sample_remote False (rc_endpoint_new 7 4096 9 client_config) = (Ok (), client0)"
      by (simp add: client0_def rc_connect_def connect_ex_def)
  qed (simp_all add: sample_remote_def client_config_def next_pow2_128)
  then show "rc_wf client0" by (simp add: rc_inv_def)
qed (simp_all add: client0_def rc_connect_def connect_ex_def sample_remote_def client_config_def
    rc_endpoint_new_def Let_def next_pow2_128 batch_len_def)

lemma client1_props:
  "rc_wf client1" "meta_pos client1 = 0" "batch_len client1 = 64" "ssize client1 = 128"
  "batch_message_count client1 = 1" "resp_reservation client1 = 0" "remote_consumer_pos client1 = 0"
  "peer_credit_balance client1 = 192" "last_recv_pos client1 = 0" "remote_recv_ring client1 = remote_recv_ring client0"
  using call_fits [OF client0_props(1), of "replicate 20 7" 16 client1 "\<lambda>_. None" "\<lambda>_. 3" 5]
  by (simp_all add: client1_def client0_props call_full_def wf_producer [OF client0_props(1)]
      unat_internal_allowance unat_padded_message_size)

lemma client1_Ok: "\<exists>cid. rc_call (\<lambda>_. None) (\<lambda>_. 3) (replicate 20 7) 5 16 client0 = (Ok cid, client1)"
proof -
  have "fst (rc_call (\<lambda>_. None) (\<lambda>_. 3) (replicate 20 7) 5 16 client0) = Ok 3"
    using call_fits(9) [OF client0_props(1) _ _ _ _ refl, where data = "replicate 20 7" and allowance = 16
        and submit = "\<lambda>_. None" and slab_key = "\<lambda>_. 3" and u = 5]
    by (simp add: client0_props call_full_def wf_producer [OF client0_props(1)]
        unat_internal_allowance unat_padded_message_size)
  then show ?thesis by (metis client1_def prod.collapse)
qed

lemma client2_props:
  "rc_wf client2" "meta_pos client2 = 0" "batch_len client2 = 96" "ssize client2 = 128"
  "batch_message_count client2 = 2" "remote_recv_ring client2 = remote_recv_ring client0"
  "last_recv_pos client2 = 0"
  using call_fits [OF client1_props(1), of "replicate 20 9" 16 client2 "\<lambda>_. None" "\<lambda>_. 4" 6]
  by (simp_all add: client2_def client1_props call_full_def wf_producer [OF client1_props(1)]
      unat_internal_allowance unat_padded_message_size)

lemma client3_props:
  "rc_wf client3" "flush_start_pos client3 = 96" "ssize client3 = 128" "batch_message_count client3 = 0"
  "remote_recv_ring client3 = Some \<lparr>rr_addr = 65536, rr_rkey = 5, rr_size = 128\<rparr>"
proof -
  note r = client2_props(6) [unfolded client0_props(11)]
  have eq: "client3 = rung (closed \<lparr>rr_addr = 65536, rr_rkey = 5, rr_size = 128\<rparr> client2)"
    using flush_wf [OF client2_props(1) r, of "\<lambda>_. None"] client2_props(5) by (simp add: client3_def)
  note c = closed_props [OF client2_props(1), where r = "\<lparr>rr_addr = 65536, rr_rkey = 5, rr_size = 128\<rparr>"]
  show wf: "rc_wf client3" using c(1) by (simp add: eq)
  have "meta_pos client3 = 96"
    using c(9) client2_props wf_producer [OF client2_props(1)]
    by (simp add: eq rung_def ring_sq_doorbell_bf_def rc_base_def)
  then show "flush_start_pos client3 = 96" using wf by (simp add: rc_wf_def)
  show "ssize client3 = 128" "batch_message_count client3 = 0"
    "remote_recv_ring client3 = Some \<lparr>rr_addr = 65536, rr_rkey = 5, rr_size = 128\<rparr>"
    using c(2,3,4) client2_props(4) r by (simp_all add: eq rung_def ring_sq_doorbell_bf_def)
qed

section \<open>Properties\<close>

text \<open>
  C1. End-to-end delivery of a batch.  Sender and receiver agree on the position, the send
  queue accepts the request, the device writes its bytes into the receive ring.  Then the
  completion delivers every message of the batch: responses with their payload to the user
  data waiting for them, requests with call identifier, allowance and payload; the receiver
  gains the ring credit and the response credit the sender gave; and both sides agree on the
  position again.
\<close>
theorem rc_batch_delivered:
  assumes "rc_wf A" "0 < batch_message_count A" "remote_recv_ring A = Some r"
    and "length (recv_ring B) = length (send_ring A)" "last_recv_pos B = flush_start_pos A"
    and "submit (sq_attempts A) = None" "last_recv_pos A < 2 ^ 64"
  shows "let A' = snd (emit_wqe submit A);
             w = last (sq A');
             ring = rdma_place (rr_addr r) (send_ring A') w (recv_ring B);
             (result, B', responses, stack) = process_cqe (w_imm w) q (B\<lparr>recv_ring := ring\<rparr>, rs, st);
             sent = batch_frames A
         in fst (emit_wqe submit A) = Ok True \<and> result = Ok () \<and>
            responses = rs @ fst (answer (pending_calls B) sent) \<and>
            pending_calls B' = snd (answer (pending_calls B) sent) \<and>
            take (length st) stack = st \<and>
            map (request_view ring) (drop (length st) stack) = frame_requests sent \<and>
            last_recv_pos B' = flush_start_pos A' \<and>
            recv_ring_producer B' = recv_ring_producer B + (flush_start_pos A' - flush_start_pos A) \<and>
            remote_consumer_pos B' =
              remote_consumer_pos B + (last_recv_pos A - last_notified_recv_pos A) \<and>
            peer_credit_balance B' =
              peer_credit_balance B + (resp_reservation A' - resp_reservation A)"
proof -
  let ?sig = "SIGNAL_INTERVAL \<le> unsignaled_count (fill_metadata A)"
  define w where "w = batch_wqe r (meta_pos A) (send_ring_producer A) ?sig (fill_metadata A)"
  define ring where "ring = rdma_place (rr_addr r) (send_ring (fill_metadata A)) w (recv_ring B)"
  have pos: "flush_start_pos A = meta_pos A" using assms(1) by (simp add: rc_wf_def)
  have flush': "flush_start_pos (fill_metadata A) = meta_pos A"
    by (simp add: fill_metadata_def pos)
  note run = emit_wqe_wf [OF assms(1,3), of submit]
  have A': "emit_wqe submit A = (Ok True, prepare_next_batch (posted r (fill_metadata A)))"
    using run assms(2,6) by (simp add: closed_def)
  have fields: "last (sq (snd (emit_wqe submit A))) = w"
    "send_ring (snd (emit_wqe submit A)) = send_ring (fill_metadata A)"
    "flush_start_pos (snd (emit_wqe submit A)) = send_ring_producer A"
    "resp_reservation (snd (emit_wqe submit A)) = resp_reservation A + compute_credit_grant A"
    by (simp_all add: A' posted_def flush' w_def prepare_next_batch_def Let_def)
      (simp add: fill_metadata_def)
  have "32 dvd send_ring_producer A - meta_pos A" "send_ring_producer A - meta_pos A \<le> 2 ^ 32"
    using assms(1) by (auto simp: rc_wf_def batch_len_def)
  then have imm: "unat (decode_imm (w_imm w)) = send_ring_producer A - meta_pos A"
    using imm_exact by (simp add: w_def batch_wqe_def Let_def)
  have ret: "unat (word_of_nat (last_recv_pos A - last_notified_recv_pos A) :: u64) =
      last_recv_pos A - last_notified_recv_pos A"
    using assms(7) by (simp add: unat_of_nat)
  note out = process_batch [OF assms(1-4) _ w_def ring_def, of "w_imm w" q rs st]
  show ?thesis
    unfolding Let_def fields ring_def [symmetric]
    using out requests_view [of ring q "meta_pos A mod ssize A + 32" "batch_message_count A"]
      batch_carried(3) [OF assms(1-4) w_def ring_def] assms(5) pos imm ret grant_u64 [OF assms(1)] A'
    by (simp add: Let_def meta_read_def)
qed

theorem rc_batch_delivered_witness:
  "let A' = snd (emit_wqe (\<lambda>_. None) client2);
       ring = rdma_place 65536 (send_ring A') (last (sq A')) (recv_ring client0);
       (result, B', responses, stack) =
         process_cqe (w_imm (last (sq A'))) 9 (client0\<lparr>recv_ring := ring\<rparr>, [], [])
   in map (request_view ring) stack = frame_requests (batch_frames client2) \<and>
      last_recv_pos B' = flush_start_pos A'"
proof -
  note r = client2_props(6) [unfolded client0_props(11)]
  have "flush_start_pos client2 = 0" "last_recv_pos client2 < 2 ^ 64"
    using client2_props(1,2) by (simp_all add: rc_wf_def client2_props(7))
  then show ?thesis
    using rc_batch_delivered [OF client2_props(1) _ r, of client0 "\<lambda>_. None" 9 "[]" "[]"] client0_props client2_props
    by (simp add: Let_def split_beta)
qed

text \<open>
  C9. A wrap of the ring.  The receiver of a wrap record delivers nothing and moves to the
  position where the sender's next batch starts -- unless the record occupies the last 32 bytes
  of the ring: then it moves one whole ring too far.
\<close>
theorem rc_wrap_delivered:
  assumes "rc_wf A" "batch_message_count A = 0" "remote_recv_ring A = Some r"
    and "length (recv_ring B) = length (send_ring A)" "last_recv_pos B = flush_start_pos A"
    and "submit (sq_attempts A) = None"
  shows "let A' = snd (emit_wrap submit A);
             w = last (sq A');
             ring = rdma_place (rr_addr r) (send_ring A') w (recv_ring B);
             (result, B', responses, stack) = process_cqe (w_imm w) q (B\<lparr>recv_ring := ring\<rparr>, rs, st)
         in fst (emit_wrap submit A) = Ok () \<and> result = Ok () \<and> responses = rs \<and> stack = st \<and>
            last_recv_pos B' = flush_start_pos A' +
              (if flush_start_pos A mod length (send_ring A) + FLOW_METADATA_SIZE = length (send_ring A)
               then length (recv_ring B) else 0)"
proof -
  let ?e = "wrap_filled A" and ?S = "ssize A"
  note f = wrap_filled_props [OF assms(1,2)]
  have pos: "flush_start_pos A = meta_pos A" and S: "is_pow2 ?S" "64 \<le> ?S" "32 dvd meta_pos A"
    using assms(1) by (auto simp: rc_wf_def)
  define w where "w = batch_wqe r (meta_pos A) (send_ring_producer ?e) (SIGNAL_INTERVAL \<le> unsignaled_count ?e) ?e"
  define ring where "ring = rdma_place (rr_addr r) (send_ring ?e) w (recv_ring B)"
  have A': "emit_wrap submit A = (Ok (), prepare_next_batch (posted r ?e))"
    using emit_wrap_wf [OF assms(1-3), of submit] assms(6) by simp
  have "flush_start_pos ?e = meta_pos A" using f(1,5) by (simp add: rc_wf_def)
  then have fields: "last (sq (snd (emit_wrap submit A))) = w"
    "send_ring (snd (emit_wrap submit A)) = send_ring ?e"
    "flush_start_pos (snd (emit_wrap submit A)) = meta_pos A + (?S - meta_pos A mod ?S)"
    by (simp_all add: A' posted_def w_def prepare_next_batch_def Let_def f(6))
  obtain ret grant where
    d: "length ring = ?S" "decode_flow_metadata ring (meta_pos A mod ?S) = (ret, grant, WRAP_MESSAGE_COUNT)"
    using wrap_carried [OF assms(1-4) w_def ring_def] by blast
  have off: "recv_off (B\<lparr>recv_ring := ring\<rparr>) p = p mod ?S" for p
    using recv_off_mod [of "B\<lparr>recv_ring := ring\<rparr>" p] S(1) d(1) by simp
  have "process_cqe (w_imm w) q (B\<lparr>recv_ring := ring\<rparr>, rs, st) =
      (Ok (), ((meta_read (w_imm w) ret grant (B\<lparr>recv_ring := ring\<rparr>))
         \<lparr>last_recv_pos := meta_pos A + 32 + (?S - (meta_pos A + 32) mod ?S)\<rparr>, rs, st))"
    using process_cqe_eq [of "B\<lparr>recv_ring := ring\<rparr>" ret grant WRAP_MESSAGE_COUNT "w_imm w" q rs st]
      d off assms(5) pos wf_room [OF assms(1)]
    by (simp add: Let_def FLOW_METADATA_SIZE_def)
  then show ?thesis
    unfolding Let_def fields ring_def [symmetric]
    using wrap_position [OF S(3,1,2)] A' pos assms(4) by (simp add: FLOW_METADATA_SIZE_def)
qed

theorem rc_wrap_delivered_witness:
  "let A' = snd (emit_wrap (\<lambda>_. None) client3);
       w = last (sq A');
       ring = rdma_place 65536 (send_ring A') w (recv_ring client0);
       (result, B', responses, stack) =
         process_cqe (w_imm w) 9 (client0\<lparr>last_recv_pos := 96, recv_ring := ring\<rparr>, [], [])
   in last_recv_pos B' = flush_start_pos A' + 128"
  using rc_wrap_delivered [OF client3_props(1,4,5), of "client0\<lparr>last_recv_pos := 96\<rparr>" "\<lambda>_. None" 9 "[]" "[]"]
  by (simp add: client3_props client0_props Let_def split_beta FLOW_METADATA_SIZE_def)

text \<open>
  A successful call.  The call identifier is the slab key; the message with its exact
  payload is the last frame of the batch, behind the earlier frames or in a fresh batch after a
  wrap; the user data waits under the key; and the credit taken from the peer is the
  allowance that the peer will read from the header, which is enough for the batch metadata
  and every response of at most the announced size.
\<close>
theorem rc_call_effect:
  assumes "rc_wf ep" "length data < 2 ^ 32" "length response \<le> unat allowance" "unat allowance < 2 ^ 32"
    and "rc_call submit slab_key data u allowance ep = (Ok cid, ep')"
  shows "cid = word_of_nat (slab_key (pending_calls ep)) \<and>
    pending_calls ep' = (pending_calls ep)(slab_key (pending_calls ep) \<mapsto> u) \<and>
    (\<exists>earlier piggyback. (earlier = [] \<or> earlier = batch_frames ep) \<and>
       batch_frames ep' = earlier @ [((cid, piggyback, word_of_nat (length data)), data)] \<and>
       unat (ucast piggyback * ALIGNMENT :: u64) + peer_credit_balance ep' = peer_credit_balance ep \<and>
       FLOW_METADATA_SIZE + unat (padded_message_size (word_of_nat (length response)))
         \<le> unat (ucast piggyback * ALIGNMENT :: u64))"
proof -
  have len: "unat (word_of_nat (length response) :: u32) \<le> unat (ucast allowance :: u32)"
    using assms(3,4) by (simp add: unat_of_nat unsigned_ucast_eq take_bit_nat_eq_self unsigned_take_bit_eq)
  have "FLOW_METADATA_SIZE + unat (padded_message_size (word_of_nat (length response)))
      \<le> unat (internal_allowance allowance)"
    unfolding unat_internal_allowance unat_padded_message_size FLOW_METADATA_SIZE_def
    using len by (simp add: div_le_mono)
  moreover from assms(1,2,5) obtain b where "cid = word_of_nat (slab_key (pending_calls ep))"
    "batch_frames ep' = (if b then [] else batch_frames ep) @
       [((cid, ucast (call_blocks allowance), word_of_nat (length data)), data)]"
    "pending_calls ep' = (pending_calls ep)(slab_key (pending_calls ep) \<mapsto> u)"
    "unat (internal_allowance allowance) + peer_credit_balance ep' = peer_credit_balance ep"
    by (rule call_frame)
  ultimately show ?thesis
    by (intro conjI exI [of _ "if b then [] else batch_frames ep"] exI [of _ "ucast (call_blocks allowance)"])
      (simp_all add: allowance_carried)
qed

theorem rc_call_effect_witness:
  "\<exists>ep'. rc_call (\<lambda>_. None) (\<lambda>_. 3) (replicate 20 7) 5 16 client0 = (Ok 3, ep') \<and> pending_calls ep' 3 = Some 5"
proof -
  obtain cid where c: "rc_call (\<lambda>_. None) (\<lambda>_. 3) (replicate 20 7) 5 16 client0 = (Ok cid, client1)"
    using client1_Ok by blast
  show ?thesis
    using rc_call_effect [OF client0_props(1) _ _ _ c, of "[]"] c by simp
qed

end
