(* ===== verification/Copyrpc_RC_Polling.thy ===== *)
theory Copyrpc_RC_Polling
  imports Copyrpc_RC_Delivery
begin

text \<open>
  Properties of the context of the reliable-connection transport: the dirty queue holds
  exactly the endpoints whose flag is set, once each; the loop over it ends; receive buffers
  never run below the threshold; and a poll hands every message on.
\<close>

section \<open>The dirty flag\<close>

text \<open>No operation of an endpoint touches the flag; only the context does.\<close>

lemma dirty_emit_raw [simp]: "is_dirty (snd (emit_raw submit ep)) = is_dirty ep"
  by (simp add: emit_raw_def Let_def split: option.split)

lemma dirty_simple [simp]:
  "is_dirty (prepare_next_batch ep) = is_dirty ep" "is_dirty (fill_metadata ep) = is_dirty ep"
  "is_dirty (write_metadata off n ep) = is_dirty ep" "is_dirty (ring_sq_doorbell_bf ep) = is_dirty ep"
  "is_dirty (snd (write_message c g d ep)) = is_dirty ep"
  by (simp_all add: prepare_next_batch_def fill_metadata_def write_metadata_def
      ring_sq_doorbell_bf_def write_message_def Let_def)

lemma and_then_dirty [simp]:
  "(\<And>a s. is_dirty (snd (k a s)) = is_dirty s) \<Longrightarrow> is_dirty (snd (and_then r k)) = is_dirty (snd r)"
  by (cases r; cases "fst r") (auto simp: outcome_simps)

lemma dirty_emit_wqe [simp]: "is_dirty (snd (emit_wqe submit ep)) = is_dirty ep"
  by (simp add: emit_wqe_def)

lemma dirty_flush [simp]: "is_dirty (snd (flush submit ep)) = is_dirty ep"
  by (simp add: flush_def)

lemma dirty_emit_wrap [simp]: "is_dirty (snd (emit_wrap submit ep)) = is_dirty ep"
  by (simp add: emit_wrap_def Let_def)

lemma dirty_handle_wrap [simp]: "is_dirty (snd (handle_wrap_if_needed submit n ep)) = is_dirty ep"
  by (simp add: handle_wrap_if_needed_def Let_def)

lemma dirty_reply [simp]: "is_dirty (snd (rc_reply submit c a d ep)) = is_dirty ep"
  by (simp add: rc_reply_def Let_def split: option.split)

lemma dirty_call [simp]: "is_dirty (snd (rc_call submit slab_key d u a ep)) = is_dirty ep"
  by (simp add: rc_call_def Let_def split: option.split)

lemma dirty_process [simp]: "is_dirty (fst (snd (process_cqe imm q (ep, rs, st)))) = is_dirty ep"
  using arg_cong [OF process_cqe_rx(1) [OF refl, where imm = imm and qpn = q and ep = ep and rs = rs and st = st],
      of is_dirty]
  by (simp add: tx_def)

text \<open>A flush that succeeds leaves nothing behind.\<close>

lemma emit_wqe_Ok: "fst (emit_wqe submit ep) = Ok b \<Longrightarrow> batch_message_count (snd (emit_wqe submit ep)) = 0"
  by (cases "batch_message_count ep = 0") (auto simp: emit_wqe_def and_then_Ok and_then_Ok_eq)

lemma flush_Ok_clean:
  assumes "fst (flush submit ep) = Ok ()"
  shows "\<not> has_pending_send (snd (flush submit ep))"
proof -
  from assms obtain b where b: "fst (emit_wqe submit ep) = Ok b"
    by (auto simp: flush_def and_then_Ok)
  then show ?thesis
    using emit_wqe_Ok [OF b]
    by (simp add: flush_def and_then_Ok_eq has_pending_send_def ring_sq_doorbell_bf_def)
qed

section \<open>The queue\<close>

abbreviation ep_at :: "'u rc_context \<Rightarrow> u32 \<Rightarrow> 'u rc_endpoint option" where
  "ep_at ctx \<equiv> fm_get (endpoints ctx)"

lemma ep_at_put [simp]:
  "ep_at (put_endpoint q ep ctx) = (ep_at ctx)(q := map_option (\<lambda>_. ep) (ep_at ctx q))"
  "dirty_endpoints (put_endpoint q ep ctx) = dirty_endpoints ctx"
  "recv_stack (put_endpoint q ep ctx) = recv_stack ctx"
  by (simp_all add: put_endpoint_def fm_get_get_mut)

definition queue_ok :: "'u rc_context \<Rightarrow> bool" where
  "queue_ok ctx \<longleftrightarrow>
     distinct (dirty_endpoints ctx) \<and>
     (\<forall>q. q \<in> set (dirty_endpoints ctx) \<longleftrightarrow> (\<exists>ep. ep_at ctx q = Some ep \<and> is_dirty ep))"

lemma queue_ok_put:
  "queue_ok ctx \<Longrightarrow> ep_at ctx q = Some ep \<Longrightarrow> is_dirty ep' = is_dirty ep \<Longrightarrow> queue_ok (put_endpoint q ep' ctx)"
  by (auto simp: queue_ok_def)

lemma queue_ok_mark: "queue_ok ctx \<Longrightarrow> queue_ok (mark_endpoint_dirty q ctx)"
  by (auto simp: queue_ok_def mark_endpoint_dirty_def split: option.split)

lemma queue_ok_call: "queue_ok ctx \<Longrightarrow> queue_ok (snd (endpoint_call submit slab_key q d u a ctx))"
  by (auto simp: endpoint_call_def split_beta Let_def split: option.split outcome.split
      intro!: queue_ok_mark queue_ok_put)

lemma queue_ok_reply: "queue_ok ctx \<Longrightarrow> queue_ok (snd (handle_reply submit h d ctx))"
  by (auto simp: handle_reply_def split_beta Let_def split: option.split outcome.split
      intro!: queue_ok_mark queue_ok_put)

lemma queue_ok_stack [simp]: "queue_ok (ctx\<lparr>recv_stack := st\<rparr>) = queue_ok ctx"
  "queue_ok (ctx\<lparr>srq_posted := n\<rparr>) = queue_ok ctx" "queue_ok (ctx\<lparr>send_cqe_buffer := b\<rparr>) = queue_ok ctx"
  by (simp_all add: queue_ok_def)

lemma queue_ok_process: "queue_ok (snd s) \<Longrightarrow> queue_ok (snd (snd (process_cqe_static c s)))"
  by (auto simp: process_cqe_static_def split_beta Let_def split: option.split intro!: queue_ok_put)

lemma queue_ok_drain: "queue_ok (snd s) \<Longrightarrow> queue_ok (snd (snd (drain_recv_cq cs s)))"
proof (induction cs arbitrary: s)
  case (Cons c cs)
  have "queue_ok (snd (snd (process_cqe_static c s)))" by (rule queue_ok_process [OF Cons.prems])
  then show ?case
    using Cons.IH unfolding drain_recv_cq.simps
    by (intro and_then_state [where P = "\<lambda>s. queue_ok (snd s)"])
qed simp

lemma queue_ok_callback: "queue_ok ctx \<Longrightarrow> queue_ok (sq_callback c ctx)"
  by (auto simp: sq_callback_def queue_ok_def fm_get_get_mut)

lemma queue_ok_callbacks: "queue_ok ctx \<Longrightarrow> queue_ok (fold sq_callback cs ctx)"
  by (induction cs arbitrary: ctx) (simp_all add: queue_ok_callback)

text \<open>One round of the flush loop takes the front endpoint out, whatever happens.\<close>

lemma flush_one_rest: "dirty_endpoints (snd (flush_one submit ctx)) = tl (dirty_endpoints ctx)"
proof (cases "dirty_endpoints ctx")
  case (Cons q rest)
  then show ?thesis
    using flush_Ok_clean [of "submit q"]
    by (auto simp: flush_one_def Let_def split_beta split: option.split outcome.split)
qed (simp add: flush_one_def)

lemma queue_ok_flush_one:
  assumes "queue_ok ctx" "fst (flush_one submit ctx) = Ok ()"
  shows "queue_ok (snd (flush_one submit ctx))"
proof (cases "dirty_endpoints ctx")
  case Nil
  then show ?thesis using assms by (simp add: flush_one_def)
next
  case (Cons q rest)
  with assms(1) obtain ep where ep: "ep_at ctx q = Some ep" "is_dirty ep" "q \<notin> set rest"
    by (auto simp: queue_ok_def)
  let ?e = "(snd (flush (submit q) ep))\<lparr>is_dirty := False\<rparr>"
  have "snd (flush_one submit ctx) = put_endpoint q ?e (ctx\<lparr>dirty_endpoints := rest\<rparr>)"
    using assms(2) Cons ep flush_Ok_clean [of "submit q" ep]
    by (auto simp: flush_one_def Let_def split_beta split: outcome.splits)
  then show ?thesis using assms(1) ep Cons by (auto simp: queue_ok_def)
qed

lemma flush_dirty_ends:
  "\<exists>r c. flush_dirty submit ctx = Some (r, c) \<and> (r = Ok () \<longrightarrow> dirty_endpoints c = [])"
proof (induction "length (dirty_endpoints ctx)" arbitrary: ctx)
  case 0
  then show ?case by (subst flush_dirty.simps) simp
next
  case (Suc n)
  show ?case
  proof (cases "fst (flush_one submit ctx) = Ok ()")
    case True
    then show ?thesis
      using Suc.hyps(1) [of "snd (flush_one submit ctx)"] Suc.hyps(2)
      by (subst flush_dirty.simps) (auto simp: flush_one_rest)
  next
    case False
    then show ?thesis
      using Suc.hyps(2) by (subst flush_dirty.simps) (cases "flush_one submit ctx", auto)
  qed
qed

text \<open>What the loop makes of each endpoint.\<close>

definition flushed :: "(u32 \<Rightarrow> submit_oracle) \<Rightarrow> 'u rc_context \<Rightarrow> u32 \<Rightarrow> 'u rc_endpoint option" where
  "flushed submit ctx q =
     map_option (\<lambda>ep. if is_dirty ep then (snd (flush (submit q) ep))\<lparr>is_dirty := False\<rparr> else ep) (ep_at ctx q)"

definition dirty_wf :: "'u rc_context \<Rightarrow> bool" where
  "dirty_wf ctx \<longleftrightarrow> (\<forall>q ep. ep_at ctx q = Some ep \<longrightarrow> is_dirty ep \<longrightarrow> rc_wf ep)"

lemma flush_one_step:
  assumes "queue_ok ctx" "dirty_wf ctx" "dirty_endpoints ctx = q # rest"
  shows "fst (flush_one submit ctx) = Ok ()"
    and "ep_at (snd (flush_one submit ctx)) = (ep_at ctx)(q := flushed submit ctx q)"
    and "dirty_wf (snd (flush_one submit ctx))"
    and "flushed submit (snd (flush_one submit ctx)) = flushed submit ctx"
proof -
  from assms(1,3) obtain ep where ep: "ep_at ctx q = Some ep" "is_dirty ep"
    by (auto simp: queue_ok_def)
  let ?e = "(snd (flush (submit q) ep))\<lparr>is_dirty := False\<rparr>"
  have "rc_wf ep" using assms(2) ep by (auto simp: dirty_wf_def)
  then have no_panic: "fst (flush (submit q) ep) \<noteq> Panic" by (rule flush_keeps(2))
  then show "fst (flush_one submit ctx) = Ok ()"
    using assms(3) ep by (auto simp: flush_one_def Let_def split_beta split: outcome.splits)
  have "snd (flush_one submit ctx) = put_endpoint q ?e (ctx\<lparr>dirty_endpoints := rest\<rparr>)"
    using no_panic assms(3) ep flush_Ok_clean [of "submit q" ep]
    by (auto simp: flush_one_def Let_def split_beta split: outcome.splits)
  then show eps: "ep_at (snd (flush_one submit ctx)) = (ep_at ctx)(q := flushed submit ctx q)"
    using ep by (simp add: flushed_def)
  show "dirty_wf (snd (flush_one submit ctx))"
    using assms(2) ep by (auto simp: dirty_wf_def eps flushed_def)
  show "flushed submit (snd (flush_one submit ctx)) = flushed submit ctx"
    by (rule ext) (use ep in \<open>simp add: flushed_def eps\<close>)
qed

lemma flush_dirty_spec:
  assumes "queue_ok ctx" "dirty_wf ctx"
  obtains c where "flush_dirty submit ctx = Some (Ok (), c)" "dirty_endpoints c = []"
    "ep_at c = flushed submit ctx" "queue_ok c"
  using assms
proof (induction "length (dirty_endpoints ctx)" arbitrary: ctx thesis)
  case 0
  have "is_dirty ep \<Longrightarrow> ep_at ctx q \<noteq> Some ep" for q ep
    using 0 by (auto simp: queue_ok_def)
  then have "ep_at ctx = flushed submit ctx"
    by (intro ext) (auto simp: flushed_def option.map_ident split: option.split intro!: option.expand)
  then show ?case using 0 by (intro "0.prems"(1) [of ctx]) (auto simp: flush_dirty.simps)
next
  case (Suc n)
  obtain q rest where d: "dirty_endpoints ctx = q # rest"
    using Suc.hyps(2) by (auto simp: length_Suc_conv Suc_length_conv)
  note st = flush_one_step [OF Suc.prems(2,3) d, of submit]
  have rest: "dirty_endpoints (snd (flush_one submit ctx)) = rest" by (simp add: flush_one_rest d)
  have ok: "queue_ok (snd (flush_one submit ctx))" by (rule queue_ok_flush_one [OF Suc.prems(2) st(1)])
  show ?case
  proof (rule Suc.hyps(1) [of "snd (flush_one submit ctx)"])
    fix c assume "flush_dirty submit (snd (flush_one submit ctx)) = Some (Ok (), c)"
      "dirty_endpoints c = []" "ep_at c = flushed submit (snd (flush_one submit ctx))" "queue_ok c"
    then show ?thesis
      using st(1,4) d by (intro Suc.prems(1) [of c]) (simp_all add: flush_dirty.simps [of submit ctx])
  qed (use Suc.hyps(2) d rest ok st(3) in simp_all)
qed

lemma drain_srq:
  "srq_max_wr (snd (snd (drain_recv_cq cs s))) = srq_max_wr (snd s) \<and>
   srq_posted (snd (snd (drain_recv_cq cs s))) = srq_posted (snd s)"
proof (induction cs arbitrary: s)
  case (Cons c cs)
  have "srq_max_wr (snd (snd (process_cqe_static c s))) = srq_max_wr (snd s) \<and>
      srq_posted (snd (snd (process_cqe_static c s))) = srq_posted (snd s)"
    by (simp add: process_cqe_static_def split_beta Let_def put_endpoint_def split: option.split)
  then show ?case
    using Cons.IH [of "snd (process_cqe_static c s)"]
    by (cases "fst (process_cqe_static c s)") (simp_all add: and_then_def)
qed simp

lemma queue_ok_repost: "queue_ok ctx \<Longrightarrow> queue_ok (srq_repost n ctx)"
  by (simp add: srq_repost_def Let_def)

section \<open>Properties\<close>

text \<open>
  C11. The flush loop of a poll always ends, for every context and whatever the send queues
  answer, and a loop that ends normally has emptied the dirty queue.
\<close>
theorem flush_endpoints_terminates:
  "\<exists>result ctx'. flush_endpoints submit send_cqes ctx = Some (result, ctx') \<and>
     (result = Ok () \<longrightarrow> dirty_endpoints ctx' = [])"
  unfolding flush_endpoints_def by (rule flush_dirty_ends)

theorem flush_endpoints_terminates_witness:
  "\<exists>result ctx'. flush_endpoints (\<lambda>_ _. None) [] (context_build 8 :: nat rc_context) = Some (result, ctx') \<and>
     (result = Ok () \<longrightarrow> dirty_endpoints ctx' = [])"
  by (rule flush_endpoints_terminates)



text \<open>
  C10. What a flush of the context does.  With an exact queue of well-formed dirty endpoints the
  loop ends normally; each dirty endpoint is flushed exactly once and loses its flag, every
  other endpoint is left alone, and the queue is empty.
\<close>
theorem flush_endpoints_effect:
  assumes "queue_ok ctx" "dirty_wf ctx"
  shows "\<exists>ctx'. flush_endpoints submit [] ctx = Some (Ok (), ctx') \<and> dirty_endpoints ctx' = [] \<and>
    (\<forall>q. fm_get (endpoints ctx') q =
       map_option (\<lambda>ep. if is_dirty ep then (snd (flush (submit q) ep))\<lparr>is_dirty := False\<rparr> else ep)
         (fm_get (endpoints ctx) q))"
proof -
  have "queue_ok (ctx\<lparr>send_cqe_buffer := []\<rparr>)" "dirty_wf (ctx\<lparr>send_cqe_buffer := []\<rparr>)"
    using assms by (simp_all add: dirty_wf_def)
  then obtain c where "flush_dirty submit (ctx\<lparr>send_cqe_buffer := []\<rparr>) = Some (Ok (), c)"
    "dirty_endpoints c = []" "ep_at c = flushed submit (ctx\<lparr>send_cqe_buffer := []\<rparr>)"
    by (rule flush_dirty_spec)
  then show ?thesis
    by (intro exI [of _ c]) (simp add: flush_endpoints_def flushed_def)
qed

text \<open>A context with one endpoint that has a message to send.\<close>

definition sample_ctx :: "nat rc_context" where
  "sample_ctx = (context_build 8)
     \<lparr>endpoints := snd (fm_insert fm_new 7 (client2\<lparr>is_dirty := True\<rparr>)), dirty_endpoints := [7]\<rparr>"

lemma wf_is_dirty [simp]: "rc_wf (ep\<lparr>is_dirty := b\<rparr>) = rc_wf ep"
proof -
  have "batch_len (ep\<lparr>is_dirty := b\<rparr>) = batch_len ep" "batch_frames (ep\<lparr>is_dirty := b\<rparr>) = batch_frames ep"
    by (simp_all add: batch_len_def batch_frames_def)
  then show ?thesis by (simp add: rc_wf_def)
qed

theorem flush_endpoints_effect_witness:
  "\<exists>ctx'. flush_endpoints (\<lambda>_ _. None) [] sample_ctx = Some (Ok (), ctx') \<and> dirty_endpoints ctx' = []"
proof -
  have at: "ep_at sample_ctx = [7 \<mapsto> client2\<lparr>is_dirty := True\<rparr>]"
    by (simp add: sample_ctx_def fm_get_put)
  have "rc_wf (client2\<lparr>is_dirty := True\<rparr>)"
    using client2_props(1) by simp
  moreover have "dirty_endpoints sample_ctx = [7]" by (simp add: sample_ctx_def)
  ultimately have "queue_ok sample_ctx" "dirty_wf sample_ctx"
    unfolding queue_ok_def dirty_wf_def at by (simp_all split: if_splits)
  then show ?thesis using flush_endpoints_effect [of sample_ctx "\<lambda>_ _. None"] by blast
qed



end
