(* ===== verification/Ring_Index.thy ===== *)
theory Ring_Index
  imports Prelude
begin

text \<open>
  Rings addressed by free-running counters.  Several components of the repository keep a
  producer and a consumer counter that are incremented modulo the word size and reduced to a
  slot by the mask of a power-of-two capacity.  \<open>window\<close> is the part of the ring between two
  counters; writing behind it and advancing its start are the two steps every queue is made
  of.  The locale \<open>fifo\<close> is the contract such a queue promises its clients: whatever the order
  in which the operations are interleaved, what comes out is what went in, in order.
\<close>

definition ring_slot :: "'i::len word \<Rightarrow> nat \<Rightarrow> nat" where
  "ring_slot i cap = unat i AND (cap - 1)"

definition window :: "'a list \<Rightarrow> 'i::len word \<Rightarrow> nat \<Rightarrow> 'a list" where
  "window slots i n = map (\<lambda>k. slots ! ring_slot (i + word_of_nat k) (length slots)) [0..<n]"

text \<open>The capacity of a ring whose counters have type \<open>'i word\<close>.\<close>

definition ring_cap :: "'i::len itself \<Rightarrow> nat \<Rightarrow> bool" where
  "ring_cap T cap \<longleftrightarrow> is_pow2 cap \<and> cap \<le> 2 ^ LENGTH('i)"

lemma pow2_dvd: "is_pow2 m \<Longrightarrow> is_pow2 n \<Longrightarrow> m \<le> n \<Longrightarrow> m dvd n"
  unfolding is_pow2_def
  by (metis le_imp_power_dvd one_less_numeral_iff power_increasing_iff semiring_norm(76))

lemma ring_cap_dvd: "ring_cap TYPE('i::len) cap \<Longrightarrow> cap dvd 2 ^ LENGTH('i)"
  unfolding ring_cap_def using pow2_dvd is_pow2_def by blast

lemma ring_cap_pos: "ring_cap T cap \<Longrightarrow> 0 < cap"
  by (simp add: ring_cap_def is_pow2_pos)

lemma ring_slot_mod:
  "ring_cap TYPE('i::len) cap \<Longrightarrow> ring_slot (i :: 'i word) cap = unat i mod cap"
  unfolding ring_slot_def ring_cap_def by (rule and_pow2_mod) simp

lemma ring_slot_less: "ring_cap TYPE('i::len) cap \<Longrightarrow> ring_slot (i :: 'i word) cap < cap"
  by (simp add: ring_slot_mod ring_cap_pos)

text \<open>Wrapping of the counter does not disturb the slots, because the capacity divides it.\<close>

lemma ring_slot_add:
  assumes "ring_cap TYPE('i::len) cap"
  shows "ring_slot (i + word_of_nat k :: 'i word) cap = (unat i + k) mod cap"
proof -
  have "unat (i + word_of_nat k) = (unat i + k) mod 2 ^ LENGTH('i)"
    by (simp add: unat_word_ariths unat_of_nat mod_simps)
  then show ?thesis
    using assms by (simp add: ring_slot_mod mod_mod_cancel ring_cap_dvd)
qed

lemma mod_add_inj_le:
  assumes "(a + j) mod c = (a + k) mod c" "j \<le> k" "k < (c :: nat)"
  shows "j = k"
proof -
  have "c dvd (a + k) - (a + j)"
    using assms by (subst mod_eq_dvd_iff_nat [symmetric]) simp_all
  then have "c dvd k - j" by simp
  then show ?thesis using assms(2,3) by (auto dest: dvd_imp_le)
qed

lemma ring_slot_inj:
  assumes "ring_cap TYPE('i::len) cap" "j < cap" "k < cap"
    and "ring_slot (i + word_of_nat j :: 'i word) cap = ring_slot (i + word_of_nat k) cap"
  shows "j = k"
proof -
  have "(unat i + j) mod cap = (unat i + k) mod cap"
    using assms(1,4) by (simp add: ring_slot_add)
  then show ?thesis
    using mod_add_inj_le [of "unat i" j cap k] mod_add_inj_le [of "unat i" k cap j] assms(2,3)
    by (cases "j \<le> k") simp_all
qed

lemma length_window [simp]: "length (window slots i n) = n"
  by (simp add: window_def)

lemma window_0 [simp]: "window slots i 0 = []"
  by (simp add: window_def)

lemma window_Suc:
  "window slots i (Suc n) = slots ! ring_slot i (length slots) # window slots (i + 1) n"
proof -
  have "window slots i (Suc n) =
      map (\<lambda>k. slots ! ring_slot (i + word_of_nat k) (length slots)) (0 # map Suc [0..<n])"
    by (simp add: window_def map_Suc_upt upt_conv_Cons del: upt_Suc)
  then show ?thesis by (simp add: window_def add.assoc)
qed

lemma window_snoc:
  "window slots i (Suc n) = window slots i n @ [slots ! ring_slot (i + word_of_nat n) (length slots)]"
  by (simp add: window_def)

lemma window_write:
  fixes i :: "'i::len word"
  assumes "ring_cap TYPE('i) (length slots)" "n < length slots"
  shows "window (slots[ring_slot (i + word_of_nat n) (length slots) := x]) i (Suc n) =
         window slots i n @ [x]"
proof -
  let ?s = "\<lambda>k. ring_slot (i + word_of_nat k) (length slots)"
  have "slots[?s n := x] ! ?s k = slots ! ?s k" if "k < n" for k
    using ring_slot_inj [OF assms(1), of k n i] that assms(2) by (metis less_trans nat_neq_iff nth_list_update_neq)
  then have "window (slots[?s n := x]) i n = window slots i n"
    by (simp add: window_def)
  then show ?thesis
    using assms by (simp add: window_snoc ring_slot_less)
qed

lemma window_update_start:
  fixes i :: "'i::len word"
  assumes "ring_cap TYPE('i) (length slots)" "n < length slots"
  shows "window (slots[ring_slot i (length slots) := x]) (i + 1) n = window slots (i + 1) n"
proof -
  let ?s = "\<lambda>k. ring_slot (i + word_of_nat k) (length slots)"
  have "slots[?s 0 := x] ! ?s (Suc k) = slots ! ?s (Suc k)" if "k < n" for k
  proof (rule nth_list_update_neq)
    show "?s 0 \<noteq> ?s (Suc k)"
      using ring_slot_inj [OF assms(1), of 0 "Suc k" i] that assms(2) by force
  qed
  then show ?thesis by (simp add: window_def add.assoc)
qed

lemma window_add:
  "window slots i (m + n) = window slots i m @ window slots (i + word_of_nat m) n"
  by (induction m arbitrary: i) (simp_all add: window_Suc add.assoc)

section \<open>Distances between counters\<close>

lemma unat_inc_less:
  assumes "unat x < unat (y :: 'i::len word)"
  shows "unat (x + 1 :: 'i word) = unat x + 1"
proof -
  have "unat y < 2 ^ LENGTH('i)" by (rule unsigned_less)
  then have "unat x + 1 < 2 ^ LENGTH('i)" using assms by linarith
  then show ?thesis by (subst unat_word_ariths) simp
qed

lemma unat_diff_Suc:
  assumes "unat (p - c :: 'i::len word) + 1 < 2 ^ LENGTH('i)"
  shows "unat (p + 1 - c) = unat (p - c) + 1"
proof -
  have "unat ((p - c) + 1) = unat (p - c) + 1"
    using assms by (subst unat_word_ariths) simp
  moreover have "p + 1 - c = (p - c) + 1" by (simp add: algebra_simps)
  ultimately show ?thesis by (simp only:)
qed

lemma unat_diff_pred:
  assumes "p \<noteq> (c :: 'i::len word)"
  shows "unat (p - (c + 1)) + 1 = unat (p - c)"
proof -
  have "p - c \<noteq> 0" using assms by simp
  then have "unat (p - c - 1) = unat (p - c) - 1" "0 < unat (p - c)"
    by (simp_all add: unat_minus_one unat_gt_0)
  then show ?thesis by (simp add: diff_diff_eq)
qed

lemma unat_diff_add:
  assumes "n \<le> unat (p - c :: 'i::len word)"
  shows "unat (p - (c + word_of_nat n)) = unat (p - c) - n"
  using assms
proof (induction n arbitrary: c)
  case (Suc n)
  then have "p \<noteq> c" by auto
  then have "unat (p - (c + 1)) + 1 = unat (p - c)" by (rule unat_diff_pred)
  moreover from this have "unat (p - ((c + 1) + word_of_nat n)) = unat (p - (c + 1)) - n"
    using Suc.prems by (intro Suc.IH) simp
  ultimately show ?case by (simp add: add.assoc)
qed simp

lemma add_unat_diff: "c + word_of_nat (unat (p - c)) = (p :: 'i::len word)"
  by simp

section \<open>Unbounded positions\<close>

text \<open>
  The same, for counters seen as the natural numbers they would be without wrapping: the words
  of the implementation are their images.
\<close>

lemma unat_of_nat_sub:
  assumes "a \<le> b" "b - a < 2 ^ LENGTH('i::len)"
  shows "unat (word_of_nat b - word_of_nat a :: 'i word) = b - a"
  using assms by (simp add: of_nat_diff [symmetric] unat_of_nat del: of_nat_diff)

lemma of_nat_word_eq:
  assumes "a \<le> b" "b - a < 2 ^ LENGTH('i::len)"
  shows "word_of_nat a = (word_of_nat b :: 'i word) \<longleftrightarrow> a = b"
  using unat_of_nat_sub [OF assms] assms(1) by (metis diff_is_0_eq le_antisym right_minus_eq unat_0 unat_eq_zero)

lemma ring_slot_of_nat:
  "ring_cap TYPE('i::len) cap \<Longrightarrow> ring_slot (word_of_nat p :: 'i word) cap = p mod cap"
  using ring_slot_add [of cap "0 :: 'i word" p] by simp

lemma mask_slot:
  assumes "ring_cap TYPE('i::len) cap" "cap < 2 ^ LENGTH('i)"
  shows "unat (word_of_nat p AND word_of_nat (cap - 1) :: 'i word) = p mod cap"
proof -
  have "unat (word_of_nat (cap - 1) :: 'i word) = cap - 1" using assms(2) by (simp add: unat_of_nat)
  then have "unat (word_of_nat p AND word_of_nat (cap - 1) :: 'i word) = ring_slot (word_of_nat p :: 'i word) cap"
    by (simp add: ring_slot_def unsigned_and_eq)
  then show ?thesis by (simp add: ring_slot_of_nat [OF assms(1)])
qed

definition cells :: "'a list \<Rightarrow> nat \<Rightarrow> nat \<Rightarrow> 'a list" where
  "cells slots p n = map (\<lambda>k. slots ! ((p + k) mod length slots)) [0..<n]"

lemma length_cells [simp]: "length (cells slots p n) = n"
  by (simp add: cells_def)

lemma cells_0 [simp]: "cells slots p 0 = []"
  by (simp add: cells_def)

lemma cells_Suc: "cells slots p (Suc n) = slots ! (p mod length slots) # cells slots (Suc p) n"
proof -
  have "cells slots p (Suc n) = map (\<lambda>k. slots ! ((p + k) mod length slots)) (0 # map Suc [0..<n])"
    by (simp add: cells_def map_Suc_upt upt_conv_Cons del: upt_Suc)
  then show ?thesis by (simp add: cells_def)
qed

lemma cells_update_other:
  assumes "\<And>k. k < n \<Longrightarrow> (p + k) mod length slots \<noteq> i"
  shows "cells (slots[i := x]) p n = cells slots p n"
  unfolding cells_def length_list_update
  by (rule map_cong) (use assms in \<open>auto intro!: nth_list_update_neq\<close>)

lemma cells_write:
  assumes "n < length slots"
  shows "cells (slots[(p + n) mod length slots := x]) p (Suc n) = cells slots p n @ [x]"
proof -
  have "cells (slots[(p + n) mod length slots := x]) p n = cells slots p n"
    using assms mod_add_inj_le [of p _ "length slots" n]
    by (intro cells_update_other) (metis less_imp_le_nat nat_less_le)
  moreover have "(p + n) mod length slots < length slots" using assms by (intro mod_less_divisor) linarith
  ultimately show ?thesis by (simp add: cells_def)
qed

lemma cells_update_start:
  assumes "n < length slots"
  shows "cells (slots[p mod length slots := x]) (Suc p) n = cells slots (Suc p) n"
proof (rule cells_update_other)
  fix k assume "k < n"
  then have "Suc k < length slots" using assms by simp
  then show "(Suc p + k) mod length slots \<noteq> p mod length slots"
    using mod_add_inj_le [of p 0 "length slots" "Suc k"] by auto
qed

lemma window_of_nat:
  assumes "ring_cap TYPE('i::len) (length slots)"
  shows "window slots (word_of_nat p :: 'i word) n = cells slots p n"
proof -
  have "ring_slot (word_of_nat p + word_of_nat k :: 'i word) (length slots) = (p + k) mod length slots" for k
    using ring_slot_of_nat [OF assms, of "p + k"] by simp
  then show ?thesis by (simp add: window_def cells_def)
qed

section \<open>The contract of a queue\<close>

primrec run_ops :: "('op \<Rightarrow> 's \<Rightarrow> 's) \<Rightarrow> 'op list \<Rightarrow> 's \<Rightarrow> 's" where
  "run_ops step [] s = s"
| "run_ops step (op # ops) s = run_ops step ops (step op s)"

primrec ops_allowed :: "('op \<Rightarrow> 's \<Rightarrow> 's) \<Rightarrow> ('op \<Rightarrow> 's \<Rightarrow> bool) \<Rightarrow> 'op list \<Rightarrow> 's \<Rightarrow> bool" where
  "ops_allowed step allowed [] s \<longleftrightarrow> True"
| "ops_allowed step allowed (op # ops) s \<longleftrightarrow>
     allowed op s \<and> ops_allowed step allowed ops (step op s)"

text \<open>What the operations of a sequence report, concatenated.\<close>

primrec ops_collect :: "('op \<Rightarrow> 's \<Rightarrow> 's) \<Rightarrow> ('op \<Rightarrow> 's \<Rightarrow> 'v list) \<Rightarrow> 'op list \<Rightarrow> 's \<Rightarrow> 'v list" where
  "ops_collect step report [] s = []"
| "ops_collect step report (op # ops) s = report op s @ ops_collect step report ops (step op s)"

locale fifo =
  fixes inv :: "'s \<Rightarrow> bool"
    and contents :: "'s \<Rightarrow> 'v list"
    and allowed :: "'op \<Rightarrow> 's \<Rightarrow> bool"
    and step :: "'op \<Rightarrow> 's \<Rightarrow> 's"
    and taken :: "'op \<Rightarrow> 's \<Rightarrow> 'v list"
    and given :: "'op \<Rightarrow> 's \<Rightarrow> 'v list"
  assumes step_inv: "inv s \<Longrightarrow> allowed op s \<Longrightarrow> inv (step op s)"
    and step_contents: "inv s \<Longrightarrow> allowed op s \<Longrightarrow>
          given op s @ contents (step op s) = contents s @ taken op s"
begin

lemma run_inv: "inv s \<Longrightarrow> ops_allowed step allowed ops s \<Longrightarrow> inv (run_ops step ops s)"
  by (induction ops arbitrary: s) (simp_all add: step_inv)

lemma run_contents:
  "inv s \<Longrightarrow> ops_allowed step allowed ops s \<Longrightarrow>
     ops_collect step given ops s @ contents (run_ops step ops s) = contents s @ ops_collect step taken ops s"
proof (induction ops arbitrary: s)
  case (Cons op ops)
  then have "ops_collect step given ops (step op s) @ contents (run_ops step ops (step op s)) =
      contents (step op s) @ ops_collect step taken ops (step op s)"
    by (simp add: step_inv)
  then have "ops_collect step given (op # ops) s @ contents (run_ops step (op # ops) s) =
      (given op s @ contents (step op s)) @ ops_collect step taken ops (step op s)"
    by simp
  also have "\<dots> = contents s @ ops_collect step taken (op # ops) s"
    using Cons.prems by (simp add: step_contents)
  finally show ?case .
qed simp

end

end
