(* ===== verification/Mlx5_Srq.thy ===== *)
theory Mlx5_Srq
  imports Byte_Codec Ring_Index
begin

text \<open>
  Model of the shared receive queue of \<^verbatim>\<open>mlx5/src/srq.rs\<close>: the producer and consumer index
  as free-running 32-bit counters, the entry table, the buffer of receive requests that the
  device reads, the doorbell record, and the batch builder that stages requests before it
  publishes them.

  \<^verbatim>\<open>init_direct_access_internal\<close> leaves the BlueFlame register of a shared receive queue
  null, so the doorbells reduce to the doorbell record; the copy that \<open>srq_batch_finish\<close> pushes
  to a register borrowed from a queue pair is recorded as the bytes pushed.
\<close>

definition be_bytes :: "nat \<Rightarrow> 'a::len word \<Rightarrow> bytes" where
  "be_bytes k w = rev (le_bytes k w)"

lemma length_be_bytes [simp]: "length (be_bytes k w) = k"
  by (simp add: be_bytes_def)

definition data_seg :: "u32 \<Rightarrow> u32 \<Rightarrow> u64 \<Rightarrow> bytes" where
  "data_seg byte_count lkey addr = be_bytes 4 byte_count @ be_bytes 4 lkey @ be_bytes 8 addr"

record 'e srq_state =
  srq_buf :: bytes
  srq_wqe_cnt :: u32
  srq_stride :: u32
  srq_pi :: u32
  srq_ci :: u32
  srq_dbrec :: u32
  srq_pending_start :: "nat option"
  srq_pending_wqe_count :: nat
  srq_table :: "'e option list"

datatype srq_error = WouldBlock | RqFull | BlueflameOverflow | BlueflameNotAvailable

text \<open>The buffer and its stride come from the device; the count is rounded to a power of two.\<close>

definition srq_new :: "nat \<Rightarrow> u32 \<Rightarrow> 'e srq_state" where
  "srq_new actual_max_wr stride =
     (let wqe_cnt = next_power_of_two actual_max_wr
      in \<lparr>srq_buf = replicate (wqe_cnt * unat stride) 0,
          srq_wqe_cnt = word_of_nat wqe_cnt,
          srq_stride = stride,
          srq_pi = 0,
          srq_ci = 0,
          srq_dbrec = 0,
          srq_pending_start = None,
          srq_pending_wqe_count = 0,
          srq_table = replicate wqe_cnt None\<rparr>)"

definition get_wqe_ptr :: "'e srq_state \<Rightarrow> u32 \<Rightarrow> nat" where
  "get_wqe_ptr s idx = unat (idx AND (srq_wqe_cnt s - 1)) * unat (srq_stride s)"

definition srq_available :: "'e srq_state \<Rightarrow> u32" where
  "srq_available s = srq_wqe_cnt s - (srq_pi s - srq_ci s)"

definition srq_table_index :: "'e srq_state \<Rightarrow> u32 \<Rightarrow> nat" where
  "srq_table_index s idx = unat idx AND unat (srq_wqe_cnt s - 1)"

definition srq_post_recv ::
  "'e \<Rightarrow> u64 \<Rightarrow> u32 \<Rightarrow> u32 \<Rightarrow> 'e srq_state \<Rightarrow> (srq_error + unit) \<times> 'e srq_state" where
  "srq_post_recv entry addr n lkey s =
     (if srq_available s = 0 then (Inl WouldBlock, s)
      else let wqe_idx = srq_pi s;
               wqe_ptr = get_wqe_ptr s wqe_idx
           in (Inr (),
               s\<lparr>srq_buf := write_at (wqe_ptr + 16) (data_seg n lkey addr)
                              (write_at wqe_ptr (replicate 16 0) (srq_buf s)),
                 srq_table := (srq_table s)[srq_table_index s wqe_idx := Some entry],
                 srq_pi := srq_pi s + 1,
                 srq_pending_start :=
                   (case srq_pending_start s of None \<Rightarrow> Some wqe_ptr | Some p \<Rightarrow> Some p),
                 srq_pending_wqe_count := srq_pending_wqe_count s + 1\<rparr>))"

definition srq_ring_doorbell :: "'e srq_state \<Rightarrow> 'e srq_state" where
  "srq_ring_doorbell s =
     s\<lparr>srq_dbrec := srq_pi s, srq_pending_wqe_count := 0, srq_pending_start := None\<rparr>"

definition srq_ring_doorbell_bf :: "'e srq_state \<Rightarrow> 'e srq_state" where
  "srq_ring_doorbell_bf s =
     (if srq_pending_wqe_count s = 0 then s
      else s\<lparr>srq_dbrec := srq_pi s, srq_pending_wqe_count := 0, srq_pending_start := None\<rparr>)"

definition srq_process_completion :: "u16 \<Rightarrow> 'e srq_state \<Rightarrow> 'e option \<times> 'e srq_state" where
  "srq_process_completion wqe_idx s =
     (let ci = srq_ci s;
          idx = srq_table_index s ci
      in (srq_table s ! idx,
          s\<lparr>srq_ci := ci + 1, srq_table := (srq_table s)[idx := None]\<rparr>))"

definition srq_advance_ci :: "u32 \<Rightarrow> 'e srq_state \<Rightarrow> 'e srq_state" where
  "srq_advance_ci count s = s\<lparr>srq_ci := srq_ci s + count\<rparr>"

section \<open>The batch builder\<close>

definition SRQ_WQE_SIZE :: nat where "SRQ_WQE_SIZE = 32"

definition BLUEFLAME_BUFFER_SIZE :: nat where "BLUEFLAME_BUFFER_SIZE = 256"

record srq_batch =
  sb_buffer :: bytes
  sb_offset :: nat
  sb_wqe_count :: u32

definition srq_blueflame_rq_batch :: "u32 \<Rightarrow> 'e srq_state \<Rightarrow> srq_error + srq_batch" where
  "srq_blueflame_rq_batch bf_size s =
     (if bf_size = 0 then Inl BlueflameNotAvailable
      else if srq_available s = 0 then Inl RqFull
      else Inr \<lparr>sb_buffer = replicate BLUEFLAME_BUFFER_SIZE 0, sb_offset = 0, sb_wqe_count = 0\<rparr>)"

definition srq_batch_post ::
  "'e \<Rightarrow> u64 \<Rightarrow> u32 \<Rightarrow> u32 \<Rightarrow> srq_batch \<times> 'e srq_state
     \<Rightarrow> (srq_error + unit) \<times> srq_batch \<times> 'e srq_state" where
  "srq_batch_post entry addr n lkey = (\<lambda>(b, s).
     if srq_available s \<le> sb_wqe_count b then (Inl RqFull, (b, s))
     else if BLUEFLAME_BUFFER_SIZE < sb_offset b + SRQ_WQE_SIZE then (Inl BlueflameOverflow, (b, s))
     else let wqe_idx = srq_pi s + sb_wqe_count b;
              wqe_ptr = get_wqe_ptr s wqe_idx
          in (Inr (),
              (b\<lparr>sb_buffer := write_at (sb_offset b + 16) (data_seg n lkey addr)
                                (write_at (sb_offset b) (replicate 16 0) (sb_buffer b)),
                 sb_offset := sb_offset b + SRQ_WQE_SIZE,
                 sb_wqe_count := sb_wqe_count b + 1\<rparr>,
               s\<lparr>srq_buf := write_at (wqe_ptr + 16) (data_seg n lkey addr)
                              (write_at wqe_ptr (replicate 16 0) (srq_buf s)),
                 srq_table := (srq_table s)[srq_table_index s wqe_idx := Some entry]\<rparr>)))"

text \<open>The bytes pushed to the BlueFlame register, and the queue.\<close>

definition srq_batch_finish :: "srq_batch \<times> 'e srq_state \<Rightarrow> bytes \<times> 'e srq_state" where
  "srq_batch_finish = (\<lambda>(b, s).
     if sb_wqe_count b = 0 then ([], s)
     else let pi = srq_pi s + sb_wqe_count b
          in (take (sb_offset b) (sb_buffer b), s\<lparr>srq_pi := pi, srq_dbrec := pi\<rparr>))"

section \<open>The queue as a first-in first-out buffer\<close>

definition srq_count :: "'e srq_state \<Rightarrow> nat" where
  "srq_count s = unat (srq_pi s - srq_ci s)"

definition srq_entries :: "'e srq_state \<Rightarrow> 'e list" where
  "srq_entries s = map the (window (srq_table s) (srq_ci s) (srq_count s))"

definition srq_wf :: "'e srq_state \<Rightarrow> bool" where
  "srq_wf s \<longleftrightarrow>
     ring_cap TYPE(32) (length (srq_table s)) \<and> length (srq_table s) < 2 ^ 32 \<and>
     unat (srq_wqe_cnt s) = length (srq_table s) \<and> srq_count s \<le> length (srq_table s) \<and>
     None \<notin> set (window (srq_table s) (srq_ci s) (srq_count s))"

lemma srq_available_unat:
  assumes "srq_wf s"
  shows "unat (srq_available s) = length (srq_table s) - srq_count s"
  using assms
  by (simp add: srq_wf_def srq_available_def srq_count_def unat_sub word_le_nat_alt)

lemma srq_full: "srq_wf s \<Longrightarrow> srq_available s = 0 \<longleftrightarrow> srq_count s = length (srq_table s)"
  using srq_available_unat [of s] by (auto simp: unat_eq_0 [symmetric] srq_wf_def)

lemma srq_table_index_slot:
  assumes "srq_wf s"
  shows "srq_table_index s i = ring_slot i (length (srq_table s))"
proof -
  have "0 < unat (srq_wqe_cnt s)"
    using assms ring_cap_pos by (auto simp: srq_wf_def)
  then have "unat (srq_wqe_cnt s - 1) = length (srq_table s) - 1"
    using assms by (simp add: srq_wf_def unat_minus_one unat_gt_0 unat_eq_0)
  then show ?thesis by (simp add: srq_table_index_def ring_slot_def)
qed

lemma srq_post_effect:
  fixes e addr n lkey
  assumes "srq_wf s" "srq_count s < length (srq_table s)"
  defines "s' \<equiv> snd (srq_post_recv e addr n lkey s)"
  shows "fst (srq_post_recv e addr n lkey s) = Inr ()"
    and "srq_count s' = srq_count s + 1" "srq_wf s'" "srq_entries s' = srq_entries s @ [e]"
proof -
  have avail: "srq_available s \<noteq> 0" using assms(1,2) by (simp add: srq_full)
  then show "fst (srq_post_recv e addr n lkey s) = Inr ()"
    by (simp add: srq_post_recv_def Let_def)
  have s': "srq_table s' = (srq_table s)[ring_slot (srq_pi s) (length (srq_table s)) := Some e]"
    "srq_pi s' = srq_pi s + 1" "srq_ci s' = srq_ci s" "srq_wqe_cnt s' = srq_wqe_cnt s"
    using avail srq_table_index_slot [OF assms(1)]
    by (simp_all add: s'_def srq_post_recv_def Let_def)
  have lt: "srq_count s + 1 < 2 ^ 32" using assms(1,2) by (simp add: srq_wf_def)
  then show p: "srq_count s' = srq_count s + 1"
    using unat_diff_Suc [of "srq_pi s" "srq_ci s"] s' by (simp add: srq_count_def)
  have pi: "srq_pi s = srq_ci s + word_of_nat (srq_count s)"
    unfolding srq_count_def by simp
  have cap: "ring_cap TYPE(32) (length (srq_table s))" using assms(1) by (simp add: srq_wf_def)
  have "window (srq_table s') (srq_ci s') (Suc (srq_count s)) =
      window (srq_table s) (srq_ci s) (srq_count s) @ [Some e]"
    unfolding s' by (subst pi) (rule window_write [OF cap assms(2)])
  with p have w: "window (srq_table s') (srq_ci s') (srq_count s') =
      window (srq_table s) (srq_ci s) (srq_count s) @ [Some e]"
    by simp
  then show "srq_entries s' = srq_entries s @ [e]" by (simp add: srq_entries_def)
  show "srq_wf s'" using assms(1,2) w p s' by (simp add: srq_wf_def)
qed

lemma srq_complete_effect:
  fixes idx
  assumes "srq_wf s" "0 < srq_count s"
  defines "s' \<equiv> snd (srq_process_completion idx s)"
  shows "fst (srq_process_completion idx s) = Some (hd (srq_entries s))"
    and "srq_count s' + 1 = srq_count s" "srq_wf s'" "srq_entries s' = tl (srq_entries s)"
proof -
  let ?k = "ring_slot (srq_ci s) (length (srq_table s))"
  have s': "srq_table s' = (srq_table s)[?k := None]"
    "srq_pi s' = srq_pi s" "srq_ci s' = srq_ci s + 1" "srq_wqe_cnt s' = srq_wqe_cnt s"
    using srq_table_index_slot [OF assms(1)]
    by (simp_all add: s'_def srq_process_completion_def Let_def)
  have "srq_pi s \<noteq> srq_ci s" using assms(2) by (auto simp: srq_count_def)
  then show p: "srq_count s' + 1 = srq_count s"
    using unat_diff_pred s' by (simp add: srq_count_def)
  have cap: "ring_cap TYPE(32) (length (srq_table s))"
    and full: "srq_count s \<le> length (srq_table s)"
    using assms(1) by (simp_all add: srq_wf_def)
  have "window (srq_table s') (srq_ci s') (srq_count s') =
      window (srq_table s) (srq_ci s + 1) (srq_count s')"
    unfolding s'(1,3) using p full by (intro window_update_start [OF cap]) simp
  moreover have w0: "window (srq_table s) (srq_ci s) (srq_count s) =
      srq_table s ! ?k # window (srq_table s) (srq_ci s + 1) (srq_count s')"
    using window_Suc [of "srq_table s" "srq_ci s" "srq_count s'"] p by simp
  ultimately have w: "window (srq_table s) (srq_ci s) (srq_count s) =
      srq_table s ! ?k # window (srq_table s') (srq_ci s') (srq_count s')"
    by simp
  then obtain e where "srq_table s ! ?k = Some e"
    using assms(1) by (cases "srq_table s ! ?k") (simp_all add: srq_wf_def)
  with w show "fst (srq_process_completion idx s) = Some (hd (srq_entries s))"
    by (simp add: srq_entries_def srq_process_completion_def Let_def
        srq_table_index_slot [OF assms(1)])
  show "srq_entries s' = tl (srq_entries s)" using w by (simp add: srq_entries_def)
  show "srq_wf s'" using assms(1) w p s' by (simp add: srq_wf_def)
qed

lemma srq_advance_effect:
  fixes count
  assumes "srq_wf s" "unat count \<le> srq_count s"
  defines "s' \<equiv> srq_advance_ci count s"
  shows "srq_count s' = srq_count s - unat count" "srq_wf s'"
    and "srq_entries s' = drop (unat count) (srq_entries s)"
proof -
  have p: "srq_count s' = srq_count s - unat count"
    using unat_diff_add [of "unat count" "srq_pi s" "srq_ci s"] assms(2)
    by (simp add: s'_def srq_advance_ci_def srq_count_def)
  then show "srq_count s' = srq_count s - unat count" .
  have w: "window (srq_table s) (srq_ci s) (srq_count s) =
      window (srq_table s) (srq_ci s) (unat count) @ window (srq_table s') (srq_ci s') (srq_count s')"
    using window_add [of "srq_table s" "srq_ci s" "unat count" "srq_count s'"] p assms(2)
    by (simp add: s'_def srq_advance_ci_def)
  then show "srq_entries s' = drop (unat count) (srq_entries s)"
    by (simp add: srq_entries_def)
  have "srq_count s' \<le> length (srq_table s)"
    unfolding p using assms(1) by (auto simp: srq_wf_def)
  then show "srq_wf s'"
    using assms(1) w by (simp add: srq_wf_def) (simp add: s'_def srq_advance_ci_def)
qed

lemma srq_doorbell_frame [simp]:
  "srq_wf (srq_ring_doorbell s) = srq_wf s" "srq_entries (srq_ring_doorbell s) = srq_entries s"
  "srq_count (srq_ring_doorbell s) = srq_count s"
  "srq_wf (srq_ring_doorbell_bf s) = srq_wf s"
  "srq_entries (srq_ring_doorbell_bf s) = srq_entries s"
  "srq_table (srq_ring_doorbell s) = srq_table s"
  by (simp_all add: srq_wf_def srq_entries_def srq_count_def srq_ring_doorbell_def
      srq_ring_doorbell_bf_def)

lemma length_srq_entries [simp]: "length (srq_entries s) = srq_count s"
  by (simp add: srq_entries_def)

lemma srq_new_wf:
  assumes "max_wr \<le> 2 ^ 31"
  shows "srq_wf (srq_new max_wr stride)" "srq_entries (srq_new max_wr stride) = []"
proof -
  have "next_power_of_two max_wr \<le> 2 ^ 31"
  proof (cases "1 < max_wr")
    case True
    then have "next_power_of_two max_wr < 2 ^ 32"
      using next_power_of_two_props(3) [OF True] assms by simp
    moreover obtain k where k: "next_power_of_two max_wr = 2 ^ k"
      using next_power_of_two_props(1) by (auto simp: is_pow2_def)
    ultimately have "k < 32" by (metis one_less_numeral_iff power_strict_increasing_iff semiring_norm(76))
    then show ?thesis unfolding k by (intro power_increasing) simp_all
  next
    case False
    then show ?thesis by (subst next_power_of_two_def, subst next_pow2_from.simps) simp
  qed
  then show "srq_wf (srq_new max_wr stride)"
    by (simp add: srq_wf_def srq_new_def Let_def srq_count_def ring_cap_def
        next_power_of_two_props unat_of_nat)
  show "srq_entries (srq_new max_wr stride) = []"
    by (simp add: srq_entries_def srq_count_def srq_new_def Let_def)
qed

section \<open>Any sequence of operations\<close>

datatype 'e srq_op =
    PostRecv 'e u64 u32 u32
  | ProcessCompletion u16
  | AdvanceCi u32
  | RingDoorbell
  | RingDoorbellBf

fun srq_step :: "'e srq_op \<Rightarrow> 'e srq_state \<Rightarrow> 'e srq_state" where
  "srq_step (PostRecv e addr n lkey) s = snd (srq_post_recv e addr n lkey s)"
| "srq_step (ProcessCompletion idx) s = snd (srq_process_completion idx s)"
| "srq_step (AdvanceCi count) s = srq_advance_ci count s"
| "srq_step RingDoorbell s = srq_ring_doorbell s"
| "srq_step RingDoorbellBf s = srq_ring_doorbell_bf s"

text \<open>A completion, or a skip of completions, answers requests that were posted.\<close>

fun srq_allowed :: "'e srq_op \<Rightarrow> 'e srq_state \<Rightarrow> bool" where
  "srq_allowed (ProcessCompletion idx) s \<longleftrightarrow> 0 < srq_count s"
| "srq_allowed (AdvanceCi count) s \<longleftrightarrow> unat count \<le> srq_count s"
| "srq_allowed _ s \<longleftrightarrow> True"

fun srq_taken :: "'e srq_op \<Rightarrow> 'e srq_state \<Rightarrow> 'e list" where
  "srq_taken (PostRecv e addr n lkey) s =
     (case fst (srq_post_recv e addr n lkey s) of Inr _ \<Rightarrow> [e] | Inl _ \<Rightarrow> [])"
| "srq_taken _ s = []"

fun srq_given :: "'e srq_op \<Rightarrow> 'e srq_state \<Rightarrow> 'e list" where
  "srq_given (ProcessCompletion idx) s =
     (case fst (srq_process_completion idx s) of Some e \<Rightarrow> [e] | None \<Rightarrow> [])"
| "srq_given (AdvanceCi count) s = take (unat count) (srq_entries s)"
| "srq_given _ s = []"

lemma srq_post_full:
  "srq_wf s \<Longrightarrow> \<not> srq_count s < length (srq_table s) \<Longrightarrow>
     srq_post_recv e addr n lkey s = (Inl WouldBlock, s)"
  by (simp add: srq_post_recv_def srq_full) (simp add: srq_wf_def)

interpretation srqf: fifo srq_wf srq_entries srq_allowed srq_step srq_taken srq_given
proof unfold_locales
  fix s :: "'e srq_state" and op
  assume wf: "srq_wf s" and allowed: "srq_allowed op s"
  show "srq_wf (srq_step op s)"
    using wf allowed srq_post_full [OF wf]
    by (cases op)
      (auto simp: srq_complete_effect srq_advance_effect intro: srq_post_effect(3)
        split: if_splits, metis snd_conv srq_post_effect(3))
  show "srq_given op s @ srq_entries (srq_step op s) = srq_entries s @ srq_taken op s"
  proof (cases op)
    case (PostRecv e addr n lkey)
    then show ?thesis
      using srq_post_effect(1,4) [OF wf, of e addr n lkey] srq_post_full [OF wf, of e addr n lkey]
      by (cases "srq_count s < length (srq_table s)") simp_all
  next
    case (ProcessCompletion idx)
    then have "srq_entries s \<noteq> []" using allowed by (auto simp flip: length_greater_0_conv)
    then show ?thesis
      using ProcessCompletion allowed srq_complete_effect(1,4) [OF wf, of idx] by simp
  next
    case (AdvanceCi count)
    then show ?thesis using allowed srq_advance_effect [OF wf] by simp
  qed simp_all
qed

text \<open>
  C32. The shared receive queue is a first-in first-out buffer, also when its 32-bit indices
  wrap: along any sequence of posts, completions, skips and doorbells that completes no more
  than was posted, the entries handed back or skipped, followed by those still queued, are the
  entries queued at the start followed by those accepted, in order.
\<close>
theorem srq_fifo:
  assumes "srq_wf s" "ops_allowed srq_step srq_allowed ops s"
  shows "srq_wf (run_ops srq_step ops s) \<and>
    ops_collect srq_step srq_given ops s @ srq_entries (run_ops srq_step ops s) = srq_entries s @ ops_collect srq_step srq_taken ops s"
  using assms srqf.run_inv srqf.run_contents by blast

theorem srq_fifo_witness:
  "let s = srq_new 2 32 :: nat srq_state;
       ops = [PostRecv 7 0 0 0, PostRecv 8 0 0 0, PostRecv 9 0 0 0, ProcessCompletion 5]
   in ops_collect srq_step srq_given ops s = [7] \<and>
      ops_collect srq_step srq_given ops s @ srq_entries (run_ops srq_step ops s) = srq_entries s @ ops_collect srq_step srq_taken ops s"
proof -
  let ?s = "srq_new 2 32 :: nat srq_state"
  let ?ops = "[PostRecv 7 0 0 0, PostRecv 8 0 0 0, PostRecv 9 0 0 0, ProcessCompletion 5]"
  have "srq_wf ?s" by (rule srq_new_wf) simp
  moreover have "ops_allowed srq_step srq_allowed ?ops ?s" by code_simp
  ultimately have "ops_collect srq_step srq_given ?ops ?s @ srq_entries (run_ops srq_step ?ops ?s) =
      srq_entries ?s @ ops_collect srq_step srq_taken ?ops ?s"
    using srq_fifo by blast
  moreover have "ops_collect srq_step srq_given ?ops ?s = [7]" by code_simp
  ultimately show ?thesis by (simp only: Let_def)
qed

section \<open>Batched posting\<close>

type_synonym 'e recv_request = "'e \<times> u64 \<times> u32 \<times> u32"

definition srq_post_all :: "'e recv_request list \<Rightarrow> 'e srq_state \<Rightarrow> 'e srq_state" where
  "srq_post_all rs s = fold (\<lambda>(e, addr, n, lkey) s. snd (srq_post_recv e addr n lkey s)) rs s"

definition srq_batch_post_all ::
  "'e recv_request list \<Rightarrow> srq_batch \<times> 'e srq_state \<Rightarrow> srq_batch \<times> 'e srq_state" where
  "srq_batch_post_all rs x = fold (\<lambda>(e, addr, n, lkey) x. snd (srq_batch_post e addr n lkey x)) rs x"

lemma srq_post_all_effect:
  assumes "srq_wf s" "srq_count s + length rs \<le> length (srq_table s)"
  shows "srq_wf (srq_post_all rs s) \<and> srq_count (srq_post_all rs s) = srq_count s + length rs \<and>
    srq_pi (srq_post_all rs s) = srq_pi s + word_of_nat (length rs) \<and>
    srq_ci (srq_post_all rs s) = srq_ci s \<and> srq_wqe_cnt (srq_post_all rs s) = srq_wqe_cnt s \<and>
    srq_stride (srq_post_all rs s) = srq_stride s \<and> srq_dbrec (srq_post_all rs s) = srq_dbrec s \<and>
    length (srq_table (srq_post_all rs s)) = length (srq_table s) \<and>
    srq_entries (srq_post_all rs s) = srq_entries s @ map fst rs"
  using assms
proof (induction rs rule: rev_induct)
  case (snoc r rs)
  obtain e addr n lkey where r: "r = (e, addr, n, lkey)" by (cases r)
  let ?t = "srq_post_all rs s"
  have wf: "srq_wf ?t" and lt: "srq_count ?t < length (srq_table ?t)" using snoc by simp_all
  then have "srq_available ?t \<noteq> 0" by (simp add: srq_full)
  then have post: "snd (srq_post_recv e addr n lkey ?t) = srq_post_all (rs @ [r]) s"
    "srq_pi (srq_post_all (rs @ [r]) s) = srq_pi ?t + 1"
    "srq_ci (srq_post_all (rs @ [r]) s) = srq_ci ?t"
    "srq_wqe_cnt (srq_post_all (rs @ [r]) s) = srq_wqe_cnt ?t"
    "srq_stride (srq_post_all (rs @ [r]) s) = srq_stride ?t"
    "srq_dbrec (srq_post_all (rs @ [r]) s) = srq_dbrec ?t"
    "length (srq_table (srq_post_all (rs @ [r]) s)) = length (srq_table ?t)"
    by (simp_all add: srq_post_all_def r srq_post_recv_def Let_def)
  with srq_post_effect [OF wf lt, of e addr n lkey] snoc show ?case
    by (simp add: r add.assoc add.commute)
qed (simp add: srq_post_all_def)

text \<open>Staging hides the requests behind the old producer index until the batch is finished.\<close>

lemma srq_batch_stage:
  assumes "srq_wf s" "srq_count s + length rs \<le> length (srq_table s)" "length rs \<le> 8"
    and "srq_pending_start s = None" "srq_pending_wqe_count s = 0"
    and "sb_offset b = 0" "sb_wqe_count b = 0"
  shows "\<exists>b'. srq_batch_post_all rs (b, s) =
      (b', (srq_post_all rs s)\<lparr>srq_pi := srq_pi s, srq_pending_start := None,
              srq_pending_wqe_count := 0\<rparr>) \<and>
    sb_offset b' = SRQ_WQE_SIZE * length rs \<and> sb_wqe_count b' = word_of_nat (length rs)"
  using assms
proof (induction rs rule: rev_induct)
  case (snoc r rs)
  obtain e addr n lkey where r: "r = (e, addr, n, lkey)" by (cases r)
  let ?t = "srq_post_all rs s"
  let ?u = "?t\<lparr>srq_pi := srq_pi s, srq_pending_start := None, srq_pending_wqe_count := 0\<rparr>"
  obtain b' where IH: "srq_batch_post_all rs (b, s) = (b', ?u)"
    "sb_offset b' = SRQ_WQE_SIZE * length rs" "sb_wqe_count b' = word_of_nat (length rs)"
    using snoc by auto
  have t: "srq_wf ?t" "srq_count ?t = srq_count s + length rs"
    "srq_pi ?t = srq_pi s + word_of_nat (length rs)" "srq_ci ?t = srq_ci s"
    "srq_wqe_cnt ?t = srq_wqe_cnt s" "srq_stride ?t = srq_stride s"
    "length (srq_table ?t) = length (srq_table s)"
    using srq_post_all_effect [of s rs] snoc.prems by simp_all
  have avail: "srq_available ?u = srq_available s" by (simp add: srq_available_def t)
  have "unat (word_of_nat (length rs) :: u32) = length rs"
    using snoc.prems(3) by (simp add: unat_of_nat)
  then have room: "\<not> srq_available ?u \<le> sb_wqe_count b'"
    unfolding avail IH(3) using srq_available_unat [OF snoc.prems(1)] snoc.prems(2)
    by (simp add: word_le_nat_alt)
  have "srq_available ?t \<noteq> 0" using t snoc.prems(2) by (simp add: srq_full)
  moreover have "\<not> BLUEFLAME_BUFFER_SIZE < sb_offset b' + SRQ_WQE_SIZE"
    using snoc.prems(3) IH(2) by (simp add: BLUEFLAME_BUFFER_SIZE_def SRQ_WQE_SIZE_def)
  ultimately show ?case
    using room IH t
    by (simp add: srq_batch_post_all_def srq_post_all_def r srq_batch_post_def srq_post_recv_def
        Let_def get_wqe_ptr_def srq_table_index_def add.commute)
qed (simp add: srq_batch_post_all_def srq_post_all_def)

text \<open>
  C33. Staging up to eight receive requests in a batch and finishing it leaves the shared receive
  queue in exactly the state that posting them one by one and ringing the doorbell leaves it
  in: indices, entry table, request buffer and doorbell record agree.
\<close>
theorem srq_batch_equiv:
  assumes "srq_wf s" "srq_pending_start s = None" "srq_pending_wqe_count s = 0"
    and "rs \<noteq> []" "length rs \<le> 8" "srq_count s + length rs \<le> length (srq_table s)"
    and "srq_blueflame_rq_batch bf_size s = Inr b"
  shows "snd (srq_batch_finish (srq_batch_post_all rs (b, s))) =
         srq_ring_doorbell (srq_post_all rs s)"
proof -
  have b: "sb_offset b = 0" "sb_wqe_count b = 0"
    using assms(7) by (auto simp: srq_blueflame_rq_batch_def split: if_splits)
  obtain b' where b': "srq_batch_post_all rs (b, s) =
      (b', (srq_post_all rs s)\<lparr>srq_pi := srq_pi s, srq_pending_start := None,
              srq_pending_wqe_count := 0\<rparr>)" "sb_wqe_count b' = word_of_nat (length rs)"
    using srq_batch_stage [OF assms(1,6,5,2,3) b] by auto
  have "unat (word_of_nat (length rs) :: u32) = length rs"
    using assms(5) by (simp add: unat_of_nat)
  then have "sb_wqe_count b' \<noteq> 0" using b'(2) assms(4) by auto
  then show ?thesis
    using b' srq_post_all_effect [OF assms(1,6)]
    by (simp add: srq_batch_finish_def Let_def srq_ring_doorbell_def)
qed

theorem srq_batch_equiv_witness:
  "let s = srq_new 2 32 :: nat srq_state; rs = [(7, 0, 0, 0), (8, 64, 32, 1)];
       b = \<lparr>sb_buffer = replicate 256 0, sb_offset = 0, sb_wqe_count = 0\<rparr>
   in snd (srq_batch_finish (srq_batch_post_all rs (b, s))) =
      srq_ring_doorbell (srq_post_all rs s)"
proof -
  let ?s = "srq_new 2 32 :: nat srq_state"
  let ?b = "\<lparr>sb_buffer = replicate 256 0, sb_offset = 0, sb_wqe_count = 0\<rparr>"
  have "srq_wf ?s" by (rule srq_new_wf) simp
  moreover have tab: "length (srq_table ?s) = 2" by code_simp
  moreover have "srq_count ?s = 0" by (simp add: srq_count_def srq_new_def Let_def)
  moreover have "srq_blueflame_rq_batch 1 ?s = Inr ?b"
    using srq_available_unat [of ?s] calculation
    by (auto simp: srq_blueflame_rq_batch_def BLUEFLAME_BUFFER_SIZE_def)
  ultimately show ?thesis
    using srq_batch_equiv [of ?s "[(7, 0, 0, 0), (8, 64, 32, 1)]" 1 ?b]
    by (simp add: srq_new_def Let_def del: replicate.simps)
qed

end
