(* ===== verification/Copyrpc_DC.thy ===== *)
theory Copyrpc_DC
  imports Copyrpc_Framing FastMap Mlx5_Srq
begin

text \<open>
  Model of the dynamically-connected transport, \<^verbatim>\<open>copyrpc/src/dc.rs\<close>: the intrusive list of
  dirty endpoints, the endpoint with its rings, batches that are written behind a 32-byte
  batch header by one gather entry, deferred wrap-around, credit-only batches, calls and
  replies, the receive path, polling, and the flush loop over one shared initiator.

  As for the reliable transport, ring positions are natural numbers, a completion is an event
  of the model, the response callback is the list of responses handed to it, and the answers
  of the send queue are the \<open>submit\<close> parameter; here the queue, and so the numbering of the
  attempts, is shared by all endpoints of a context.  The shared receive queue is the one of
  \<open>Mlx5_Srq\<close>.
\<close>

definition BATCH_HEADER_SIZE :: nat where "BATCH_HEADER_SIZE = 32"

definition DC_HEADER_SIZE :: nat where "DC_HEADER_SIZE = 8"

definition CREDIT_RETURN_RESERVE :: nat where "CREDIT_RETURN_RESERVE = BATCH_HEADER_SIZE"

definition dc_padded_message_size :: "u32 \<Rightarrow> u64" where
  "dc_padded_message_size payload_len =
     (let total = word_of_nat DC_HEADER_SIZE + ucast payload_len
      in (total + ALIGNMENT - 1) AND NOT (ALIGNMENT - 1))"

definition dc_header_image :: "u32 \<times> u32 \<Rightarrow> bytes" where
  "dc_header_image = (\<lambda>(call_id, payload_len). le_bytes 4 call_id @ le_bytes 4 payload_len)"

definition dc_encode_header :: "bytes \<Rightarrow> nat \<Rightarrow> u32 \<Rightarrow> u32 \<Rightarrow> bytes" where
  "dc_encode_header buf off call_id payload_len =
     write_at off (dc_header_image (call_id, payload_len)) buf"

definition dc_decode_header :: "bytes \<Rightarrow> nat \<Rightarrow> u32 \<times> u32" where
  "dc_decode_header buf off = (read_u32 buf off, read_u32 buf (off + 4))"

definition batch_header_image :: "u64 \<times> u64 \<times> u32 \<Rightarrow> bytes" where
  "batch_header_image = (\<lambda>(delta, ring_credit_return, message_count).
     le_bytes 8 delta @ le_bytes 8 ring_credit_return @ le_bytes 4 message_count @ replicate 12 0)"

definition encode_batch_header :: "bytes \<Rightarrow> nat \<Rightarrow> u64 \<Rightarrow> u64 \<Rightarrow> u32 \<Rightarrow> bytes" where
  "encode_batch_header buf off delta ring_credit_return message_count =
     write_at off (batch_header_image (delta, ring_credit_return, message_count)) buf"

text \<open>The three volatile reads at the start of the receive path.\<close>

definition decode_batch_header :: "bytes \<Rightarrow> nat \<Rightarrow> u64 \<times> u64 \<times> u32" where
  "decode_batch_header buf off = (read_u64 buf off, read_u64 buf (off + 8), read_u32 buf (off + 16))"

section \<open>The list of dirty endpoints\<close>

definition DIRTY_NONE :: u32 where "DIRTY_NONE = 0xFFFFFFFF"

record dirty_list =
  dl_head :: u32
  dl_tail :: u32
  dl_next :: "u32 list"
  dl_in_list :: "bool list"

definition dl_new :: dirty_list where
  "dl_new = \<lparr>dl_head = DIRTY_NONE, dl_tail = DIRTY_NONE, dl_next = [], dl_in_list = []\<rparr>"

definition ensure_slot :: "u32 \<Rightarrow> dirty_list \<Rightarrow> dirty_list" where
  "ensure_slot endpoint_id dl =
     (let idx = unat endpoint_id
      in if length (dl_next dl) \<le> idx then
           dl\<lparr>dl_next := resize (idx + 1) DIRTY_NONE (dl_next dl),
              dl_in_list := resize (idx + 1) False (dl_in_list dl)\<rparr>
         else dl)"

definition push_back :: "u32 \<Rightarrow> dirty_list \<Rightarrow> dirty_list" where
  "push_back endpoint_id dl0 =
     (let dl = ensure_slot endpoint_id dl0;
          idx = unat endpoint_id
      in if dl_in_list dl ! idx then dl
         else let dl1 = dl\<lparr>dl_in_list := (dl_in_list dl)[idx := True],
                          dl_next := (dl_next dl)[idx := DIRTY_NONE]\<rparr>
              in if dl_tail dl1 = DIRTY_NONE then dl1\<lparr>dl_head := endpoint_id, dl_tail := endpoint_id\<rparr>
                 else dl1\<lparr>dl_next := (dl_next dl1)[unat (dl_tail dl1) := endpoint_id],
                          dl_tail := endpoint_id\<rparr>)"

definition pop_front :: "dirty_list \<Rightarrow> u32 option \<times> dirty_list" where
  "pop_front dl =
     (if dl_head dl = DIRTY_NONE then (None, dl)
      else let endpoint_id = dl_head dl;
               idx = unat endpoint_id;
               dl1 = dl\<lparr>dl_head := dl_next dl ! idx\<rparr>;
               dl2 = (if dl_head dl1 = DIRTY_NONE then dl1\<lparr>dl_tail := DIRTY_NONE\<rparr> else dl1)
           in (Some endpoint_id,
               dl2\<lparr>dl_next := (dl_next dl2)[idx := DIRTY_NONE],
                   dl_in_list := (dl_in_list dl2)[idx := False]\<rparr>))"

definition dl_is_empty :: "dirty_list \<Rightarrow> bool" where
  "dl_is_empty dl \<longleftrightarrow> dl_head dl = DIRTY_NONE"

section \<open>The endpoint\<close>

definition SIGNAL_INTERVAL_MASK :: u32 where "SIGNAL_INTERVAL_MASK = 7"

definition saturating_add :: "u32 \<Rightarrow> u32 \<Rightarrow> u32" where
  "saturating_add a b = (if a + b < a then 0xFFFFFFFF else a + b)"

definition saturating_sub :: "u32 \<Rightarrow> u32 \<Rightarrow> u32" where
  "saturating_sub a b = (if a < b then 0 else a - b)"

record dc_remote_ring =
  dcr_addr :: nat
  dcr_rkey :: u32
  dcr_size :: nat

record dc_remote_dct =
  dct_dctn :: u32
  dct_dc_key :: u64
  dct_dlid :: u16

record dc_remote_info =
  dri_dct_number :: u32
  dri_dc_key :: u64
  dri_local_identifier :: u16
  dri_recv_ring_addr :: nat
  dri_recv_ring_rkey :: u32
  dri_recv_ring_size :: nat
  dri_initial_credit :: nat
  dri_endpoint_id :: u32

record dc_local_info =
  dli_dct_number :: u32
  dli_dc_key :: u64
  dli_recv_ring_addr :: nat
  dli_recv_ring_rkey :: u32
  dli_recv_ring_size :: nat
  dli_initial_credit :: nat
  dli_endpoint_id :: u32

record dc_config =
  dcc_send_ring_size :: nat
  dcc_recv_ring_size :: nat

record 'u dc_endpoint =
  dc_endpoint_id :: u32
  dc_send_ring :: bytes
  dc_recv_ring :: bytes
  dc_recv_ring_addr :: nat
  dc_recv_ring_rkey :: u32
  dc_remote_recv_ring :: "dc_remote_ring option"
  dc_remote_dct :: "dc_remote_dct option"
  dc_remote_endpoint_id :: u32
  dc_send_ring_producer :: nat
  dc_recv_ring_producer :: nat
  dc_last_recv_pos :: nat
  dc_last_notified_recv_pos :: nat
  dc_remote_consumer_pos :: nat
  dc_pending_calls :: "nat \<rightharpoonup> 'u"
  dc_flush_start_pos :: nat
  dc_meta_pos :: nat
  dc_batch_message_count :: nat
  dc_wrap_pending :: bool
  dc_unsignaled_count :: u32
  dc_newly_signaled_count :: u32

text \<open>
  The initiator shared by the endpoints of a context: the requests posted so far with their
  address vectors, the number of attempts to post one, and how many the doorbell published.
\<close>

record dci =
  dci_sq :: "(dc_remote_dct \<times> wqe) list"
  dci_attempts :: nat
  dci_rung :: nat

definition dc_endpoint_new :: "nat \<Rightarrow> u32 \<Rightarrow> dc_config \<Rightarrow> u32 \<Rightarrow> 'u dc_endpoint" where
  "dc_endpoint_new addr rkey config endpoint_id =
     (let send_ring_size = next_power_of_two (dcc_send_ring_size config);
          recv_ring_size = next_power_of_two (dcc_recv_ring_size config)
      in \<lparr>dc_endpoint_id = endpoint_id,
          dc_send_ring = replicate send_ring_size 0,
          dc_recv_ring = replicate recv_ring_size 0,
          dc_recv_ring_addr = addr,
          dc_recv_ring_rkey = rkey,
          dc_remote_recv_ring = None,
          dc_remote_dct = None,
          dc_remote_endpoint_id = 0,
          dc_send_ring_producer = 0,
          dc_recv_ring_producer = 0,
          dc_last_recv_pos = 0,
          dc_last_notified_recv_pos = 0,
          dc_remote_consumer_pos = 0,
          dc_pending_calls = Map.empty,
          dc_flush_start_pos = 0,
          dc_meta_pos = 0,
          dc_batch_message_count = 0,
          dc_wrap_pending = False,
          dc_unsignaled_count = 0,
          dc_newly_signaled_count = 0\<rparr>)"

definition dc_local_info :: "u32 \<Rightarrow> u64 \<Rightarrow> 'u dc_endpoint \<Rightarrow> dc_local_info" where
  "dc_local_info dct_number dc_key ep =
     \<lparr>dli_dct_number = dct_number,
      dli_dc_key = dc_key,
      dli_recv_ring_addr = dc_recv_ring_addr ep,
      dli_recv_ring_rkey = dc_recv_ring_rkey ep,
      dli_recv_ring_size = length (dc_recv_ring ep),
      dli_initial_credit = length (dc_recv_ring ep) div 2,
      dli_endpoint_id = dc_endpoint_id ep\<rparr>"

definition dc_send_off :: "'u dc_endpoint \<Rightarrow> nat \<Rightarrow> nat" where
  "dc_send_off ep pos = pos AND (length (dc_send_ring ep) - 1)"

definition dc_recv_off :: "'u dc_endpoint \<Rightarrow> nat \<Rightarrow> nat" where
  "dc_recv_off ep pos = pos AND (length (dc_recv_ring ep) - 1)"

definition has_cycle_room_for :: "nat \<Rightarrow> 'u dc_endpoint \<Rightarrow> bool" where
  "has_cycle_room_for msg_size ep \<longleftrightarrow>
     (let ring_size = length (dc_send_ring ep);
          meta_offset = dc_send_off ep (dc_meta_pos ep);
          batch_end = dc_send_ring_producer ep + msg_size - dc_meta_pos ep
      in meta_offset + batch_end < ring_size)"

definition dc_prepare_next_batch :: "'u dc_endpoint \<Rightarrow> 'u dc_endpoint" where
  "dc_prepare_next_batch ep =
     (let producer = dc_send_ring_producer ep
      in ep\<lparr>dc_meta_pos := producer,
            dc_batch_message_count := 0,
            dc_send_ring_producer := producer + BATCH_HEADER_SIZE\<rparr>)"

text \<open>One gather entry covers header and messages; the immediate names the remote endpoint.\<close>

definition dc_batch_wqe :: "dc_remote_ring \<Rightarrow> bool \<Rightarrow> 'u dc_endpoint \<Rightarrow> wqe" where
  "dc_batch_wqe remote_ring should_signal ep =
     (let start = dc_flush_start_pos ep;
          delta = dc_send_ring_producer ep - start;
          remote_offset = start AND (dcr_size remote_ring - 1)
      in \<lparr>w_remote_addr = dcr_addr remote_ring + remote_offset,
          w_rkey = dcr_rkey remote_ring,
          w_imm = dc_remote_endpoint_id ep,
          w_inline = [],
          w_sge = Some (dc_send_off ep start, unat (word_of_nat delta :: u32)),
          w_signaled = should_signal\<rparr>)"

text \<open>
  \<open>Panic\<close> covers the two subtractions that would underflow and a header written through the raw
  pointer beyond the ring.  The debug assertions of the source are \<open>emit_batch_asserts\<close>; they are
  proved to hold instead of being executed.
\<close>

definition dc_emit_batch ::
  "submit_oracle \<Rightarrow> u32 \<Rightarrow> 'u dc_endpoint \<times> dci
     \<Rightarrow> (unit, rpc_error) outcome \<times> 'u dc_endpoint \<times> dci" where
  "dc_emit_batch submit message_count = (\<lambda>(ep, q).
     case dc_remote_recv_ring ep of
       None \<Rightarrow> (Err RemoteConsumerUnknown, (ep, q))
     | Some remote_ring \<Rightarrow>
         (case dc_remote_dct ep of
            None \<Rightarrow> (Err RemoteConsumerUnknown, (ep, q))
          | Some remote_dct \<Rightarrow>
              (let start = dc_flush_start_pos ep;
                   stop = dc_send_ring_producer ep;
                   start_offset = dc_send_off ep start
               in if stop < start \<or> dc_last_recv_pos ep < dc_last_notified_recv_pos ep \<or>
                     length (dc_send_ring ep) < start_offset + BATCH_HEADER_SIZE
                  then (Panic, (ep, q))
                  else let ring_credit_return = dc_last_recv_pos ep - dc_last_notified_recv_pos ep;
                           ep1 = ep\<lparr>dc_last_notified_recv_pos := dc_last_recv_pos ep,
                                    dc_send_ring := encode_batch_header (dc_send_ring ep) start_offset
                                      (word_of_nat (stop - start)) (word_of_nat ring_credit_return)
                                      message_count\<rparr>;
                           q1 = q\<lparr>dci_attempts := dci_attempts q + 1\<rparr>;
                           next_count = dc_unsignaled_count ep1 + 1;
                           should_signal = (next_count AND SIGNAL_INTERVAL_MASK = 0)
                       in case submit (dci_attempts q) of
                            Some SqFull \<Rightarrow> (Err RingFull, (ep1, q1))
                          | Some _ \<Rightarrow> (Err Io, (ep1, q1))
                          | None \<Rightarrow>
                              (Ok (),
                               (if should_signal
                                then ep1\<lparr>dc_unsignaled_count := 0,
                                         dc_newly_signaled_count :=
                                           saturating_add (dc_newly_signaled_count ep1) 1,
                                         dc_flush_start_pos := stop\<rparr>
                                else ep1\<lparr>dc_unsignaled_count := next_count,
                                         dc_flush_start_pos := stop\<rparr>,
                                q1\<lparr>dci_sq := dci_sq q @
                                     [(remote_dct, dc_batch_wqe remote_ring should_signal ep1)]\<rparr>)))))"

definition emit_batch_asserts :: "'u dc_endpoint \<Rightarrow> bool" where
  "emit_batch_asserts ep \<longleftrightarrow>
     (case dc_remote_recv_ring ep of
        None \<Rightarrow> True
      | Some remote_ring \<Rightarrow>
          (let start = dc_flush_start_pos ep;
               delta = dc_send_ring_producer ep - start
           in dc_flush_start_pos ep = dc_meta_pos ep \<and>
              (start AND (dcr_size remote_ring - 1)) + delta \<le> dcr_size remote_ring \<and>
              dc_send_off ep start + delta \<le> length (dc_send_ring ep)))"

definition take_newly_signaled_count :: "'u dc_endpoint \<Rightarrow> u32 \<times> 'u dc_endpoint" where
  "take_newly_signaled_count ep =
     (dc_newly_signaled_count ep, ep\<lparr>dc_newly_signaled_count := 0\<rparr>)"

definition dc_emit_wrap ::
  "submit_oracle \<Rightarrow> 'u dc_endpoint \<times> dci \<Rightarrow> (unit, rpc_error) outcome \<times> 'u dc_endpoint \<times> dci" where
  "dc_emit_wrap submit = (\<lambda>(ep, q).
     let pos = dc_meta_pos ep;
         ep1 = ep\<lparr>dc_send_ring_producer := pos\<rparr>;
         offset = dc_send_off ep1 pos;
         remaining = length (dc_send_ring ep1) - offset;
         ep2 = ep1\<lparr>dc_send_ring_producer := pos + remaining\<rparr>
     in and_then (dc_emit_batch submit WRAP_MESSAGE_COUNT (ep2, q))
          (\<lambda>_ (ep3, q1). (Ok (), (dc_prepare_next_batch ep3, q1))))"

text \<open>The three parts of \<^verbatim>\<open>emit_pending\<close>: the open batch, a pending wrap, unreturned credit.\<close>

definition emit_open_batch ::
  "submit_oracle \<Rightarrow> u32 \<Rightarrow> 'u dc_endpoint \<times> dci \<Rightarrow> (unit, rpc_error) outcome \<times> 'u dc_endpoint \<times> dci" where
  "emit_open_batch submit message_count s =
     and_then (dc_emit_batch submit message_count s)
       (\<lambda>_ (ep, q). (Ok (), (dc_prepare_next_batch ep, q)))"

definition emit_pending ::
  "submit_oracle \<Rightarrow> 'u dc_endpoint \<times> dci \<Rightarrow> (bool, rpc_error) outcome \<times> 'u dc_endpoint \<times> dci" where
  "emit_pending submit s =
     and_then
       (if 0 < dc_batch_message_count (fst s) then
          and_then (emit_open_batch submit (word_of_nat (dc_batch_message_count (fst s))) s)
            (\<lambda>_ s1. (Ok True, s1))
        else (Ok False, s))
       (\<lambda>emitted s1.
         if dc_wrap_pending (fst s1) then
           let (result, (ep2, q2)) = dc_emit_wrap submit s1
           in case result of
                Ok _ \<Rightarrow> (Ok True, (ep2\<lparr>dc_wrap_pending := False\<rparr>, q2))
              | Err e \<Rightarrow> (if emitted then Ok True else Err e, (ep2, q2))
              | Panic \<Rightarrow> (Panic, (ep2, q2))
         else if \<not> emitted \<and> 0 < dc_last_recv_pos (fst s1) - dc_last_notified_recv_pos (fst s1) then
           and_then (emit_open_batch submit 0 s1) (\<lambda>_ s2. (Ok True, s2))
         else (Ok emitted, s1))"

definition has_pending_flush :: "'u dc_endpoint \<Rightarrow> bool" where
  "has_pending_flush ep \<longleftrightarrow> dc_wrap_pending ep \<or> 0 < dc_batch_message_count ep"

section \<open>Connecting, calling and replying\<close>

definition dc_connect :: "dc_remote_info \<Rightarrow> 'u dc_endpoint \<Rightarrow> 'u dc_endpoint" where
  "dc_connect remote ep =
     dc_prepare_next_batch
       (ep\<lparr>dc_remote_recv_ring := Some \<lparr>dcr_addr = dri_recv_ring_addr remote,
                                        dcr_rkey = dri_recv_ring_rkey remote,
                                        dcr_size = dri_recv_ring_size remote\<rparr>,
           dc_remote_dct := Some \<lparr>dct_dctn = dri_dct_number remote,
                                  dct_dc_key = dri_dc_key remote,
                                  dct_dlid = dri_local_identifier remote\<rparr>,
           dc_remote_endpoint_id := dri_endpoint_id remote,
           dc_remote_consumer_pos := 0\<rparr>)"

text \<open>Placing a message behind the batch, as \<^verbatim>\<open>call\<close> and \<^verbatim>\<open>reply\<close> both do.\<close>

definition dc_write_message ::
  "u32 \<Rightarrow> bytes \<Rightarrow> 'u dc_endpoint \<Rightarrow> (unit, 'e) outcome \<times> 'u dc_endpoint" where
  "dc_write_message call_id data ep =
     (let producer = dc_send_ring_producer ep;
          send_offset = dc_send_off ep producer;
          msg_size = unat (dc_padded_message_size (word_of_nat (length data)))
      in if length (dc_send_ring ep) < send_offset + DC_HEADER_SIZE + length data then (Panic, ep)
         else (Ok (), ep\<lparr>dc_send_ring := write_at (send_offset + DC_HEADER_SIZE) data
                             (dc_encode_header (dc_send_ring ep) send_offset call_id
                               (word_of_nat (length data))),
                         dc_send_ring_producer := producer + msg_size,
                         dc_batch_message_count := dc_batch_message_count ep + 1\<rparr>))"

definition dc_available :: "dc_remote_ring \<Rightarrow> 'u dc_endpoint \<Rightarrow> nat" where
  "dc_available remote_ring ep =
     (let in_flight = dc_send_ring_producer ep - dc_remote_consumer_pos ep
      in dcr_size remote_ring - (in_flight + CREDIT_RETURN_RESERVE))"

definition dc_call ::
  "((nat \<rightharpoonup> 'u) \<Rightarrow> nat) \<Rightarrow> bytes \<Rightarrow> 'u \<Rightarrow> 'u dc_endpoint \<times> dirty_list
     \<Rightarrow> (u32, 'u call_error) outcome \<times> 'u dc_endpoint \<times> dirty_list" where
  "dc_call slab_key data user_data = (\<lambda>(ep, dl).
     case dc_remote_recv_ring ep of
       None \<Rightarrow> (Err (Other RemoteConsumerUnknown), (ep, dl))
     | Some remote_ring \<Rightarrow>
         (let msg_size = unat (dc_padded_message_size (word_of_nat (length data)))
          in if \<not> has_cycle_room_for msg_size ep then
               (Err (CallRingFull user_data),
                (ep\<lparr>dc_wrap_pending := True\<rparr>, push_back (dc_endpoint_id ep) dl))
             else if dc_available remote_ring ep < msg_size then
               (Err (CallRingFull user_data), (ep, push_back (dc_endpoint_id ep) dl))
             else
               let key = slab_key (dc_pending_calls ep);
                   call_id = word_of_nat key;
                   ep1 = ep\<lparr>dc_pending_calls := (dc_pending_calls ep)(key \<mapsto> user_data)\<rparr>;
                   (result, ep2) = dc_write_message call_id data ep1
               in case result of
                    Ok _ \<Rightarrow> (Ok call_id, (ep2, push_back (dc_endpoint_id ep) dl))
                  | Err e \<Rightarrow> (Err e, (ep2, dl))
                  | Panic \<Rightarrow> (Panic, (ep2, dl))))"

definition dc_reply ::
  "u32 \<Rightarrow> bytes \<Rightarrow> 'u dc_endpoint \<times> dirty_list
     \<Rightarrow> (unit, rpc_error) outcome \<times> 'u dc_endpoint \<times> dirty_list" where
  "dc_reply call_id data = (\<lambda>(ep, dl).
     case dc_remote_recv_ring ep of
       None \<Rightarrow> (Err RemoteConsumerUnknown, (ep, dl))
     | Some remote_ring \<Rightarrow>
         (let msg_size = unat (dc_padded_message_size (word_of_nat (length data)))
          in if \<not> has_cycle_room_for msg_size ep then
               (Err RingFull, (ep\<lparr>dc_wrap_pending := True\<rparr>, push_back (dc_endpoint_id ep) dl))
             else if dc_available remote_ring ep < msg_size then
               (Err RingFull, (ep, push_back (dc_endpoint_id ep) dl))
             else
               let (result, ep1) = dc_write_message (to_response_id call_id) data ep
               in case result of
                    Ok _ \<Rightarrow> (Ok (), (ep1, push_back (dc_endpoint_id ep) dl))
                  | Err e \<Rightarrow> (Err e, (ep1, dl))
                  | Panic \<Rightarrow> (Panic, (ep1, dl))))"

section \<open>One completion\<close>

record dc_recv_msg =
  dm_endpoint_id :: u32
  dm_call_id :: u32
  dm_data_offset :: nat
  dm_data_len :: nat

type_synonym 'u dc_rx = "'u dc_endpoint \<times> ('u \<times> bytes) list \<times> dc_recv_msg list"

definition dc_process_message :: "u32 \<Rightarrow> 'u dc_rx \<Rightarrow> (unit, rpc_error) outcome \<times> 'u dc_rx" where
  "dc_process_message endpoint_id = (\<lambda>(ep, responses, stack).
     let pos = dc_last_recv_pos ep;
         header_offset = dc_recv_off ep pos
     in if length (dc_recv_ring ep) < header_offset + DC_HEADER_SIZE
        then (Panic, (ep, responses, stack))
        else let (call_id, payload_len) = dc_decode_header (dc_recv_ring ep) header_offset;
                 msg_size = unat (dc_padded_message_size payload_len);
                 ep1 = ep\<lparr>dc_last_recv_pos := pos + msg_size\<rparr>;
                 data_offset = header_offset + DC_HEADER_SIZE
             in if is_response call_id then
                  let original_call_id = unat (from_response_id call_id)
                  in case dc_pending_calls ep1 original_call_id of
                       None \<Rightarrow> (Ok (), (ep1, responses, stack))
                     | Some user_data \<Rightarrow>
                         let ep2 = ep1\<lparr>dc_pending_calls :=
                                         (dc_pending_calls ep1)(original_call_id := None)\<rparr>
                         in if length (dc_recv_ring ep) < data_offset + unat payload_len
                            then (Panic, (ep2, responses, stack))
                            else (Ok (), (ep2, responses @
                                   [(user_data,
                                     read_at data_offset (unat payload_len) (dc_recv_ring ep))],
                                   stack))
                else (Ok (), (ep1, responses, stack @
                       [\<lparr>dm_endpoint_id = endpoint_id, dm_call_id = call_id,
                         dm_data_offset = data_offset, dm_data_len = unat payload_len\<rparr>])))"

primrec dc_process_messages ::
  "nat \<Rightarrow> u32 \<Rightarrow> 'u dc_rx \<Rightarrow> (unit, rpc_error) outcome \<times> 'u dc_rx" where
  "dc_process_messages 0 endpoint_id s = (Ok (), s)"
| "dc_process_messages (Suc n) endpoint_id s =
     and_then (dc_process_message endpoint_id s) (\<lambda>_ s1. dc_process_messages n endpoint_id s1)"

definition dc_process_batch :: "u32 \<Rightarrow> 'u dc_rx \<Rightarrow> (unit, rpc_error) outcome \<times> 'u dc_rx" where
  "dc_process_batch endpoint_id = (\<lambda>(ep, responses, stack).
     let pos = dc_last_recv_pos ep;
         meta_offset = dc_recv_off ep pos
     in if length (dc_recv_ring ep) < meta_offset + 20 then (Panic, (ep, responses, stack))
        else let (delta, ring_credit_return, message_count) =
                   decode_batch_header (dc_recv_ring ep) meta_offset;
                 ep1 = ep\<lparr>dc_recv_ring_producer := dc_recv_ring_producer ep + unat delta,
                          dc_remote_consumer_pos := dc_remote_consumer_pos ep + unat ring_credit_return,
                          dc_last_recv_pos := pos + BATCH_HEADER_SIZE\<rparr>
             in if message_count = WRAP_MESSAGE_COUNT then
                  if unat delta < BATCH_HEADER_SIZE then (Panic, (ep1, responses, stack))
                  else let skip = unat delta - BATCH_HEADER_SIZE
                       in (Ok (), (ep1\<lparr>dc_last_recv_pos := dc_last_recv_pos ep1 + skip\<rparr>,
                                   responses, stack))
                else dc_process_messages (unat message_count) endpoint_id (ep1, responses, stack))"

section \<open>The context\<close>

record 'u dc_context =
  dc_endpoints :: "'u dc_endpoint fastmap"
  dc_dirty :: dirty_list
  dc_dci :: dci
  dc_pending_send_cqes :: u32
  dc_recv_stack :: "dc_recv_msg list"
  dc_next_endpoint_id :: u32
  dc_srq :: "unit srq_state"
  dc_srq_posted :: nat
  dc_srq_max_wr :: nat

text \<open>Posting empty receive requests; a full queue is ignored.\<close>

primrec dc_post_recvs :: "nat \<Rightarrow> unit srq_state \<Rightarrow> unit srq_state" where
  "dc_post_recvs 0 s = s"
| "dc_post_recvs (Suc n) s = dc_post_recvs n (snd (srq_post_recv () 0 0 0 s))"

text \<open>The device reports the size of the queue it allocated and the stride of its slots.\<close>

definition dc_context_build :: "nat \<Rightarrow> u32 \<Rightarrow> nat \<Rightarrow> 'u dc_context" where
  "dc_context_build actual_max_wr stride max_wr =
     \<lparr>dc_endpoints = fm_new, dc_dirty = dl_new,
      dc_dci = \<lparr>dci_sq = [], dci_attempts = 0, dci_rung = 0\<rparr>,
      dc_pending_send_cqes = 0, dc_recv_stack = [], dc_next_endpoint_id = 1,
      dc_srq = srq_ring_doorbell (dc_post_recvs max_wr (srq_new actual_max_wr stride)),
      dc_srq_posted = max_wr, dc_srq_max_wr = max_wr\<rparr>"

definition dc_create_endpoint :: "nat \<Rightarrow> u32 \<Rightarrow> dc_config \<Rightarrow> 'u dc_context \<Rightarrow> u32 \<times> 'u dc_context" where
  "dc_create_endpoint addr rkey config ctx =
     (let endpoint_id = dc_next_endpoint_id ctx
      in (endpoint_id,
          ctx\<lparr>dc_next_endpoint_id := endpoint_id + 1,
              dc_endpoints := snd (fm_insert (dc_endpoints ctx) endpoint_id
                                (dc_endpoint_new addr rkey config endpoint_id))\<rparr>))"

definition dc_put_endpoint :: "u32 \<Rightarrow> 'u dc_endpoint \<Rightarrow> 'u dc_context \<Rightarrow> 'u dc_context" where
  "dc_put_endpoint endpoint_id ep ctx =
     ctx\<lparr>dc_endpoints := fm_get_mut (dc_endpoints ctx) endpoint_id (\<lambda>_. ep)\<rparr>"

definition dc_endpoint_call ::
  "((nat \<rightharpoonup> 'u) \<Rightarrow> nat) \<Rightarrow> u32 \<Rightarrow> bytes \<Rightarrow> 'u \<Rightarrow> 'u dc_context
     \<Rightarrow> (u32, 'u call_error) outcome \<times> 'u dc_context" where
  "dc_endpoint_call slab_key endpoint_id data user_data ctx =
     (case fm_get (dc_endpoints ctx) endpoint_id of
        None \<Rightarrow> (Panic, ctx)
      | Some ep \<Rightarrow>
          (let (result, (ep1, dl1)) = dc_call slab_key data user_data (ep, dc_dirty ctx)
           in (result, (dc_put_endpoint endpoint_id ep1 ctx)\<lparr>dc_dirty := dl1\<rparr>)))"

definition dc_recv :: "'u dc_context \<Rightarrow> dc_recv_msg option \<times> 'u dc_context" where
  "dc_recv ctx =
     (if dc_recv_stack ctx = [] then (None, ctx)
      else (Some (last (dc_recv_stack ctx)), ctx\<lparr>dc_recv_stack := butlast (dc_recv_stack ctx)\<rparr>))"

definition dc_handle_data :: "'u dc_context \<Rightarrow> dc_recv_msg \<Rightarrow> bytes option" where
  "dc_handle_data ctx h =
     map_option (\<lambda>ep. read_at (dm_data_offset h) (dm_data_len h) (dc_recv_ring ep))
       (fm_get (dc_endpoints ctx) (dm_endpoint_id h))"

definition dc_handle_reply ::
  "dc_recv_msg \<Rightarrow> bytes \<Rightarrow> 'u dc_context \<Rightarrow> (unit, rpc_error) outcome \<times> 'u dc_context" where
  "dc_handle_reply h data ctx =
     (case fm_get (dc_endpoints ctx) (dm_endpoint_id h) of
        None \<Rightarrow> (Panic, ctx)
      | Some ep \<Rightarrow>
          (let (result, (ep1, dl1)) = dc_reply (dm_call_id h) data (ep, dc_dirty ctx)
           in (result, (dc_put_endpoint (dm_endpoint_id h) ep1 ctx)\<lparr>dc_dirty := dl1\<rparr>)))"

section \<open>Polling and flushing\<close>

record dc_cqe =
  dcq_error :: bool
  dcq_imm :: u32

definition dc_process_cqe_static ::
  "dc_cqe \<Rightarrow> ('u \<times> bytes) list \<times> 'u dc_context
     \<Rightarrow> (unit, rpc_error) outcome \<times> ('u \<times> bytes) list \<times> 'u dc_context" where
  "dc_process_cqe_static cqe = (\<lambda>(responses, ctx).
     if dcq_error cqe then (Ok (), (responses, ctx))
     else case fm_get (dc_endpoints ctx) (dcq_imm cqe) of
       None \<Rightarrow> (Ok (), (responses, ctx))
     | Some ep \<Rightarrow>
         (let (result, (ep1, responses1, stack1)) =
                dc_process_batch (dcq_imm cqe) (ep, responses, dc_recv_stack ctx)
          in (result, (responses1,
                (dc_put_endpoint (dcq_imm cqe) ep1 ctx)\<lparr>dc_recv_stack := stack1\<rparr>))))"

fun dc_drain_recv_cq ::
  "dc_cqe list \<Rightarrow> ('u \<times> bytes) list \<times> 'u dc_context
     \<Rightarrow> (unit, rpc_error) outcome \<times> ('u \<times> bytes) list \<times> 'u dc_context" where
  "dc_drain_recv_cq [] s = (Ok (), s)"
| "dc_drain_recv_cq (c # cs) s =
     and_then (dc_process_cqe_static c s) (\<lambda>_ s1. dc_drain_recv_cq cs s1)"

text \<open>
  Keeping the shared receive queue filled.  \<open>advance\<close> tells whether the consumer index is moved:
  \<^verbatim>\<open>Context::poll_recv_counted\<close> does so, \<^verbatim>\<open>RecvPoller::poll\<close> does not.
\<close>

definition dc_srq_refill :: "bool \<Rightarrow> nat \<Rightarrow> 'u dc_context \<Rightarrow> 'u dc_context" where
  "dc_srq_refill advance recv_count ctx =
     (if recv_count = 0 then ctx
      else let srq1 = (if advance then srq_advance_ci (word_of_nat recv_count) (dc_srq ctx)
                       else dc_srq ctx);
               posted = dc_srq_posted ctx - recv_count;
               threshold = dc_srq_max_wr ctx * 2 div 3
           in if posted < threshold then
                ctx\<lparr>dc_srq := srq_ring_doorbell (dc_post_recvs (dc_srq_max_wr ctx - posted) srq1),
                    dc_srq_posted := dc_srq_max_wr ctx\<rparr>
              else ctx\<lparr>dc_srq := srq1, dc_srq_posted := posted\<rparr>)"

definition dc_poll_recv_counted ::
  "dc_cqe list \<Rightarrow> 'u dc_context \<Rightarrow> (nat, rpc_error) outcome \<times> ('u \<times> bytes) list \<times> 'u dc_context" where
  "dc_poll_recv_counted cqes ctx =
     and_then (dc_drain_recv_cq cqes ([], ctx)) (\<lambda>_ (responses, ctx1).
       (Ok (length cqes), (responses, dc_srq_refill True (length cqes) ctx1)))"

definition dc_recv_poller_poll ::
  "dc_cqe list \<Rightarrow> 'u dc_context \<Rightarrow> (nat, rpc_error) outcome \<times> ('u \<times> bytes) list \<times> 'u dc_context" where
  "dc_recv_poller_poll cqes ctx =
     (if cqes = [] then (Ok 0, ([], ctx))
      else and_then (dc_drain_recv_cq cqes ([], ctx)) (\<lambda>_ (responses, ctx1).
             (Ok (length cqes), (responses, dc_srq_refill False (length cqes) ctx1))))"

text \<open>One round of the flush loop; the second component tells whether the loop goes on.\<close>

record 'u dc_flush =
  fl_ctx :: "'u dc_context"
  fl_emitted :: bool
  fl_newly_signaled :: u32

definition dc_store :: "u32 \<Rightarrow> 'u dc_endpoint \<times> dci \<Rightarrow> 'u dc_context \<Rightarrow> 'u dc_context" where
  "dc_store endpoint_id = (\<lambda>(ep, q) ctx. (dc_put_endpoint endpoint_id ep ctx)\<lparr>dc_dci := q\<rparr>)"

definition dc_flush_one ::
  "submit_oracle \<Rightarrow> 'u dc_flush \<Rightarrow> (bool, rpc_error) outcome \<times> 'u dc_flush" where
  "dc_flush_one submit f =
     (case pop_front (dc_dirty (fl_ctx f)) of
        (None, dl) \<Rightarrow> (Ok False, f)
      | (Some endpoint_id, dl) \<Rightarrow>
          (let ctx = (fl_ctx f)\<lparr>dc_dirty := dl\<rparr>
           in case fm_get (dc_endpoints ctx) endpoint_id of
                None \<Rightarrow> (Ok True, f\<lparr>fl_ctx := ctx\<rparr>)
              | Some ep \<Rightarrow>
                  (let (result, (ep1, q1)) = emit_pending submit (ep, dc_dci ctx);
                       (n, ep2) = take_newly_signaled_count ep1;
                       ctx1 = dc_store endpoint_id (ep2, q1) ctx;
                       requeued = ctx1\<lparr>dc_dirty := push_back endpoint_id dl\<rparr>;
                       newly_signaled = saturating_add (fl_newly_signaled f) n
                   in case result of
                        Ok was_emitted \<Rightarrow>
                          (Ok True, f\<lparr>fl_ctx := (if has_pending_flush ep2 then requeued else ctx1),
                                      fl_emitted := fl_emitted f \<or> was_emitted,
                                      fl_newly_signaled := newly_signaled\<rparr>)
                      | Err RingFull \<Rightarrow>
                          (Ok False, f\<lparr>fl_ctx := requeued, fl_newly_signaled := newly_signaled\<rparr>)
                      | Err _ \<Rightarrow>
                          (Ok True, f\<lparr>fl_ctx := ctx1, fl_newly_signaled := newly_signaled\<rparr>)
                      | Panic \<Rightarrow> (Panic, f\<lparr>fl_ctx := ctx1\<rparr>))))"

partial_function (option) dc_flush_loop ::
  "submit_oracle \<Rightarrow> 'u dc_flush \<Rightarrow> ((unit, rpc_error) outcome \<times> 'u dc_flush) option" where
  "dc_flush_loop submit f =
     (case dc_flush_one submit f of
        (Ok go_on, f1) \<Rightarrow> if go_on then dc_flush_loop submit f1 else Some (Ok (), f1)
      | (Err e, f1) \<Rightarrow> Some (Err e, f1)
      | (Panic, f1) \<Rightarrow> Some (Panic, f1))"

text \<open>\<open>polled\<close> is the number of send completions the device has ready.\<close>

definition dc_flush_endpoints ::
  "submit_oracle \<Rightarrow> u32 \<Rightarrow> 'u dc_context \<Rightarrow> ((unit, rpc_error) outcome \<times> 'u dc_context) option" where
  "dc_flush_endpoints submit polled ctx =
     (let ctx1 = (if 0 < dc_pending_send_cqes ctx
                  then ctx\<lparr>dc_pending_send_cqes := saturating_sub (dc_pending_send_cqes ctx) polled\<rparr>
                  else ctx)
      in map_option (\<lambda>(result, f).
           let ctx2 = (fl_ctx f)\<lparr>dc_pending_send_cqes :=
                        saturating_add (dc_pending_send_cqes (fl_ctx f)) (fl_newly_signaled f)\<rparr>
           in case result of
                Ok _ \<Rightarrow> (result, if fl_emitted f
                                 then ctx2\<lparr>dc_dci := (dc_dci ctx2)\<lparr>dci_rung := length (dci_sq (dc_dci ctx2))\<rparr>\<rparr>
                                 else ctx2)
              | _ \<Rightarrow> (result, fl_ctx f))
         (dc_flush_loop submit \<lparr>fl_ctx = ctx1, fl_emitted = False, fl_newly_signaled = 0\<rparr>))"

definition dc_poll ::
  "submit_oracle \<Rightarrow> dc_cqe list \<Rightarrow> u32 \<Rightarrow> 'u dc_context
     \<Rightarrow> ((unit, rpc_error) outcome \<times> ('u \<times> bytes) list \<times> 'u dc_context) option" where
  "dc_poll submit cqes polled ctx =
     (let (result, (responses, ctx1)) = dc_poll_recv_counted cqes ctx
      in case result of
           Ok _ \<Rightarrow> map_option (\<lambda>(r, ctx2). (r, (responses, ctx2))) (dc_flush_endpoints submit polled ctx1)
         | Err e \<Rightarrow> Some (Err e, (responses, ctx1))
         | Panic \<Rightarrow> Some (Panic, (responses, ctx1)))"

end
