(* ===== verification/Copyrpc_DC_Dirty.thy ===== *)
theory Copyrpc_DC_Dirty
  imports Copyrpc_DC
begin

text \<open>
  The intrusive list of dirty endpoints of \<^verbatim>\<open>copyrpc/src/dc.rs\<close> implements a queue without
  duplicates: \<open>dl_rep dl xs\<close> says that following the links from the head visits exactly \<open>xs\<close>.
  Pushing appends unless the endpoint is queued already, popping takes the first element.
\<close>

fun dl_path :: "u32 list \<Rightarrow> u32 \<Rightarrow> u32 list \<Rightarrow> bool" where
  "dl_path nxt h [] \<longleftrightarrow> h = DIRTY_NONE"
| "dl_path nxt h (x # xs) \<longleftrightarrow>
     h = x \<and> x \<noteq> DIRTY_NONE \<and> unat x < length nxt \<and> dl_path nxt (nxt ! unat x) xs"

definition dl_rep :: "dirty_list \<Rightarrow> u32 list \<Rightarrow> bool" where
  "dl_rep dl xs \<longleftrightarrow>
     dl_path (dl_next dl) (dl_head dl) xs \<and> distinct xs \<and>
     dl_tail dl = (if xs = [] then DIRTY_NONE else last xs) \<and>
     length (dl_in_list dl) = length (dl_next dl) \<and>
     (\<forall>i < length (dl_in_list dl). dl_in_list dl ! i \<longleftrightarrow> i \<in> unat ` set xs)"

lemma unat_u32_eq [simp]: "unat x = unat y \<longleftrightarrow> x = (y :: u32)"
  by (simp add: word_unat_eq_iff)

lemma dl_path_in:
  "dl_path nxt h xs \<Longrightarrow> x \<in> set xs \<Longrightarrow> unat x < length nxt \<and> x \<noteq> DIRTY_NONE"
  by (induction xs arbitrary: h) auto

lemma dl_path_cong:
  assumes "\<And>x. x \<in> set xs \<Longrightarrow> unat x < length nxt' \<and> nxt' ! unat x = nxt ! unat x"
  shows "dl_path nxt h xs \<Longrightarrow> dl_path nxt' h xs"
  using assms by (induction xs arbitrary: h) simp_all

text \<open>Appending behind the last element.\<close>

lemma dl_path_snoc:
  assumes "dl_path nxt h (xs @ [t])" "distinct (xs @ [t])" "x \<notin> set (xs @ [t])"
    and "x \<noteq> DIRTY_NONE" "unat x < length nxt"
  shows "dl_path (nxt[unat x := DIRTY_NONE, unat t := x]) h (xs @ [t, x])"
  using assms
proof (induction xs arbitrary: h)
  case Nil
  then show ?case by (auto simp: nth_list_update)
next
  case (Cons y ys)
  then have "nxt[unat x := DIRTY_NONE, unat t := x] ! unat y = nxt ! unat y"
    by (subst nth_list_update_neq; auto)+
  with Cons show ?case by simp
qed

lemma dl_rep_in_list: "dl_rep dl xs \<Longrightarrow> unat x < length (dl_next dl) \<Longrightarrow> dl_in_list dl ! unat x \<longleftrightarrow> x \<in> set xs"
  by (auto simp: dl_rep_def)

lemma dl_rep_ensure:
  assumes "dl_rep dl xs"
  shows "dl_rep (ensure_slot x dl) xs" and "unat x < length (dl_next (ensure_slot x dl))"
proof -
  let ?dl = "ensure_slot x dl"
  have in_range: "unat y < length (dl_next dl)" if "y \<in> set xs" for y
    using assms that dl_path_in by (auto simp: dl_rep_def)
  have "dl_path (dl_next ?dl) (dl_head dl) xs"
    by (rule dl_path_cong [where nxt = "dl_next dl"])
      (use assms in_range in \<open>force simp: dl_rep_def ensure_slot_def Let_def nth_resize\<close>)+
  moreover have "\<forall>i < length (dl_in_list ?dl). dl_in_list ?dl ! i \<longleftrightarrow> i \<in> unat ` set xs"
    using assms in_range by (auto simp: dl_rep_def ensure_slot_def Let_def nth_resize)
  ultimately show "dl_rep ?dl xs"
    using assms by (auto simp: dl_rep_def ensure_slot_def Let_def)
  show "unat x < length (dl_next ?dl)" by (simp add: ensure_slot_def Let_def)
qed

lemma dl_rep_push:
  assumes "dl_rep dl xs" "x \<noteq> DIRTY_NONE"
  shows "dl_rep (push_back x dl) (if x \<in> set xs then xs else xs @ [x])"
proof -
  let ?d = "ensure_slot x dl"
  note d = dl_rep_ensure [OF assms(1), of x]
  show ?thesis
  proof (cases "x \<in> set xs")
    case True
    then show ?thesis using d dl_rep_in_list [OF d] by (simp add: push_back_def Let_def)
  next
    case False
    then have new: "\<not> dl_in_list ?d ! unat x" using dl_rep_in_list [OF d] by simp
    have flags: "\<forall>i < length (dl_in_list ?d).
        (dl_in_list ?d)[unat x := True] ! i \<longleftrightarrow> i \<in> unat ` set (xs @ [x])"
      using d by (auto simp: dl_rep_def nth_list_update)
    show ?thesis
    proof (cases xs rule: rev_cases)
      case Nil
      then have "dl_tail ?d = DIRTY_NONE" using d(1) by (simp add: dl_rep_def)
      then show ?thesis
        using Nil False new d flags assms(2) by (simp add: push_back_def Let_def dl_rep_def)
    next
      case (snoc ys t)
      have t: "dl_tail ?d = t" "t \<noteq> DIRTY_NONE"
        using d(1) snoc dl_path_in [of "dl_next ?d" "dl_head ?d" xs t] by (auto simp: dl_rep_def)
      have "dl_path ((dl_next ?d)[unat x := DIRTY_NONE, unat t := x]) (dl_head ?d) (ys @ [t, x])"
        using d snoc False assms(2) by (intro dl_path_snoc) (auto simp: dl_rep_def)
      then show ?thesis
        using snoc False new d flags assms(2) t by (simp add: push_back_def Let_def dl_rep_def eq_commute [of t x])
    qed
  qed
qed

lemma dl_rep_pop_Nil: "dl_rep dl [] \<Longrightarrow> pop_front dl = (None, dl)"
  by (simp add: dl_rep_def pop_front_def)

lemma dl_rep_pop_Cons:
  assumes "dl_rep dl (x # xs)"
  shows "fst (pop_front dl) = Some x" and "dl_rep (snd (pop_front dl)) xs"
proof -
  let ?n = "dl_next dl"
  have x: "dl_head dl = x" "x \<noteq> DIRTY_NONE" "unat x < length ?n" "dl_path ?n (?n ! unat x) xs"
    "distinct (x # xs)"
    using assms by (auto simp: dl_rep_def)
  then show "fst (pop_front dl) = Some x" by (simp add: pop_front_def Let_def)
  have path: "dl_path (?n[unat x := DIRTY_NONE]) (?n ! unat x) xs"
    using x by (intro dl_path_cong [OF _ x(4)]) (use x dl_path_in [OF x(4)] in \<open>auto simp: nth_list_update\<close>)
  have head: "?n ! unat x = DIRTY_NONE \<longleftrightarrow> xs = []"
    using x(4) dl_path_in [OF x(4)] by (cases xs) auto
  have flags: "\<forall>i < length (dl_in_list dl).
      (dl_in_list dl)[unat x := False] ! i \<longleftrightarrow> i \<in> unat ` set xs"
    using assms by (auto simp: dl_rep_def nth_list_update)
  show "dl_rep (snd (pop_front dl)) xs"
    using assms x path head flags by (simp add: pop_front_def Let_def dl_rep_def)
qed

lemma dl_rep_new: "dl_rep dl_new []"
  by (simp add: dl_rep_def dl_new_def)

section \<open>Runs of the list\<close>

datatype dl_op = PushBack u32 | PopFront

text \<open>The queue without duplicates that the list stands for.\<close>

fun queue_step :: "u32 list \<Rightarrow> dl_op \<Rightarrow> u32 option \<times> u32 list" where
  "queue_step xs (PushBack x) = (None, if x \<in> set xs then xs else xs @ [x])"
| "queue_step [] PopFront = (None, [])"
| "queue_step (x # xs) PopFront = (Some x, xs)"

fun dl_step :: "dirty_list \<Rightarrow> dl_op \<Rightarrow> u32 option \<times> dirty_list" where
  "dl_step dl (PushBack x) = (None, push_back x dl)"
| "dl_step dl PopFront = pop_front dl"

fun outputs :: "('s \<Rightarrow> 'op \<Rightarrow> 'o \<times> 's) \<Rightarrow> 's \<Rightarrow> 'op list \<Rightarrow> 'o list" where
  "outputs step s [] = []"
| "outputs step s (op # ops) = fst (step s op) # outputs step (snd (step s op)) ops"

lemma dl_step_refines:
  assumes "dl_rep dl xs" "op \<noteq> PushBack DIRTY_NONE"
  shows "fst (dl_step dl op) = fst (queue_step xs op)" "dl_rep (snd (dl_step dl op)) (snd (queue_step xs op))"
proof (atomize (full), cases op)
  case PopFront
  then show "fst (dl_step dl op) = fst (queue_step xs op) \<and>
      dl_rep (snd (dl_step dl op)) (snd (queue_step xs op))"
    using assms(1) dl_rep_pop_Nil dl_rep_pop_Cons by (cases xs) auto
qed (use assms dl_rep_push in auto)

text \<open>
  C29. The intrusive linked list refines a queue without duplicates: started empty, any sequence
  of pushes and pops answers exactly as the queue does, where pushing an endpoint that is queued
  already changes nothing.  The only excluded identifier is the end marker itself.
\<close>
theorem dirty_list_refines_queue:
  assumes "PushBack DIRTY_NONE \<notin> set ops"
  shows "outputs dl_step dl_new ops = outputs queue_step [] ops"
proof -
  have "dl_rep dl xs \<Longrightarrow> PushBack DIRTY_NONE \<notin> set ops \<Longrightarrow>
      outputs dl_step dl ops = outputs queue_step xs ops" for dl xs
  proof (induction ops arbitrary: dl xs)
    case (Cons op ops)
    then have "op \<noteq> PushBack DIRTY_NONE" by auto
    then show ?case using Cons dl_step_refines [of dl xs op] by simp
  qed simp
  then show ?thesis using assms dl_rep_new by blast
qed

theorem dirty_list_refines_queue_witness:
  "outputs dl_step dl_new [PushBack 3, PushBack 1, PushBack 3, PopFront, PopFront, PopFront]
     = [None, None, None, Some 3, Some 1, None]"
  using dirty_list_refines_queue [of "[PushBack 3, PushBack 1, PushBack 3, PopFront, PopFront, PopFront]"]
  by (simp add: DIRTY_NONE_def)

end
