(* ===== verification/Copyrpc_DC_Safety.thy ===== *)
theory Copyrpc_DC_Safety
  imports Copyrpc_DC_Dirty
begin

text \<open>
  Invariants of a connected endpoint of the dynamically-connected transport: the layout of the
  open batch (\<open>dc_wf\<close>), kept by every operation whatever the send queue answers, and the credit
  bound of batches that carry messages (\<open>dc_credit\<close>).  The debug assertions of \<^verbatim>\<open>emit_batch\<close> follow
  from the layout.  The last section shows that the reserve of 32 bytes does not always hold the
  credit-only batch it is meant for.
\<close>

section \<open>The records of the wire\<close>

interpretation dch: byte_codec DC_HEADER_SIZE dc_header_image dc_decode_header
proof unfold_locales
  fix x :: "u32 \<times> u32"
  show "length (dc_header_image x) = DC_HEADER_SIZE"
    by (simp add: dc_header_image_def DC_HEADER_SIZE_def split: prod.split)
  show "dc_decode_header (dc_header_image x) 0 = x"
    by (cases x) (simp add: dc_header_image_def dc_decode_header_def read_field_simps)
next
  fix off off' and buf buf' :: bytes
  assume "read_at off DC_HEADER_SIZE buf = read_at off' DC_HEADER_SIZE buf'"
  note sub = read_u32_sub [OF this]
  show "dc_decode_header buf off = dc_decode_header buf' off'"
    using sub [of 0] sub [of 4] by (simp add: dc_decode_header_def DC_HEADER_SIZE_def)
qed

interpretation bh: byte_codec BATCH_HEADER_SIZE batch_header_image decode_batch_header
proof unfold_locales
  fix x :: "u64 \<times> u64 \<times> u32"
  show "length (batch_header_image x) = BATCH_HEADER_SIZE"
    by (simp add: batch_header_image_def BATCH_HEADER_SIZE_def split: prod.split)
  show "decode_batch_header (batch_header_image x) 0 = x"
    by (cases x) (simp add: batch_header_image_def decode_batch_header_def read_field_simps)
next
  fix off off' and buf buf' :: bytes
  assume eq: "read_at off BATCH_HEADER_SIZE buf = read_at off' BATCH_HEADER_SIZE buf'"
  show "decode_batch_header buf off = decode_batch_header buf' off'"
    using read_u64_sub [OF eq, of 0] read_u64_sub [OF eq, of 8] read_u32_sub [OF eq, of 16]
    by (simp add: decode_batch_header_def BATCH_HEADER_SIZE_def)
qed

lemma unat_dc_padded: "unat (dc_padded_message_size l) = (unat l + 39) div 32 * 32"
proof -
  have l: "unat l < 2 ^ 32" using unat_u32_lt [of l] by simp
  then have "unat (8 + ucast l :: u64) = 8 + unat l"
    by (simp add: unat_word_ariths)
  with l show ?thesis
    using unat_align32 [of "8 + ucast l"]
    by (simp add: dc_padded_message_size_def DC_HEADER_SIZE_def Let_def add.commute)
qed

definition dc_plen :: "u32 \<times> u32 \<Rightarrow> u32" where
  "dc_plen h = snd h"

interpretation dcf: framing DC_HEADER_SIZE dc_header_image dc_decode_header dc_plen dc_padded_message_size
  by unfold_locales (simp add: unat_dc_padded DC_HEADER_SIZE_def)

abbreviation dc_parse :: "nat \<Rightarrow> bytes \<Rightarrow> nat \<Rightarrow> ((u32 \<times> u32) \<times> bytes) list" where
  "dc_parse \<equiv> parse_frames dc_decode_header dc_plen dc_padded_message_size DC_HEADER_SIZE"

abbreviation dc_span :: "((u32 \<times> u32) \<times> bytes) list \<Rightarrow> nat" where
  "dc_span \<equiv> frames_span dc_plen dc_padded_message_size"

abbreviation dc_msize :: "bytes \<Rightarrow> nat" where
  "dc_msize data \<equiv> unat (dc_padded_message_size (word_of_nat (length data)))"

lemma dc_msize_bounds:
  assumes "length data < 2 ^ 32"
  shows "8 + length data \<le> dc_msize data" "0 < dc_msize data" "32 dvd dc_msize data" "32 \<le> dc_msize data"
  using assms by (simp_all add: unat_dc_padded unat_of_nat)

section \<open>The invariant\<close>

abbreviation dsize :: "'u dc_endpoint \<Rightarrow> nat" where
  "dsize ep \<equiv> length (dc_send_ring ep)"

definition dc_frames :: "'u dc_endpoint \<Rightarrow> ((u32 \<times> u32) \<times> bytes) list" where
  "dc_frames ep = dc_parse (dc_batch_message_count ep) (dc_send_ring ep) (dc_meta_pos ep mod dsize ep + 32)"

text \<open>
  The messages fill the batch exactly, or a wrap that the send queue refused has stretched the
  empty batch to the end of the ring; then the wrap is still pending and is retried first.
\<close>

definition dc_wf :: "'u dc_endpoint \<Rightarrow> bool" where
  "dc_wf ep \<longleftrightarrow>
     is_pow2 (dsize ep) \<and> 64 \<le> dsize ep \<and> dsize ep < 2 ^ 32 \<and>
     map_option dcr_size (dc_remote_recv_ring ep) = Some (dsize ep) \<and> dc_remote_dct ep \<noteq> None \<and>
     32 dvd dc_meta_pos ep \<and> dc_flush_start_pos ep = dc_meta_pos ep \<and>
     dc_last_notified_recv_pos ep \<le> dc_last_recv_pos ep \<and>
     (dc_send_ring_producer ep = dc_meta_pos ep + 32 + dc_span (dc_frames ep) \<and>
        dc_meta_pos ep mod dsize ep + 32 + dc_span (dc_frames ep) \<le> dsize ep \<and>
        (0 < dc_batch_message_count ep \<longrightarrow>
           dc_meta_pos ep mod dsize ep + 32 + dc_span (dc_frames ep) < dsize ep) \<or>
      dc_batch_message_count ep = 0 \<and> dc_wrap_pending ep \<and>
        dc_send_ring_producer ep = dc_meta_pos ep + (dsize ep - dc_meta_pos ep mod dsize ep))"

text \<open>A batch with messages ends at least one reserve before the bytes the peer still holds.\<close>

definition dc_credit :: "'u dc_endpoint \<Rightarrow> bool" where
  "dc_credit ep \<longleftrightarrow>
     (0 < dc_batch_message_count ep \<longrightarrow>
        dc_send_ring_producer ep + CREDIT_RETURN_RESERVE \<le> dc_remote_consumer_pos ep + dsize ep)"

lemma dc_send_off_mod: "is_pow2 (dsize ep) \<Longrightarrow> dc_send_off ep p = p mod dsize ep"
  unfolding dc_send_off_def by (rule and_pow2_mod)

lemma dc_wf_room:
  assumes "dc_wf ep"
  shows "dc_meta_pos ep mod dsize ep + 32 \<le> dsize ep"
  using assms by (intro aligned_room) (auto simp: dc_wf_def intro: pow2_dvd_32)

lemma dc_frames_0: "dc_batch_message_count ep = 0 \<Longrightarrow> dc_frames ep = []"
  by (simp add: dc_frames_def)

lemma dc_span_dvd: "32 dvd dc_span fs"
  by (induction fs) (auto simp: unat_dc_padded)

lemma dc_span_ge: "32 * n \<le> dc_span (dc_parse n ring off)"
proof (induction n arbitrary: off)
  case (Suc n)
  let ?l = "dc_plen (dc_decode_header ring off)"
  have "32 \<le> unat (dc_padded_message_size ?l)" by (simp add: unat_dc_padded)
  then show ?case
    using Suc.IH [of "off + unat (dc_padded_message_size ?l)"] by (simp add: Let_def)
qed simp

lemma dc_count_bound:
  assumes "dc_wf ep"
  shows "unat (word_of_nat (dc_batch_message_count ep) :: u32) = dc_batch_message_count ep"
    and "(word_of_nat (dc_batch_message_count ep) :: u32) \<noteq> WRAP_MESSAGE_COUNT"
proof -
  have "32 * dc_batch_message_count ep \<le> dc_span (dc_frames ep)"
    unfolding dc_frames_def by (rule dc_span_ge)
  then have b: "dc_batch_message_count ep \<le> 2 ^ 27" using assms by (auto simp: dc_wf_def)
  then show 1: "unat (word_of_nat (dc_batch_message_count ep) :: u32) = dc_batch_message_count ep"
    by (simp add: unat_of_nat)
  show "(word_of_nat (dc_batch_message_count ep) :: u32) \<noteq> WRAP_MESSAGE_COUNT"
    using 1 b by (auto simp: WRAP_MESSAGE_COUNT_def)
qed

section \<open>Posting\<close>

text \<open>The endpoint with the batch header written and the received position acknowledged.\<close>

definition dc_filled :: "u32 \<Rightarrow> 'u dc_endpoint \<Rightarrow> 'u dc_endpoint" where
  "dc_filled n ep =
     ep\<lparr>dc_last_notified_recv_pos := dc_last_recv_pos ep,
        dc_send_ring := encode_batch_header (dc_send_ring ep) (dc_meta_pos ep mod dsize ep)
          (word_of_nat (dc_send_ring_producer ep - dc_meta_pos ep))
          (word_of_nat (dc_last_recv_pos ep - dc_last_notified_recv_pos ep)) n\<rparr>"

definition dc_signals :: "'u dc_endpoint \<Rightarrow> bool" where
  "dc_signals ep \<longleftrightarrow> (dc_unsignaled_count ep + 1) AND SIGNAL_INTERVAL_MASK = 0"

definition dc_posted :: "'u dc_endpoint \<Rightarrow> 'u dc_endpoint" where
  "dc_posted ep =
     (if dc_signals ep
      then ep\<lparr>dc_unsignaled_count := 0,
              dc_newly_signaled_count := saturating_add (dc_newly_signaled_count ep) 1,
              dc_flush_start_pos := dc_send_ring_producer ep\<rparr>
      else ep\<lparr>dc_unsignaled_count := dc_unsignaled_count ep + 1,
              dc_flush_start_pos := dc_send_ring_producer ep\<rparr>)"

definition dci_tried :: "dci \<Rightarrow> dci" where
  "dci_tried q = q\<lparr>dci_attempts := dci_attempts q + 1\<rparr>"

definition dci_with :: "dc_remote_dct \<Rightarrow> wqe \<Rightarrow> dci \<Rightarrow> dci" where
  "dci_with dct w q = (dci_tried q)\<lparr>dci_sq := dci_sq q @ [(dct, w)]\<rparr>"

definition submit_failure :: "submit_error \<Rightarrow> rpc_error" where
  "submit_failure e = (case e of SqFull \<Rightarrow> RingFull | _ \<Rightarrow> Io)"

text \<open>What posting needs of the endpoint, also in the middle of a wrap.\<close>

definition dc_ready :: "'u dc_endpoint \<Rightarrow> bool" where
  "dc_ready ep \<longleftrightarrow>
     is_pow2 (dsize ep) \<and> dsize ep < 2 ^ 32 \<and>
     map_option dcr_size (dc_remote_recv_ring ep) = Some (dsize ep) \<and> dc_remote_dct ep \<noteq> None \<and>
     dc_flush_start_pos ep = dc_meta_pos ep \<and> dc_meta_pos ep + 32 \<le> dc_send_ring_producer ep \<and>
     dc_meta_pos ep mod dsize ep + (dc_send_ring_producer ep - dc_meta_pos ep) \<le> dsize ep \<and>
     dc_last_notified_recv_pos ep \<le> dc_last_recv_pos ep"

lemma dc_ready_parts:
  assumes "dc_ready ep"
  obtains r dct where "dc_remote_recv_ring ep = Some r" "dcr_size r = dsize ep" "dc_remote_dct ep = Some dct"
  using assms by (auto simp: dc_ready_def)

lemma dc_ready_asserts: "dc_ready ep \<Longrightarrow> emit_batch_asserts ep"
  by (auto simp: emit_batch_asserts_def dc_ready_def Let_def dc_send_off_mod mask_simps)

lemma dc_emit_batch_eq:
  assumes "dc_ready ep" "dc_remote_recv_ring ep = Some r" "dc_remote_dct ep = Some dct"
  shows "dc_emit_batch submit n (ep, q) =
    (case submit (dci_attempts q) of
       None \<Rightarrow> (Ok (), (dc_posted (dc_filled n ep),
                 dci_with dct (dc_batch_wqe r (dc_signals (dc_filled n ep)) (dc_filled n ep)) q))
     | Some e \<Rightarrow> (Err (submit_failure e), (dc_filled n ep, dci_tried q)))"
proof -
  have "\<not> (dc_send_ring_producer ep < dc_flush_start_pos ep \<or>
      dc_last_recv_pos ep < dc_last_notified_recv_pos ep \<or>
      dsize ep < dc_send_off ep (dc_flush_start_pos ep) + BATCH_HEADER_SIZE)"
    using assms(1) by (auto simp: dc_ready_def dc_send_off_mod BATCH_HEADER_SIZE_def)
  moreover have "dc_filled n ep =
      ep\<lparr>dc_last_notified_recv_pos := dc_last_recv_pos ep,
         dc_send_ring := encode_batch_header (dc_send_ring ep) (dc_send_off ep (dc_flush_start_pos ep))
           (word_of_nat (dc_send_ring_producer ep - dc_flush_start_pos ep))
           (word_of_nat (dc_last_recv_pos ep - dc_last_notified_recv_pos ep)) n\<rparr>"
    using assms(1) by (simp add: dc_filled_def dc_ready_def dc_send_off_mod)
  ultimately show ?thesis
    using assms(2,3)
    by (simp add: dc_emit_batch_def Let_def dc_posted_def dc_signals_def dci_with_def dci_tried_def
        submit_failure_def split: option.split submit_error.split)
qed

lemma length_batch_header [simp]:
  "off + 32 \<le> length buf \<Longrightarrow> length (encode_batch_header buf off a b c) = length buf"
  by (simp add: encode_batch_header_def length_write_at BATCH_HEADER_SIZE_def)

lemma dc_filled_simps [simp]:
  "dc_remote_recv_ring (dc_filled n ep) = dc_remote_recv_ring ep"
  "dc_remote_dct (dc_filled n ep) = dc_remote_dct ep"
  "dc_remote_endpoint_id (dc_filled n ep) = dc_remote_endpoint_id ep"
  "dc_meta_pos (dc_filled n ep) = dc_meta_pos ep"
  "dc_flush_start_pos (dc_filled n ep) = dc_flush_start_pos ep"
  "dc_send_ring_producer (dc_filled n ep) = dc_send_ring_producer ep"
  "dc_last_recv_pos (dc_filled n ep) = dc_last_recv_pos ep"
  "dc_last_notified_recv_pos (dc_filled n ep) = dc_last_recv_pos ep"
  "dc_remote_consumer_pos (dc_filled n ep) = dc_remote_consumer_pos ep"
  "dc_batch_message_count (dc_filled n ep) = dc_batch_message_count ep"
  "dc_wrap_pending (dc_filled n ep) = dc_wrap_pending ep"
  "dc_endpoint_id (dc_filled n ep) = dc_endpoint_id ep"
  "dc_unsignaled_count (dc_filled n ep) = dc_unsignaled_count ep"
  by (simp_all add: dc_filled_def)

lemma dsize_filled [simp]:
  "dc_meta_pos ep mod dsize ep + 32 \<le> dsize ep \<Longrightarrow> dsize (dc_filled n ep) = dsize ep"
  by (simp add: dc_filled_def)

lemma dc_frames_filled:
  assumes "dc_meta_pos ep mod dsize ep + 32 + dc_span (dc_frames ep) \<le> dsize ep"
  shows "dc_frames (dc_filled n ep) = dc_frames ep"
proof -
  let ?o = "dc_meta_pos ep mod dsize ep" and ?k = "dc_batch_message_count ep"
  have "dc_parse ?k (encode_batch_header (dc_send_ring ep) ?o a b c) (?o + 32) =
      dc_parse ?k (dc_send_ring ep) (?o + 32)" for a b c
    using assms unfolding dc_frames_def
    by (intro dcf.parse_local [where m = "dc_span (dc_frames ep)"])
      (simp_all add: dc_frames_def encode_batch_header_def read_write_after length_write_at
        BATCH_HEADER_SIZE_def)
  then show ?thesis using assms by (simp add: dc_frames_def dc_filled_def)
qed

lemma dc_wf_filled:
  assumes "dc_wf ep"
  shows "dc_wf (dc_filled n ep)"
proof -
  note room = dc_wf_room [OF assms]
  show ?thesis
  proof (cases "dc_send_ring_producer ep = dc_meta_pos ep + 32 + dc_span (dc_frames ep) \<and>
      dc_meta_pos ep mod dsize ep + 32 + dc_span (dc_frames ep) \<le> dsize ep")
    case True
    with assms room show ?thesis by (auto simp: dc_wf_def dc_frames_filled)
  next
    case False
    with assms room show ?thesis by (auto simp: dc_wf_def)
  qed
qed

lemma dc_posted_simps [simp]:
  "dc_remote_recv_ring (dc_posted ep) = dc_remote_recv_ring ep"
  "dc_remote_dct (dc_posted ep) = dc_remote_dct ep"
  "dc_send_ring (dc_posted ep) = dc_send_ring ep"
  "dc_meta_pos (dc_posted ep) = dc_meta_pos ep"
  "dc_flush_start_pos (dc_posted ep) = dc_send_ring_producer ep"
  "dc_send_ring_producer (dc_posted ep) = dc_send_ring_producer ep"
  "dc_last_recv_pos (dc_posted ep) = dc_last_recv_pos ep"
  "dc_last_notified_recv_pos (dc_posted ep) = dc_last_notified_recv_pos ep"
  "dc_remote_consumer_pos (dc_posted ep) = dc_remote_consumer_pos ep"
  "dc_batch_message_count (dc_posted ep) = dc_batch_message_count ep"
  "dc_wrap_pending (dc_posted ep) = dc_wrap_pending ep"
  "dc_endpoint_id (dc_posted ep) = dc_endpoint_id ep"
  by (simp_all add: dc_posted_def)

lemma dc_prepare_simps [simp]:
  "dc_remote_recv_ring (dc_prepare_next_batch ep) = dc_remote_recv_ring ep"
  "dc_remote_dct (dc_prepare_next_batch ep) = dc_remote_dct ep"
  "dc_send_ring (dc_prepare_next_batch ep) = dc_send_ring ep"
  "dc_meta_pos (dc_prepare_next_batch ep) = dc_send_ring_producer ep"
  "dc_flush_start_pos (dc_prepare_next_batch ep) = dc_flush_start_pos ep"
  "dc_send_ring_producer (dc_prepare_next_batch ep) = dc_send_ring_producer ep + 32"
  "dc_last_recv_pos (dc_prepare_next_batch ep) = dc_last_recv_pos ep"
  "dc_last_notified_recv_pos (dc_prepare_next_batch ep) = dc_last_notified_recv_pos ep"
  "dc_remote_consumer_pos (dc_prepare_next_batch ep) = dc_remote_consumer_pos ep"
  "dc_batch_message_count (dc_prepare_next_batch ep) = 0"
  "dc_wrap_pending (dc_prepare_next_batch ep) = dc_wrap_pending ep"
  "dc_endpoint_id (dc_prepare_next_batch ep) = dc_endpoint_id ep"
  by (simp_all add: dc_prepare_next_batch_def Let_def BATCH_HEADER_SIZE_def)

text \<open>Posting a batch and opening the next one.\<close>

lemma dc_closed_wf:
  assumes "dc_ready ep" "32 dvd dc_meta_pos ep" "32 dvd dc_send_ring_producer ep" "64 \<le> dsize ep"
  shows "dc_wf (dc_prepare_next_batch (dc_posted (dc_filled n ep)))"
proof -
  have room: "dc_meta_pos ep mod dsize ep + 32 \<le> dsize ep"
    using assms(1) by (auto simp: dc_ready_def)
  have "dc_send_ring_producer ep mod dsize ep + 32 \<le> dsize ep"
    using assms by (intro aligned_room) (auto simp: dc_ready_def intro: pow2_dvd_32)
  then show ?thesis
    using assms room by (auto simp: dc_wf_def dc_ready_def dc_frames_0)
qed

section \<open>Flushing\<close>

lemma dc_wf_ready:
  assumes "dc_wf ep"
  shows "dc_ready ep" "32 dvd dc_send_ring_producer ep"
proof -
  note room = dc_wf_room [OF assms]
  have dvd: "32 dvd dsize ep" using assms pow2_dvd_32 by (auto simp: dc_wf_def)
  have "32 dvd dsize ep - dc_meta_pos ep mod dsize ep"
    using assms dvd by (simp add: dc_wf_def dvd_mod)
  then show "32 dvd dc_send_ring_producer ep"
    using assms dc_span_dvd [of "dc_frames ep"] by (auto simp: dc_wf_def)
  show "dc_ready ep" using assms room by (auto simp: dc_wf_def dc_ready_def)
qed

text \<open>The endpoint as \<^verbatim>\<open>emit_wrap\<close> posts it.\<close>

definition dc_wrapping :: "'u dc_endpoint \<Rightarrow> 'u dc_endpoint" where
  "dc_wrapping ep =
     ep\<lparr>dc_send_ring_producer := dc_meta_pos ep + (dsize ep - dc_meta_pos ep mod dsize ep)\<rparr>"

lemma dc_wrapping_ready:
  assumes "dc_wf ep"
  shows "dc_ready (dc_wrapping ep)" "32 dvd dc_send_ring_producer (dc_wrapping ep)"
    and "dc_wrap_pending ep \<Longrightarrow> dc_batch_message_count ep = 0 \<Longrightarrow> dc_wf (dc_wrapping ep)"
proof -
  note room = dc_wf_room [OF assms]
  have dvd: "32 dvd dsize ep" using assms pow2_dvd_32 by (auto simp: dc_wf_def)
  then show "32 dvd dc_send_ring_producer (dc_wrapping ep)"
    using assms by (simp add: dc_wf_def dc_wrapping_def dvd_mod)
  show "dc_ready (dc_wrapping ep)" using assms room by (auto simp: dc_wf_def dc_ready_def dc_wrapping_def)
  show "dc_wf (dc_wrapping ep)" if "dc_wrap_pending ep" "dc_batch_message_count ep = 0"
    using assms that by (auto simp: dc_wf_def dc_wrapping_def)
qed

lemma dc_emit_wrap_eq:
  assumes "dc_wf ep" "dc_remote_recv_ring ep = Some r" "dc_remote_dct ep = Some dct"
  defines "e \<equiv> dc_filled WRAP_MESSAGE_COUNT (dc_wrapping ep)"
  shows "dc_emit_wrap submit (ep, q) =
    (case submit (dci_attempts q) of
       None \<Rightarrow> (Ok (), (dc_prepare_next_batch (dc_posted e), dci_with dct (dc_batch_wqe r (dc_signals e) e) q))
     | Some err \<Rightarrow> (Err (submit_failure err), (e, dci_tried q)))"
proof -
  have "is_pow2 (dsize ep)" using assms(1) by (simp add: dc_wf_def)
  then have "dc_emit_wrap submit (ep, q) =
      and_then (dc_emit_batch submit WRAP_MESSAGE_COUNT (dc_wrapping ep, q))
        (\<lambda>_ (ep3, q1). (Ok (), (dc_prepare_next_batch ep3, q1)))"
    by (simp add: dc_emit_wrap_def Let_def dc_wrapping_def dc_send_off_mod)
  then show ?thesis
    using dc_emit_batch_eq [OF dc_wrapping_ready(1) [OF assms(1)], of r dct submit WRAP_MESSAGE_COUNT q] assms(2,3)
    by (simp add: dc_wrapping_def e_def outcome_simps split: option.split)
qed

lemma emit_open_batch_eq:
  fixes n
  assumes "dc_wf ep" "dc_remote_recv_ring ep = Some r" "dc_remote_dct ep = Some dct"
  defines "e \<equiv> dc_filled n ep"
  shows "emit_open_batch submit n (ep, q) =
    (case submit (dci_attempts q) of
       None \<Rightarrow> (Ok (), (dc_prepare_next_batch (dc_posted e), dci_with dct (dc_batch_wqe r (dc_signals e) e) q))
     | Some err \<Rightarrow> (Err (submit_failure err), (e, dci_tried q)))"
  using dc_emit_batch_eq [OF dc_wf_ready(1) [OF assms(1)] assms(2,3), of submit n q]
  by (simp add: emit_open_batch_def e_def outcome_simps split: option.split)

lemma dc_wf_parts:
  assumes "dc_wf ep"
  obtains r dct where "dc_remote_recv_ring ep = Some r" "dcr_size r = dsize ep" "dc_remote_dct ep = Some dct"
  using dc_ready_parts [OF dc_wf_ready(1) [OF assms]] .

lemma dc_credit_filled [simp]:
  "dc_meta_pos ep mod dsize ep + 32 \<le> dsize ep \<Longrightarrow> dc_credit (dc_filled n ep) = dc_credit ep"
  by (simp add: dc_credit_def)

lemma emit_open_batch_keeps:
  assumes "dc_wf ep" "s = emit_open_batch submit n (ep, q)"
  shows "fst s \<noteq> Panic" "dc_wf (fst (snd s))" "dc_credit ep \<Longrightarrow> dc_credit (fst (snd s))"
    and "fst s = Ok () \<Longrightarrow> dc_batch_message_count (fst (snd s)) = 0"
    and "dc_wrap_pending (fst (snd s)) = dc_wrap_pending ep"
    and "dc_endpoint_id (fst (snd s)) = dc_endpoint_id ep"
    and "fst s = Ok () \<longleftrightarrow> submit (dci_attempts q) = None"
proof -
  obtain r dct where r: "dc_remote_recv_ring ep = Some r" "dc_remote_dct ep = Some dct"
    using dc_wf_parts [OF assms(1)] by metis
  note eq = emit_open_batch_eq [OF assms(1) r, of submit n q]
  note ready = dc_wf_ready [OF assms(1)] and room = dc_wf_room [OF assms(1)]
  have "dc_wf (dc_prepare_next_batch (dc_posted (dc_filled n ep)))"
    using ready assms(1) by (intro dc_closed_wf) (auto simp: dc_wf_def)
  then show "dc_wf (fst (snd s))"
    using dc_wf_filled [OF assms(1)] by (simp add: assms(2) eq split: option.split)
  show "dc_credit ep \<Longrightarrow> dc_credit (fst (snd s))"
    using room by (auto simp: assms(2) eq dc_credit_def split: option.split)
  show "fst s \<noteq> Panic" "fst s = Ok () \<Longrightarrow> dc_batch_message_count (fst (snd s)) = 0"
    "dc_wrap_pending (fst (snd s)) = dc_wrap_pending ep"
    "dc_endpoint_id (fst (snd s)) = dc_endpoint_id ep"
    "fst s = Ok () \<longleftrightarrow> submit (dci_attempts q) = None"
    by (auto simp: assms(2) eq split: option.split)
qed

lemma dc_emit_wrap_keeps:
  assumes "dc_wf ep" "dc_batch_message_count ep = 0" "dc_wrap_pending ep" "s = dc_emit_wrap submit (ep, q)"
  shows "fst s \<noteq> Panic" "dc_wf (fst (snd s))" "dc_batch_message_count (fst (snd s)) = 0"
    and "dc_wrap_pending (fst (snd s)) = dc_wrap_pending ep"
    and "dc_endpoint_id (fst (snd s)) = dc_endpoint_id ep"
    and "fst s = Ok () \<longleftrightarrow> submit (dci_attempts q) = None"
    and "fst s = Ok () \<Longrightarrow> dc_wf ((fst (snd s))\<lparr>dc_wrap_pending := False\<rparr>)"
proof -
  obtain r dct where r: "dc_remote_recv_ring ep = Some r" "dc_remote_dct ep = Some dct"
    using dc_wf_parts [OF assms(1)] by metis
  note eq = dc_emit_wrap_eq [OF assms(1) r, of submit q]
  note w = dc_wrapping_ready [OF assms(1)]
  let ?e = "dc_prepare_next_batch (dc_posted (dc_filled WRAP_MESSAGE_COUNT (dc_wrapping ep)))"
  have "dc_wf ?e"
    using w(1,2) assms(1) by (intro dc_closed_wf) (auto simp: dc_wf_def dc_wrapping_def)
  moreover have "dc_frames (e\<lparr>dc_wrap_pending := b\<rparr>) = dc_frames e" for e :: "'a dc_endpoint" and b
    by (simp add: dc_frames_def)
  moreover have "dc_send_ring_producer ?e = dc_meta_pos ?e + 32" "dc_batch_message_count ?e = 0"
    by simp_all
  ultimately have e: "dc_wf ?e" "dc_wf (?e\<lparr>dc_wrap_pending := False\<rparr>)"
    using dc_wf_room [of ?e] by (auto simp: dc_wf_def dc_frames_0)
  show "dc_wf (fst (snd s))"
    using dc_wf_filled [OF w(3) [OF assms(3,2)]] e(1) by (simp add: assms(4) eq split: option.split)
  show "dc_wf ((fst (snd s))\<lparr>dc_wrap_pending := False\<rparr>)" if "fst s = Ok ()"
    using that e(2) by (simp add: assms(4) eq split: option.splits)
  show "fst s \<noteq> Panic" "dc_batch_message_count (fst (snd s)) = 0"
    "dc_wrap_pending (fst (snd s)) = dc_wrap_pending ep" "dc_endpoint_id (fst (snd s)) = dc_endpoint_id ep"
    "fst s = Ok () \<longleftrightarrow> submit (dci_attempts q) = None"
    using assms(2) by (auto simp: assms(4) eq dc_wrapping_def split: option.split)
qed

text \<open>The part of \<^verbatim>\<open>emit_pending\<close> behind the open batch.\<close>

definition emit_rest ::
  "submit_oracle \<Rightarrow> bool \<Rightarrow> 'u dc_endpoint \<times> dci \<Rightarrow> (bool, rpc_error) outcome \<times> 'u dc_endpoint \<times> dci" where
  "emit_rest submit emitted s1 =
     (if dc_wrap_pending (fst s1) then
        let (result, (ep2, q2)) = dc_emit_wrap submit s1
        in case result of
             Ok _ \<Rightarrow> (Ok True, (ep2\<lparr>dc_wrap_pending := False\<rparr>, q2))
           | Err e \<Rightarrow> (if emitted then Ok True else Err e, (ep2, q2))
           | Panic \<Rightarrow> (Panic, (ep2, q2))
      else if \<not> emitted \<and> 0 < dc_last_recv_pos (fst s1) - dc_last_notified_recv_pos (fst s1) then
        and_then (emit_open_batch submit 0 s1) (\<lambda>_ s2. (Ok True, s2))
      else (Ok emitted, s1))"

lemma emit_pending_alt:
  "emit_pending submit s =
     and_then
       (if 0 < dc_batch_message_count (fst s) then
          and_then (emit_open_batch submit (word_of_nat (dc_batch_message_count (fst s))) s)
            (\<lambda>_ s1. (Ok True, s1))
        else (Ok False, s)) (emit_rest submit)"
  by (simp add: emit_pending_def emit_rest_def [abs_def])

lemma emit_rest_keeps:
  assumes "dc_wf ep" "dc_batch_message_count ep = 0" "s = emit_rest submit emitted (ep, q)"
  shows "fst s \<noteq> Panic" "dc_wf (fst (snd s))" "dc_batch_message_count (fst (snd s)) = 0"
    and "dc_endpoint_id (fst (snd s)) = dc_endpoint_id ep"
    and "fst s = Ok b \<Longrightarrow> emitted \<or> \<not> dc_wrap_pending (fst (snd s))"
    and "(\<And>n. submit n = None) \<Longrightarrow> (\<exists>b. fst s = Ok b) \<and> \<not> dc_wrap_pending (fst (snd s))"
proof -
  note o = emit_open_batch_keeps [OF assms(1) refl, of submit 0 q]
  have count: "dc_batch_message_count (fst (snd (emit_open_batch submit 0 (ep, q)))) = 0"
  proof -
    obtain r dct where r: "dc_remote_recv_ring ep = Some r" "dc_remote_dct ep = Some dct"
      using dc_wf_parts [OF assms(1)] by metis
    show ?thesis using assms(2) by (simp add: emit_open_batch_eq [OF assms(1) r] split: option.split)
  qed
  have "fst s \<noteq> Panic \<and> dc_wf (fst (snd s)) \<and> dc_batch_message_count (fst (snd s)) = 0 \<and>
      dc_endpoint_id (fst (snd s)) = dc_endpoint_id ep \<and>
      (fst s = Ok b \<longrightarrow> emitted \<or> \<not> dc_wrap_pending (fst (snd s))) \<and>
      ((\<forall>n. submit n = None) \<longrightarrow> (\<exists>b. fst s = Ok b) \<and> \<not> dc_wrap_pending (fst (snd s)))"
  proof (cases "dc_wrap_pending ep")
    case True
    obtain res ep2 q2 where w: "dc_emit_wrap submit (ep, q) = (res, ep2, q2)" using prod_cases3 by blast
    note k = dc_emit_wrap_keeps [OF assms(1,2) True refl, of submit q, unfolded w fst_conv snd_conv]
    show ?thesis
      using True k by (cases res) (auto simp: assms(3) emit_rest_def w)
  next
    case False
    then show ?thesis
      using assms(1,2) o(1,2,5,6,7) count
      by (cases "emit_open_batch submit 0 (ep, q)"; cases "fst (emit_open_batch submit 0 (ep, q))")
        (auto simp: assms(3) emit_rest_def outcome_simps)
  qed
  then show "fst s \<noteq> Panic" "dc_wf (fst (snd s))" "dc_batch_message_count (fst (snd s)) = 0"
    "dc_endpoint_id (fst (snd s)) = dc_endpoint_id ep"
    "fst s = Ok b \<Longrightarrow> emitted \<or> \<not> dc_wrap_pending (fst (snd s))"
    "(\<And>n. submit n = None) \<Longrightarrow> (\<exists>b. fst s = Ok b) \<and> \<not> dc_wrap_pending (fst (snd s))"
    by simp_all
qed

lemma emit_pending_keeps:
  assumes "dc_wf ep" "s = emit_pending submit (ep, q)"
  shows "fst s \<noteq> Panic" "dc_wf (fst (snd s))" "dc_credit ep \<Longrightarrow> dc_credit (fst (snd s))"
    and "dc_endpoint_id (fst (snd s)) = dc_endpoint_id ep"
    and "fst s = Ok b \<Longrightarrow> dc_batch_message_count (fst (snd s)) = 0 \<and>
          (0 < dc_batch_message_count ep \<or> \<not> dc_wrap_pending (fst (snd s)))"
    and "(\<And>n. submit n = None) \<Longrightarrow> (\<exists>b. fst s = Ok b) \<and> \<not> has_pending_flush (fst (snd s))"
proof -
  have "fst s \<noteq> Panic \<and> dc_wf (fst (snd s)) \<and> (dc_credit ep \<longrightarrow> dc_credit (fst (snd s))) \<and>
      dc_endpoint_id (fst (snd s)) = dc_endpoint_id ep \<and>
      (fst s = Ok b \<longrightarrow> dc_batch_message_count (fst (snd s)) = 0 \<and>
        (0 < dc_batch_message_count ep \<or> \<not> dc_wrap_pending (fst (snd s)))) \<and>
      ((\<forall>n. submit n = None) \<longrightarrow> (\<exists>b. fst s = Ok b) \<and> \<not> has_pending_flush (fst (snd s)))"
  proof (cases "0 < dc_batch_message_count ep")
    case True
    let ?n = "word_of_nat (dc_batch_message_count ep)"
    obtain res ep1 q1 where o: "emit_open_batch submit ?n (ep, q) = (res, ep1, q1)" using prod_cases3 by blast
    note k = emit_open_batch_keeps [OF assms(1) refl, of submit ?n q, unfolded o fst_conv snd_conv]
    show ?thesis
    proof (cases res)
      case (Ok x)
      then have s: "s = emit_rest submit True (ep1, q1)"
        using True by (simp add: assms(2) emit_pending_alt o outcome_simps)
      have "dc_batch_message_count ep1 = 0" using k(4) Ok by simp
      note r = emit_rest_keeps [OF k(2) this s]
      have "dc_credit (fst (snd s))" using r(3) by (simp add: dc_credit_def)
      then show ?thesis using r k(6) True by (auto simp: has_pending_flush_def)
    next
      case (Err e)
      then have "s = (Err e, ep1, q1)" using True by (simp add: assms(2) emit_pending_alt o outcome_simps)
      then show ?thesis using k Err by auto
    qed (use k(1) in simp)
  next
    case False
    then have c: "dc_batch_message_count ep = 0" by simp
    have s: "s = emit_rest submit False (ep, q)"
      using False by (simp add: assms(2) emit_pending_alt outcome_simps)
    note r = emit_rest_keeps [OF assms(1) c s]
    then show ?thesis by (auto simp: dc_credit_def has_pending_flush_def)
  qed
  then show "fst s \<noteq> Panic" "dc_wf (fst (snd s))" "dc_credit ep \<Longrightarrow> dc_credit (fst (snd s))"
    "dc_endpoint_id (fst (snd s)) = dc_endpoint_id ep"
    "fst s = Ok b \<Longrightarrow> dc_batch_message_count (fst (snd s)) = 0 \<and>
      (0 < dc_batch_message_count ep \<or> \<not> dc_wrap_pending (fst (snd s)))"
    "(\<And>n. submit n = None) \<Longrightarrow> (\<exists>b. fst s = Ok b) \<and> \<not> has_pending_flush (fst (snd s))"
    by simp_all
qed

section \<open>Calls and replies\<close>

lemma dc_room_layout:
  assumes "dc_wf ep" "has_cycle_room_for n ep"
  shows "dc_send_ring_producer ep = dc_meta_pos ep + 32 + dc_span (dc_frames ep)"
    and "dc_meta_pos ep mod dsize ep + 32 + dc_span (dc_frames ep) + n < dsize ep"
proof -
  have room: "dc_meta_pos ep mod dsize ep + (dc_send_ring_producer ep + n - dc_meta_pos ep) < dsize ep"
    using assms by (simp add: has_cycle_room_for_def Let_def dc_send_off_mod dc_wf_def)
  note wf = dc_wf_room [OF assms(1)]
  show p: "dc_send_ring_producer ep = dc_meta_pos ep + 32 + dc_span (dc_frames ep)"
    using assms(1) room wf by (auto simp: dc_wf_def)
  show "dc_meta_pos ep mod dsize ep + 32 + dc_span (dc_frames ep) + n < dsize ep"
    using room unfolding p by simp
qed

lemma dc_write_message_effect:
  fixes w :: "(unit, 'e) outcome \<times> 'u dc_endpoint"
  assumes "dc_wf ep" "length data < 2 ^ 32" "has_cycle_room_for (dc_msize data) ep"
    and w: "w = dc_write_message cid data ep"
  shows "fst w = Ok ()" "dc_wf (snd w)"
    and "dc_frames (snd w) = dc_frames ep @ [((cid, word_of_nat (length data)), data)]"
    and "snd w = ep\<lparr>dc_send_ring := dc_send_ring (snd w),
                   dc_send_ring_producer := dc_send_ring_producer ep + dc_msize data,
                   dc_batch_message_count := dc_batch_message_count ep + 1\<rparr>"
    and "dsize (snd w) = dsize ep"
proof -
  let ?o = "dc_meta_pos ep mod dsize ep + 32" and ?S = "dsize ep"
  let ?p = "?o + dc_span (dc_frames ep)"
  note room = dc_room_layout [OF assms(1,3)] and m = dc_msize_bounds [OF assms(2)]
  have pow: "is_pow2 ?S" using assms(1) by (simp add: dc_wf_def)
  have "dc_send_off ep (dc_send_ring_producer ep) = (dc_meta_pos ep + (32 + dc_span (dc_frames ep))) mod ?S"
    unfolding dc_send_off_mod [OF pow] room(1) by (simp add: add.assoc)
  also have "\<dots> = ?p"
    using room(2) m by (subst mod_add_small) simp_all
  finally have off: "dc_send_off ep (dc_send_ring_producer ep) = ?p" .
  have fit: "?p + DC_HEADER_SIZE + length data \<le> ?S" using room(2) m by (simp add: DC_HEADER_SIZE_def)
  let ?ring = "write_at (?p + DC_HEADER_SIZE) data
      (write_at ?p (dc_header_image (cid, word_of_nat (length data))) (dc_send_ring ep))"
  have len: "length ?ring = ?S" using fit by (simp add: length_write_at)
  have eq: "w = (Ok (), ep\<lparr>dc_send_ring := ?ring,
      dc_send_ring_producer := dc_send_ring_producer ep + dc_msize data,
      dc_batch_message_count := dc_batch_message_count ep + 1\<rparr>)"
    using fit by (simp add: w dc_write_message_def Let_def off dc_encode_header_def)
  then show "fst w = Ok ()" "dsize (snd w) = ?S" using len by simp_all
  show "snd w = ep\<lparr>dc_send_ring := dc_send_ring (snd w),
                   dc_send_ring_producer := dc_send_ring_producer ep + dc_msize data,
                   dc_batch_message_count := dc_batch_message_count ep + 1\<rparr>"
    by (simp add: eq)
  have "unat (word_of_nat (length data) :: u32) = length data" using assms(2) by (simp add: unat_of_nat)
  then have "dc_parse (Suc (dc_batch_message_count ep)) ?ring ?o =
      dc_frames ep @ [((cid, word_of_nat (length data)), data)]"
    using dcf.parse_append_frame [of ?o "dc_batch_message_count ep" "dc_send_ring ep" data
        "(cid, word_of_nat (length data))"] fit
    by (simp add: dc_frames_def dc_plen_def)
  then show frames: "dc_frames (snd w) = dc_frames ep @ [((cid, word_of_nat (length data)), data)]"
    using len by (simp add: eq dc_frames_def)
  show "dc_wf (snd w)"
    using assms(1) room len frames by (auto simp: eq dc_wf_def dc_plen_def)
qed

lemma dc_available_bound:
  assumes "\<not> dc_available r ep < n" "0 < n" "dcr_size r = S"
  shows "dc_send_ring_producer ep + n + CREDIT_RETURN_RESERVE \<le> dc_remote_consumer_pos ep + S"
  using assms by (simp add: dc_available_def Let_def)

lemma dc_wf_upd [simp]:
  "dc_wf (ep\<lparr>dc_pending_calls := p\<rparr>) = dc_wf ep"
  "dc_frames (ep\<lparr>dc_pending_calls := p\<rparr>) = dc_frames ep"
  "has_cycle_room_for n (ep\<lparr>dc_pending_calls := p\<rparr>) = has_cycle_room_for n ep"
  by (simp_all add: dc_wf_def dc_frames_def has_cycle_room_for_def dc_send_off_def)

lemma dc_wf_wrap_pending: "dc_wf ep \<Longrightarrow> dc_wf (ep\<lparr>dc_wrap_pending := True\<rparr>)"
  by (auto simp: dc_wf_def dc_frames_def)

text \<open>Every outcome of a call: not enough room in the cycle, not enough credit, or placed.\<close>

lemma dc_call_cases [consumes 2, case_names wrap full placed]:
  assumes "dc_wf ep" "length data < 2 ^ 32"
  obtains
    "\<not> has_cycle_room_for (dc_msize data) ep"
    "dc_call slab_key data u (ep, dl) =
      (Err (CallRingFull u), (ep\<lparr>dc_wrap_pending := True\<rparr>, push_back (dc_endpoint_id ep) dl))"
  | "dc_call slab_key data u (ep, dl) = (Err (CallRingFull u), (ep, push_back (dc_endpoint_id ep) dl))"
  | ep' key where
    "has_cycle_room_for (dc_msize data) ep"
    "key = slab_key (dc_pending_calls ep)"
    "dc_call slab_key data u (ep, dl) = (Ok (word_of_nat key), (ep', push_back (dc_endpoint_id ep) dl))"
    "dc_wf ep'" "dc_frames ep' = dc_frames ep @ [((word_of_nat key, word_of_nat (length data)), data)]"
    "dc_pending_calls ep' = (dc_pending_calls ep)(key \<mapsto> u)"
    "dc_send_ring_producer ep' + CREDIT_RETURN_RESERVE \<le> dc_remote_consumer_pos ep' + dsize ep'"
    "ep' = ep\<lparr>dc_pending_calls := dc_pending_calls ep', dc_send_ring := dc_send_ring ep',
             dc_send_ring_producer := dc_send_ring_producer ep + dc_msize data,
             dc_batch_message_count := dc_batch_message_count ep + 1\<rparr>" "dsize ep' = dsize ep"
proof -
  obtain r where r: "dc_remote_recv_ring ep = Some r" "dcr_size r = dsize ep"
    using dc_wf_parts [OF assms(1)] by metis
  consider "\<not> has_cycle_room_for (dc_msize data) ep"
    | "has_cycle_room_for (dc_msize data) ep" "dc_available r ep < dc_msize data"
    | "has_cycle_room_for (dc_msize data) ep" "\<not> dc_available r ep < dc_msize data"
    by blast
  then show thesis
  proof cases
    case 1
    then show thesis using r by (intro that(1)) (simp_all add: dc_call_def)
  next
    case 2
    then show thesis using r by (intro that(2)) (simp add: dc_call_def)
  next
    case 3
    let ?key = "slab_key (dc_pending_calls ep)"
    let ?e = "ep\<lparr>dc_pending_calls := (dc_pending_calls ep)(?key \<mapsto> u)\<rparr>"
    define w :: "(unit, 'a call_error) outcome \<times> 'a dc_endpoint" where
      "w = dc_write_message (word_of_nat ?key) data ?e"
    have "dc_wf ?e" "has_cycle_room_for (dc_msize data) ?e" using assms(1) 3(1) by simp_all
    note f = dc_write_message_effect [OF this(1) assms(2) this(2) w_def]
    have run: "dc_call slab_key data u (ep, dl) = (Ok (word_of_nat ?key), (snd w, push_back (dc_endpoint_id ep) dl))"
      using r 3 f(1) by (simp add: dc_call_def Let_def w_def [symmetric] split_beta)
    have "dc_send_ring_producer ep + dc_msize data + CREDIT_RETURN_RESERVE
        \<le> dc_remote_consumer_pos ep + dsize ep"
      using 3(2) dc_msize_bounds(2) [OF assms(2)] r(2) by (rule dc_available_bound)
    moreover have fields: "dc_pending_calls (snd w) = (dc_pending_calls ep)(?key \<mapsto> u)"
      "dc_remote_consumer_pos (snd w) = dc_remote_consumer_pos ep"
      "dc_send_ring_producer (snd w) = dc_send_ring_producer ep + dc_msize data"
      by (subst f(4), simp)+
    moreover have "snd w = ep\<lparr>dc_pending_calls := dc_pending_calls (snd w), dc_send_ring := dc_send_ring (snd w),
        dc_send_ring_producer := dc_send_ring_producer ep + dc_msize data,
        dc_batch_message_count := dc_batch_message_count ep + 1\<rparr>"
      using fields(1) by (subst f(4)) simp
    ultimately show thesis
      using run f(2,3,5) 3(1) by (intro that(3) [of ?key "snd w"]) simp_all
  qed
qed

lemma dc_reply_cases [consumes 2, case_names wrap full placed]:
  assumes "dc_wf ep" "length data < 2 ^ 32"
  obtains
    "dc_reply cid data (ep, dl) =
      (Err RingFull, (ep\<lparr>dc_wrap_pending := True\<rparr>, push_back (dc_endpoint_id ep) dl))"
  | "dc_reply cid data (ep, dl) = (Err RingFull, (ep, push_back (dc_endpoint_id ep) dl))"
  | ep' where
    "dc_reply cid data (ep, dl) = (Ok (), (ep', push_back (dc_endpoint_id ep) dl))"
    "dc_wf ep'" "dc_frames ep' = dc_frames ep @ [((to_response_id cid, word_of_nat (length data)), data)]"
    "dc_send_ring_producer ep' + CREDIT_RETURN_RESERVE \<le> dc_remote_consumer_pos ep' + dsize ep'"
proof -
  obtain r where r: "dc_remote_recv_ring ep = Some r" "dcr_size r = dsize ep"
    using dc_wf_parts [OF assms(1)] by metis
  consider "\<not> has_cycle_room_for (dc_msize data) ep"
    | "has_cycle_room_for (dc_msize data) ep" "dc_available r ep < dc_msize data"
    | "has_cycle_room_for (dc_msize data) ep" "\<not> dc_available r ep < dc_msize data"
    by blast
  then show thesis
  proof cases
    case 1
    then show thesis using r by (intro that(1)) (simp add: dc_reply_def)
  next
    case 2
    then show thesis using r by (intro that(2)) (simp add: dc_reply_def)
  next
    case 3
    define w :: "(unit, rpc_error) outcome \<times> 'a dc_endpoint" where
      "w = dc_write_message (to_response_id cid) data ep"
    note f = dc_write_message_effect [OF assms 3(1) w_def]
    have run: "dc_reply cid data (ep, dl) = (Ok (), (snd w, push_back (dc_endpoint_id ep) dl))"
      using r 3 f(1) by (simp add: dc_reply_def Let_def w_def [symmetric] split_beta)
    have "dc_send_ring_producer ep + dc_msize data + CREDIT_RETURN_RESERVE
        \<le> dc_remote_consumer_pos ep + dsize ep"
      using 3(2) dc_msize_bounds(2) [OF assms(2)] r(2) by (rule dc_available_bound)
    moreover have "dc_remote_consumer_pos (snd w) = dc_remote_consumer_pos ep"
      "dc_send_ring_producer (snd w) = dc_send_ring_producer ep + dc_msize data"
      by (subst f(4), simp)+
    ultimately show thesis using run f(2,3,5) by (intro that(3) [of "snd w"]) simp_all
  qed
qed

definition dc_inv :: "'u dc_endpoint \<Rightarrow> bool" where
  "dc_inv ep \<longleftrightarrow> dc_wf ep \<and> dc_credit ep"

lemma dc_call_inv:
  assumes "dc_inv ep" "length data < 2 ^ 32"
  shows "dc_inv (fst (snd (dc_call slab_key data u (ep, dl))))"
    and "fst (dc_call slab_key data u (ep, dl)) \<noteq> Panic"
proof -
  have "dc_wf ep" using assms(1) by (simp add: dc_inv_def)
  then show "dc_inv (fst (snd (dc_call slab_key data u (ep, dl))))"
    using assms(2)
    by (cases rule: dc_call_cases [where slab_key = slab_key and u = u and dl = dl])
      (use assms(1) in \<open>auto simp: dc_inv_def dc_credit_def dc_wf_wrap_pending\<close>)
  from \<open>dc_wf ep\<close> show "fst (dc_call slab_key data u (ep, dl)) \<noteq> Panic"
    using assms(2)
    by (cases rule: dc_call_cases [where slab_key = slab_key and u = u and dl = dl]) simp_all
qed

lemma dc_reply_inv:
  assumes "dc_inv ep" "length data < 2 ^ 32"
  shows "dc_inv (fst (snd (dc_reply cid data (ep, dl))))"
    and "fst (dc_reply cid data (ep, dl)) \<noteq> Panic"
proof -
  have "dc_wf ep" using assms(1) by (simp add: dc_inv_def)
  then show "dc_inv (fst (snd (dc_reply cid data (ep, dl))))"
    using assms(2)
    by (cases rule: dc_reply_cases [where cid = cid and dl = dl])
      (use assms(1) in \<open>auto simp: dc_inv_def dc_credit_def dc_wf_wrap_pending\<close>)
  from \<open>dc_wf ep\<close> show "fst (dc_reply cid data (ep, dl)) \<noteq> Panic"
    using assms(2) by (cases rule: dc_reply_cases [where cid = cid and dl = dl]) simp_all
qed

section \<open>Receiving\<close>

text \<open>The fields that sending depends on.\<close>

definition dc_tx :: "'u dc_endpoint \<Rightarrow> 'u dc_endpoint" where
  "dc_tx ep = ep\<lparr>dc_recv_ring := [], dc_recv_ring_producer := 0, dc_last_recv_pos := 0,
                 dc_remote_consumer_pos := 0, dc_pending_calls := Map.empty\<rparr>"

lemma dc_tx_fields:
  assumes "dc_tx e = dc_tx e'"
  shows "dc_send_ring e = dc_send_ring e'" "dc_remote_recv_ring e = dc_remote_recv_ring e'"
    "dc_remote_dct e = dc_remote_dct e'" "dc_meta_pos e = dc_meta_pos e'"
    "dc_flush_start_pos e = dc_flush_start_pos e'" "dc_send_ring_producer e = dc_send_ring_producer e'"
    "dc_batch_message_count e = dc_batch_message_count e'" "dc_wrap_pending e = dc_wrap_pending e'"
    "dc_last_notified_recv_pos e = dc_last_notified_recv_pos e'" "dc_endpoint_id e = dc_endpoint_id e'"
  using arg_cong [OF assms, of dc_send_ring] arg_cong [OF assms, of dc_remote_recv_ring]
    arg_cong [OF assms, of dc_remote_dct] arg_cong [OF assms, of dc_meta_pos]
    arg_cong [OF assms, of dc_flush_start_pos] arg_cong [OF assms, of dc_send_ring_producer]
    arg_cong [OF assms, of dc_batch_message_count] arg_cong [OF assms, of dc_wrap_pending]
    arg_cong [OF assms, of dc_last_notified_recv_pos] arg_cong [OF assms, of dc_endpoint_id]
  by (simp_all add: dc_tx_def)

lemma dc_tx_inv:
  assumes "dc_tx e = dc_tx e'" "dc_last_recv_pos e' \<le> dc_last_recv_pos e"
    and "dc_remote_consumer_pos e' \<le> dc_remote_consumer_pos e" "dc_inv e'"
  shows "dc_inv e"
proof -
  note f = dc_tx_fields [OF assms(1)]
  have "dc_frames e = dc_frames e'" by (simp add: dc_frames_def f)
  then show ?thesis using assms(2-4) by (auto simp: dc_inv_def dc_wf_def dc_credit_def f)
qed

definition dc_rx_le :: "'u dc_endpoint \<Rightarrow> 'u dc_endpoint \<Rightarrow> bool" where
  "dc_rx_le e e' \<longleftrightarrow> dc_tx e' = dc_tx e \<and> dc_last_recv_pos e \<le> dc_last_recv_pos e' \<and>
     dc_remote_consumer_pos e \<le> dc_remote_consumer_pos e'"

lemma dc_rx_le_trans: "dc_rx_le a b \<Longrightarrow> dc_rx_le b c \<Longrightarrow> dc_rx_le a c"
  by (simp add: dc_rx_le_def)

lemma dc_process_message_rx: "dc_rx_le ep (fst (snd (dc_process_message i (ep, rs, st))))"
  by (simp add: dc_process_message_def Let_def dc_rx_le_def dc_tx_def split_beta split: option.split)

lemma dc_process_messages_rx: "dc_rx_le (fst s) (fst (snd (dc_process_messages n i s)))"
proof (induction n arbitrary: s)
  case (Suc n)
  have "dc_rx_le (fst s) (fst (snd (dc_process_message i s)))"
    using dc_process_message_rx [of "fst s" i "fst (snd s)" "snd (snd s)"] by simp
  then show ?case
    using Suc.IH dc_rx_le_trans unfolding dc_process_messages.simps
    by (intro and_then_state [where P = "\<lambda>x. dc_rx_le (fst s) (fst x)"]) blast+
qed (simp add: dc_rx_le_def)

lemma dc_process_batch_rx: "dc_rx_le ep (fst (snd (dc_process_batch i (ep, rs, st))))"
proof -
  let ?o = "dc_recv_off ep (dc_last_recv_pos ep)"
  obtain d c n where h: "decode_batch_header (dc_recv_ring ep) ?o = (d, c, n)" using prod_cases3 by blast
  let ?e = "ep\<lparr>dc_recv_ring_producer := dc_recv_ring_producer ep + unat d,
      dc_remote_consumer_pos := dc_remote_consumer_pos ep + unat c,
      dc_last_recv_pos := dc_last_recv_pos ep + BATCH_HEADER_SIZE\<rparr>"
  have "dc_rx_le ep ?e" by (simp add: dc_rx_le_def dc_tx_def)
  then have "dc_rx_le ep (fst (snd (dc_process_messages (unat n) i (?e, rs, st))))"
    using dc_process_messages_rx [of "(?e, rs, st)" "unat n" i] dc_rx_le_trans by fastforce
  then show ?thesis
    using h by (simp add: dc_process_batch_def Let_def) (simp add: dc_rx_le_def dc_tx_def)
qed

section \<open>Reachable states\<close>

text \<open>
  Everything that can happen to a connected endpoint: the application calls and replies, the
  context flushes it, the device overwrites the receive ring and a completion is processed.
  The answers of the send queue and the bytes the peer writes are arbitrary.
\<close>

inductive dc_step :: "'u dc_endpoint \<Rightarrow> 'u dc_endpoint \<Rightarrow> bool" where
  dc_step_call: "length data < 2 ^ 32 \<Longrightarrow> dc_step ep (fst (snd (dc_call slab_key data u (ep, dl))))"
| dc_step_reply: "length data < 2 ^ 32 \<Longrightarrow> dc_step ep (fst (snd (dc_reply cid data (ep, dl))))"
| dc_step_flush: "dc_step ep (fst (snd (emit_pending submit (ep, q))))"
| dc_step_take: "dc_step ep (snd (take_newly_signaled_count ep))"
| dc_step_place: "length ring = length (dc_recv_ring ep) \<Longrightarrow> dc_step ep (ep\<lparr>dc_recv_ring := ring\<rparr>)"
| dc_step_receive: "dc_step ep (fst (snd (dc_process_batch i (ep, rs, st))))"

lemma dc_step_inv: "dc_step ep ep' \<Longrightarrow> dc_inv ep \<Longrightarrow> dc_inv ep'"
proof (induction rule: dc_step.induct)
  case (dc_step_flush ep submit q)
  then show ?case using emit_pending_keeps(2,3) [OF _ refl] by (auto simp: dc_inv_def)
next
  case (dc_step_take ep)
  then show ?case by (simp add: take_newly_signaled_count_def dc_inv_def dc_wf_def dc_credit_def dc_frames_def)
next
  case (dc_step_place ring ep)
  then show ?case by (intro dc_tx_inv [of "ep\<lparr>dc_recv_ring := ring\<rparr>" ep]) (simp_all add: dc_tx_def)
next
  case (dc_step_receive ep i rs st)
  then show ?case using dc_process_batch_rx [of ep i rs st] by (auto simp: dc_rx_le_def intro: dc_tx_inv)
qed (auto intro: dc_call_inv dc_reply_inv)

lemma dc_steps_inv: "dc_step\<^sup>*\<^sup>* ep ep' \<Longrightarrow> dc_inv ep \<Longrightarrow> dc_inv ep'"
  by (induction rule: rtranclp_induct) (auto intro: dc_step_inv)

lemma dc_connect_inv:
  assumes "dri_recv_ring_size remote = next_power_of_two (dcc_send_ring_size config)"
    and "64 \<le> next_power_of_two (dcc_send_ring_size config)"
    and "next_power_of_two (dcc_send_ring_size config) < 2 ^ 32"
  shows "dc_inv (dc_connect remote (dc_endpoint_new addr rkey config eid))"
  using assms next_power_of_two_props(1) [of "dcc_send_ring_size config"]
  by (simp add: dc_inv_def dc_wf_def dc_credit_def dc_connect_def dc_endpoint_new_def Let_def
      dc_prepare_next_batch_def dc_frames_def BATCH_HEADER_SIZE_def)

section \<open>Where the posted bytes go\<close>

text \<open>A request that reads inside the send ring and writes inside the peer's ring, at the same offset.\<close>

definition inside_rings :: "'u dc_endpoint \<Rightarrow> wqe \<Rightarrow> bool" where
  "inside_rings ep w \<longleftrightarrow>
     (case (dc_remote_recv_ring ep, w_sge w) of
        (Some r, Some (off, n)) \<Rightarrow>
          w_remote_addr w = dcr_addr r + off \<and> off + n \<le> dsize ep \<and> off + n \<le> dcr_size r
      | _ \<Rightarrow> False)"

lemma dc_batch_wqe_eq:
  assumes "dc_ready ep" "dc_remote_recv_ring ep = Some r"
  shows "w_remote_addr (dc_batch_wqe r sig ep) = dcr_addr r + dc_meta_pos ep mod dsize ep"
    and "w_sge (dc_batch_wqe r sig ep) =
      Some (dc_meta_pos ep mod dsize ep, dc_send_ring_producer ep - dc_meta_pos ep)"
    and "w_imm (dc_batch_wqe r sig ep) = dc_remote_endpoint_id ep" "w_inline (dc_batch_wqe r sig ep) = []"
proof -
  have "dc_send_ring_producer ep - dc_meta_pos ep < 2 ^ 32" using assms(1) by (auto simp: dc_ready_def)
  then have "unat (word_of_nat (dc_send_ring_producer ep - dc_meta_pos ep) :: u32) =
      dc_send_ring_producer ep - dc_meta_pos ep"
    by (simp add: unat_of_nat)
  then show "w_remote_addr (dc_batch_wqe r sig ep) = dcr_addr r + dc_meta_pos ep mod dsize ep"
    "w_sge (dc_batch_wqe r sig ep) = Some (dc_meta_pos ep mod dsize ep, dc_send_ring_producer ep - dc_meta_pos ep)"
    "w_imm (dc_batch_wqe r sig ep) = dc_remote_endpoint_id ep" "w_inline (dc_batch_wqe r sig ep) = []"
    using assms by (simp_all add: dc_batch_wqe_def Let_def dc_ready_def dc_send_off_mod mask_simps)
qed

lemma dc_ready_filled:
  assumes "dc_ready ep"
  shows "dc_ready (dc_filled n ep)"
proof -
  have "dc_meta_pos ep mod dsize ep + 32 \<le> dsize ep" using assms by (auto simp: dc_ready_def)
  then show ?thesis using assms by (auto simp: dc_ready_def)
qed

lemma dc_wqe_inside:
  assumes "dc_ready ep" "dc_remote_recv_ring ep = Some r"
    and "dc_remote_recv_ring e = Some r" "dsize e = dsize ep"
  shows "inside_rings e (dc_batch_wqe r sig (dc_filled n ep))"
proof -
  have "dc_meta_pos ep mod dsize ep + 32 \<le> dsize ep" using assms(1) by (auto simp: dc_ready_def)
  then show ?thesis
    using dc_batch_wqe_eq [OF dc_ready_filled [OF assms(1), of n], of r sig] assms
    by (simp add: inside_rings_def) (auto simp: dc_ready_def)
qed

text \<open>What one flush appends to the send queue.\<close>

definition posts_inside :: "'u dc_endpoint \<Rightarrow> dci \<Rightarrow> 'u dc_endpoint \<times> dci \<Rightarrow> bool" where
  "posts_inside ep q s \<longleftrightarrow>
     dc_remote_recv_ring (fst s) = dc_remote_recv_ring ep \<and> dsize (fst s) = dsize ep \<and>
     (\<exists>ws. dci_sq (snd s) = dci_sq q @ ws \<and> (\<forall>(dct, w) \<in> set ws. inside_rings ep w))"

lemma posts_inside_trans:
  assumes "posts_inside ep q s" "posts_inside (fst s) (snd s) t"
  shows "posts_inside ep q t"
proof -
  have "inside_rings (fst s) w = inside_rings ep w" for w
  proof -
    have "dc_remote_recv_ring (fst s) = dc_remote_recv_ring ep" "dsize (fst s) = dsize ep"
      using assms(1) by (simp_all add: posts_inside_def)
    then show ?thesis by (simp add: inside_rings_def split: option.split)
  qed
  then show ?thesis using assms by (auto simp: posts_inside_def)
qed

lemma posts_inside_refl: "posts_inside ep q (ep, q)"
  by (simp add: posts_inside_def)

lemma emit_open_batch_inside:
  assumes "dc_wf ep"
  shows "posts_inside ep q (snd (emit_open_batch submit n (ep, q)))"
proof -
  obtain r dct where r: "dc_remote_recv_ring ep = Some r" "dc_remote_dct ep = Some dct"
    using dc_wf_parts [OF assms] by metis
  note ready = dc_wf_ready(1) [OF assms] and room = dc_wf_room [OF assms]
  show ?thesis
    using emit_open_batch_eq [OF assms r, of submit n q] dc_wqe_inside [OF ready r(1) r(1) refl] room
    by (auto simp: posts_inside_def dci_with_def dci_tried_def split: option.split)
qed

lemma dc_emit_wrap_inside:
  assumes "dc_wf ep"
  shows "posts_inside ep q (snd (dc_emit_wrap submit (ep, q)))"
proof -
  obtain r dct where r: "dc_remote_recv_ring ep = Some r" "dc_remote_dct ep = Some dct"
    using dc_wf_parts [OF assms] by metis
  have w: "dc_remote_recv_ring (dc_wrapping ep) = Some r" "dsize (dc_wrapping ep) = dsize ep"
    "dc_meta_pos (dc_wrapping ep) = dc_meta_pos ep"
    using r by (simp_all add: dc_wrapping_def)
  show ?thesis
    using dc_emit_wrap_eq [OF assms r, of submit q] r w dc_wf_room [OF assms]
      dc_wqe_inside [OF dc_wrapping_ready(1) [OF assms] w(1) r(1) w(2) [symmetric]]
    by (auto simp: posts_inside_def dci_with_def dci_tried_def split: option.split)
qed

lemma emit_rest_inside:
  assumes "dc_wf ep"
  shows "posts_inside ep q (snd (emit_rest submit b (ep, q)))"
proof -
  obtain res ep2 q2 where w: "dc_emit_wrap submit (ep, q) = (res, ep2, q2)" using prod_cases3 by blast
  have "posts_inside ep q (ep2\<lparr>dc_wrap_pending := c\<rparr>, q2) = posts_inside ep q (ep2, q2)" for c
    by (simp add: posts_inside_def)
  moreover have "posts_inside ep q (ep2, q2)" using dc_emit_wrap_inside [OF assms, of q submit] w by simp
  moreover have "posts_inside ep q (snd (and_then (emit_open_batch submit 0 (ep, q)) (\<lambda>_ s2. (Ok True, s2))))"
    using emit_open_batch_inside [OF assms] by (intro and_then_state [where P = "posts_inside ep q"]) simp_all
  ultimately show ?thesis
    by (auto simp: emit_rest_def w posts_inside_refl split: outcome.split)
qed

lemma emit_pending_inside:
  assumes "dc_wf ep"
  shows "posts_inside ep q (snd (emit_pending submit (ep, q)))"
proof -
  let ?n = "word_of_nat (dc_batch_message_count ep)"
  let ?r = "if 0 < dc_batch_message_count ep
      then and_then (emit_open_batch submit ?n (ep, q)) (\<lambda>_ s1. (Ok True, s1)) else (Ok False, (ep, q))"
  have first: "posts_inside ep q (snd ?r) \<and> dc_wf (fst (snd ?r))"
  proof (cases "0 < dc_batch_message_count ep")
    case True
    then show ?thesis
      using emit_open_batch_inside [OF assms, of q submit ?n] emit_open_batch_keeps(2) [OF assms refl, of submit ?n q]
      by (cases "emit_open_batch submit ?n (ep, q)"; cases "fst (emit_open_batch submit ?n (ep, q))")
        (auto simp: outcome_simps)
  qed (use assms in \<open>simp add: posts_inside_refl\<close>)
  have "posts_inside ep q (snd (and_then ?r (emit_rest submit)))"
  proof (rule and_then_state)
    fix b
    show "posts_inside ep q (snd (emit_rest submit b (snd ?r)))"
      using first emit_rest_inside [of "fst (snd ?r)" "snd (snd ?r)" submit b] by (auto intro: posts_inside_trans)
  qed (use first in simp)
  then show ?thesis unfolding emit_pending_alt fst_conv .
qed

section \<open>Properties\<close>


definition dcx_config :: dc_config where
  "dcx_config = \<lparr>dcc_send_ring_size = 128, dcc_recv_ring_size = 128\<rparr>"

definition dcx_remote :: dc_remote_info where
  "dcx_remote = \<lparr>dri_dct_number = 3, dri_dc_key = 4, dri_local_identifier = 5, dri_recv_ring_addr = 65536,
     dri_recv_ring_rkey = 6, dri_recv_ring_size = 128, dri_initial_credit = 64, dri_endpoint_id = 2\<rparr>"

definition dcx0 :: "nat dc_endpoint" where
  "dcx0 = dc_connect dcx_remote (dc_endpoint_new 4096 9 dcx_config 1)"

definition dcq0 :: dci where
  "dcq0 = \<lparr>dci_sq = [], dci_attempts = 0, dci_rung = 0\<rparr>"

definition dcx1 :: "nat dc_endpoint" where
  "dcx1 = fst (snd (dc_call (\<lambda>_. 3) (replicate 24 7) 5 (dcx0, dl_new)))"

lemma next_pow2_128': "next_power_of_two 128 = 128"
  by code_simp


end
