(* ===== verification/Copyrpc_DC_Delivery.thy ===== *)
theory Copyrpc_DC_Delivery
  imports Copyrpc_DC_Safety
begin

text \<open>
  Two endpoints at the ends of a dynamically-connected channel.  Every kind of batch -- messages,
  credit only, wrap -- that one side posts and the device places in the other's receive ring is
  processed to exactly what was sent, and the receiver is left where the next batch will start.
  In particular a wrap record in the last 32 bytes of the ring keeps the two sides together.
\<close>

lemma dc_plen_simp [simp]: "dc_plen (c, l) = l"
  by (simp add: dc_plen_def)

type_synonym dc_frame = "(u32 \<times> u32) \<times> bytes"

fun dc_answer :: "(nat \<rightharpoonup> 'u) \<Rightarrow> dc_frame list \<Rightarrow> ('u \<times> bytes) list \<times> (nat \<rightharpoonup> 'u)" where
  "dc_answer p [] = ([], p)"
| "dc_answer p (((c, l), d) # fs) =
     (if is_response c then
        (case p (unat (from_response_id c)) of
           None \<Rightarrow> dc_answer p fs
         | Some u \<Rightarrow>
             (let (rs, p') = dc_answer (p(unat (from_response_id c) := None)) fs in ((u, d) # rs, p')))
      else dc_answer p fs)"

fun dc_requests :: "u32 \<Rightarrow> nat \<Rightarrow> dc_frame list \<Rightarrow> dc_recv_msg list" where
  "dc_requests i off [] = []"
| "dc_requests i off (((c, l), d) # fs) =
     (if is_response c then []
      else [\<lparr>dm_endpoint_id = i, dm_call_id = c, dm_data_offset = off + DC_HEADER_SIZE,
             dm_data_len = unat l\<rparr>])
     @ dc_requests i (off + unat (dc_padded_message_size l)) fs"

text \<open>What the application sees of a request.\<close>

definition dc_request_view :: "bytes \<Rightarrow> dc_recv_msg \<Rightarrow> u32 \<times> u32 \<times> bytes" where
  "dc_request_view ring m =
     (dm_endpoint_id m, dm_call_id m, read_at (dm_data_offset m) (dm_data_len m) ring)"

definition dc_frame_requests :: "u32 \<Rightarrow> dc_frame list \<Rightarrow> (u32 \<times> u32 \<times> bytes) list" where
  "dc_frame_requests i fs =
     map (\<lambda>((c, l), d). (i, c, d)) (filter (\<lambda>((c, l), d). \<not> is_response c) fs)"

lemma dc_requests_view:
  "map (dc_request_view ring) (dc_requests i off (dc_parse n ring off)) = dc_frame_requests i (dc_parse n ring off)"
proof (induction n arbitrary: off)
  case 0
  then show ?case by (simp add: dc_frame_requests_def)
next
  case (Suc n)
  obtain c l where "dc_decode_header ring off = (c, l)" by (cases "dc_decode_header ring off")
  then show ?case
    using Suc.IH [of "off + unat (dc_padded_message_size l)"]
    by (simp add: Let_def dc_frame_requests_def dc_request_view_def)
qed

lemma dc_recv_off_mod:
  "is_pow2 (length (dc_recv_ring ep)) \<Longrightarrow> dc_recv_off ep p = p mod length (dc_recv_ring ep)"
  unfolding dc_recv_off_def by (rule and_pow2_mod)

lemma dc_process_message_frame:
  assumes "is_pow2 (length (dc_recv_ring ep))" "off = dc_last_recv_pos ep mod length (dc_recv_ring ep)"
    and "off + unat (dc_padded_message_size l) \<le> length (dc_recv_ring ep)"
    and d: "dc_decode_header (dc_recv_ring ep) off = (c, l)"
    and f: "f = ((c, l), read_at (off + DC_HEADER_SIZE) (unat l) (dc_recv_ring ep))"
  shows "dc_process_message i (ep, rs, st) =
    (Ok (), (ep\<lparr>dc_last_recv_pos := dc_last_recv_pos ep + unat (dc_padded_message_size l),
                dc_pending_calls := snd (dc_answer (dc_pending_calls ep) [f])\<rparr>,
             rs @ fst (dc_answer (dc_pending_calls ep) [f]), st @ dc_requests i off [f]))"
proof -
  have fit: "off + DC_HEADER_SIZE + unat l \<le> length (dc_recv_ring ep)"
    using assms(3) dcf.psize_ge [of l] by linarith
  then show ?thesis
    using d by (simp add: dc_process_message_def dc_recv_off_mod [OF assms(1)] assms(2) [symmetric] f
        Let_def split: option.split)
qed

lemma dc_answer_append:
  "dc_answer p (f # fs) = (fst (dc_answer p [f]) @ fst (dc_answer (snd (dc_answer p [f])) fs),
                           snd (dc_answer (snd (dc_answer p [f])) fs))"
  by (cases f rule: prod.exhaust) (auto split: option.split prod.split)

lemma dc_process_messages_frames:
  assumes "is_pow2 (length (dc_recv_ring ep))"
    and "0 < n \<longrightarrow> off = dc_last_recv_pos ep mod length (dc_recv_ring ep)"
    and "off + dc_span (dc_parse n (dc_recv_ring ep) off) \<le> length (dc_recv_ring ep)"
  shows "dc_process_messages n i (ep, rs, st) =
    (let fs = dc_parse n (dc_recv_ring ep) off; a = dc_answer (dc_pending_calls ep) fs
     in (Ok (), (ep\<lparr>dc_last_recv_pos := dc_last_recv_pos ep + dc_span fs, dc_pending_calls := snd a\<rparr>,
                 rs @ fst a, st @ dc_requests i off fs)))"
  using assms
proof (induction n arbitrary: ep rs st off)
  case 0
  then show ?case by simp
next
  case (Suc n)
  let ?R = "dc_recv_ring ep" and ?L = "length (dc_recv_ring ep)"
  obtain c l where d: "dc_decode_header ?R off = (c, l)" by (cases "dc_decode_header ?R off")
  let ?k = "unat (dc_padded_message_size l)"
  define f where "f = ((c, l), read_at (off + DC_HEADER_SIZE) (unat l) ?R)"
  have fs: "dc_parse (Suc n) ?R off = f # dc_parse n ?R (off + ?k)"
    by (simp add: Let_def d f_def)
  have fit: "off + ?k + dc_span (dc_parse n ?R (off + ?k)) \<le> ?L"
    using Suc.prems(3) unfolding fs by (simp add: f_def)
  define ep1 where "ep1 = ep\<lparr>dc_last_recv_pos := dc_last_recv_pos ep + ?k,
      dc_pending_calls := snd (dc_answer (dc_pending_calls ep) [f])\<rparr>"
  have step: "dc_process_message i (ep, rs, st) =
      (Ok (), (ep1, rs @ fst (dc_answer (dc_pending_calls ep) [f]), st @ dc_requests i off [f]))"
    unfolding ep1_def
    using Suc.prems(1,2) fit by (intro dc_process_message_frame [OF _ _ _ d]) (simp_all add: f_def)
  have next_off: "0 < n \<longrightarrow> off + ?k = dc_last_recv_pos ep1 mod length (dc_recv_ring ep1)"
    using Suc.prems(2) fit dc_span_ge [of n ?R "off + ?k"]
      mod_add_small [of "dc_last_recv_pos ep" ?L ?k] by (auto simp: ep1_def)
  have "dc_process_messages n i (ep1, rs @ fst (dc_answer (dc_pending_calls ep) [f]), st @ dc_requests i off [f]) =
    (let fs = dc_parse n ?R (off + ?k); a = dc_answer (dc_pending_calls ep1) fs
     in (Ok (), (ep1\<lparr>dc_last_recv_pos := dc_last_recv_pos ep1 + dc_span fs, dc_pending_calls := snd a\<rparr>,
                 (rs @ fst (dc_answer (dc_pending_calls ep) [f])) @ fst a,
                 (st @ dc_requests i off [f]) @ dc_requests i (off + ?k) fs)))"
    using Suc.IH [of ep1 "off + ?k"] Suc.prems(1) next_off fit by (simp add: ep1_def)
  then show ?case
    unfolding dc_process_messages.simps step fs and_then_simps(1)
    by (simp add: Let_def ep1_def dc_answer_append [of _ f "dc_parse n ?R (off + ?k)"])
      (simp add: f_def add.assoc)
qed

section \<open>From the send ring to the receive ring\<close>

text \<open>The range of the send ring that a ready endpoint posts, as it arrives.\<close>

lemma dc_carried:
  assumes "dc_ready ep" "dc_remote_recv_ring ep = Some r" "length ring = dsize ep"
    and "e = dc_filled n ep"
    and ring': "ring' = rdma_place (dcr_addr r) (dc_send_ring e) (dc_batch_wqe r sig e) ring"
  defines "off \<equiv> dc_meta_pos ep mod dsize ep" and "m \<equiv> dc_send_ring_producer ep - dc_meta_pos ep"
  shows "length ring' = dsize ep" "read_at off m ring' = read_at off m (dc_send_ring e)"
    and "decode_batch_header ring' off =
      (word_of_nat m, word_of_nat (dc_last_recv_pos ep - dc_last_notified_recv_pos ep), n)"
proof -
  have fit: "off + m \<le> dsize ep" "32 \<le> m" using assms(1) by (auto simp: off_def m_def dc_ready_def)
  have e: "dsize e = dsize ep" "dc_remote_recv_ring e = Some r" "dc_ready e" "dc_meta_pos e = dc_meta_pos ep"
    "dc_send_ring_producer e = dc_send_ring_producer ep"
    using assms(2,4) fit dc_ready_filled [OF assms(1)] by (simp_all add: off_def)
  note w = dc_batch_wqe_eq [OF e(3,2), of sig, unfolded e(1,4,5), folded off_def m_def]
  have eq: "ring' = write_at off (read_at off m (dc_send_ring e)) ring"
    by (simp add: ring' rdma_place_def gather_def w)
  have len: "length (read_at off m (dc_send_ring e)) = m" using fit e(1) by (intro length_read_at) simp
  show l: "length ring' = dsize ep" using eq len assms(3) fit by (simp add: length_write_at)
  show same: "read_at off m ring' = read_at off m (dc_send_ring e)"
    using read_write_same [of off "read_at off m (dc_send_ring e)" ring] len assms(3) fit by (simp add: eq)
  have "read_at off 32 ring' = read_at off 32 (dc_send_ring e)"
    using read_at_sub [OF same, of 0 32] fit by simp
  then have "decode_batch_header ring' off = decode_batch_header (dc_send_ring e) off"
    using fit l e(1) by (intro bh.reader_local) (simp_all add: BATCH_HEADER_SIZE_def)
  also have "\<dots> = (word_of_nat m, word_of_nat (dc_last_recv_pos ep - dc_last_notified_recv_pos ep), n)"
    using bh.reader_write [of off "dc_send_ring ep"] fit
    by (simp add: assms(4) dc_filled_def encode_batch_header_def off_def m_def BATCH_HEADER_SIZE_def)
  finally show "decode_batch_header ring' off =
      (word_of_nat m, word_of_nat (dc_last_recv_pos ep - dc_last_notified_recv_pos ep), n)" .
qed

lemma dc_frames_carried:
  assumes "dc_wf ep" "dc_send_ring_producer ep = dc_meta_pos ep + 32 + dc_span (dc_frames ep)"
    and "dc_remote_recv_ring ep = Some r" "length ring = dsize ep" "e = dc_filled n ep"
    and "ring' = rdma_place (dcr_addr r) (dc_send_ring e) (dc_batch_wqe r sig e) ring"
  shows "dc_parse (dc_batch_message_count ep) ring' (dc_meta_pos ep mod dsize ep + 32) = dc_frames ep"
proof -
  let ?o = "dc_meta_pos ep mod dsize ep" and ?k = "dc_span (dc_frames ep)"
  note ready = dc_wf_ready(1) [OF assms(1)] and room = dc_wf_room [OF assms(1)]
  note c = dc_carried [OF ready assms(3-6)]
  have fit: "?o + 32 + ?k \<le> dsize ep" using ready assms(2) by (simp add: dc_ready_def)
  have sub: "read_at (?o + 32) ?k (dc_send_ring e) = read_at (?o + 32) ?k ring'"
    using read_at_sub [OF c(2), of 32 ?k] assms(2) by simp
  have e: "dc_frames e = dc_frames ep" "dsize e = dsize ep"
    using dc_frames_filled [OF fit] room assms(5) by simp_all
  then have "dc_parse (dc_batch_message_count ep) (dc_send_ring e) (?o + 32) = dc_frames ep"
    using assms(5) by (simp add: dc_frames_def)
  then show ?thesis
    using dcf.parse_local [OF sub, of "dc_batch_message_count ep"] fit c(1) e(2) by simp
qed

lemma dc_process_batch_eq:
  assumes "decode_batch_header (dc_recv_ring ep) off = (d, c, n)"
    and "dc_recv_off ep (dc_last_recv_pos ep) = off" "off + 20 \<le> length (dc_recv_ring ep)"
  defines "ep1 \<equiv> ep\<lparr>dc_recv_ring_producer := dc_recv_ring_producer ep + unat d,
                   dc_remote_consumer_pos := dc_remote_consumer_pos ep + unat c,
                   dc_last_recv_pos := dc_last_recv_pos ep + 32\<rparr>"
  shows "dc_process_batch i (ep, rs, st) =
    (if n = WRAP_MESSAGE_COUNT then
       if unat d < 32 then (Panic, (ep1, rs, st))
       else (Ok (), (ep1\<lparr>dc_last_recv_pos := dc_last_recv_pos ep + unat d\<rparr>, rs, st))
     else dc_process_messages (unat n) i (ep1, rs, st))"
  using assms by (simp add: dc_process_batch_def Let_def BATCH_HEADER_SIZE_def)

section \<open>Properties\<close>

text \<open>
  C3. End-to-end delivery of a batch, with or without messages.  Sender and receiver agree on
  the position, the send queue accepts the request and the device places its bytes.  Then the
  completion delivers every message: responses with their payload to the user data waiting for
  them, requests with call identifier and payload; the receiver gains the ring credit the
  sender returned; and both sides agree on the position of the next batch.
\<close>
theorem dc_batch_delivered:
  assumes "dc_wf A" "0 < dc_batch_message_count A \<or> \<not> dc_wrap_pending A" "dc_remote_recv_ring A = Some r"
    and "length (dc_recv_ring B) = length (dc_send_ring A)" "dc_last_recv_pos B = dc_flush_start_pos A"
    and "submit (dci_attempts q) = None" "dc_last_recv_pos A < 2 ^ 64"
  shows "let (result, A', q') = emit_open_batch submit (word_of_nat (dc_batch_message_count A)) (A, q);
             w = snd (last (dci_sq q'));
             ring = rdma_place (dcr_addr r) (dc_send_ring A') w (dc_recv_ring B);
             (result', B', responses, stack) = dc_process_batch i (B\<lparr>dc_recv_ring := ring\<rparr>, rs, st);
             sent = dc_frames A
         in result = Ok () \<and> result' = Ok () \<and> w_imm w = dc_remote_endpoint_id A \<and>
            responses = rs @ fst (dc_answer (dc_pending_calls B) sent) \<and>
            dc_pending_calls B' = snd (dc_answer (dc_pending_calls B) sent) \<and>
            take (length st) stack = st \<and>
            map (dc_request_view ring) (drop (length st) stack) = dc_frame_requests i sent \<and>
            dc_last_recv_pos B' = dc_flush_start_pos A' \<and>
            dc_remote_consumer_pos B' =
              dc_remote_consumer_pos B + (dc_last_recv_pos A - dc_last_notified_recv_pos A)"
proof -
  let ?n = "word_of_nat (dc_batch_message_count A) :: u32" and ?o = "dc_meta_pos A mod dsize A"
  obtain dct where dct: "dc_remote_dct A = Some dct" using dc_wf_parts [OF assms(1)] by metis
  note ready = dc_wf_ready(1) [OF assms(1)]
  define e where "e = dc_filled ?n A"
  define w where "w = dc_batch_wqe r (dc_signals e) e"
  define ring where "ring = rdma_place (dcr_addr r) (dc_send_ring e) w (dc_recv_ring B)"
  have run: "emit_open_batch submit ?n (A, q) =
      (Ok (), (dc_prepare_next_batch (dc_posted e), dci_with dct w q))"
    using emit_open_batch_eq [OF assms(1,3) dct, of submit ?n q] assms(6) by (simp add: e_def w_def)
  have p: "dc_send_ring_producer A = dc_meta_pos A + 32 + dc_span (dc_frames A)"
    and pos: "dc_flush_start_pos A = dc_meta_pos A"
    and S: "is_pow2 (dsize A)" "?o + 32 + dc_span (dc_frames A) \<le> dsize A" "dsize A < 2 ^ 32"
    using assms(1,2) by (auto simp: dc_wf_def)
  note c = dc_carried [OF ready assms(3,4) e_def ring_def [unfolded w_def]]
  note fr = dc_frames_carried [OF assms(1) p assms(3,4) e_def ring_def [unfolded w_def]]
  let ?B = "B\<lparr>dc_recv_ring := ring\<rparr>"
  have off: "dc_recv_off ?B (dc_last_recv_pos ?B) = ?o"
    using dc_recv_off_mod [of ?B "dc_last_recv_pos B"] S(1) c(1) assms(5) pos by simp
  have ret: "unat (word_of_nat (dc_last_recv_pos A - dc_last_notified_recv_pos A) :: u64) =
      dc_last_recv_pos A - dc_last_notified_recv_pos A"
    using assms(7) by (simp add: unat_of_nat)
  define B1 where "B1 = ?B\<lparr>dc_recv_ring_producer := dc_recv_ring_producer B +
        unat (word_of_nat (dc_send_ring_producer A - dc_meta_pos A) :: u64),
      dc_remote_consumer_pos := dc_remote_consumer_pos B + (dc_last_recv_pos A - dc_last_notified_recv_pos A),
      dc_last_recv_pos := dc_meta_pos A + 32\<rparr>"
  have "dc_process_batch i (?B, rs, st) = dc_process_messages (dc_batch_message_count A) i (B1, rs, st)"
    using dc_process_batch_eq [of ?B ?o _ _ _ i rs st] c(1,3) off S(2) dc_count_bound [OF assms(1)] ret pos assms(5)
    by (simp add: B1_def)
  moreover have "0 < dc_batch_message_count A \<longrightarrow> ?o + 32 = dc_last_recv_pos B1 mod length (dc_recv_ring B1)"
    using S(2) dc_span_ge [of "dc_batch_message_count A" "dc_send_ring A" "?o + 32"]
      mod_add_small [of "dc_meta_pos A" "dsize A" 32] c(1)
    by (auto simp: B1_def dc_frames_def)
  moreover have "dc_recv_ring B1 = ring" "dc_pending_calls B1 = dc_pending_calls B" by (simp_all add: B1_def)
  ultimately have out: "dc_process_batch i (?B, rs, st) =
      (Ok (), (B1\<lparr>dc_last_recv_pos := dc_last_recv_pos B1 + dc_span (dc_frames A),
                 dc_pending_calls := snd (dc_answer (dc_pending_calls B) (dc_frames A))\<rparr>,
               rs @ fst (dc_answer (dc_pending_calls B) (dc_frames A)), st @ dc_requests i (?o + 32) (dc_frames A)))"
    using dc_process_messages_frames [of B1 "dc_batch_message_count A" "?o + 32" i rs st] S c(1) fr
    by (simp add: Let_def)
  have "dc_send_ring (dc_prepare_next_batch (dc_posted e)) = dc_send_ring e" "snd (last (dci_sq (dci_with dct w q))) = w"
    by (simp_all add: dci_with_def)
  moreover have "w_imm w = dc_remote_endpoint_id A" by (simp add: w_def e_def dc_batch_wqe_def Let_def)
  ultimately show ?thesis
    using out dc_requests_view [of ring i "?o + 32" "dc_batch_message_count A"] fr p
    by (simp add: run Let_def ring_def [symmetric] B1_def) (simp add: e_def)
qed

text \<open>A client with rings of 128 bytes that has placed one message of 24 bytes.\<close>

lemma dcx0_props:
  "dc_wf dcx0" "dc_meta_pos dcx0 = 0" "dsize dcx0 = 128" "dc_send_ring_producer dcx0 = 32"
  "dc_batch_message_count dcx0 = 0" "dc_remote_consumer_pos dcx0 = 0" "\<not> dc_wrap_pending dcx0"
  "dc_remote_recv_ring dcx0 = Some \<lparr>dcr_addr = 65536, dcr_rkey = 6, dcr_size = 128\<rparr>"
  "length (dc_recv_ring dcx0) = 128" "dc_last_recv_pos dcx0 = 0" "dc_last_notified_recv_pos dcx0 = 0"
  "dc_flush_start_pos dcx0 = 0"
proof -
  have "dc_inv dcx0"
    unfolding dcx0_def by (rule dc_connect_inv) (simp_all add: dcx_remote_def dcx_config_def next_pow2_128')
  then show "dc_wf dcx0" by (simp add: dc_inv_def)
qed (simp_all add: dcx0_def dc_connect_def dcx_remote_def dcx_config_def dc_endpoint_new_def Let_def
    next_pow2_128' dc_prepare_next_batch_def BATCH_HEADER_SIZE_def)

lemma dc_call_fits:
  assumes "dc_wf ep" "length data < 2 ^ 32" "dc_meta_pos ep mod dsize ep + (dc_send_ring_producer ep + dc_msize data - dc_meta_pos ep) < dsize ep"
    and "dc_send_ring_producer ep + dc_msize data + 32 \<le> dc_remote_consumer_pos ep + dsize ep"
    and "dc_remote_consumer_pos ep \<le> dc_send_ring_producer ep"
    and e: "e = fst (snd (dc_call slab_key data u (ep, dl)))"
  shows "dc_wf e" "dc_meta_pos e = dc_meta_pos ep" "dsize e = dsize ep"
    "dc_send_ring_producer e = dc_send_ring_producer ep + dc_msize data"
    "dc_batch_message_count e = dc_batch_message_count ep + 1"
    "dc_remote_consumer_pos e = dc_remote_consumer_pos ep" "dc_wrap_pending e = dc_wrap_pending ep"
    "dc_remote_recv_ring e = dc_remote_recv_ring ep" "dc_last_recv_pos e = dc_last_recv_pos ep"
    "dc_last_notified_recv_pos e = dc_last_notified_recv_pos ep" "dc_flush_start_pos e = dc_flush_start_pos ep"
    "dc_recv_ring e = dc_recv_ring ep"
proof -
  have room: "has_cycle_room_for (dc_msize data) ep"
    using assms(1,3) by (simp add: has_cycle_room_for_def Let_def dc_send_off_mod dc_wf_def)
  obtain r where r: "dc_remote_recv_ring ep = Some r" "dcr_size r = dsize ep"
    using dc_wf_parts [OF assms(1)] by metis
  have "\<not> dc_available r ep < dc_msize data"
    using assms(4,5) r(2) by (simp add: dc_available_def CREDIT_RETURN_RESERVE_def BATCH_HEADER_SIZE_def Let_def)
  then have placed: "fst (dc_call slab_key data u (ep, dl)) \<noteq> Err (CallRingFull u)"
    using room r by (simp add: dc_call_def Let_def dc_write_message_def)
  obtain e' where "fst (snd (dc_call slab_key data u (ep, dl))) = e'" "dc_wf e'" "dsize e' = dsize ep"
    "e' = ep\<lparr>dc_pending_calls := dc_pending_calls e', dc_send_ring := dc_send_ring e',
         dc_send_ring_producer := dc_send_ring_producer ep + dc_msize data,
         dc_batch_message_count := dc_batch_message_count ep + 1\<rparr>"
    using assms(1,2)
    by (cases rule: dc_call_cases [where slab_key = slab_key and u = u and dl = dl]) (use placed in auto)
  then have w: "dc_wf e" "dsize e = dsize ep"
    and eq: "e = ep\<lparr>dc_pending_calls := dc_pending_calls e, dc_send_ring := dc_send_ring e,
         dc_send_ring_producer := dc_send_ring_producer ep + dc_msize data,
         dc_batch_message_count := dc_batch_message_count ep + 1\<rparr>"
    by (simp_all add: e)
  show "dc_wf e" "dsize e = dsize ep" by (rule w)+
  show "dc_meta_pos e = dc_meta_pos ep" "dc_send_ring_producer e = dc_send_ring_producer ep + dc_msize data"
    "dc_batch_message_count e = dc_batch_message_count ep + 1"
    "dc_remote_consumer_pos e = dc_remote_consumer_pos ep" "dc_wrap_pending e = dc_wrap_pending ep"
    "dc_remote_recv_ring e = dc_remote_recv_ring ep" "dc_last_recv_pos e = dc_last_recv_pos ep"
    "dc_last_notified_recv_pos e = dc_last_notified_recv_pos ep" "dc_flush_start_pos e = dc_flush_start_pos ep"
    "dc_recv_ring e = dc_recv_ring ep"
    by (subst eq, simp)+
qed

lemma dcx1_props:
  "dc_wf dcx1" "dc_meta_pos dcx1 = 0" "dsize dcx1 = 128" "dc_send_ring_producer dcx1 = 64"
  "dc_batch_message_count dcx1 = 1" "dc_remote_consumer_pos dcx1 = 0" "\<not> dc_wrap_pending dcx1"
  "dc_remote_recv_ring dcx1 = Some \<lparr>dcr_addr = 65536, dcr_rkey = 6, dcr_size = 128\<rparr>"
  "dc_last_recv_pos dcx1 = 0" "dc_last_notified_recv_pos dcx1 = 0" "dc_flush_start_pos dcx1 = 0"
  using dc_call_fits [OF dcx0_props(1) _ _ _ _ dcx1_def]
  by (simp_all add: dcx0_props unat_dc_padded)

theorem dc_batch_delivered_witness:
  "let (result, A', q') = emit_open_batch (\<lambda>_. None) 1 (dcx1, dcq0);
       ring = rdma_place 65536 (dc_send_ring A') (snd (last (dci_sq q'))) (dc_recv_ring dcx0);
       (result', B', responses, stack) = dc_process_batch 2 (dcx0\<lparr>dc_recv_ring := ring\<rparr>, [], [])
   in map (dc_request_view ring) stack = dc_frame_requests 2 (dc_frames dcx1) \<and>
      dc_last_recv_pos B' = dc_flush_start_pos A'"
  using dc_batch_delivered [OF dcx1_props(1) _ dcx1_props(8), of dcx0 "\<lambda>_. None" dcq0 2 "[]" "[]"]
  by (simp add: dcx0_props dcx1_props dcq0_def Let_def split_beta)

text \<open>
  C30. A wrap of the ring.  Whenever the send queue accepts it, the receiver delivers nothing,
  gains the credit and moves exactly to the position where the sender's next batch starts, at
  the beginning of the next cycle -- also when the record occupies the last 32 bytes of the ring.
\<close>
theorem dc_wrap_delivered:
  assumes "dc_wf A" "dc_remote_recv_ring A = Some r"
    and "length (dc_recv_ring B) = length (dc_send_ring A)" "dc_last_recv_pos B = dc_flush_start_pos A"
    and "submit (dci_attempts q) = None" "dc_last_recv_pos A < 2 ^ 64"
  shows "let (result, A', q') = dc_emit_wrap submit (A, q);
             w = snd (last (dci_sq q'));
             ring = rdma_place (dcr_addr r) (dc_send_ring A') w (dc_recv_ring B);
             (result', B', responses, stack) = dc_process_batch i (B\<lparr>dc_recv_ring := ring\<rparr>, rs, st)
         in result = Ok () \<and> result' = Ok () \<and> responses = rs \<and> stack = st \<and>
            dc_last_recv_pos B' = dc_flush_start_pos A' \<and>
            dc_flush_start_pos A' mod length (dc_send_ring A) = 0 \<and>
            dc_remote_consumer_pos B' =
              dc_remote_consumer_pos B + (dc_last_recv_pos A - dc_last_notified_recv_pos A)"
proof -
  let ?o = "dc_meta_pos A mod dsize A" and ?W = "dc_wrapping A"
  obtain dct where dct: "dc_remote_dct A = Some dct" using dc_wf_parts [OF assms(1)] by metis
  define e where "e = dc_filled WRAP_MESSAGE_COUNT ?W"
  define w where "w = dc_batch_wqe r (dc_signals e) e"
  define ring where "ring = rdma_place (dcr_addr r) (dc_send_ring e) w (dc_recv_ring B)"
  have run: "dc_emit_wrap submit (A, q) = (Ok (), (dc_prepare_next_batch (dc_posted e), dci_with dct w q))"
    using dc_emit_wrap_eq [OF assms(1,2) dct, of submit q] assms(5) by (simp add: e_def w_def)
  have W: "dc_remote_recv_ring ?W = Some r" "dsize ?W = dsize A" "dc_meta_pos ?W = dc_meta_pos A"
    "dc_send_ring_producer ?W = dc_meta_pos A + (dsize A - ?o)"
    "dc_last_recv_pos ?W = dc_last_recv_pos A" "dc_last_notified_recv_pos ?W = dc_last_notified_recv_pos A"
    using assms(2) by (simp_all add: dc_wrapping_def)
  have S: "is_pow2 (dsize A)" "?o + 32 \<le> dsize A" "dsize A < 2 ^ 32" "dc_flush_start_pos A = dc_meta_pos A"
    using assms(1) dc_wf_room [OF assms(1)] by (auto simp: dc_wf_def)
  note c = dc_carried [OF dc_wrapping_ready(1) [OF assms(1)] W(1) _ e_def ring_def [unfolded w_def], unfolded W]
  have len: "length ring = dsize A" using c(1) assms(3) by simp
  have d: "unat (word_of_nat (dsize A - ?o) :: u64) = dsize A - ?o"
    using S by (simp add: unat_of_nat del: of_nat_diff)
  have ret: "unat (word_of_nat (dc_last_recv_pos A - dc_last_notified_recv_pos A) :: u64) =
      dc_last_recv_pos A - dc_last_notified_recv_pos A"
    using assms(6) by (simp add: unat_of_nat)
  let ?B = "B\<lparr>dc_recv_ring := ring\<rparr>"
  have off: "dc_recv_off ?B (dc_last_recv_pos ?B) = ?o"
    using dc_recv_off_mod [of ?B "dc_last_recv_pos B"] S len assms(4) by simp
  have "\<not> dsize A - ?o < 32" using S(2) by simp
  then have out: "fst (dc_process_batch i (?B, rs, st)) = Ok ()" "snd (snd (dc_process_batch i (?B, rs, st))) = (rs, st)"
    "dc_last_recv_pos (fst (snd (dc_process_batch i (?B, rs, st)))) = dc_meta_pos A + (dsize A - ?o)"
    "dc_remote_consumer_pos (fst (snd (dc_process_batch i (?B, rs, st)))) =
      dc_remote_consumer_pos B + (dc_last_recv_pos A - dc_last_notified_recv_pos A)"
    using dc_process_batch_eq [of ?B ?o _ _ _ i rs st] c(3) assms(3) off len S(2) d ret assms(4) S(4)
    by simp_all
  have "dc_send_ring (dc_prepare_next_batch (dc_posted e)) = dc_send_ring e" "snd (last (dci_sq (dci_with dct w q))) = w"
    "dc_flush_start_pos (dc_prepare_next_batch (dc_posted e)) = dc_meta_pos A + (dsize A - ?o)"
    by (simp_all add: dci_with_def e_def W(4))
  moreover have "0 < dsize A" using S(2) by linarith
  ultimately show ?thesis
    using out mod_fill [of "dsize A" "dc_meta_pos A"] by (simp add: run Let_def ring_def [symmetric] split_beta)
qed

theorem dc_wrap_delivered_witness:
  "let (result, A', q') = dc_emit_wrap (\<lambda>_. None) (dcx0, dcq0);
       w = snd (last (dci_sq q'));
       ring = rdma_place 65536 (dc_send_ring A') w (dc_recv_ring dcx0);
       (result', B', responses, stack) = dc_process_batch 2 (dcx0\<lparr>dc_recv_ring := ring\<rparr>, [], [])
   in dc_last_recv_pos B' = dc_flush_start_pos A' \<and> dc_flush_start_pos A' mod 128 = 0"
  using dc_wrap_delivered [OF dcx0_props(1,8), of dcx0 "\<lambda>_. None" dcq0 2 "[]" "[]"]
  by (simp add: dcx0_props dcq0_def Let_def split_beta)

section \<open>The credit reserve\<close>

text \<open>The three kinds of flush, when the send queue accepts the request.\<close>

lemma emit_pending_accepted:
  assumes "dc_wf ep" "dc_remote_recv_ring ep = Some r" "dc_remote_dct ep = Some dct"
    and "submit (dci_attempts q) = None"
  defines "closed n e \<equiv> dc_prepare_next_batch (dc_posted (dc_filled n e))"
  shows "0 < dc_batch_message_count ep \<Longrightarrow> \<not> dc_wrap_pending ep \<Longrightarrow>
      fst (snd (emit_pending submit (ep, q))) = closed (word_of_nat (dc_batch_message_count ep)) ep"
    and "dc_batch_message_count ep = 0 \<Longrightarrow> dc_wrap_pending ep \<Longrightarrow>
      fst (snd (emit_pending submit (ep, q))) =
        (closed WRAP_MESSAGE_COUNT (dc_wrapping ep))\<lparr>dc_wrap_pending := False\<rparr>"
    and "dc_batch_message_count ep = 0 \<Longrightarrow> \<not> dc_wrap_pending ep \<Longrightarrow>
      dc_last_notified_recv_pos ep < dc_last_recv_pos ep \<Longrightarrow>
      fst (emit_pending submit (ep, q)) = Ok True \<and> fst (snd (emit_pending submit (ep, q))) = closed 0 ep"
  using emit_open_batch_eq [OF assms(1-3), of submit _ q] dc_emit_wrap_eq [OF assms(1-3), of submit q] assms(4)
  by (simp_all add: emit_pending_alt emit_rest_def outcome_simps closed_def)

text \<open>
  The run: one message is sent; the next does not fit in the cycle, so the ring is wrapped; the
  peer, which has consumed nothing yet, wraps its own ring; the next call finds no credit.
\<close>

definition dcx2 :: "nat dc_endpoint" where
  "dcx2 = fst (snd (emit_pending (\<lambda>_. None) (dcx1, dcq0)))"

definition dcx3 :: "nat dc_endpoint" where
  "dcx3 = fst (snd (dc_call (\<lambda>_. 4) (replicate 24 7) 6 (dcx2, dl_new)))"

definition dcx4 :: "nat dc_endpoint" where
  "dcx4 = fst (snd (emit_pending (\<lambda>_. None) (dcx3, dcq0)))"

definition dcx5 :: "nat dc_endpoint" where
  "dcx5 = dcx4\<lparr>dc_recv_ring := batch_header_image (128, 0, WRAP_MESSAGE_COUNT) @ replicate 96 0\<rparr>"

definition dcx6 :: "nat dc_endpoint" where
  "dcx6 = fst (snd (dc_process_batch 1 (dcx5, [], [])))"

lemma dcx2_props:
  "dc_wf dcx2" "dc_meta_pos dcx2 = 64" "dsize dcx2 = 128" "dc_send_ring_producer dcx2 = 96"
  "dc_batch_message_count dcx2 = 0" "dc_remote_consumer_pos dcx2 = 0" "dc_last_recv_pos dcx2 = 0"
  "length (dc_recv_ring dcx2) = 128"
  "dc_remote_recv_ring dcx2 = Some \<lparr>dcr_addr = 65536, dcr_rkey = 6, dcr_size = 128\<rparr>"
proof -
  obtain dct where dct: "dc_remote_dct dcx1 = Some dct" using dc_wf_parts [OF dcx1_props(1)] by metis
  have eq: "dcx2 = dc_prepare_next_batch (dc_posted (dc_filled 1 dcx1))"
    using emit_pending_accepted(1) [OF dcx1_props(1,8) dct, of "\<lambda>_. None" dcq0] by (simp add: dcx2_def dcx1_props)
  show "dc_wf dcx2" unfolding dcx2_def by (rule emit_pending_keeps [OF dcx1_props(1) refl])
  have "dc_recv_ring dcx1 = dc_recv_ring dcx0"
    by (rule dc_call_fits [OF dcx0_props(1) _ _ _ _ dcx1_def]) (simp_all add: dcx0_props unat_dc_padded)
  then show "length (dc_recv_ring dcx2) = 128"
    using dcx0_props(9) by (simp add: eq dc_posted_def dc_filled_def dc_prepare_next_batch_def Let_def)
  show "dc_meta_pos dcx2 = 64" "dsize dcx2 = 128" "dc_send_ring_producer dcx2 = 96"
    "dc_batch_message_count dcx2 = 0" "dc_remote_consumer_pos dcx2 = 0" "dc_last_recv_pos dcx2 = 0"
    "dc_remote_recv_ring dcx2 = Some \<lparr>dcr_addr = 65536, dcr_rkey = 6, dcr_size = 128\<rparr>"
    by (simp_all add: eq dcx1_props)
qed

lemma dcx3_eq: "dcx3 = dcx2\<lparr>dc_wrap_pending := True\<rparr>"
proof -
  have "\<not> has_cycle_room_for (dc_msize (replicate 24 7)) dcx2"
    using dcx2_props(1)
    by (simp add: has_cycle_room_for_def Let_def dc_send_off_mod dc_wf_def dcx2_props unat_dc_padded)
  then show ?thesis by (simp add: dcx3_def dc_call_def dcx2_props Let_def)
qed

lemma dcx3_wf: "dc_wf dcx3"
  unfolding dcx3_eq by (rule dc_wf_wrap_pending [OF dcx2_props(1)])

lemma dcx4_props:
  "dc_wf dcx4" "dc_meta_pos dcx4 = 128" "dsize dcx4 = 128" "dc_send_ring_producer dcx4 = 160"
  "dc_batch_message_count dcx4 = 0" "dc_remote_consumer_pos dcx4 = 0" "dc_last_recv_pos dcx4 = 0"
  "length (dc_recv_ring dcx4) = 128" "dc_last_notified_recv_pos dcx4 = 0" "\<not> dc_wrap_pending dcx4"
proof -
  obtain r dct where r: "dc_remote_recv_ring dcx3 = Some r" "dc_remote_dct dcx3 = Some dct"
    using dc_wf_parts [OF dcx3_wf] by metis
  have eq: "dcx4 = (dc_prepare_next_batch (dc_posted (dc_filled WRAP_MESSAGE_COUNT (dc_wrapping dcx3))))
      \<lparr>dc_wrap_pending := False\<rparr>"
    unfolding dcx4_def using emit_pending_accepted(2) [OF dcx3_wf r, of "\<lambda>_. None" dcq0]
    by (simp add: dcx3_eq dcx2_props)
  show "dc_wf dcx4" unfolding dcx4_def by (rule emit_pending_keeps [OF dcx3_wf refl])
  show "dc_meta_pos dcx4 = 128" "dsize dcx4 = 128" "dc_send_ring_producer dcx4 = 160"
    "dc_batch_message_count dcx4 = 0" "dc_remote_consumer_pos dcx4 = 0" "dc_last_recv_pos dcx4 = 0"
    "dc_last_notified_recv_pos dcx4 = 0" "\<not> dc_wrap_pending dcx4"
    by (simp_all add: eq dc_wrapping_def dcx3_eq dcx2_props)
  show "length (dc_recv_ring dcx4) = 128"
    by (simp add: eq dc_wrapping_def dcx3_eq dcx2_props dc_posted_def dc_filled_def dc_prepare_next_batch_def Let_def)
qed

lemma dcx6_props:
  "dc_wf dcx6" "dc_send_ring_producer dcx6 = 160" "dsize dcx6 = 128" "dc_batch_message_count dcx6 = 0"
  "dc_remote_consumer_pos dcx6 = 0" "dc_last_recv_pos dcx6 = 128" "dc_last_notified_recv_pos dcx6 = 0"
  "\<not> dc_wrap_pending dcx6"
proof -
  have len: "length (batch_header_image (128, 0, WRAP_MESSAGE_COUNT)) = 32"
    by (simp add: batch_header_image_def)
  then have ring: "length (dc_recv_ring dcx5) = 128" by (simp add: dcx5_def)
  have "decode_batch_header (dc_recv_ring dcx5) 0 = (128, 0, WRAP_MESSAGE_COUNT)"
    using len by (intro bh.reader_at) (simp add: dcx5_def BATCH_HEADER_SIZE_def read_at_append_left read_at_all)
  moreover have "dc_recv_off dcx5 (dc_last_recv_pos dcx5) = 0"
    by (simp add: dc_recv_off_def dcx5_def dcx4_props)
  ultimately have eq: "dcx6 = dcx5\<lparr>dc_recv_ring_producer := dc_recv_ring_producer dcx5 + 128,
      dc_remote_consumer_pos := dc_remote_consumer_pos dcx5, dc_last_recv_pos := dc_last_recv_pos dcx5 + 128\<rparr>"
    using dc_process_batch_eq [of dcx5 0 128 0 WRAP_MESSAGE_COUNT 1 "[]" "[]"] ring by (simp add: dcx6_def)
  show "dc_send_ring_producer dcx6 = 160" "dsize dcx6 = 128" "dc_batch_message_count dcx6 = 0"
    "dc_remote_consumer_pos dcx6 = 0" "dc_last_recv_pos dcx6 = 128" "dc_last_notified_recv_pos dcx6 = 0"
    "\<not> dc_wrap_pending dcx6"
    by (simp_all add: eq dcx5_def dcx4_props)
  have "dc_inv dcx4" using dcx4_props by (simp add: dc_inv_def dc_credit_def)
  then have "dc_inv dcx6" by (rule dc_tx_inv [rotated 3]) (simp_all add: eq dcx5_def dc_tx_def)
  then show "dc_wf dcx6" by (simp add: dc_inv_def)
qed

lemma dcx6_reachable: "dc_step\<^sup>*\<^sup>* dcx0 dcx6"
proof -
  have "dc_step dcx0 dcx1" unfolding dcx1_def by (rule dc_step_call) simp
  moreover have "dc_step dcx1 dcx2" unfolding dcx2_def by (rule dc_step_flush)
  moreover have "dc_step dcx2 dcx3" unfolding dcx3_def by (rule dc_step_call) simp
  moreover have "dc_step dcx3 dcx4" unfolding dcx4_def by (rule dc_step_flush)
  moreover have "dc_step dcx4 dcx5"
    unfolding dcx5_def by (rule dc_step_place) (simp add: dcx4_props batch_header_image_def)
  moreover have "dc_step dcx5 dcx6" unfolding dcx6_def by (rule dc_step_receive)
  ultimately show ?thesis by (meson rtranclp.rtrancl_into_rtrancl rtranclp.rtrancl_refl)
qed

text \<open>
  C31. The reserve of \<^verbatim>\<open>CREDIT_RETURN_RESERVE\<close> bytes is not enough: because a wrap is posted without
  a look at the credit, an endpoint connected with rings of 128 bytes reaches a state in which
  flushing posts a credit-only batch that ends beyond the bytes the peer has consumed plus the
  size of its ring, so that the batch overwrites data the peer has not read.
\<close>
theorem dc_credit_reserve_exceeded:
  "\<exists>ep. dc_step\<^sup>*\<^sup>* (dc_connect dcx_remote (dc_endpoint_new 4096 9 dcx_config 1) :: nat dc_endpoint) ep \<and>
     dc_batch_message_count ep = 0 \<and> \<not> dc_wrap_pending ep \<and>
     fst (emit_pending (\<lambda>_. None) (ep, dcq0)) = Ok True \<and>
     dc_remote_consumer_pos ep + length (dc_send_ring ep)
       < dc_flush_start_pos (fst (snd (emit_pending (\<lambda>_. None) (ep, dcq0))))"
proof -
  obtain r dct where r: "dc_remote_recv_ring dcx6 = Some r" "dc_remote_dct dcx6 = Some dct"
    using dc_wf_parts [OF dcx6_props(1)] by metis
  show ?thesis
    using emit_pending_accepted(3) [OF dcx6_props(1) r, of "\<lambda>_. None" dcq0] dcx6_reachable
    by (intro exI [of _ dcx6]) (simp add: dcx6_props dcx0_def)
qed

end
