(* ===== verification/Copyrpc_DC_Polling.thy ===== *)
theory Copyrpc_DC_Polling
  imports Copyrpc_DC_Delivery
begin

text \<open>
  The context of the dynamically-connected transport: the flush loop ends whatever the send
  queue answers and forgets no endpoint, and the count of posted receive buffers agrees with the
  shared receive queue -- as long as the receive path moves the consumer index of that queue.
\<close>

section \<open>Errors of a flush\<close>

lemma emit_open_batch_Err:
  assumes "dc_wf ep" "fst (emit_open_batch submit n (ep, q)) = Err e"
  shows "\<exists>k err. submit k = Some err \<and> e = submit_failure err"
proof -
  obtain r dct where r: "dc_remote_recv_ring ep = Some r" "dc_remote_dct ep = Some dct"
    using dc_wf_parts [OF assms(1)] by metis
  show ?thesis
    using assms(2) by (auto simp: emit_open_batch_eq [OF assms(1) r] split: option.splits)
qed

lemma dc_emit_wrap_Err:
  assumes "dc_wf ep" "fst (dc_emit_wrap submit (ep, q)) = Err e"
  shows "\<exists>k err. submit k = Some err \<and> e = submit_failure err"
proof -
  obtain r dct where r: "dc_remote_recv_ring ep = Some r" "dc_remote_dct ep = Some dct"
    using dc_wf_parts [OF assms(1)] by metis
  show ?thesis
    using assms(2) by (auto simp: dc_emit_wrap_eq [OF assms(1) r] split: option.splits)
qed

lemma emit_rest_Err:
  assumes "dc_wf ep" "fst (emit_rest submit b (ep, q)) = Err e"
  shows "\<exists>k err. submit k = Some err \<and> e = submit_failure err"
proof (cases "dc_wrap_pending ep")
  case True
  obtain res ep2 q2 where w: "dc_emit_wrap submit (ep, q) = (res, ep2, q2)" using prod_cases3 by blast
  show ?thesis
    using assms(2) True dc_emit_wrap_Err [OF assms(1), of submit q e]
    by (cases res) (auto simp: emit_rest_def w split: if_splits)
next
  case False
  then show ?thesis
    using assms(2) emit_open_batch_Err [OF assms(1), of submit 0 q e]
    by (cases "emit_open_batch submit 0 (ep, q)"; cases "fst (emit_open_batch submit 0 (ep, q))")
      (auto simp: emit_rest_def outcome_simps split: if_splits)
qed

lemma emit_pending_Err:
  assumes "dc_wf ep" "fst (emit_pending submit (ep, q)) = Err e"
  shows "\<exists>k err. submit k = Some err \<and> e = submit_failure err"
proof (cases "0 < dc_batch_message_count ep")
  case True
  let ?n = "word_of_nat (dc_batch_message_count ep)"
  obtain res ep1 q1 where o: "emit_open_batch submit ?n (ep, q) = (res, ep1, q1)" using prod_cases3 by blast
  note k = emit_open_batch_keeps [OF assms(1) refl, of submit ?n q, unfolded o fst_conv snd_conv]
  show ?thesis
    using assms(2) True k(1) emit_open_batch_Err [OF assms(1), of submit ?n q e] emit_rest_Err [OF k(2), of submit True q1 e] o
    by (cases res) (auto simp: emit_pending_alt outcome_simps)
next
  case False
  then show ?thesis using assms emit_rest_Err [OF assms(1)] by (simp add: emit_pending_alt outcome_simps)
qed

section \<open>The flush loop\<close>

abbreviation dc_at :: "'u dc_context \<Rightarrow> u32 \<Rightarrow> 'u dc_endpoint option" where
  "dc_at ctx \<equiv> fm_get (dc_endpoints ctx)"

lemma dc_store_simps [simp]:
  "dc_at (dc_store k s ctx) = (dc_at ctx)(k := map_option (\<lambda>_. fst s) (dc_at ctx k))"
  "dc_dirty (dc_store k s ctx) = dc_dirty ctx" "dc_dci (dc_store k s ctx) = snd s"
  by (cases s; simp add: dc_store_def dc_put_endpoint_def fm_get_get_mut)+

definition dc_all_wf :: "'u dc_context \<Rightarrow> bool" where
  "dc_all_wf ctx \<longleftrightarrow> (\<forall>k ep. dc_at ctx k = Some ep \<longrightarrow> dc_wf ep)"

text \<open>Every endpoint with work to flush is queued.\<close>

definition dc_covered :: "'u dc_context \<Rightarrow> u32 list \<Rightarrow> bool" where
  "dc_covered ctx xs \<longleftrightarrow> (\<forall>k ep. dc_at ctx k = Some ep \<longrightarrow> has_pending_flush ep \<longrightarrow> k \<in> set xs)"

text \<open>A send queue that accepts everything, and one that at worst is full.\<close>

definition sq_accepts :: "submit_oracle \<Rightarrow> bool" where
  "sq_accepts submit \<longleftrightarrow> (\<forall>n. submit n = None)"

definition sq_only_full :: "submit_oracle \<Rightarrow> bool" where
  "sq_only_full submit \<longleftrightarrow> (\<forall>n. submit n = None \<or> submit n = Some SqFull)"

text \<open>An endpoint with a batch may be flushed twice, any other only once.\<close>

definition dc_weight :: "'u dc_context \<Rightarrow> u32 \<Rightarrow> nat" where
  "dc_weight ctx k =
     (case dc_at ctx k of None \<Rightarrow> 1 | Some ep \<Rightarrow> if 0 < dc_batch_message_count ep then 2 else 1)"

definition dc_work :: "'u dc_context \<Rightarrow> u32 list \<Rightarrow> nat" where
  "dc_work ctx xs = sum_list (map (dc_weight ctx) xs)"

lemma dc_work_Cons [simp]: "dc_work ctx (x # xs) = dc_weight ctx x + dc_work ctx xs"
  by (simp add: dc_work_def)

lemma dc_work_snoc [simp]: "dc_work ctx (xs @ [x]) = dc_work ctx xs + dc_weight ctx x"
  by (simp add: dc_work_def)

lemma dc_work_cong: "(\<And>x. x \<in> set xs \<Longrightarrow> dc_at c x = dc_at c' x) \<Longrightarrow> dc_work c xs = dc_work c' xs"
  unfolding dc_work_def dc_weight_def by (rule arg_cong [where f = sum_list], rule map_cong) simp_all

lemma dc_flush_one_Nil: "dl_rep (dc_dirty (fl_ctx f)) [] \<Longrightarrow> dc_flush_one submit f = (Ok False, f)"
  by (simp add: dc_flush_one_def dl_rep_pop_Nil)

lemma dc_flush_one_None:
  assumes "dl_rep (dc_dirty (fl_ctx f)) (x # xs)" "dc_at (fl_ctx f) x = None"
  obtains dl where "dc_flush_one submit f = (Ok True, f\<lparr>fl_ctx := (fl_ctx f)\<lparr>dc_dirty := dl\<rparr>\<rparr>)" "dl_rep dl xs"
  using assms dl_rep_pop_Cons [OF assms(1)] by (cases "pop_front (dc_dirty (fl_ctx f))") (auto simp: dc_flush_one_def)

lemma has_pending_take [simp]:
  "has_pending_flush (ep\<lparr>dc_newly_signaled_count := n\<rparr>) = has_pending_flush ep"
  "dc_wf (ep\<lparr>dc_newly_signaled_count := n\<rparr>) = dc_wf ep"
  by (simp_all add: has_pending_flush_def dc_wf_def dc_frames_def)

text \<open>A round that finds an endpoint: it goes on with less work, or it stops at a full send queue.\<close>

lemma dc_flush_one_Some:
  assumes "dl_rep (dc_dirty (fl_ctx f)) (x # xs)" "dc_at (fl_ctx f) x = Some ep" "dc_all_wf (fl_ctx f)"
  obtains go f' ys where "dc_flush_one submit f = (Ok go, f')" "dl_rep (dc_dirty (fl_ctx f')) ys"
    "dc_all_wf (fl_ctx f')" "go \<Longrightarrow> dc_work (fl_ctx f') ys < dc_work (fl_ctx f) (x # xs)"
    "sq_only_full submit \<Longrightarrow> dc_covered (fl_ctx f) (x # xs) \<Longrightarrow> dc_covered (fl_ctx f') ys"
    "sq_accepts submit \<Longrightarrow> go"
proof -
  let ?ctx = "fl_ctx f"
  obtain dl where pop: "pop_front (dc_dirty ?ctx) = (Some x, dl)" and dl: "dl_rep dl xs"
    using dl_rep_pop_Cons [OF assms(1)] by (cases "pop_front (dc_dirty ?ctx)") auto
  have x: "x \<noteq> DIRTY_NONE" "x \<notin> set xs" using assms(1) by (auto simp: dl_rep_def)
  have push: "dl_rep (push_back x dl) (xs @ [x])" using dl_rep_push [OF dl x(1)] x(2) by simp
  have wf: "dc_wf ep" using assms(2,3) by (auto simp: dc_all_wf_def)
  obtain res e q where em: "emit_pending submit (ep, dc_dci ?ctx) = (res, e, q)" using prod_cases3 by blast
  note k = emit_pending_keeps [OF wf refl, of submit "dc_dci ?ctx", unfolded em fst_conv snd_conv]
  let ?e = "e\<lparr>dc_newly_signaled_count := 0\<rparr>"
  let ?ctx1 = "dc_store x (?e, q) (?ctx\<lparr>dc_dirty := dl\<rparr>)"
  let ?req = "?ctx1\<lparr>dc_dirty := push_back x dl\<rparr>"
  have at: "dc_at ?ctx1 = (dc_at ?ctx)(x \<mapsto> ?e)" "dc_at ?req = (dc_at ?ctx)(x \<mapsto> ?e)"
    using assms(2) by simp_all
  have wf1: "dc_all_wf ?ctx1" "dc_all_wf ?req"
    using assms(3) k(2) unfolding dc_all_wf_def at by auto
  have rest: "dc_work ?ctx1 xs = dc_work ?ctx xs" "dc_work ?req xs = dc_work ?ctx xs"
    using x(2) by (auto intro!: dc_work_cong simp: at)
  have wt: "1 \<le> dc_weight ?ctx x" by (simp add: dc_weight_def split: option.split)
  have cov: "dc_covered ?req (xs @ [x])" "\<not> has_pending_flush e \<Longrightarrow> dc_covered ?ctx1 xs"
    if "dc_covered ?ctx (x # xs)"
    using that unfolding dc_covered_def at by auto
  show thesis
  proof (cases res)
    case (Ok b)
    show thesis
    proof (cases "has_pending_flush e")
      case True
      then have cnt: "0 < dc_batch_message_count ep" "dc_batch_message_count e = 0"
        using k(5) [of b] Ok by (auto simp: has_pending_flush_def)
      obtain f' where f': "dc_flush_one submit f = (Ok True, f')" "fl_ctx f' = ?req"
        using pop assms(2) em Ok True
        by (simp add: dc_flush_one_def Let_def take_newly_signaled_count_def)
      have "dc_weight ?req x = 1" "dc_weight ?ctx x = 2" using cnt assms(2) by (simp_all add: dc_weight_def)
      then show thesis
        using f' push wf1 rest cov by (intro that [of True f' "xs @ [x]"]) simp_all
    next
      case False
      obtain f' where f': "dc_flush_one submit f = (Ok True, f')" "fl_ctx f' = ?ctx1"
        using pop assms(2) em Ok False
        by (simp add: dc_flush_one_def Let_def take_newly_signaled_count_def)
      then show thesis using dl wf1 rest cov False wt by (intro that [of True f' xs]) simp_all
    qed
  next
    case (Err er)
    have no: "\<not> sq_accepts submit"
    proof
      assume "sq_accepts submit"
      then have "\<exists>b. res = Ok b" using k(6) by (simp add: sq_accepts_def)
      with Err show False by simp
    qed
    show thesis
    proof (cases "er = RingFull")
      case True
      obtain f' where f': "dc_flush_one submit f = (Ok False, f')" "fl_ctx f' = ?req"
        using pop assms(2) em Err True
        by (simp add: dc_flush_one_def Let_def take_newly_signaled_count_def)
      then show thesis using push wf1 cov no by (intro that [of False f' "xs @ [x]"]) auto
    next
      case False
      obtain f' where f': "dc_flush_one submit f = (Ok True, f')" "fl_ctx f' = ?ctx1"
        using pop assms(2) em Err False
        by (cases er) (simp_all add: dc_flush_one_def Let_def take_newly_signaled_count_def)
      obtain n err where n: "submit n = Some err" "er = submit_failure err"
        using emit_pending_Err [OF wf, of submit "dc_dci ?ctx" er] em Err by auto
      then have "err \<noteq> SqFull" using False by (auto simp: submit_failure_def)
      then have "\<not> sq_only_full submit" using n(1) by (auto simp: sq_only_full_def dest: spec [of _ n])
      then show thesis using f' dl wf1 rest wt no by (intro that [of True f' xs]) auto
    qed
  qed (use k(1) in simp)
qed

lemma dc_flush_loop_spec:
  assumes "dl_rep (dc_dirty (fl_ctx f)) xs" "dc_all_wf (fl_ctx f)"
  shows "\<exists>f' ys. dc_flush_loop submit f = Some (Ok (), f') \<and> dl_rep (dc_dirty (fl_ctx f')) ys \<and>
    dc_all_wf (fl_ctx f') \<and>
    (sq_only_full submit \<and> dc_covered (fl_ctx f) xs \<longrightarrow> dc_covered (fl_ctx f') ys) \<and>
    (sq_accepts submit \<longrightarrow> ys = [])"
  using assms
proof (induction "dc_work (fl_ctx f) xs" arbitrary: f xs rule: less_induct)
  case less
  show ?case
  proof (cases xs)
    case Nil
    then show ?thesis
      using less.prems dc_flush_one_Nil [of f submit] by (subst dc_flush_loop.simps) auto
  next
    case (Cons x rest)
    show ?thesis
    proof (cases "dc_at (fl_ctx f) x")
      case None
      then obtain dl where one: "dc_flush_one submit f = (Ok True, f\<lparr>fl_ctx := (fl_ctx f)\<lparr>dc_dirty := dl\<rparr>\<rparr>)"
        and dl: "dl_rep dl rest"
        using dc_flush_one_None less.prems(1) Cons by metis
      let ?f = "f\<lparr>fl_ctx := (fl_ctx f)\<lparr>dc_dirty := dl\<rparr>\<rparr>"
      have "dc_work (fl_ctx ?f) rest = dc_work (fl_ctx f) rest" by (rule dc_work_cong) simp
      then have "dc_work (fl_ctx ?f) rest < dc_work (fl_ctx f) xs"
        using Cons None by (simp add: dc_weight_def)
      moreover have "dc_all_wf (fl_ctx ?f)" using less.prems(2) by (simp add: dc_all_wf_def)
      moreover have "dc_covered (fl_ctx f) xs \<Longrightarrow> dc_covered (fl_ctx ?f) rest"
        using Cons None by (fastforce simp: dc_covered_def)
      ultimately show ?thesis
        using less.hyps [of ?f rest] dl one by (subst dc_flush_loop.simps) auto
    next
      case (Some ep)
      from less.prems Cons obtain go f' ys where one: "dc_flush_one submit f = (Ok go, f')"
        and f': "dl_rep (dc_dirty (fl_ctx f')) ys" "dc_all_wf (fl_ctx f')"
        and dec: "go \<Longrightarrow> dc_work (fl_ctx f') ys < dc_work (fl_ctx f) (x # rest)"
        and cov: "sq_only_full submit \<Longrightarrow> dc_covered (fl_ctx f) (x # rest) \<Longrightarrow>
            dc_covered (fl_ctx f') ys"
        and go: "sq_accepts submit \<Longrightarrow> go"
        using dc_flush_one_Some [OF _ Some] by blast
      show ?thesis
      proof (cases go)
        case True
        then show ?thesis
          using less.hyps [of f' ys] dec Cons f' one cov by (subst dc_flush_loop.simps) auto
      next
        case False
        then show ?thesis
          using one f' cov go Cons by (subst dc_flush_loop.simps) auto
      qed
    qed
  qed
qed

section \<open>The shared receive queue\<close>

lemma dc_post_recvs_effect:
  assumes "srq_wf s"
  shows "srq_wf (dc_post_recvs n s) \<and> length (srq_table (dc_post_recvs n s)) = length (srq_table s) \<and>
    srq_count (dc_post_recvs n s) = min (srq_count s + n) (length (srq_table s))"
  using assms
proof (induction n arbitrary: s)
  case 0
  then show ?case by (simp add: srq_wf_def)
next
  case (Suc n)
  let ?t = "snd (srq_post_recv () 0 0 0 s)"
  have len: "length (srq_table ?t) = length (srq_table s)"
    by (simp add: srq_post_recv_def Let_def)
  show ?case
  proof (cases "srq_count s < length (srq_table s)")
    case True
    note e = srq_post_effect [OF Suc.prems True, of "()" 0 0 0]
    show ?thesis using Suc.IH [OF e(3)] e(2) len by simp
  next
    case False
    then have "?t = s" using srq_post_full [OF Suc.prems] by simp
    moreover have "srq_count s \<le> length (srq_table s)" using Suc.prems by (simp add: srq_wf_def)
    ultimately show ?thesis using Suc.IH [OF Suc.prems] False by simp
  qed
qed

lemma dc_drain_srq:
  "dc_srq (snd (snd (dc_drain_recv_cq cs s))) = dc_srq (snd s) \<and>
   dc_srq_posted (snd (snd (dc_drain_recv_cq cs s))) = dc_srq_posted (snd s) \<and>
   dc_srq_max_wr (snd (snd (dc_drain_recv_cq cs s))) = dc_srq_max_wr (snd s)"
proof (induction cs arbitrary: s)
  case (Cons c cs)
  have "dc_srq (snd (snd (dc_process_cqe_static c s))) = dc_srq (snd s) \<and>
      dc_srq_posted (snd (snd (dc_process_cqe_static c s))) = dc_srq_posted (snd s) \<and>
      dc_srq_max_wr (snd (snd (dc_process_cqe_static c s))) = dc_srq_max_wr (snd s)"
    by (simp add: dc_process_cqe_static_def split_beta Let_def dc_put_endpoint_def split: option.split)
  then show ?case
    using Cons.IH [of "snd (dc_process_cqe_static c s)"]
    by (cases "fst (dc_process_cqe_static c s)") (simp_all add: and_then_def)
qed simp

text \<open>The counter of the context is the number of requests in the queue.\<close>

definition dc_srq_exact :: "'u dc_context \<Rightarrow> bool" where
  "dc_srq_exact ctx \<longleftrightarrow>
     srq_wf (dc_srq ctx) \<and> dc_srq_posted ctx = srq_count (dc_srq ctx) \<and>
     dc_srq_posted ctx \<le> dc_srq_max_wr ctx \<and> dc_srq_max_wr ctx \<le> length (srq_table (dc_srq ctx)) \<and>
     dc_srq_max_wr ctx * 2 div 3 \<le> dc_srq_posted ctx"

lemma dc_srq_refill_exact:
  assumes "dc_srq_exact ctx" "n \<le> dc_srq_posted ctx"
  shows "dc_srq_exact (dc_srq_refill True n ctx)"
proof (cases "n = 0")
  case False
  let ?s = "srq_advance_ci (word_of_nat n) (dc_srq ctx)"
  have "length (srq_table (dc_srq ctx)) < 2 ^ 32" "srq_wf (dc_srq ctx)"
    and le: "n \<le> srq_count (dc_srq ctx)"
    using assms by (auto simp: dc_srq_exact_def srq_wf_def)
  moreover from this have "unat (word_of_nat n :: u32) = n" by (simp add: srq_wf_def unat_of_nat)
  ultimately have s: "srq_wf ?s" "srq_count ?s = srq_count (dc_srq ctx) - n"
    using srq_advance_effect [of "dc_srq ctx" "word_of_nat n"] by simp_all
  have tab: "srq_table ?s = srq_table (dc_srq ctx)" by (simp add: srq_advance_ci_def)
  show ?thesis
    using assms s le False dc_post_recvs_effect [OF s(1)] tab
    by (auto simp: dc_srq_refill_def Let_def dc_srq_exact_def min_def)
qed (use assms in \<open>simp add: dc_srq_refill_def\<close>)

section \<open>Properties\<close>

text \<open>
  C28. The flush loop of the dynamically-connected transport.  With a well-formed dirty list and
  well-formed endpoints it ends, whatever the send queue answers, in a state of the same kind.
  If the queue never fails for another reason than being full, no endpoint with unflushed work
  is missing from the dirty list afterwards; if it accepts everything, no work is left.
\<close>
theorem dc_flush_endpoints_live:
  assumes "dl_rep (dc_dirty ctx) xs" "dc_all_wf ctx" "dc_covered ctx xs"
  shows "\<exists>ctx' ys. dc_flush_endpoints submit polled ctx = Some (Ok (), ctx') \<and>
    dl_rep (dc_dirty ctx') ys \<and> dc_all_wf ctx' \<and>
    (sq_only_full submit \<longrightarrow> dc_covered ctx' ys) \<and>
    (sq_accepts submit \<longrightarrow>
       ys = [] \<and> (\<forall>k ep. fm_get (dc_endpoints ctx') k = Some ep \<longrightarrow> \<not> has_pending_flush ep))"
proof -
  let ?c = "if 0 < dc_pending_send_cqes ctx
      then ctx\<lparr>dc_pending_send_cqes := saturating_sub (dc_pending_send_cqes ctx) polled\<rparr> else ctx"
  let ?f = "\<lparr>fl_ctx = ?c, fl_emitted = False, fl_newly_signaled = 0\<rparr>"
  have "dl_rep (dc_dirty (fl_ctx ?f)) xs" "dc_all_wf (fl_ctx ?f)" "dc_covered (fl_ctx ?f) xs"
    using assms by (simp_all add: dc_all_wf_def dc_covered_def)
  from dc_flush_loop_spec [OF this(1,2), of submit] this(3)
  obtain f ys where f: "dc_flush_loop submit ?f = Some (Ok (), f)" "dl_rep (dc_dirty (fl_ctx f)) ys"
    "dc_all_wf (fl_ctx f)"
    "sq_only_full submit \<longrightarrow> dc_covered (fl_ctx f) ys" "sq_accepts submit \<longrightarrow> ys = []"
    by auto
  define c where "c = (fl_ctx f)\<lparr>dc_pending_send_cqes :=
      saturating_add (dc_pending_send_cqes (fl_ctx f)) (fl_newly_signaled f)\<rparr>"
  define c' where "c' = (if fl_emitted f then c\<lparr>dc_dci := (dc_dci c)\<lparr>dci_rung := length (dci_sq (dc_dci c))\<rparr>\<rparr> else c)"
  have run: "dc_flush_endpoints submit polled ctx = Some (Ok (), c')"
    using f(1) by (simp add: dc_flush_endpoints_def Let_def c_def c'_def)
  have "dc_dirty c' = dc_dirty (fl_ctx f)" "dc_at c' = dc_at (fl_ctx f)" by (simp_all add: c_def c'_def)
  moreover have "sq_accepts submit \<Longrightarrow> sq_only_full submit" by (simp add: sq_accepts_def sq_only_full_def)
  ultimately show ?thesis
    using run f by (intro exI [of _ c'] exI [of _ ys]) (auto simp: dc_all_wf_def dc_covered_def)
qed

definition dc_sample_ctx :: "nat dc_context" where
  "dc_sample_ctx = (dc_context_build 8 32 8)
     \<lparr>dc_endpoints := snd (fm_insert fm_new 1 dcx1), dc_dirty := push_back 1 dl_new\<rparr>"

theorem dc_flush_endpoints_live_witness:
  "\<exists>ctx'. dc_flush_endpoints (\<lambda>_. None) 0 dc_sample_ctx = Some (Ok (), ctx') \<and>
     (\<forall>ep. fm_get (dc_endpoints ctx') 1 = Some ep \<longrightarrow> \<not> has_pending_flush ep)"
proof -
  have at: "dc_at dc_sample_ctx = [1 \<mapsto> dcx1]" by (simp add: dc_sample_ctx_def fm_get_put)
  have "dl_rep (dc_dirty dc_sample_ctx) [1]"
    using dl_rep_push [OF dl_rep_new, of 1] by (simp add: dc_sample_ctx_def DIRTY_NONE_def)
  moreover have "dc_all_wf dc_sample_ctx" "dc_covered dc_sample_ctx [1]"
    using dcx1_props(1) by (simp_all add: dc_all_wf_def dc_covered_def at split: if_splits)
  ultimately show ?thesis
    using dc_flush_endpoints_live [of dc_sample_ctx "[1]" "\<lambda>_. None" 0] by (auto simp: sq_accepts_def)
qed

text \<open>
  C34. Receive buffers of a context that polls through \<^verbatim>\<open>poll_recv_counted\<close>: the counter of posted
  buffers stays equal to the number of requests in the shared receive queue, and at least two
  thirds of the configured buffers are posted after every poll.
\<close>
theorem dc_srq_accounting:
  assumes "dc_srq_exact ctx" "length cqes \<le> dc_srq_posted ctx"
  shows "dc_srq_exact (snd (snd (dc_poll_recv_counted cqes ctx)))"
proof -
  obtain res rs c where d: "dc_drain_recv_cq cqes ([], ctx) = (res, rs, c)" using prod_cases3 by blast
  have "dc_srq_exact c" "length cqes \<le> dc_srq_posted c"
    using dc_drain_srq [of cqes "([], ctx)"] assms by (simp_all add: d dc_srq_exact_def)
  then show ?thesis
    using dc_srq_refill_exact by (cases res) (simp_all add: dc_poll_recv_counted_def d outcome_simps)
qed

theorem dc_srq_accounting_witness:
  "dc_srq_exact (snd (snd (dc_poll_recv_counted [\<lparr>dcq_error = True, dcq_imm = 0\<rparr>]
     (dc_context_build 4 32 4 :: nat dc_context))))"
proof -
  let ?s = "srq_new 4 32 :: unit srq_state"
  have wf: "srq_wf ?s" by (rule srq_new_wf) simp
  have "srq_count ?s = 0" "length (srq_table ?s) = 4" by code_simp+
  then have "dc_srq_exact (dc_context_build 4 32 4 :: nat dc_context)"
    using dc_post_recvs_effect [OF wf, of 4] by (simp add: dc_srq_exact_def dc_context_build_def)
  then show ?thesis
    by (rule dc_srq_accounting) (simp add: dc_context_build_def)
qed



end
