(* ===== verification/Mempc_Common.thy ===== *)
theory Mempc_Common
  imports Ring_Index
begin

text \<open>
  What the channels of \<^verbatim>\<open>mempc\<close> share: the error of a call, the token of a deferred reply, a
  response with its token (\<^verbatim>\<open>lib.rs\<close>, \<^verbatim>\<open>common.rs\<close>).
\<close>

datatype 'v call_error = Full 'v | InflightExceeded 'v | Disconnected 'v

record reply_token =
  rt_caller_id :: nat
  rt_slot_token :: u64

record 'v response =
  rs_token :: u64
  rs_data :: 'v

end
