(* ===== verification/Mempc_Lamport.thy ===== *)
theory Mempc_Lamport
  imports Mempc_Common
begin

text \<open>
  The Lamport ring with cached and published indices and the channel built from it
  (\<^verbatim>\<open>mempc/src/lamport.rs\<close>).

  One record holds both ends of a ring and the memory they share.  Every operation of a ring
  touches a shared word at most once and a slot only while the other end leaves it alone, so
  the sequences of whole operations that are considered here are the interleavings of the two
  threads.  Uninitialised memory is \<open>None\<close>; the results say that it is never handed out.
\<close>

section \<open>The Lamport ring\<close>

record 'v lamport =
  lp_buffer :: "'v option list"
  lp_shared_head :: u64
  lp_shared_tail :: u64
  lp_tx_alive :: bool
  lp_rx_alive :: bool
  lp_local_head :: u64
  lp_cached_tail :: u64
  lp_local_tail :: u64
  lp_cached_head :: u64
  lp_mask :: u64

definition lamport_channel :: "nat \<Rightarrow> 'v lamport" where
  "lamport_channel capacity =
     \<lparr>lp_buffer = replicate capacity None, lp_shared_head = 0, lp_shared_tail = 0,
      lp_tx_alive = True, lp_rx_alive = True, lp_local_head = 0, lp_cached_tail = 0,
      lp_local_tail = 0, lp_cached_head = 0, lp_mask = word_of_nat (capacity - 1)\<rparr>"

definition lp_slot :: "'v lamport \<Rightarrow> u64 \<Rightarrow> nat" where
  "lp_slot s pos = unat (pos AND lp_mask s)"

definition lp_full :: "'v lamport \<Rightarrow> bool" where
  "lp_full s \<longleftrightarrow> lp_mask s < (lp_local_head s + 1) - lp_cached_tail s"

definition lp_send :: "'v \<Rightarrow> 'v lamport \<Rightarrow> ('v + unit) \<times> 'v lamport" where
  "lp_send v s =
     (let s1 = (if lp_full s then s\<lparr>lp_cached_tail := lp_shared_tail s\<rparr> else s)
      in if lp_full s1 then (Inl v, s1)
         else (Inr (),
               s1\<lparr>lp_buffer := (lp_buffer s1)[lp_slot s1 (lp_local_head s1) := Some v],
                  lp_local_head := lp_local_head s1 + 1\<rparr>))"

definition lp_tx_sync :: "'v lamport \<Rightarrow> 'v lamport" where
  "lp_tx_sync s = s\<lparr>lp_shared_head := lp_local_head s\<rparr>"

definition lp_tx_connected :: "'v lamport \<Rightarrow> bool" where
  "lp_tx_connected s = lp_rx_alive s"

definition lp_tx_drop :: "'v lamport \<Rightarrow> 'v lamport" where
  "lp_tx_drop s = s\<lparr>lp_tx_alive := False\<rparr>"

definition lp_refresh_head :: "'v lamport \<Rightarrow> 'v lamport" where
  "lp_refresh_head s = s\<lparr>lp_cached_head := lp_shared_head s\<rparr>"

definition lp_recv :: "'v lamport \<Rightarrow> 'v option \<times> 'v lamport" where
  "lp_recv s =
     (let s1 = (if lp_local_tail s = lp_cached_head s then lp_refresh_head s else s)
      in if lp_local_tail s1 = lp_cached_head s1 then (None, s1)
         else (lp_buffer s1 ! lp_slot s1 (lp_local_tail s1),
               s1\<lparr>lp_local_tail := lp_local_tail s1 + 1\<rparr>))"

definition lp_rx_sync :: "'v lamport \<Rightarrow> 'v lamport" where
  "lp_rx_sync s = s\<lparr>lp_shared_tail := lp_local_tail s\<rparr>"

definition lp_rx_connected :: "'v lamport \<Rightarrow> bool" where
  "lp_rx_connected s = lp_tx_alive s"

definition lp_available :: "'v lamport \<Rightarrow> u64" where
  "lp_available s = lp_cached_head s - lp_local_tail s"

definition lp_rx_drop :: "'v lamport \<Rightarrow> 'v lamport" where
  "lp_rx_drop s = s\<lparr>lp_rx_alive := False\<rparr>"

text \<open>
  The six indices are images of positions in this order, at most \<open>mask\<close> apart; every slot from
  the receiver's position up to the sender's holds a value.
\<close>

record lp_positions =
  pos_cached_tail :: nat
  pos_shared_tail :: nat
  pos_local_tail :: nat
  pos_cached_head :: nat
  pos_shared_head :: nat
  pos_local_head :: nat

definition lp_at :: "lp_positions \<Rightarrow> 'v lamport \<Rightarrow> bool" where
  "lp_at p s \<longleftrightarrow>
     lp_cached_tail s = word_of_nat (pos_cached_tail p) \<and>
     lp_shared_tail s = word_of_nat (pos_shared_tail p) \<and>
     lp_local_tail s = word_of_nat (pos_local_tail p) \<and>
     lp_cached_head s = word_of_nat (pos_cached_head p) \<and>
     lp_shared_head s = word_of_nat (pos_shared_head p) \<and>
     lp_local_head s = word_of_nat (pos_local_head p) \<and>
     pos_cached_tail p \<le> pos_shared_tail p \<and> pos_shared_tail p \<le> pos_local_tail p \<and>
     pos_local_tail p \<le> pos_cached_head p \<and> pos_cached_head p \<le> pos_shared_head p \<and>
     pos_shared_head p \<le> pos_local_head p \<and>
     pos_local_head p < pos_cached_tail p + length (lp_buffer s) \<and>
     None \<notin> set (cells (lp_buffer s) (pos_local_tail p) (pos_local_head p - pos_local_tail p))"

definition lp_cap :: "'v lamport \<Rightarrow> bool" where
  "lp_cap s \<longleftrightarrow>
     ring_cap TYPE(64) (length (lp_buffer s)) \<and> length (lp_buffer s) < 2 ^ 64 \<and>
     lp_mask s = word_of_nat (length (lp_buffer s) - 1)"

definition lp_wf :: "'v lamport \<Rightarrow> bool" where
  "lp_wf s \<longleftrightarrow> lp_cap s \<and> (\<exists>p. lp_at p s)"

text \<open>Sent and not yet received.\<close>

definition lp_contents :: "'v lamport \<Rightarrow> 'v list" where
  "lp_contents s = map the (window (lp_buffer s) (lp_local_tail s) (unat (lp_local_head s - lp_local_tail s)))"

lemma lp_cap_mask:
  assumes "lp_cap s"
  shows "unat (lp_mask s) = length (lp_buffer s) - 1" "0 < length (lp_buffer s)"
  using assms ring_cap_pos by (auto simp: lp_cap_def unat_of_nat)

lemma lp_slot_eq:
  assumes "lp_cap s"
  shows "lp_slot s (word_of_nat p) = p mod length (lp_buffer s)"
  using assms mask_slot [of "length (lp_buffer s)" p, where 'i = 64] by (simp add: lp_cap_def lp_slot_def)

lemma lp_contents_at:
  assumes "lp_cap s" "lp_at p s"
  shows "lp_contents s = map the (cells (lp_buffer s) (pos_local_tail p) (pos_local_head p - pos_local_tail p))"
proof -
  have "unat (lp_local_head s - lp_local_tail s) = pos_local_head p - pos_local_tail p"
    using assms unat_of_nat_sub [of "pos_local_tail p" "pos_local_head p", where 'i = 64]
    by (auto simp: lp_at_def lp_cap_def)
  then show ?thesis
    using assms window_of_nat [of "lp_buffer s", where 'i = 64] by (simp add: lp_contents_def lp_at_def lp_cap_def)
qed

lemma lp_full_at:
  assumes "lp_cap s" "lp_at p s"
  shows "lp_full s \<longleftrightarrow> length (lp_buffer s) \<le> pos_local_head p + 1 - pos_cached_tail p"
proof -
  have "unat (word_of_nat (pos_local_head p + 1) - word_of_nat (pos_cached_tail p) :: u64) =
      pos_local_head p + 1 - pos_cached_tail p"
    using assms by (intro unat_of_nat_sub) (auto simp: lp_at_def lp_cap_def)
  then have "unat ((lp_local_head s + 1) - lp_cached_tail s) = pos_local_head p + 1 - pos_cached_tail p"
    using assms by (simp add: lp_at_def add.commute)
  then show ?thesis
    using lp_cap_mask [OF assms(1)] unfolding lp_full_def word_less_nat_alt by linarith
qed

text \<open>Sending: after the refresh of the cached tail, either the ring is full or the slot is free.\<close>

lemma lp_send_effect:
  assumes "lp_wf s"
  shows "lp_wf (snd (lp_send v s))"
    and "lp_contents (snd (lp_send v s)) = lp_contents s @ (case fst (lp_send v s) of Inr _ \<Rightarrow> [v] | Inl _ \<Rightarrow> [])"
proof -
  obtain p where cap: "lp_cap s" and p: "lp_at p s" using assms by (auto simp: lp_wf_def)
  define s1 where "s1 = (if lp_full s then s\<lparr>lp_cached_tail := lp_shared_tail s\<rparr> else s)"
  define q where "q = (if lp_full s then p\<lparr>pos_cached_tail := pos_shared_tail p\<rparr> else p)"
  have q: "lp_at q s1" "lp_cap s1" using p cap by (auto simp: q_def s1_def lp_at_def lp_cap_def)
  have same: "lp_contents s1 = lp_contents s" by (simp add: s1_def lp_contents_def)
  have "lp_wf (snd (lp_send v s)) \<and>
      lp_contents (snd (lp_send v s)) = lp_contents s @ (case fst (lp_send v s) of Inr _ \<Rightarrow> [v] | Inl _ \<Rightarrow> [])"
  proof (cases "lp_full s1")
    case True
    then have "lp_send v s = (Inl v, s1)" by (simp add: lp_send_def s1_def Let_def)
    then show ?thesis using q same by (auto simp: lp_wf_def)
  next
    case False
    let ?b = "lp_buffer s1" and ?h = "pos_local_head q" and ?t = "pos_local_tail q"
    define s2 where "s2 = s1\<lparr>lp_buffer := ?b[?h mod length ?b := Some v], lp_local_head := lp_local_head s1 + 1\<rparr>"
    have room: "?h + 1 - pos_cached_tail q < length ?b" using False lp_full_at [OF q(2,1)] by simp
    have send: "lp_send v s = (Inr (), s2)"
      using False q lp_slot_eq [OF q(2), of ?h] by (simp add: lp_send_def s1_def Let_def s2_def lp_at_def)
    have n: "?h - ?t < length ?b" "?t + (?h - ?t) = ?h" "?h + 1 - ?t = Suc (?h - ?t)"
      using room q(1) by (auto simp: lp_at_def)
    have w: "cells (lp_buffer s2) ?t (?h + 1 - ?t) = cells ?b ?t (?h - ?t) @ [Some v]"
      using cells_write [OF n(1), of ?t "Some v"] unfolding s2_def n(3) by (simp add: n(2))
    let ?q = "q\<lparr>pos_local_head := ?h + 1\<rparr>"
    have at: "lp_at ?q s2"
      using q(1) room w by (auto simp: lp_at_def s2_def add.commute)
    have cap2: "lp_cap s2" using q(2) by (simp add: lp_cap_def s2_def)
    have "lp_contents s2 = lp_contents s1 @ [v]"
      using lp_contents_at [OF cap2 at] lp_contents_at [OF q(2,1)] w by simp
    then show ?thesis using send same at cap2 by (auto simp: lp_wf_def)
  qed
  then show "lp_wf (snd (lp_send v s))"
    "lp_contents (snd (lp_send v s)) = lp_contents s @ (case fst (lp_send v s) of Inr _ \<Rightarrow> [v] | Inl _ \<Rightarrow> [])"
    by simp_all
qed

lemma lp_recv_effect:
  assumes "lp_wf s"
  shows "lp_wf (snd (lp_recv s))"
    and "(case fst (lp_recv s) of Some v \<Rightarrow> [v] | None \<Rightarrow> []) @ lp_contents (snd (lp_recv s)) = lp_contents s"
    and "fst (lp_recv s) = None \<longleftrightarrow> lp_local_tail s = lp_shared_head s"
    and "fst (lp_recv s) = None \<Longrightarrow>
         snd (lp_recv s) = (if lp_local_tail s = lp_cached_head s then lp_refresh_head s else s)"
proof -
  obtain p where cap: "lp_cap s" and p: "lp_at p s" using assms by (auto simp: lp_wf_def)
  define s1 where "s1 = (if lp_local_tail s = lp_cached_head s then lp_refresh_head s else s)"
  define q where "q = (if lp_local_tail s = lp_cached_head s then p\<lparr>pos_cached_head := pos_shared_head p\<rparr> else p)"
  have q: "lp_at q s1" "lp_cap s1"
    using p cap by (auto simp: q_def s1_def lp_at_def lp_cap_def lp_refresh_head_def)
  have same: "lp_contents s1 = lp_contents s" "lp_local_tail s1 = lp_local_tail s"
    by (simp_all add: s1_def lp_contents_def lp_refresh_head_def)
  have words: "word_of_nat a = (word_of_nat b :: u64) \<longleftrightarrow> a = b"
    if "pos_local_tail p \<le> a" "a \<le> b" "b \<le> pos_local_head p" for a b
    using of_nat_word_eq [of a b, where 'i = 64] that p cap by (auto simp: lp_at_def lp_cap_def)
  have empty: "lp_local_tail s1 = lp_cached_head s1 \<longleftrightarrow> lp_local_tail s = lp_shared_head s"
  proof (cases "lp_local_tail s = lp_cached_head s")
    case False
    then have "pos_local_tail p < pos_shared_head p" using p by (auto simp: lp_at_def order.order_iff_strict)
    then show ?thesis
      using False p words [of "pos_local_tail p" "pos_shared_head p"] by (simp add: s1_def lp_at_def)
  qed (simp add: s1_def lp_refresh_head_def)
  have "lp_wf (snd (lp_recv s)) \<and>
      (case fst (lp_recv s) of Some v \<Rightarrow> [v] | None \<Rightarrow> []) @ lp_contents (snd (lp_recv s)) = lp_contents s \<and>
      (fst (lp_recv s) = None \<longleftrightarrow> lp_local_tail s = lp_shared_head s) \<and>
      (fst (lp_recv s) = None \<longrightarrow> snd (lp_recv s) = s1)"
  proof (cases "lp_local_tail s1 = lp_cached_head s1")
    case True
    then have "lp_recv s = (None, s1)" by (simp add: lp_recv_def s1_def Let_def)
    then show ?thesis using q same empty True by (auto simp: lp_wf_def)
  next
    case False
    let ?b = "lp_buffer s1" and ?h = "pos_local_head q" and ?t = "pos_local_tail q"
    define s2 where "s2 = s1\<lparr>lp_local_tail := lp_local_tail s1 + 1\<rparr>"
    have recv: "lp_recv s = (?b ! (?t mod length ?b), s2)"
      using False q lp_slot_eq [OF q(2), of ?t] by (simp add: lp_recv_def s1_def Let_def s2_def lp_at_def)
    have "?t \<noteq> pos_cached_head q" using False q(1) by (auto simp: lp_at_def)
    then have t: "?t < pos_cached_head q" "?h - ?t = Suc (?h - Suc ?t)" using q(1) by (auto simp: lp_at_def)
    have w: "cells ?b ?t (?h - ?t) = ?b ! (?t mod length ?b) # cells ?b (Suc ?t) (?h - Suc ?t)"
      unfolding t(2) by (rule cells_Suc)
    then obtain v where v: "?b ! (?t mod length ?b) = Some v"
      using q(1) by (cases "?b ! (?t mod length ?b)") (auto simp: lp_at_def)
    have at: "lp_at (q\<lparr>pos_local_tail := ?t + 1\<rparr>) s2" using q(1) w t(1) by (auto simp: lp_at_def s2_def add.commute)
    have cap2: "lp_cap s2" using q(2) by (simp add: lp_cap_def s2_def)
    have "v # lp_contents s2 = lp_contents s1"
      using lp_contents_at [OF cap2 at] lp_contents_at [OF q(2,1)] w v by (simp add: s2_def)
    then show ?thesis using recv v same at cap2 empty False by (auto simp: lp_wf_def)
  qed
  then show "lp_wf (snd (lp_recv s))"
    "(case fst (lp_recv s) of Some v \<Rightarrow> [v] | None \<Rightarrow> []) @ lp_contents (snd (lp_recv s)) = lp_contents s"
    "fst (lp_recv s) = None \<longleftrightarrow> lp_local_tail s = lp_shared_head s"
    "fst (lp_recv s) = None \<Longrightarrow>
       snd (lp_recv s) = (if lp_local_tail s = lp_cached_head s then lp_refresh_head s else s)"
    by (simp_all add: s1_def)
qed

lemma lp_sync_effect:
  assumes "lp_wf s"
  shows "lp_wf (lp_tx_sync s)" "lp_wf (lp_rx_sync s)" "lp_wf (lp_refresh_head s)"
    and "lp_wf (lp_tx_drop s)" "lp_wf (lp_rx_drop s)"
proof -
  obtain p where cap: "lp_cap s" and p: "lp_at p s" using assms by (auto simp: lp_wf_def)
  have "lp_at (p\<lparr>pos_shared_head := pos_local_head p\<rparr>) (lp_tx_sync s)"
    "lp_at (p\<lparr>pos_shared_tail := pos_local_tail p\<rparr>) (lp_rx_sync s)"
    "lp_at (p\<lparr>pos_cached_head := pos_shared_head p\<rparr>) (lp_refresh_head s)"
    "lp_at p (lp_tx_drop s)" "lp_at p (lp_rx_drop s)"
    using p by (auto simp: lp_at_def lp_tx_sync_def lp_rx_sync_def lp_refresh_head_def lp_tx_drop_def lp_rx_drop_def)
  then show "lp_wf (lp_tx_sync s)" "lp_wf (lp_rx_sync s)" "lp_wf (lp_refresh_head s)"
    "lp_wf (lp_tx_drop s)" "lp_wf (lp_rx_drop s)"
    using cap by (auto simp: lp_wf_def lp_cap_def lp_tx_sync_def lp_rx_sync_def lp_refresh_head_def
        lp_tx_drop_def lp_rx_drop_def)
qed

lemma lp_contents_sync [simp]:
  "lp_contents (lp_tx_sync s) = lp_contents s" "lp_contents (lp_rx_sync s) = lp_contents s"
  "lp_contents (lp_refresh_head s) = lp_contents s"
  "lp_contents (lp_tx_drop s) = lp_contents s" "lp_contents (lp_rx_drop s) = lp_contents s"
  by (simp_all add: lp_contents_def lp_tx_sync_def lp_rx_sync_def lp_refresh_head_def lp_tx_drop_def lp_rx_drop_def)

lemma lamport_channel_wf:
  assumes "is_pow2 capacity" "capacity < 2 ^ 64"
  shows "lp_wf (lamport_channel capacity)" "lp_contents (lamport_channel capacity) = []"
proof -
  let ?p = "\<lparr>pos_cached_tail = 0, pos_shared_tail = 0, pos_local_tail = 0, pos_cached_head = 0,
             pos_shared_head = 0, pos_local_head = 0\<rparr>"
  have "lp_at ?p (lamport_channel capacity)"
    using is_pow2_pos [OF assms(1)] by (simp add: lp_at_def lamport_channel_def)
  moreover have "lp_cap (lamport_channel capacity)"
    using assms by (simp add: lp_cap_def lamport_channel_def ring_cap_def)
  ultimately show "lp_wf (lamport_channel capacity)" by (auto simp: lp_wf_def)
  show "lp_contents (lamport_channel capacity) = []" by (simp add: lp_contents_def lamport_channel_def)
qed

datatype 'v lamport_op = LSend 'v | LTxSync | LRecv | LRxSync | LRefresh | LTxDrop | LRxDrop

fun lamport_step :: "'v lamport_op \<Rightarrow> 'v lamport \<Rightarrow> 'v lamport" where
  "lamport_step (LSend v) s = snd (lp_send v s)"
| "lamport_step LTxSync s = lp_tx_sync s"
| "lamport_step LRecv s = snd (lp_recv s)"
| "lamport_step LRxSync s = lp_rx_sync s"
| "lamport_step LRefresh s = lp_refresh_head s"
| "lamport_step LTxDrop s = lp_tx_drop s"
| "lamport_step LRxDrop s = lp_rx_drop s"

fun lamport_taken :: "'v lamport_op \<Rightarrow> 'v lamport \<Rightarrow> 'v list" where
  "lamport_taken (LSend v) s = (case fst (lp_send v s) of Inr _ \<Rightarrow> [v] | Inl _ \<Rightarrow> [])"
| "lamport_taken _ s = []"

fun lamport_given :: "'v lamport_op \<Rightarrow> 'v lamport \<Rightarrow> 'v list" where
  "lamport_given LRecv s = (case fst (lp_recv s) of Some v \<Rightarrow> [v] | None \<Rightarrow> [])"
| "lamport_given _ s = []"

interpretation lpf: fifo lp_wf lp_contents "\<lambda>_ _. True" lamport_step lamport_taken lamport_given
proof unfold_locales
  fix s :: "'a lamport" and op
  assume wf: "lp_wf s"
  show "lp_wf (lamport_step op s)"
    using wf lp_send_effect(1) lp_recv_effect(1) lp_sync_effect by (cases op) simp_all
  show "lamport_given op s @ lp_contents (lamport_step op s) = lp_contents s @ lamport_taken op s"
    using lp_send_effect(2) [OF wf] lp_recv_effect(2) [OF wf] by (cases op) simp_all
qed

lemma lamport_all_allowed: "ops_allowed lamport_step (\<lambda>_ _. True) ops s"
  by (induction ops arbitrary: s) simp_all

text \<open>
  C23. The Lamport ring is a first-in first-out channel.  Whatever the order of sends, receives
  and synchronisations on the two sides, and also when the 64-bit indices wrap around, the
  values received, followed by those in the ring, are the values accepted, in order; and a
  receive finds nothing exactly when everything published has been received.
\<close>
theorem lamport_fifo:
  assumes "is_pow2 capacity" "capacity < 2 ^ 64"
  shows "let s0 = lamport_channel capacity; s = run_ops lamport_step ops s0
         in ops_collect lamport_step lamport_given ops s0 @ lp_contents s =
              ops_collect lamport_step lamport_taken ops s0 \<and>
            (fst (lp_recv s) = None \<longleftrightarrow> lp_local_tail s = lp_shared_head s)"
proof -
  note c = lamport_channel_wf [OF assms]
  have "lp_wf (run_ops lamport_step ops (lamport_channel capacity :: 'a lamport))"
    by (rule lpf.run_inv [OF c(1) lamport_all_allowed])
  from lp_recv_effect(3) [OF this] show ?thesis
    using lpf.run_contents [OF c(1) lamport_all_allowed, of ops] c(2) unfolding Let_def by simp
qed

theorem lamport_fifo_witness:
  "let s0 = lamport_channel 2 :: nat lamport;
       ops = [LSend (7 :: nat), LRecv, LTxSync, LSend 8, LRecv, LRecv, LRxSync, LSend 9]
   in ops_collect lamport_step lamport_given ops s0 = [7] \<and>
      ops_collect lamport_step lamport_taken ops s0 = [7, 9] \<and>
      ops_collect lamport_step lamport_given ops s0 @ lp_contents (run_ops lamport_step ops s0) =
        ops_collect lamport_step lamport_taken ops s0"
proof -
  let ?s = "lamport_channel 2 :: nat lamport"
  let ?ops = "[LSend (7 :: nat), LRecv, LTxSync, LSend 8, LRecv, LRecv, LRxSync, LSend 9]"
  have "is_pow2 2" using is_pow2_double [OF is_pow2_1] by simp
  then have "ops_collect lamport_step lamport_given ?ops ?s @ lp_contents (run_ops lamport_step ?ops ?s) =
      ops_collect lamport_step lamport_taken ?ops ?s"
    using lamport_fifo [of 2 ?ops, unfolded Let_def] by (simp only:) simp
  moreover have "ops_collect lamport_step lamport_given ?ops ?s = [7]"
    "ops_collect lamport_step lamport_taken ?ops ?s = [7, 9]"
    by (simp_all add: lamport_channel_def lp_send_def lp_recv_def lp_full_def lp_slot_def lp_tx_sync_def
        lp_rx_sync_def lp_refresh_head_def eval_nat_numeral)
  ultimately show ?thesis by (simp only: Let_def)
qed

end
