(* ===== verification/Mempc_Lamport_Channel.thy ===== *)
theory Mempc_Lamport_Channel
  imports Mempc_Lamport
begin

text \<open>
  The channel of \<^verbatim>\<open>mempc/src/lamport.rs\<close>.  A lane is one caller with its two rings and the
  counters the server keeps for it.  The two stores of a caller's \<open>sync\<close> are separate steps,
  since the server can run between them.
\<close>

section \<open>Callers and the server\<close>

record ('q, 'p) lp_lane =
  ll_call :: "'q lamport"
  ll_resp :: "'p response lamport"
  ll_send_count :: u64
  ll_inflight :: u64
  ll_max_inflight :: u64
  ll_recv_count :: u64
  ll_available :: u64

definition lp_lane_new :: "nat \<Rightarrow> nat \<Rightarrow> ('q, 'p) lp_lane" where
  "lp_lane_new ring_depth max_inflight =
     \<lparr>ll_call = lamport_channel ring_depth, ll_resp = lamport_channel ring_depth, ll_send_count = 0,
      ll_inflight = 0, ll_max_inflight = word_of_nat max_inflight, ll_recv_count = 0, ll_available = 0\<rparr>"

definition lp_call :: "'q \<Rightarrow> ('q, 'p) lp_lane \<Rightarrow> ('q call_error + u64) \<times> ('q, 'p) lp_lane" where
  "lp_call req l =
     (if \<not> lp_tx_connected (ll_call l) then (Inl (Disconnected req), l)
      else if ll_max_inflight l \<le> ll_inflight l then (Inl (InflightExceeded req), l)
      else case lp_send req (ll_call l) of
             (Inl r, c) \<Rightarrow> (Inl (Full r), l\<lparr>ll_call := c\<rparr>)
           | (Inr _, c) \<Rightarrow>
               (Inr (ll_send_count l),
                l\<lparr>ll_call := c, ll_send_count := ll_send_count l + 1, ll_inflight := ll_inflight l + 1\<rparr>))"

definition lp_publish_calls :: "('q, 'p) lp_lane \<Rightarrow> ('q, 'p) lp_lane" where
  "lp_publish_calls l = l\<lparr>ll_call := lp_tx_sync (ll_call l)\<rparr>"

definition lp_release_responses :: "('q, 'p) lp_lane \<Rightarrow> ('q, 'p) lp_lane" where
  "lp_release_responses l = l\<lparr>ll_resp := lp_rx_sync (ll_resp l)\<rparr>"

definition lp_caller_sync :: "('q, 'p) lp_lane \<Rightarrow> ('q, 'p) lp_lane" where
  "lp_caller_sync l = lp_release_responses (lp_publish_calls l)"

definition lp_try_recv_response :: "('q, 'p) lp_lane \<Rightarrow> (u64 \<times> 'p) option \<times> ('q, 'p) lp_lane" where
  "lp_try_recv_response l =
     (case lp_recv (ll_resp l) of
        (None, r) \<Rightarrow> (None, l\<lparr>ll_resp := r\<rparr>)
      | (Some resp, r) \<Rightarrow>
          (Some (rs_token resp, rs_data resp), l\<lparr>ll_resp := r, ll_inflight := ll_inflight l - 1\<rparr>))"

definition lp_pending_count :: "('q, 'p) lp_lane \<Rightarrow> u64" where
  "lp_pending_count l = ll_inflight l"

record ('q, 'p) lp_server =
  lp_lanes :: "('q, 'p) lp_lane list"
  lp_current_lane :: nat

record 'q lp_recv_ref =
  lr_caller_id :: nat
  lr_slot_token :: u64
  lr_data :: 'q

definition lp_into_token :: "'q lp_recv_ref \<Rightarrow> reply_token" where
  "lp_into_token r = \<lparr>rt_caller_id = lr_caller_id r, rt_slot_token = lr_slot_token r\<rparr>"

definition lp_lane_poll :: "('q, 'p) lp_lane \<Rightarrow> ('q, 'p) lp_lane" where
  "lp_lane_poll l =
     (let c = lp_refresh_head (ll_call l)
      in l\<lparr>ll_call := lp_rx_sync c, ll_available := lp_available c, ll_resp := lp_tx_sync (ll_resp l)\<rparr>)"

definition lp_poll :: "('q, 'p) lp_server \<Rightarrow> u32 \<times> ('q, 'p) lp_server" where
  "lp_poll s =
     (let lanes = map lp_lane_poll (lp_lanes s)
      in (fold (\<lambda>l total. total + ucast (ll_available l)) lanes 0, s\<lparr>lp_lanes := lanes\<rparr>))"

definition lp_lane_recv :: "('q, 'p) lp_lane \<Rightarrow> (u64 \<times> 'q) option \<times> ('q, 'p) lp_lane" where
  "lp_lane_recv l =
     (if ll_available l = 0 then (None, l)
      else case lp_recv (ll_call l) of
             (None, c) \<Rightarrow> (None, l\<lparr>ll_call := c\<rparr>)
           | (Some req, c) \<Rightarrow>
               (Some (ll_recv_count l, req),
                l\<lparr>ll_call := c, ll_available := ll_available l - 1, ll_recv_count := ll_recv_count l + 1\<rparr>))"

primrec lp_scan :: "nat \<Rightarrow> ('q, 'p) lp_server \<Rightarrow> 'q lp_recv_ref option \<times> ('q, 'p) lp_server" where
  "lp_scan 0 s = (None, s)"
| "lp_scan (Suc k) s =
     (let idx = lp_current_lane s;
          pos = (if length (lp_lanes s) \<le> idx + 1 then 0 else idx + 1)
      in case lp_lane_recv (lp_lanes s ! idx) of
           (Some (token, req), l) \<Rightarrow>
             (Some \<lparr>lr_caller_id = idx, lr_slot_token = token, lr_data = req\<rparr>,
              s\<lparr>lp_lanes := (lp_lanes s)[idx := l], lp_current_lane := pos\<rparr>)
         | (None, l) \<Rightarrow> lp_scan k (s\<lparr>lp_lanes := (lp_lanes s)[idx := l], lp_current_lane := pos\<rparr>))"

definition lp_try_recv :: "('q, 'p) lp_server \<Rightarrow> 'q lp_recv_ref option \<times> ('q, 'p) lp_server" where
  "lp_try_recv s = lp_scan (length (lp_lanes s)) s"

definition lp_lane_reply :: "u64 \<Rightarrow> 'p \<Rightarrow> ('q, 'p) lp_lane \<Rightarrow> ('q, 'p) lp_lane" where
  "lp_lane_reply token resp l = l\<lparr>ll_resp := snd (lp_send \<lparr>rs_token = token, rs_data = resp\<rparr> (ll_resp l))\<rparr>"

text \<open>\<open>None\<close>: the index of the caller is out of range and the server panics.\<close>

definition lp_reply :: "reply_token \<Rightarrow> 'p \<Rightarrow> ('q, 'p) lp_server \<Rightarrow> ('q, 'p) lp_server option" where
  "lp_reply token resp s =
     (let i = rt_caller_id token
      in if i < length (lp_lanes s)
         then Some (s\<lparr>lp_lanes := (lp_lanes s)[i := lp_lane_reply (rt_slot_token token) resp (lp_lanes s ! i)]\<rparr>)
         else None)"

definition lp_recv_ref_reply :: "'q lp_recv_ref \<Rightarrow> 'p \<Rightarrow> ('q, 'p) lp_server \<Rightarrow> ('q, 'p) lp_server option" where
  "lp_recv_ref_reply r resp s =
     lp_reply \<lparr>rt_caller_id = lr_caller_id r, rt_slot_token = lr_slot_token r\<rparr> resp s"

text \<open>\<open>None\<close>: the assertion on the capacity of the rings fails.\<close>

definition lamport_create :: "nat \<Rightarrow> nat \<Rightarrow> nat \<Rightarrow> ('q, 'p) lp_server option" where
  "lamport_create max_callers ring_depth max_inflight =
     (if max_callers = 0 \<or> is_pow2 ring_depth
      then Some \<lparr>lp_lanes = replicate max_callers (lp_lane_new ring_depth max_inflight), lp_current_lane = 0\<rparr>
      else None)"

section \<open>What is visible and what is released\<close>

text \<open>
  \<open>lp_visible\<close> counts the values published and not yet received, \<open>lp_unreleased\<close> the slots
  received and not yet given back to the sender.
\<close>

definition lp_visible :: "'v lamport \<Rightarrow> nat" where
  "lp_visible s = unat (lp_shared_head s - lp_local_tail s)"

definition lp_unreleased :: "'v lamport \<Rightarrow> nat" where
  "lp_unreleased s = unat (lp_local_tail s - lp_shared_tail s)"

lemma lp_counts_at:
  assumes "lp_cap s" "lp_at p s"
  shows "lp_visible s = pos_shared_head p - pos_local_tail p"
    and "lp_unreleased s = pos_local_tail p - pos_shared_tail p"
    and "length (lp_contents s) = pos_local_head p - pos_local_tail p"
proof -
  have "pos_shared_head p - pos_local_tail p < 2 ^ LENGTH(64)" "pos_local_tail p - pos_shared_tail p < 2 ^ LENGTH(64)"
    using assms by (auto simp: lp_cap_def lp_at_def)
  then show "lp_visible s = pos_shared_head p - pos_local_tail p"
    "lp_unreleased s = pos_local_tail p - pos_shared_tail p"
    using assms(2) unat_of_nat_sub [of "pos_local_tail p" "pos_shared_head p", where 'i = 64]
      unat_of_nat_sub [of "pos_shared_tail p" "pos_local_tail p", where 'i = 64]
    by (simp_all add: lp_visible_def lp_unreleased_def lp_at_def)
  show "length (lp_contents s) = pos_local_head p - pos_local_tail p" by (simp add: lp_contents_at [OF assms])
qed

lemma lp_visible_le: "lp_wf s \<Longrightarrow> lp_visible s \<le> length (lp_contents s)"
  unfolding lp_wf_def using lp_counts_at by (fastforce simp: lp_at_def)

text \<open>A send is refused only when the slots not released fill the ring.\<close>

lemma lp_send_room:
  assumes "lp_wf s" "lp_unreleased s + length (lp_contents s) + 1 < length (lp_buffer s)"
  shows "fst (lp_send v s) = Inr ()"
proof -
  obtain p where cap: "lp_cap s" and p: "lp_at p s" using assms(1) by (auto simp: lp_wf_def)
  define s1 where "s1 = (if lp_full s then s\<lparr>lp_cached_tail := lp_shared_tail s\<rparr> else s)"
  define q where "q = (if lp_full s then p\<lparr>pos_cached_tail := pos_shared_tail p\<rparr> else p)"
  have q: "lp_at q s1" "lp_cap s1" using p cap by (auto simp: q_def s1_def lp_at_def lp_cap_def)
  have "pos_local_head p + 1 - pos_shared_tail p < length (lp_buffer s)"
    using assms(2) p lp_counts_at [OF cap p] by (auto simp: lp_at_def)
  then have "\<not> lp_full s1"
    using lp_full_at [OF q(2,1)] lp_full_at [OF cap p] by (auto simp: q_def s1_def split: if_splits)
  then show ?thesis by (simp add: lp_send_def s1_def Let_def)
qed

lemma lp_send_counts [simp]:
  "lp_visible (snd (lp_send v s)) = lp_visible s" "lp_unreleased (snd (lp_send v s)) = lp_unreleased s"
  "length (lp_buffer (snd (lp_send v s))) = length (lp_buffer s)"
  by (simp_all add: lp_send_def Let_def lp_visible_def lp_unreleased_def)

lemma lp_recv_counts:
  assumes "lp_wf s" "lp_recv s = (Some v, s')"
  shows "lp_visible s = lp_visible s' + 1" "lp_unreleased s' = lp_unreleased s + 1"
proof -
  have some: "fst (lp_recv s) \<noteq> None" using assms(2) by simp
  have s': "lp_shared_head s' = lp_shared_head s" "lp_shared_tail s' = lp_shared_tail s"
    "lp_local_tail s' = lp_local_tail s + 1"
    using assms(2) by (auto simp: lp_recv_def Let_def lp_refresh_head_def split: if_splits)
  have ne: "lp_shared_head s \<noteq> lp_local_tail s" using lp_recv_effect(3) [OF assms(1)] some by simp
  show "lp_visible s = lp_visible s' + 1"
    unfolding lp_visible_def s' using unat_diff_pred [OF ne] by simp
  obtain p where cap: "lp_cap s" and p: "lp_at p s" using assms(1) by (auto simp: lp_wf_def)
  have "lp_unreleased s + 1 < 2 ^ LENGTH(64)"
    using lp_counts_at(2) [OF cap p] p cap by (auto simp: lp_at_def lp_cap_def)
  then show "lp_unreleased s' = lp_unreleased s + 1"
    unfolding lp_unreleased_def s' by (intro unat_diff_Suc) simp
qed

lemma lp_recv_buffer [simp]: "length (lp_buffer (snd (lp_recv s))) = length (lp_buffer s)"
  by (simp add: lp_recv_def Let_def lp_refresh_head_def)

lemma lp_sync_counts [simp]:
  "lp_visible (lp_rx_sync s) = lp_visible s" "lp_unreleased (lp_tx_sync s) = lp_unreleased s"
  "lp_visible (lp_refresh_head s) = lp_visible s" "lp_unreleased (lp_refresh_head s) = lp_unreleased s"
  "lp_visible (lp_tx_sync s) = length (lp_contents s)" "lp_unreleased (lp_rx_sync s) = 0"
  "length (lp_buffer (lp_rx_sync s)) = length (lp_buffer s)"
  "length (lp_buffer (lp_tx_sync s)) = length (lp_buffer s)"
  "length (lp_buffer (lp_refresh_head s)) = length (lp_buffer s)"
  by (simp_all add: lp_visible_def lp_unreleased_def lp_rx_sync_def lp_tx_sync_def lp_refresh_head_def lp_contents_def)

lemma lp_recv_none_counts:
  assumes "lp_recv s = (None, s')" "lp_wf s"
  shows "lp_visible s' = lp_visible s" "lp_unreleased s' = lp_unreleased s" "lp_contents s' = lp_contents s"
  using assms(1) lp_recv_effect(4) [OF assms(2)] by (auto split: if_splits)

section \<open>A caller and the server, step by step\<close>

text \<open>
  \<open>accepted\<close> lists the tokens returned to the caller with their requests, \<open>received\<close> the
  tokens the server got with the requests, \<open>held\<close> the tokens not yet answered; \<open>mid\<close> says that
  the caller is between the two stores of its \<open>sync\<close>.
\<close>

inductive lp_run ::
  "nat \<Rightarrow> nat \<Rightarrow> ('q, 'p) lp_lane \<Rightarrow> (u64 \<times> 'q) list \<Rightarrow> (u64 \<times> 'q) list \<Rightarrow> u64 list \<Rightarrow> bool \<Rightarrow> bool"
  for depth max_inflight where
  lp_start: "is_pow2 depth \<Longrightarrow> lp_run depth max_inflight (lp_lane_new depth max_inflight) [] [] [] False"
| lp_accepts: "lp_run depth max_inflight l accepted received held False \<Longrightarrow> lp_call req l = (Inr token, l') \<Longrightarrow>
    lp_run depth max_inflight l' (accepted @ [(token, req)]) received held False"
| lp_refuses: "lp_run depth max_inflight l accepted received held False \<Longrightarrow> lp_call req l = (Inl e, l') \<Longrightarrow>
    lp_run depth max_inflight l' accepted received held False"
| lp_publishes: "lp_run depth max_inflight l accepted received held False \<Longrightarrow>
    lp_run depth max_inflight (lp_publish_calls l) accepted received held True"
| lp_releases: "lp_run depth max_inflight l accepted received held True \<Longrightarrow>
    lp_run depth max_inflight (lp_release_responses l) accepted received held False"
| lp_gets_response: "lp_run depth max_inflight l accepted received held False \<Longrightarrow>
    lp_run depth max_inflight (snd (lp_try_recv_response l)) accepted received held False"
| lp_looks: "lp_run depth max_inflight l accepted received held mid \<Longrightarrow>
    lp_run depth max_inflight
      (l\<lparr>ll_call := lp_refresh_head (ll_call l), ll_available := lp_available (lp_refresh_head (ll_call l))\<rparr>)
      accepted received held mid"
| lp_frees_calls: "lp_run depth max_inflight l accepted received held mid \<Longrightarrow>
    lp_run depth max_inflight (l\<lparr>ll_call := lp_rx_sync (ll_call l)\<rparr>) accepted received held mid"
| lp_shows_responses: "lp_run depth max_inflight l accepted received held mid \<Longrightarrow>
    lp_run depth max_inflight (l\<lparr>ll_resp := lp_tx_sync (ll_resp l)\<rparr>) accepted received held mid"
| lp_receives: "lp_run depth max_inflight l accepted received held mid \<Longrightarrow>
    lp_lane_recv l = (Some (token, req), l') \<Longrightarrow>
    lp_run depth max_inflight l' accepted (received @ [(token, req)]) (held @ [token]) mid"
| lp_finds_none: "lp_run depth max_inflight l accepted received held mid \<Longrightarrow> lp_lane_recv l = (None, l') \<Longrightarrow>
    lp_run depth max_inflight l' accepted received held mid"
| lp_answers: "lp_run depth max_inflight l accepted received held mid \<Longrightarrow> token \<in> set held \<Longrightarrow>
    lp_run depth max_inflight (lp_lane_reply token resp l) accepted received (remove1 token held) mid"

definition lp_lane_ok :: "nat \<Rightarrow> nat \<Rightarrow> nat \<Rightarrow> bool \<Rightarrow> ('q, 'p) lp_lane \<Rightarrow> bool" where
  "lp_lane_ok depth max_inflight held mid l \<longleftrightarrow>
     lp_wf (ll_call l) \<and> lp_wf (ll_resp l) \<and> length (lp_buffer (ll_resp l)) = depth \<and>
     unat (ll_max_inflight l) = max_inflight \<and> unat (ll_inflight l) \<le> max_inflight \<and>
     length (lp_contents (ll_call l)) + held + length (lp_contents (ll_resp l)) \<le> unat (ll_inflight l) \<and>
     (if mid then lp_unreleased (ll_resp l) \<le> max_inflight
      else lp_unreleased (ll_resp l) + lp_visible (ll_call l) + held + length (lp_contents (ll_resp l)) \<le> max_inflight)"

definition lp_tokens_ok :: "('q, 'p) lp_lane \<Rightarrow> (u64 \<times> 'q) list \<Rightarrow> (u64 \<times> 'q) list \<Rightarrow> bool" where
  "lp_tokens_ok l accepted received \<longleftrightarrow>
     map snd accepted = map snd received @ lp_contents (ll_call l) \<and>
     map fst accepted = map word_of_nat [0..<length accepted] \<and>
     map fst received = map word_of_nat [0..<length received] \<and>
     ll_send_count l = word_of_nat (length accepted) \<and> ll_recv_count l = word_of_nat (length received)"

lemma lp_lane_new_ok:
  assumes "is_pow2 depth" "depth < 2 ^ 64" "max_inflight < 2 ^ 64"
  shows "lp_lane_ok depth max_inflight 0 False (lp_lane_new depth max_inflight)"
    and "lp_tokens_ok (lp_lane_new depth max_inflight) [] []"
proof -
  have [simp]: "lp_unreleased (lamport_channel depth) = 0" "lp_visible (lamport_channel depth) = 0" for depth
    by (simp_all add: lp_unreleased_def lp_visible_def lamport_channel_def)
  have [simp]: "length (lp_buffer (lamport_channel depth)) = depth" for depth by (simp add: lamport_channel_def)
  show "lp_lane_ok depth max_inflight 0 False (lp_lane_new depth max_inflight)"
    using assms(3) by (simp add: lp_lane_ok_def lp_lane_new_def lamport_channel_wf [OF assms(1,2)] unat_of_nat)
  show "lp_tokens_ok (lp_lane_new depth max_inflight) [] []"
    by (simp add: lp_tokens_ok_def lp_lane_new_def lamport_channel_wf [OF assms(1,2)])
qed

lemma lp_call_effect:
  assumes "lp_lane_ok depth max_inflight held False l" "lp_call req l = (r, l')"
  shows "lp_lane_ok depth max_inflight held False l'"
    and "lp_tokens_ok l accepted received \<Longrightarrow>
         lp_tokens_ok l' (accepted @ (case r of Inr token \<Rightarrow> [(token, req)] | Inl _ \<Rightarrow> [])) received"
proof -
  have wf: "lp_wf (ll_call l)" and lim: "unat (ll_max_inflight l) = max_inflight"
    using assms(1) by (simp_all add: lp_lane_ok_def)
  note e = lp_send_effect [OF wf, of req]
  have "lp_lane_ok depth max_inflight held False l' \<and> (lp_tokens_ok l accepted received \<longrightarrow>
      lp_tokens_ok l' (accepted @ (case r of Inr token \<Rightarrow> [(token, req)] | Inl _ \<Rightarrow> [])) received)"
  proof (cases "lp_tx_connected (ll_call l) \<and> ll_inflight l < ll_max_inflight l")
    case False
    then have "\<exists>x. lp_call req l = (Inl x, l)"
      by (cases "lp_tx_connected (ll_call l)") (simp_all add: lp_call_def not_less)
    then show ?thesis using assms by auto
  next
    case True
    obtain q c where send: "lp_send req (ll_call l) = (q, c)" by (cases "lp_send req (ll_call l)")
    have c: "lp_wf c" "lp_visible c = lp_visible (ll_call l)"
      "lp_contents c = lp_contents (ll_call l) @ (case q of Inr _ \<Rightarrow> [req] | Inl _ \<Rightarrow> [])"
      using e send lp_send_counts(1) [of req "ll_call l"] by simp_all
    show ?thesis
    proof (cases q)
      case (Inl x)
      then have "r = Inl (Full x)" "l' = l\<lparr>ll_call := c\<rparr>"
        using assms(2) True send by (simp_all add: lp_call_def not_le [symmetric])
      then show ?thesis using assms(1) c Inl by (simp add: lp_lane_ok_def lp_tokens_ok_def)
    next
      case (Inr x)
      then have r: "r = Inr (ll_send_count l)"
        and l': "l' = l\<lparr>ll_call := c, ll_send_count := ll_send_count l + 1, ll_inflight := ll_inflight l + 1\<rparr>"
        using assms(2) True send by (simp_all add: lp_call_def not_le [symmetric])
      have lt: "unat (ll_inflight l) < max_inflight" using True lim by (simp add: word_less_nat_alt)
      then have "unat (ll_inflight l + 1) = unat (ll_inflight l) + 1"
        using lim by (intro unat_inc_less [of _ "ll_max_inflight l"]) simp
      then show ?thesis using assms(1) c Inr r l' lt by (simp add: lp_lane_ok_def lp_tokens_ok_def add.commute)
    qed
  qed
  then show "lp_lane_ok depth max_inflight held False l'" "lp_tokens_ok l accepted received \<Longrightarrow>
      lp_tokens_ok l' (accepted @ (case r of Inr token \<Rightarrow> [(token, req)] | Inl _ \<Rightarrow> [])) received" by blast+
qed

lemma lp_response_effect:
  assumes "lp_lane_ok depth max_inflight held False l"
  shows "lp_lane_ok depth max_inflight held False (snd (lp_try_recv_response l))"
proof -
  have wf: "lp_wf (ll_resp l)" using assms by (simp add: lp_lane_ok_def)
  obtain r s where recv: "lp_recv (ll_resp l) = (r, s)" by (cases "lp_recv (ll_resp l)")
  have s: "lp_wf s" "length (lp_buffer s) = length (lp_buffer (ll_resp l))"
    using lp_recv_effect(1) [OF wf] lp_recv_buffer [of "ll_resp l"] recv by simp_all
  show ?thesis
  proof (cases r)
    case None
    then show ?thesis
      using assms recv s lp_recv_none_counts [OF recv [unfolded None] wf]
      by (simp add: lp_try_recv_response_def lp_lane_ok_def)
  next
    case (Some v)
    have c: "lp_contents (ll_resp l) = v # lp_contents s" using lp_recv_effect(2) [OF wf] recv Some by simp
    then have "0 < unat (ll_inflight l)" using assms by (auto simp: lp_lane_ok_def)
    then have "unat (ll_inflight l - 1) = unat (ll_inflight l) - 1" by (simp add: unat_minus_one unat_gt_0)
    then show ?thesis
      using assms recv Some s c lp_recv_counts [OF wf recv [unfolded Some]]
      by (auto simp: lp_try_recv_response_def lp_lane_ok_def)
  qed
qed

lemma lp_lane_recv_effect:
  assumes "lp_lane_ok depth max_inflight held mid l" "lp_lane_recv l = (r, l')"
  shows "lp_lane_ok depth max_inflight (held + (case r of Some _ \<Rightarrow> 1 | None \<Rightarrow> 0)) mid l'"
    and "lp_tokens_ok l accepted received \<Longrightarrow>
         lp_tokens_ok l' accepted (received @ (case r of Some x \<Rightarrow> [x] | None \<Rightarrow> []))"
proof -
  have wf: "lp_wf (ll_call l)" using assms by (simp add: lp_lane_ok_def)
  obtain q s where recv: "lp_recv (ll_call l) = (q, s)" by (cases "lp_recv (ll_call l)")
  have s: "lp_wf s" using lp_recv_effect(1) [OF wf] recv by simp
  have "lp_lane_ok depth max_inflight (held + (case r of Some _ \<Rightarrow> 1 | None \<Rightarrow> 0)) mid l' \<and>
      (lp_tokens_ok l accepted received \<longrightarrow>
       lp_tokens_ok l' accepted (received @ (case r of Some x \<Rightarrow> [x] | None \<Rightarrow> [])))"
  proof (cases "ll_available l = 0")
    case True
    then show ?thesis using assms by (auto simp: lp_lane_recv_def)
  next
    case False
    show ?thesis
    proof (cases q)
      case None
      then show ?thesis
        using assms recv s False lp_recv_none_counts [OF recv [unfolded None] wf]
        by (auto simp: lp_lane_recv_def lp_lane_ok_def lp_tokens_ok_def)
    next
      case (Some v)
      have c: "lp_contents (ll_call l) = v # lp_contents s" using lp_recv_effect(2) [OF wf] recv Some by simp
      then show ?thesis
        using assms recv Some s False lp_recv_counts [OF wf recv [unfolded Some]]
        by (auto simp: lp_lane_recv_def lp_lane_ok_def lp_tokens_ok_def add.commute)
    qed
  qed
  then show "lp_lane_ok depth max_inflight (held + (case r of Some _ \<Rightarrow> 1 | None \<Rightarrow> 0)) mid l'"
    "lp_tokens_ok l accepted received \<Longrightarrow>
     lp_tokens_ok l' accepted (received @ (case r of Some x \<Rightarrow> [x] | None \<Rightarrow> []))" by blast+
qed

lemma lp_lane_reply_effect:
  assumes "lp_lane_ok depth max_inflight (Suc held) mid l" "2 * max_inflight < depth"
  shows "lp_lane_ok depth max_inflight held mid (lp_lane_reply token resp l)"
    and "lp_contents (ll_resp (lp_lane_reply token resp l)) =
         lp_contents (ll_resp l) @ [\<lparr>rs_token = token, rs_data = resp\<rparr>]"
proof -
  have wf: "lp_wf (ll_resp l)" using assms(1) by (simp add: lp_lane_ok_def)
  have "lp_unreleased (ll_resp l) + length (lp_contents (ll_resp l)) + 1 < length (lp_buffer (ll_resp l))"
    using assms by (cases mid) (auto simp: lp_lane_ok_def)
  note ok = lp_send_room [OF wf this] and e = lp_send_effect [OF wf]
  show "lp_contents (ll_resp (lp_lane_reply token resp l)) =
      lp_contents (ll_resp l) @ [\<lparr>rs_token = token, rs_data = resp\<rparr>]"
    using e(2) ok by (simp add: lp_lane_reply_def)
  then show "lp_lane_ok depth max_inflight held mid (lp_lane_reply token resp l)"
    using assms(1) e(1) by (auto simp: lp_lane_ok_def lp_lane_reply_def)
qed

lemma lp_run_ok:
  assumes "lp_run depth max_inflight l accepted received held mid" "2 * max_inflight < depth" "depth < 2 ^ 64"
  shows "lp_lane_ok depth max_inflight (length held) mid l \<and> lp_tokens_ok l accepted received"
  using assms(1)
proof induction
  case lp_start
  then show ?case using lp_lane_new_ok [of depth max_inflight] assms(2,3) by simp
next
  case (lp_accepts l accepted received held req token l')
  then show ?case using lp_call_effect(1) [of depth max_inflight "length held" l req "Inr token" l']
      lp_call_effect(2) [of depth max_inflight "length held" l req "Inr token" l' accepted received] by auto
next
  case (lp_refuses l accepted received held req e l')
  then show ?case using lp_call_effect(1) [of depth max_inflight "length held" l req "Inl e" l']
      lp_call_effect(2) [of depth max_inflight "length held" l req "Inl e" l' accepted received] by auto
next
  case (lp_publishes l accepted received held)
  then show ?case using lp_sync_effect(1) by (auto simp: lp_lane_ok_def lp_tokens_ok_def lp_publish_calls_def)
next
  case (lp_releases l accepted received held)
  then show ?case
    using lp_sync_effect(2) [of "ll_resp l"] lp_visible_le [of "ll_call l"]
    by (auto simp: lp_lane_ok_def lp_tokens_ok_def lp_release_responses_def)
next
  case (lp_gets_response l accepted received held)
  then have "lp_tokens_ok (snd (lp_try_recv_response l)) accepted received"
    by (auto simp: lp_tokens_ok_def lp_try_recv_response_def split: prod.splits option.splits)
  then show ?case using lp_response_effect lp_gets_response by blast
next
  case (lp_looks l accepted received held mid)
  then show ?case using lp_sync_effect(3) by (auto simp: lp_lane_ok_def lp_tokens_ok_def)
next
  case (lp_frees_calls l accepted received held mid)
  then show ?case using lp_sync_effect(2) by (auto simp: lp_lane_ok_def lp_tokens_ok_def)
next
  case (lp_shows_responses l accepted received held mid)
  then show ?case using lp_sync_effect(1) by (auto simp: lp_lane_ok_def lp_tokens_ok_def)
next
  case (lp_receives l accepted received held mid token req l')
  then show ?case
    using lp_lane_recv_effect(1) [of depth max_inflight "length held" mid l "Some (token, req)" l']
      lp_lane_recv_effect(2) [of depth max_inflight "length held" mid l "Some (token, req)" l' accepted received] by auto
next
  case (lp_finds_none l accepted received held mid l')
  then show ?case
    using lp_lane_recv_effect(1) [of depth max_inflight "length held" mid l None l']
      lp_lane_recv_effect(2) [of depth max_inflight "length held" mid l None l' accepted received] by auto
next
  case (lp_answers l accepted received held mid token resp)
  then have "lp_lane_ok depth max_inflight (Suc (length (remove1 token held))) mid l"
    by (simp add: length_remove1) (metis Suc_pred length_pos_if_in_set)
  from lp_lane_reply_effect(1) [OF this assms(2)] show ?case
    using lp_answers by (simp add: lp_tokens_ok_def lp_lane_reply_def)
qed

text \<open>
  C21. On the Lamport channel the tokens of the two sides agree and, with rings more than twice as
  deep as the bound on requests in flight, no reply is lost.  However the steps of the caller
  and the server are interleaved, the server receives the accepted requests in order, each with
  the token its caller was given, and every reply it gives, in any order, is added to the
  response ring although the caller gives slots back only in \<open>sync\<close>.
\<close>
theorem lamport_tokens_and_replies:
  assumes "lp_run depth max_inflight l accepted received held mid"
    and "2 * max_inflight < depth" "depth < 2 ^ 64"
  shows "received = take (length received) accepted \<and>
    map snd (drop (length received) accepted) = lp_contents (ll_call l) \<and>
    (\<forall>token \<in> set held. lp_contents (ll_resp (lp_lane_reply token resp l)) =
       lp_contents (ll_resp l) @ [\<lparr>rs_token = token, rs_data = resp\<rparr>])"
proof (intro conjI ballI)
  note inv = lp_run_ok [OF assms]
  then have snd: "map snd accepted = map snd received @ lp_contents (ll_call l)"
    and fst: "map fst accepted = map word_of_nat [0..<length accepted]" "map fst received = map word_of_nat [0..<length received]"
    by (simp_all add: lp_tokens_ok_def)
  have len: "length received \<le> length accepted" using arg_cong [OF snd, of length] by simp
  have "map fst (take (length received) accepted) = map fst received"
    unfolding take_map [symmetric] fst using len by (simp add: take_map)
  moreover have "map snd (take (length received) accepted) = map snd received"
    unfolding take_map [symmetric] snd by simp
  ultimately show "received = take (length received) accepted" by (metis zip_map_fst_snd)
  show "map snd (drop (length received) accepted) = lp_contents (ll_call l)"
    unfolding drop_map [symmetric] snd by simp
  fix token assume "token \<in> set held"
  then have "lp_lane_ok depth max_inflight (Suc (length held - 1)) mid l" using inv by (cases held) auto
  from lp_lane_reply_effect(2) [OF this assms(2)]
  show "lp_contents (ll_resp (lp_lane_reply token resp l)) =
      lp_contents (ll_resp l) @ [\<lparr>rs_token = token, rs_data = resp\<rparr>]" .
qed

theorem lamport_tokens_and_replies_witness:
  "\<exists>l :: (nat, nat) lp_lane. lp_run 4 1 l [(0, 5)] [(0, 5)] [0] False \<and>
     lp_contents (ll_resp (lp_lane_reply 0 9 l)) = lp_contents (ll_resp l) @ [\<lparr>rs_token = 0, rs_data = 9\<rparr>]"
proof -
  let ?l0 = "lp_lane_new 4 1 :: (nat, nat) lp_lane"
  have "is_pow2 4" using is_pow2_double [OF is_pow2_double [OF is_pow2_1]] by simp
  then have r0: "lp_run 4 1 ?l0 [] [] [] False" by (rule lp_start)
  have "lp_call 5 ?l0 = (Inr 0, snd (lp_call 5 ?l0))" by code_simp
  from lp_accepts [OF r0 this] have r1: "lp_run 4 1 (snd (lp_call 5 ?l0)) [(0, 5)] [] [] False" by simp
  let ?l1 = "lp_release_responses (lp_publish_calls (snd (lp_call 5 ?l0)))"
  let ?l2 = "?l1\<lparr>ll_call := lp_refresh_head (ll_call ?l1), ll_available := lp_available (lp_refresh_head (ll_call ?l1))\<rparr>"
  from lp_looks [OF lp_releases [OF lp_publishes [OF r1]]] have r2: "lp_run 4 1 ?l2 [(0, 5)] [] [] False" .
  have "lp_lane_recv ?l2 = (Some (0, 5), snd (lp_lane_recv ?l2))" by code_simp
  from lp_receives [OF r2 this] have r: "lp_run 4 1 (snd (lp_lane_recv ?l2)) [(0, 5)] [(0, 5)] [0] False" by simp
  show ?thesis by (rule exI, rule conjI [OF r]) (use lamport_tokens_and_replies [OF r] in simp)
qed


end
