(* ===== verification/Mempc_FastForward.thy ===== *)
theory Mempc_FastForward
  imports Mempc_Common
begin

text \<open>
  Rings whose only coordination is a flag per slot: the FastForward ring and channel
  (\<^verbatim>\<open>mempc/src/fastforward.rs\<close>) and the response ring shared by the other channels
  (\<^verbatim>\<open>mempc/src/common.rs\<close>).  Positions count the values sent and received since the creation
  and are kept as natural numbers; a ring of no slots panics on its first use and is left out.
\<close>

section \<open>The rings\<close>

record 'v flag_ring =
  fr_slots :: "(bool \<times> 'v option) list"
  fr_w :: nat
  fr_r :: nat

definition fastforward_spsc :: "nat \<Rightarrow> 'v flag_ring" where
  "fastforward_spsc ring_depth = \<lparr>fr_slots = replicate ring_depth (False, None), fr_w = 0, fr_r = 0\<rparr>"

definition ff_try_send :: "'v \<Rightarrow> ('v, 'x) flag_ring_scheme \<Rightarrow> ('v + u64) \<times> ('v, 'x) flag_ring_scheme" where
  "ff_try_send v s =
     (let slot_idx = fr_w s mod length (fr_slots s)
      in if fst (fr_slots s ! slot_idx) then (Inl v, s)
         else (Inr (word_of_nat (fr_w s)),
               s\<lparr>fr_slots := (fr_slots s)[slot_idx := (True, Some v)], fr_w := fr_w s + 1\<rparr>))"

definition ff_try_recv :: "('v, 'x) flag_ring_scheme \<Rightarrow> (u64 \<times> 'v) option \<times> ('v, 'x) flag_ring_scheme" where
  "ff_try_recv s =
     (let slot_idx = fr_r s mod length (fr_slots s);
          slot = fr_slots s ! slot_idx
      in if \<not> fst slot then (None, s)
         else (map_option (Pair (word_of_nat (fr_r s))) (snd slot),
               s\<lparr>fr_slots := (fr_slots s)[slot_idx := (False, snd slot)], fr_r := fr_r s + 1\<rparr>))"

record 'v response_ring = "(u64 \<times> 'v) flag_ring" +
  rr_rx_alive :: bool

definition rr_new :: "nat \<Rightarrow> 'v response_ring option" where
  "rr_new capacity =
     (if is_pow2 capacity
      then Some \<lparr>fr_slots = replicate capacity (False, None), fr_w = 0, fr_r = 0, rr_rx_alive = True\<rparr>
      else None)"

definition try_push :: "u64 \<Rightarrow> 'v \<Rightarrow> 'v response_ring \<Rightarrow> bool \<times> 'v response_ring" where
  "try_push token data s =
     (if \<not> rr_rx_alive s then (False, s)
      else let i = fr_w s AND (length (fr_slots s) - 1)
           in if fst (fr_slots s ! i) then (False, s)
              else (True, s\<lparr>fr_slots := (fr_slots s)[i := (True, Some (token, data))], fr_w := fr_w s + 1\<rparr>))"

definition try_pop :: "'v response_ring \<Rightarrow> (u64 \<times> 'v) option \<times> 'v response_ring" where
  "try_pop s =
     (let i = fr_r s AND (length (fr_slots s) - 1);
          slot = fr_slots s ! i
      in if \<not> fst slot then (None, s)
         else (snd slot, s\<lparr>fr_slots := (fr_slots s)[i := (False, snd slot)], fr_r := fr_r s + 1\<rparr>))"

definition disconnect_rx :: "'v response_ring \<Rightarrow> 'v response_ring" where
  "disconnect_rx s = s\<lparr>rr_rx_alive := False\<rparr>"

text \<open>The flags say exactly which of the positions are filled.\<close>

definition fr_wf :: "('v, 'x) flag_ring_scheme \<Rightarrow> bool" where
  "fr_wf s \<longleftrightarrow>
     0 < length (fr_slots s) \<and> fr_r s \<le> fr_w s \<and> fr_w s \<le> fr_r s + length (fr_slots s) \<and>
     (\<forall>k. fr_r s \<le> k \<longrightarrow> k < fr_w s \<longrightarrow>
        fst (fr_slots s ! (k mod length (fr_slots s))) \<and> snd (fr_slots s ! (k mod length (fr_slots s))) \<noteq> None) \<and>
     (\<forall>k. fr_w s \<le> k \<longrightarrow> k < fr_r s + length (fr_slots s) \<longrightarrow> \<not> fst (fr_slots s ! (k mod length (fr_slots s))))"

definition fr_contents :: "('v, 'x) flag_ring_scheme \<Rightarrow> 'v list" where
  "fr_contents s = map (the \<circ> snd) (cells (fr_slots s) (fr_r s) (fr_w s - fr_r s))"

lemma length_fr_contents [simp]: "length (fr_contents s) = fr_w s - fr_r s"
  by (simp add: fr_contents_def)

text \<open>Positions of one turn of the ring have slots of their own.\<close>

lemma mod_slot_eq:
  assumes "r \<le> j" "j < r + c" "r \<le> k" "k < r + (c :: nat)"
  shows "j mod c = k mod c \<longleftrightarrow> j = k"
proof
  assume eq: "j mod c = k mod c"
  have jk: "r + (j - r) = j" "r + (k - r) = k" "j - r < c" "k - r < c" using assms by auto
  have "j - r = k - r"
  proof (cases "j \<le> k")
    case True
    then show ?thesis using jk eq by (intro mod_add_inj_le [of r "j - r" c "k - r"]) auto
  next
    case False
    then show ?thesis using jk eq by (intro mod_add_inj_le [of r "k - r" c "j - r", symmetric]) auto
  qed
  then show "j = k" using jk by linarith
qed simp

lemma ff_try_send_cases:
  assumes "fr_wf s"
  obtains (full) "ff_try_send v s = (Inl v, s)" "length (fr_contents s) = length (fr_slots s)"
  | (sent) s' where "ff_try_send v s = (Inr (word_of_nat (fr_w s)), s')" "fr_wf s'"
      "fr_contents s' = fr_contents s @ [v]" "length (fr_contents s) < length (fr_slots s)"
      "length (fr_slots s') = length (fr_slots s)" "fr_w s' = fr_w s + 1" "fr_r s' = fr_r s"
proof -
  let ?b = "fr_slots s" and ?c = "length (fr_slots s)" and ?w = "fr_w s" and ?r = "fr_r s"
  have wf: "0 < ?c" "?r \<le> ?w" "?w \<le> ?r + ?c"
    "\<And>k. ?r \<le> k \<Longrightarrow> k < ?w \<Longrightarrow> fst (?b ! (k mod ?c)) \<and> snd (?b ! (k mod ?c)) \<noteq> None"
    "\<And>k. ?w \<le> k \<Longrightarrow> k < ?r + ?c \<Longrightarrow> \<not> fst (?b ! (k mod ?c))"
    using assms by (auto simp: fr_wf_def)
  show thesis
  proof (cases "?w = ?r + ?c")
    case True
    have "fst (?b ! (?r mod ?c))" using wf(1) wf(4) [of ?r] True by simp
    then show thesis using full True by (simp add: ff_try_send_def Let_def)
  next
    case False
    then have lt: "?w < ?r + ?c" using wf(3) by simp
    define s' where "s' = s\<lparr>fr_slots := ?b[?w mod ?c := (True, Some v)], fr_w := ?w + 1\<rparr>"
    have slot: "?w mod ?c < ?c" using wf(1) by (intro mod_less_divisor) linarith
    have n: "?r + (?w - ?r) = ?w" "?w - ?r < ?c" "?w + 1 - ?r = Suc (?w - ?r)" using wf(2) lt by auto
    have "fst (fr_slots s' ! (k mod ?c)) \<and> snd (fr_slots s' ! (k mod ?c)) \<noteq> None" if "?r \<le> k" "k < ?w + 1" for k
      using that wf(4) [of k] mod_slot_eq [of ?r k ?c ?w] lt slot wf(2)
      by (cases "k = ?w") (simp_all add: s'_def nth_list_update)
    moreover have "\<not> fst (fr_slots s' ! (k mod ?c))" if "?w + 1 \<le> k" "k < ?r + ?c" for k
      using that wf(5) [of k] mod_slot_eq [of ?r k ?c ?w] lt slot wf(2) by (simp add: s'_def nth_list_update)
    ultimately have "fr_wf s'" using wf(1-3) lt by (simp add: fr_wf_def s'_def)
    moreover have "fr_contents s' = fr_contents s @ [v]"
      using cells_write [OF n(2), of ?r "(True, Some v)"] unfolding n(1)
      by (simp add: fr_contents_def s'_def n(3) [simplified])
    moreover have "ff_try_send v s = (Inr (word_of_nat ?w), s')"
      using wf(5) [of ?w] lt by (simp add: ff_try_send_def Let_def s'_def)
    ultimately show thesis using sent n(2) by (simp add: s'_def)
  qed
qed

lemma ff_try_recv_cases:
  assumes "fr_wf s"
  obtains (empty) "ff_try_recv s = (None, s)" "fr_contents s = []"
      "\<not> fst (fr_slots s ! (fr_r s mod length (fr_slots s)))"
  | (got) v s' where "ff_try_recv s = (Some (word_of_nat (fr_r s), v), s')" "fr_wf s'"
      "fr_contents s = v # fr_contents s'" "length (fr_slots s') = length (fr_slots s)"
      "fr_w s' = fr_w s" "fr_r s' = fr_r s + 1"
proof -
  let ?b = "fr_slots s" and ?c = "length (fr_slots s)" and ?w = "fr_w s" and ?r = "fr_r s"
  have wf: "0 < ?c" "?r \<le> ?w" "?w \<le> ?r + ?c"
    "\<And>k. ?r \<le> k \<Longrightarrow> k < ?w \<Longrightarrow> fst (?b ! (k mod ?c)) \<and> snd (?b ! (k mod ?c)) \<noteq> None"
    "\<And>k. ?w \<le> k \<Longrightarrow> k < ?r + ?c \<Longrightarrow> \<not> fst (?b ! (k mod ?c))"
    using assms by (auto simp: fr_wf_def)
  show thesis
  proof (cases "?r = ?w")
    case True
    then have "\<not> fst (?b ! (?r mod ?c))" using wf(1) wf(5) [of ?r] by simp
    then show thesis using empty True by (simp add: ff_try_recv_def Let_def fr_contents_def)
  next
    case False
    then have lt: "?r < ?w" "?w - ?r = Suc (?w - Suc ?r)" using wf(2) by auto
    obtain v where v: "fst (?b ! (?r mod ?c))" "snd (?b ! (?r mod ?c)) = Some v" using wf(4) [of ?r] lt by auto
    define s' where "s' = s\<lparr>fr_slots := ?b[?r mod ?c := (False, Some v)], fr_r := ?r + 1\<rparr>"
    have slot: "?r mod ?c < ?c" using wf(1) by (intro mod_less_divisor) linarith
    have "fst (fr_slots s' ! (k mod ?c)) \<and> snd (fr_slots s' ! (k mod ?c)) \<noteq> None" if "?r + 1 \<le> k" "k < ?w" for k
      using that wf(3) wf(4) [of k] mod_slot_eq [of ?r k ?c ?r] wf(1) by (simp add: s'_def nth_list_update)
    moreover have "\<not> fst (fr_slots s' ! (k mod ?c))" if "?w \<le> k" "k < ?r + 1 + ?c" for k
    proof (cases "k = ?r + ?c")
      case True
      then show ?thesis using slot by (simp add: s'_def)
    next
      case False
      then show ?thesis
        using that lt(1) wf(5) [of k] mod_slot_eq [of ?r k ?c ?r] wf(1) by (simp add: s'_def nth_list_update)
    qed
    ultimately have "fr_wf s'" using wf(1-3) lt by (simp add: fr_wf_def s'_def)
    moreover have "fr_contents s = v # fr_contents s'"
    proof -
      have "cells ?b ?r (?w - ?r) = ?b ! (?r mod ?c) # cells ?b (Suc ?r) (?w - Suc ?r)"
        unfolding lt(2) by (rule cells_Suc)
      moreover have "?w - Suc ?r < ?c" using wf(1,3) lt(1) by linarith
      ultimately show ?thesis using v by (simp add: fr_contents_def s'_def cells_update_start)
    qed
    moreover have "ff_try_recv s = (Some (word_of_nat ?r, v), s')"
      using v by (simp add: ff_try_recv_def Let_def s'_def)
    ultimately show thesis using got by (simp add: s'_def)
  qed
qed

lemma fastforward_spsc_wf:
  "0 < ring_depth \<Longrightarrow> fr_wf (fastforward_spsc ring_depth)" "fr_contents (fastforward_spsc ring_depth) = []"
  by (simp_all add: fr_wf_def fastforward_spsc_def fr_contents_def)

text \<open>The response ring is the same ring, addressed by a mask and closed by its receiver.\<close>

lemma try_push_eq:
  assumes "is_pow2 (length (fr_slots s))"
  shows "try_push token data s =
    (if rr_rx_alive s then case ff_try_send (token, data) s of (Inr _, s') \<Rightarrow> (True, s') | (Inl _, s') \<Rightarrow> (False, s')
     else (False, s))"
  using and_pow2_mod [OF assms, of "fr_w s"] by (simp add: try_push_def ff_try_send_def Let_def)

lemma try_pop_eq:
  assumes "is_pow2 (length (fr_slots s))"
  shows "try_pop s = (case ff_try_recv s of (r, s') \<Rightarrow> (map_option snd r, s'))"
  using and_pow2_mod [OF assms, of "fr_r s"] by (simp add: try_pop_def ff_try_recv_def Let_def option.map_comp comp_def option.map_ident)

section \<open>The channel\<close>

text \<open>
  The server never uses the receiver of a call ring: it keeps a position of its own per caller
  and reads and clears the slots directly.  In a lane the reading position of the call ring is
  that position.
\<close>

record ('q, 'p) ff_lane =
  fl_call :: "'q flag_ring"
  fl_resp :: "'p response flag_ring"
  fl_send_count :: u64
  fl_inflight :: u64
  fl_max_inflight :: u64

definition ff_lane_new :: "nat \<Rightarrow> nat \<Rightarrow> ('q, 'p) ff_lane" where
  "ff_lane_new ring_depth max_inflight =
     \<lparr>fl_call = fastforward_spsc ring_depth, fl_resp = fastforward_spsc ring_depth, fl_send_count = 0,
      fl_inflight = 0, fl_max_inflight = word_of_nat max_inflight\<rparr>"

definition ff_call :: "'q \<Rightarrow> ('q, 'p) ff_lane \<Rightarrow> ('q call_error + u64) \<times> ('q, 'p) ff_lane" where
  "ff_call req l =
     (if fl_max_inflight l \<le> fl_inflight l then (Inl (InflightExceeded req), l)
      else case ff_try_send req (fl_call l) of
             (Inr _, c) \<Rightarrow>
               (Inr (fl_send_count l),
                l\<lparr>fl_call := c, fl_send_count := fl_send_count l + 1, fl_inflight := fl_inflight l + 1\<rparr>)
           | (Inl r, c) \<Rightarrow> (Inl (Full r), l\<lparr>fl_call := c\<rparr>))"

definition ff_try_recv_response :: "('q, 'p) ff_lane \<Rightarrow> (u64 \<times> 'p) option \<times> ('q, 'p) ff_lane" where
  "ff_try_recv_response l =
     (case ff_try_recv (fl_resp l) of
        (Some (_, resp), r) \<Rightarrow>
          (Some (rs_token resp, rs_data resp), l\<lparr>fl_resp := r, fl_inflight := fl_inflight l - 1\<rparr>)
      | (None, r) \<Rightarrow> (None, l\<lparr>fl_resp := r\<rparr>))"

definition ff_pending_count :: "('q, 'p) ff_lane \<Rightarrow> u64" where
  "ff_pending_count l = fl_inflight l"

record ('q, 'p) ff_server =
  fs_callers :: "('q, 'p) ff_lane list"
  fs_available :: "nat list"
  fs_scan_idx :: nat

definition ff_slot_idx :: "('q, 'p) ff_lane \<Rightarrow> nat" where
  "ff_slot_idx l = fr_r (fl_call l) mod length (fr_slots (fl_call l))"

definition ff_is_valid :: "('q, 'p) ff_lane \<Rightarrow> bool" where
  "ff_is_valid l = fst (fr_slots (fl_call l) ! ff_slot_idx l)"

primrec ff_poll_scan :: "nat \<Rightarrow> ('q, 'p) ff_server \<Rightarrow> ('q, 'p) ff_server" where
  "ff_poll_scan 0 s = s"
| "ff_poll_scan (Suc k) s =
     (let caller_id = fs_scan_idx s;
          s1 = s\<lparr>fs_scan_idx := (if length (fs_callers s) \<le> caller_id + 1 then 0 else caller_id + 1)\<rparr>
      in ff_poll_scan k
           (if ff_is_valid (fs_callers s ! caller_id) then s1\<lparr>fs_available := fs_available s1 @ [caller_id]\<rparr> else s1))"

definition ff_poll :: "('q, 'p) ff_server \<Rightarrow> u32 \<times> ('q, 'p) ff_server" where
  "ff_poll s =
     (let s1 = ff_poll_scan (length (fs_callers s)) (s\<lparr>fs_available := []\<rparr>)
      in (word_of_nat (length (fs_available s1)), s1))"

definition swap_remove_0 :: "'a list \<Rightarrow> 'a list" where
  "swap_remove_0 xs = (case tl xs of [] \<Rightarrow> [] | ys \<Rightarrow> last ys # butlast ys)"

record ff_recv_ref =
  fre_caller_id :: nat
  fre_slot_idx :: nat

definition ff_server_try_recv :: "('q, 'p) ff_server \<Rightarrow> ff_recv_ref option \<times> ('q, 'p) ff_server" where
  "ff_server_try_recv s =
     (case fs_available s of
        [] \<Rightarrow> (None, s)
      | caller_id # _ \<Rightarrow>
          let s1 = s\<lparr>fs_available := swap_remove_0 (fs_available s)\<rparr>;
              l = fs_callers s ! caller_id
          in if \<not> ff_is_valid l then (None, s1)
             else (Some \<lparr>fre_caller_id = caller_id, fre_slot_idx = ff_slot_idx l\<rparr>, s1))"

definition ff_ref_data :: "ff_recv_ref \<Rightarrow> ('q, 'p) ff_server \<Rightarrow> 'q option" where
  "ff_ref_data r s = snd (fr_slots (fl_call (fs_callers s ! fre_caller_id r)) ! fre_slot_idx r)"

text \<open>Taking the request out of its ring, as \<open>into_token\<close> and \<open>reply\<close> of the handle do.\<close>

definition ff_consume :: "nat \<Rightarrow> ('q, 'p) ff_lane \<Rightarrow> u64 \<times> ('q, 'p) ff_lane" where
  "ff_consume slot_idx l =
     (let c = fl_call l
      in (word_of_nat (fr_r c),
          l\<lparr>fl_call := c\<lparr>fr_slots := (fr_slots c)[slot_idx := (False, snd (fr_slots c ! slot_idx))],
                           fr_r := fr_r c + 1\<rparr>\<rparr>))"

definition ff_lane_reply :: "u64 \<Rightarrow> 'p \<Rightarrow> ('q, 'p) ff_lane \<Rightarrow> ('q, 'p) ff_lane" where
  "ff_lane_reply token resp l =
     l\<lparr>fl_resp := snd (ff_try_send \<lparr>rs_token = token, rs_data = resp\<rparr> (fl_resp l))\<rparr>"

definition ff_into_token :: "ff_recv_ref \<Rightarrow> ('q, 'p) ff_server \<Rightarrow> reply_token \<times> ('q, 'p) ff_server" where
  "ff_into_token r s =
     (let i = fre_caller_id r; (token, l) = ff_consume (fre_slot_idx r) (fs_callers s ! i)
      in (\<lparr>rt_caller_id = i, rt_slot_token = token\<rparr>, s\<lparr>fs_callers := (fs_callers s)[i := l]\<rparr>))"

definition ff_ref_reply :: "ff_recv_ref \<Rightarrow> 'p \<Rightarrow> ('q, 'p) ff_server \<Rightarrow> ('q, 'p) ff_server" where
  "ff_ref_reply r resp s =
     (let i = fre_caller_id r; (token, l) = ff_consume (fre_slot_idx r) (fs_callers s ! i)
      in s\<lparr>fs_callers := (fs_callers s)[i := ff_lane_reply token resp l]\<rparr>)"

text \<open>\<open>None\<close>: the index of the caller is out of range and the server panics.\<close>

definition ff_reply :: "reply_token \<Rightarrow> 'p \<Rightarrow> ('q, 'p) ff_server \<Rightarrow> ('q, 'p) ff_server option" where
  "ff_reply token resp s =
     (let i = rt_caller_id token
      in if i < length (fs_callers s)
         then Some (s\<lparr>fs_callers := (fs_callers s)[i := ff_lane_reply (rt_slot_token token) resp (fs_callers s ! i)]\<rparr>)
         else None)"

definition fastforward_create :: "nat \<Rightarrow> nat \<Rightarrow> nat \<Rightarrow> ('q, 'p) ff_server" where
  "fastforward_create max_callers ring_depth max_inflight =
     \<lparr>fs_callers = replicate max_callers (ff_lane_new ring_depth max_inflight), fs_available = [], fs_scan_idx = 0\<rparr>"

section \<open>The channel in use\<close>

definition ff_lane_ok :: "nat \<Rightarrow> nat \<Rightarrow> ('q, 'p) ff_lane \<Rightarrow> bool" where
  "ff_lane_ok depth held l \<longleftrightarrow>
     fr_wf (fl_call l) \<and> fr_wf (fl_resp l) \<and>
     length (fr_slots (fl_call l)) = depth \<and> length (fr_slots (fl_resp l)) = depth \<and>
     unat (fl_max_inflight l) \<le> depth \<and> fl_inflight l \<le> fl_max_inflight l \<and>
     length (fr_contents (fl_call l)) + held + length (fr_contents (fl_resp l)) \<le> unat (fl_inflight l) \<and>
     fl_send_count l = word_of_nat (fr_w (fl_call l))"

lemma ff_lane_new_ok:
  assumes "0 < depth" "depth < 2 ^ 64" "max_inflight \<le> depth"
  shows "ff_lane_ok depth 0 (ff_lane_new depth max_inflight)"
proof -
  have "unat (word_of_nat max_inflight :: u64) = max_inflight" using assms(2,3) by (simp add: unat_of_nat)
  moreover have "length (fr_slots (fastforward_spsc depth)) = depth" "fr_w (fastforward_spsc depth) = 0" for depth
    by (simp_all add: fastforward_spsc_def)
  ultimately show ?thesis
    using assms(3) by (simp add: ff_lane_ok_def ff_lane_new_def fastforward_spsc_wf(1) [OF assms(1)])
      (simp add: fastforward_spsc_def)
qed

lemma ff_call_cases:
  assumes "ff_lane_ok depth held l"
  obtains (exceeded) "ff_call req l = (Inl (InflightExceeded req), l)" "fl_inflight l = fl_max_inflight l"
  | (sent) l' where "ff_call req l = (Inr (word_of_nat (fr_w (fl_call l))), l')" "ff_lane_ok depth held l'"
      "fr_contents (fl_call l') = fr_contents (fl_call l) @ [req]" "fr_w (fl_call l') = fr_w (fl_call l) + 1"
      "fr_r (fl_call l') = fr_r (fl_call l)" "fl_inflight l < fl_max_inflight l"
proof (cases "fl_inflight l < fl_max_inflight l")
  case False
  then show thesis using exceeded assms by (simp add: ff_call_def ff_lane_ok_def not_less)
next
  case True
  have lt: "unat (fl_inflight l) < unat (fl_max_inflight l)" using True by (simp add: word_less_nat_alt)
  have wf: "fr_wf (fl_call l)" using assms by (simp add: ff_lane_ok_def)
  show thesis
  proof (cases rule: ff_try_send_cases [OF wf, of req])
    case 1
    then show thesis using assms lt by (simp add: ff_lane_ok_def)
  next
    case (2 c)
    define l' where "l' = l\<lparr>fl_call := c, fl_send_count := fl_send_count l + 1, fl_inflight := fl_inflight l + 1\<rparr>"
    have inc: "unat (fl_inflight l + 1) = unat (fl_inflight l) + 1" by (rule unat_inc_less [OF lt])
    have "ff_call req l = (Inr (word_of_nat (fr_w (fl_call l))), l')"
      using True 2(1) assms by (simp add: ff_call_def l'_def ff_lane_ok_def not_le [symmetric])
    moreover have "length (fr_contents c) = length (fr_contents (fl_call l)) + 1" using 2(3) by simp
    then have "ff_lane_ok depth held l'"
      using assms 2(2,5,6) lt inc by (simp add: ff_lane_ok_def l'_def word_le_nat_alt add.commute)
    ultimately show thesis by (rule sent) (use 2 True in \<open>simp_all add: l'_def\<close>)
  qed
qed

lemma ff_response_cases:
  assumes "ff_lane_ok depth held l"
  obtains (empty) "ff_try_recv_response l = (None, l)" "fr_contents (fl_resp l) = []"
  | (got) r l' where "ff_try_recv_response l = (Some (rs_token r, rs_data r), l')" "ff_lane_ok depth held l'"
      "fr_contents (fl_resp l) = r # fr_contents (fl_resp l')" "fl_call l' = fl_call l"
proof -
  have wf: "fr_wf (fl_resp l)" using assms by (simp add: ff_lane_ok_def)
  show thesis
  proof (cases rule: ff_try_recv_cases [OF wf])
    case 1
    then show thesis using empty by (simp add: ff_try_recv_response_def)
  next
    case (2 v s)
    define l' where "l' = l\<lparr>fl_resp := s, fl_inflight := fl_inflight l - 1\<rparr>"
    have len: "length (fr_contents (fl_resp l)) = Suc (length (fr_contents s))" unfolding 2(3) by (rule length_Cons)
    then have "0 < unat (fl_inflight l)" using assms by (simp add: ff_lane_ok_def)
    then have "unat (fl_inflight l - 1) = unat (fl_inflight l) - 1" "0 < unat (fl_inflight l)"
      by (simp_all add: unat_minus_one unat_gt_0)
    then have "ff_lane_ok depth held l'"
      using assms 2(2,4) len by (auto simp: ff_lane_ok_def l'_def word_le_nat_alt)
    moreover have "ff_try_recv_response l = (Some (rs_token v, rs_data v), l')"
      using 2(1) by (simp add: ff_try_recv_response_def l'_def)
    ultimately show thesis using got 2(3) by (simp add: l'_def)
  qed
qed

lemma ff_consume_effect:
  assumes "ff_lane_ok depth held l" "ff_is_valid l"
  shows "\<exists>v l'. snd (fr_slots (fl_call l) ! ff_slot_idx l) = Some v \<and>
     ff_consume (ff_slot_idx l) l = (word_of_nat (fr_r (fl_call l)), l') \<and> ff_lane_ok depth (Suc held) l' \<and>
     fr_contents (fl_call l) = v # fr_contents (fl_call l') \<and> fl_resp l' = fl_resp l \<and>
     fr_r (fl_call l') = fr_r (fl_call l) + 1 \<and> fr_w (fl_call l') = fr_w (fl_call l)"
proof -
  have wf: "fr_wf (fl_call l)" using assms by (simp add: ff_lane_ok_def)
  show ?thesis
  proof (cases rule: ff_try_recv_cases [OF wf])
    case 1
    then show ?thesis using assms(2) by (simp add: ff_is_valid_def ff_slot_idx_def)
  next
    case (2 v s)
    have v: "snd (fr_slots (fl_call l) ! ff_slot_idx l) = Some v"
      and s: "s = (fl_call l)\<lparr>fr_slots := (fr_slots (fl_call l))[ff_slot_idx l := (False, Some v)],
                          fr_r := fr_r (fl_call l) + 1\<rparr>"
      using 2(1) assms(2) by (auto simp: ff_try_recv_def ff_is_valid_def ff_slot_idx_def Let_def)
    have "length (fr_contents (fl_call l)) = Suc (length (fr_contents s))" unfolding 2(3) by (rule length_Cons)
    then have "ff_lane_ok depth (Suc held) (l\<lparr>fl_call := s\<rparr>)"
      using assms(1) 2(2,4,5) by (simp add: ff_lane_ok_def)
    moreover have "ff_consume (ff_slot_idx l) l = (word_of_nat (fr_r (fl_call l)), l\<lparr>fl_call := s\<rparr>)"
      using v s by (simp add: ff_consume_def Let_def)
    ultimately show ?thesis using v 2(3,5,6) by simp
  qed
qed

lemma ff_lane_reply_effect:
  assumes "ff_lane_ok depth (Suc held) l"
  shows "ff_lane_ok depth held (ff_lane_reply token resp l)"
    and "fr_contents (fl_resp (ff_lane_reply token resp l)) =
         fr_contents (fl_resp l) @ [\<lparr>rs_token = token, rs_data = resp\<rparr>]"
proof -
  let ?r = "\<lparr>rs_token = token, rs_data = resp\<rparr>"
  have wf: "fr_wf (fl_resp l)" using assms by (simp add: ff_lane_ok_def)
  have room: "length (fr_contents (fl_resp l)) < length (fr_slots (fl_resp l))"
    using assms by (auto simp: ff_lane_ok_def word_le_nat_alt)
  have "\<exists>s. ff_lane_reply token resp l = l\<lparr>fl_resp := s\<rparr> \<and> fr_wf s \<and> fr_contents s = fr_contents (fl_resp l) @ [?r] \<and>
      length (fr_slots s) = length (fr_slots (fl_resp l))"
    by (cases rule: ff_try_send_cases [OF wf, of ?r]) (use room in \<open>auto simp: ff_lane_reply_def\<close>)
  then obtain s where s: "ff_lane_reply token resp l = l\<lparr>fl_resp := s\<rparr>" "fr_wf s"
    "fr_contents s = fr_contents (fl_resp l) @ [?r]" "length (fr_slots s) = length (fr_slots (fl_resp l))" by blast
  show "fr_contents (fl_resp (ff_lane_reply token resp l)) = fr_contents (fl_resp l) @ [?r]" using s by simp
  have "length (fr_contents s) = length (fr_contents (fl_resp l)) + 1" unfolding s(3) by simp
  then show "ff_lane_ok depth held (ff_lane_reply token resp l)" using assms s(1,2,4) by (simp add: ff_lane_ok_def)
qed

text \<open>
  \<open>accepted\<close> lists the tokens returned to the caller with their requests, \<open>received\<close> what the
  server took out of the ring, \<open>held\<close> the tokens not yet answered.
\<close>

inductive ff_run ::
  "nat \<Rightarrow> nat \<Rightarrow> ('q, 'p) ff_lane \<Rightarrow> (u64 \<times> 'q) list \<Rightarrow> (u64 \<times> 'q) list \<Rightarrow> u64 list \<Rightarrow> bool"
  for depth max_inflight where
  ff_start: "ff_run depth max_inflight (ff_lane_new depth max_inflight) [] [] []"
| ff_accepts: "ff_run depth max_inflight l accepted received held \<Longrightarrow> ff_call req l = (Inr token, l') \<Longrightarrow>
    ff_run depth max_inflight l' (accepted @ [(token, req)]) received held"
| ff_refuses: "ff_run depth max_inflight l accepted received held \<Longrightarrow> ff_call req l = (Inl e, l') \<Longrightarrow>
    ff_run depth max_inflight l' accepted received held"
| ff_gets_response: "ff_run depth max_inflight l accepted received held \<Longrightarrow>
    ff_run depth max_inflight (snd (ff_try_recv_response l)) accepted received held"
| ff_takes: "ff_run depth max_inflight l accepted received held \<Longrightarrow> ff_is_valid l \<Longrightarrow>
    snd (fr_slots (fl_call l) ! ff_slot_idx l) = Some req \<Longrightarrow>
    ff_consume (ff_slot_idx l) l = (token, l') \<Longrightarrow>
    ff_run depth max_inflight l' accepted (received @ [(token, req)]) (held @ [token])"
| ff_answers: "ff_run depth max_inflight l accepted received held \<Longrightarrow> token \<in> set held \<Longrightarrow>
    ff_run depth max_inflight (ff_lane_reply token resp l) accepted received (remove1 token held)"

lemma ff_run_ok:
  assumes "ff_run depth max_inflight l accepted received held"
    and "max_inflight \<le> depth" "0 < depth" "depth < 2 ^ 64"
  shows "ff_lane_ok depth (length held) l \<and>
    accepted = received @ zip (map word_of_nat [fr_r (fl_call l)..<fr_w (fl_call l)]) (fr_contents (fl_call l))"
  using assms(1)
proof induction
  case ff_start
  show ?case using ff_lane_new_ok [OF assms(3,4,2)] by (simp add: ff_lane_new_def fastforward_spsc_def fr_contents_def)
next
  case (ff_accepts l accepted received held req token l')
  then have ok: "ff_lane_ok depth (length held) l" by simp
  then have "fr_r (fl_call l) \<le> fr_w (fl_call l)" by (simp add: ff_lane_ok_def fr_wf_def)
  then show ?case by (cases rule: ff_call_cases [OF ok, of req]) (use ff_accepts in \<open>auto simp: zip_append1\<close>)
next
  case (ff_refuses l accepted received held req e l')
  then have ok: "ff_lane_ok depth (length held) l" by simp
  show ?case by (cases rule: ff_call_cases [OF ok, of req]) (use ff_refuses in auto)
next
  case (ff_gets_response l accepted received held)
  then have ok: "ff_lane_ok depth (length held) l" by simp
  show ?case by (cases rule: ff_response_cases [OF ok]) (use ff_gets_response in auto)
next
  case (ff_takes l accepted received held req token l')
  then have ok: "ff_lane_ok depth (length held) l" by simp
  from ff_consume_effect [OF ok ff_takes(2)] ff_takes(3,4)
  have e: "token = word_of_nat (fr_r (fl_call l))" "ff_lane_ok depth (Suc (length held)) l'"
    "fr_contents (fl_call l) = req # fr_contents (fl_call l')" "fr_r (fl_call l') = fr_r (fl_call l) + 1"
    "fr_w (fl_call l') = fr_w (fl_call l)" by auto
  have "fr_r (fl_call l) < fr_w (fl_call l)" using arg_cong [OF e(3), of length] by simp
  then show ?case using e ff_takes.IH by (simp add: upt_conv_Cons)
next
  case (ff_answers l accepted received held token resp)
  then have "ff_lane_ok depth (Suc (length (remove1 token held))) l"
    by (simp add: length_remove1) (metis Suc_pred length_pos_if_in_set)
  from ff_lane_reply_effect(1) [OF this] show ?case using ff_answers by (simp add: ff_lane_reply_def)
qed

text \<open>
  C22. On the FastForward channel with rings at least as deep as the bound on requests in flight,
  the flags alone keep both sides in step: the requests the server has taken are the first of the
  accepted ones, each with the token its caller was given; a call is refused only because of the
  bound, never because the ring is full; and every reply, in any order, is added to the
  responses.
\<close>
theorem fastforward_channel:
  assumes "ff_run depth max_inflight l accepted received held"
    and "max_inflight \<le> depth" "0 < depth" "depth < 2 ^ 64"
  shows "received = take (length received) accepted \<and>
    map snd (drop (length received) accepted) = fr_contents (fl_call l) \<and>
    fst (ff_call req l) \<noteq> Inl (Full req) \<and>
    (\<forall>token \<in> set held. fr_contents (fl_resp (ff_lane_reply token resp l)) =
       fr_contents (fl_resp l) @ [\<lparr>rs_token = token, rs_data = resp\<rparr>])"
proof (intro conjI ballI)
  note inv = ff_run_ok [OF assms]
  then have ok: "ff_lane_ok depth (length held) l" by blast
  let ?rest = "zip (map word_of_nat [fr_r (fl_call l)..<fr_w (fl_call l)]) (fr_contents (fl_call l))"
  have acc: "accepted = received @ ?rest" using inv by blast
  then show "received = take (length received) accepted" by simp
  show "map snd (drop (length received) accepted) = fr_contents (fl_call l)" using acc by simp
  show "fst (ff_call req l) \<noteq> Inl (Full req)" by (cases rule: ff_call_cases [OF ok, of req]) simp_all
  fix token assume "token \<in> set held"
  then have "ff_lane_ok depth (Suc (length held - 1)) l" using ok by (cases held) auto
  from ff_lane_reply_effect(2) [OF this]
  show "fr_contents (fl_resp (ff_lane_reply token resp l)) =
      fr_contents (fl_resp l) @ [\<lparr>rs_token = token, rs_data = resp\<rparr>]" .
qed

theorem fastforward_channel_witness:
  "\<exists>l :: (nat, nat) ff_lane. ff_run 1 1 l [(0, 5)] [(0, 5)] [0] \<and>
     fr_contents (fl_resp (ff_lane_reply 0 9 l)) = fr_contents (fl_resp l) @ [\<lparr>rs_token = 0, rs_data = 9\<rparr>]"
proof -
  let ?l0 = "ff_lane_new 1 1 :: (nat, nat) ff_lane"
  let ?l1 = "snd (ff_call 5 ?l0)"
  have "ff_call 5 ?l0 = (Inr 0, ?l1)" by code_simp
  from ff_accepts [OF ff_start this] have r1: "ff_run 1 1 ?l1 [(0, 5)] [] []" by simp
  have "ff_is_valid ?l1" "snd (fr_slots (fl_call ?l1) ! ff_slot_idx ?l1) = Some 5"
    "ff_consume (ff_slot_idx ?l1) ?l1 = (0, snd (ff_consume (ff_slot_idx ?l1) ?l1))" by code_simp+
  from ff_takes [OF r1 this] have r: "ff_run 1 1 (snd (ff_consume (ff_slot_idx ?l1) ?l1)) [(0, 5)] [(0, 5)] [0]" by simp
  show ?thesis by (rule exI, rule conjI [OF r]) (use fastforward_channel [OF r] in simp)
qed

end
