(* ===== verification/Mempc_Onesided.thy ===== *)
theory Mempc_Onesided
  imports Mempc_Common
begin

text \<open>
  The ring only the producer writes, with a generation per slot, and the channel of many callers
  and one server built from two such rings per caller (\<^verbatim>\<open>mempc/src/onesided.rs\<close>).  The sender
  has no way to see how far the receiver is: it overwrites whatever the next slot holds, and
  only the bound on the requests in flight keeps a value from being lost.
\<close>

section \<open>The ring\<close>

record 'v os_slot =
  os_generation :: u64
  os_data :: "'v option"

record 'v onesided =
  os_slots :: "'v os_slot list"
  os_mask :: u64
  os_head :: u64
  os_sends_since_publish :: u64
  os_tail :: u64
  os_tx_alive :: bool
  os_rx_alive :: bool

definition os_slot_init :: "'v os_slot" where
  "os_slot_init = \<lparr>os_generation = - 1, os_data = None\<rparr>"

definition create_spsc :: "nat \<Rightarrow> 'v onesided" where
  "create_spsc capacity =
     \<lparr>os_slots = replicate capacity os_slot_init, os_mask = word_of_nat (capacity - 1), os_head = 0,
      os_sends_since_publish = 0, os_tail = 0, os_tx_alive = True, os_rx_alive = True\<rparr>"

definition raw_try_send :: "'v \<Rightarrow> 'v onesided \<Rightarrow> nat option \<times> 'v onesided" where
  "raw_try_send v s =
     (let slot_idx = unat (os_head s AND os_mask s)
      in (Some slot_idx,
          s\<lparr>os_slots := (os_slots s)[slot_idx := \<lparr>os_generation = os_head s, os_data = Some v\<rparr>],
            os_sends_since_publish := os_sends_since_publish s + 1,
            os_head := os_head s + 1\<rparr>))"

definition os_publish :: "'v onesided \<Rightarrow> 'v onesided" where
  "os_publish s = s\<lparr>os_sends_since_publish := 0\<rparr>"

definition raw_try_recv :: "'v onesided \<Rightarrow> (nat \<times> 'v) option \<times> 'v onesided" where
  "raw_try_recv s =
     (let slot_idx = unat (os_tail s AND os_mask s);
          slot = os_slots s ! slot_idx
      in if os_generation slot \<noteq> os_tail s then (None, s)
         else (map_option (Pair slot_idx) (os_data slot), s\<lparr>os_tail := os_tail s + 1\<rparr>))"

definition os_available :: "'v onesided \<Rightarrow> nat" where
  "os_available s =
     (let slot = os_slots s ! unat (os_tail s AND os_mask s)
      in if os_generation slot = os_tail s then 1 else 0)"

primrec os_count_from :: "'v onesided \<Rightarrow> nat \<Rightarrow> u64 \<Rightarrow> nat" where
  "os_count_from s 0 pos = 0"
| "os_count_from s (Suc n) pos =
     (let slot = os_slots s ! unat (pos AND os_mask s)
      in if os_generation slot \<noteq> pos then 0 else Suc (os_count_from s n (pos + 1)))"

definition count_available :: "u32 \<Rightarrow> 'v onesided \<Rightarrow> nat" where
  "count_available lim s = os_count_from s (unat lim) (os_tail s)"

definition os_try_send :: "'v \<Rightarrow> 'v onesided \<Rightarrow> nat option \<times> 'v onesided" where
  "os_try_send v s = (if \<not> os_rx_alive s then (None, s) else raw_try_send v s)"

definition os_tx_drop :: "'v onesided \<Rightarrow> 'v onesided" where
  "os_tx_drop s = s\<lparr>os_tx_alive := False\<rparr>"

definition os_rx_drop :: "'v onesided \<Rightarrow> 'v onesided" where
  "os_rx_drop s = s\<lparr>os_rx_alive := False\<rparr>"

text \<open>
  The sender is at position \<open>h\<close>, the receiver at \<open>t\<close>: the last \<open>cap\<close> positions written carry
  their generation, slots not written yet carry the initial one.
\<close>

definition os_at :: "nat \<Rightarrow> nat \<Rightarrow> 'v onesided \<Rightarrow> bool" where
  "os_at h t s \<longleftrightarrow>
     os_head s = word_of_nat h \<and> os_tail s = word_of_nat t \<and> t \<le> h \<and> h \<le> t + length (os_slots s) \<and>
     (\<forall>k. k < h \<longrightarrow> h \<le> k + length (os_slots s) \<longrightarrow>
          os_generation (os_slots s ! (k mod length (os_slots s))) = word_of_nat k) \<and>
     (\<forall>i. h \<le> i \<longrightarrow> i < length (os_slots s) \<longrightarrow> os_generation (os_slots s ! i) = - 1) \<and>
     None \<notin> set (map os_data (cells (os_slots s) t (h - t)))"

definition os_cap :: "'v onesided \<Rightarrow> bool" where
  "os_cap s \<longleftrightarrow>
     ring_cap TYPE(64) (length (os_slots s)) \<and> length (os_slots s) < 2 ^ 64 \<and>
     os_mask s = word_of_nat (length (os_slots s) - 1)"

definition os_wf :: "'v onesided \<Rightarrow> bool" where
  "os_wf s \<longleftrightarrow> os_cap s \<and> (\<exists>h t. os_at h t s)"

definition os_count :: "'v onesided \<Rightarrow> nat" where
  "os_count s = unat (os_head s - os_tail s)"

definition os_contents :: "'v onesided \<Rightarrow> 'v list" where
  "os_contents s = map (the \<circ> os_data) (window (os_slots s) (os_tail s) (os_count s))"

lemma length_os_contents [simp]: "length (os_contents s) = os_count s"
  by (simp add: os_contents_def)

lemma os_slot_eq: "os_cap s \<Longrightarrow> unat (word_of_nat p AND os_mask s) = p mod length (os_slots s)"
  using mask_slot [of "length (os_slots s)" p, where 'i = 64] by (simp add: os_cap_def)

lemma os_count_at: "os_cap s \<Longrightarrow> os_at h t s \<Longrightarrow> os_count s = h - t"
  using unat_of_nat_sub [of t h, where 'i = 64] by (auto simp: os_count_def os_at_def os_cap_def)

lemma os_contents_at:
  assumes "os_cap s" "os_at h t s"
  shows "os_contents s = map (the \<circ> os_data) (cells (os_slots s) t (h - t))"
  using assms os_count_at [OF assms] window_of_nat [of "os_slots s" t, where 'i = 64]
  by (simp add: os_contents_def os_at_def os_cap_def)

lemma os_at_generation:
  "os_at h t s \<Longrightarrow> k < h \<Longrightarrow> h \<le> k + length (os_slots s) \<Longrightarrow>
     os_generation (os_slots s ! (k mod length (os_slots s))) = word_of_nat k"
  by (simp add: os_at_def)

text \<open>The test on the generation tells whether the position has been written.\<close>

lemma os_generation_iff:
  assumes "os_cap s" "os_at h t s" "t \<le> p" "p \<le> h"
  shows "os_generation (os_slots s ! (p mod length (os_slots s))) = word_of_nat p \<longleftrightarrow> p < h"
proof -
  let ?c = "length (os_slots s)"
  have c: "?c < 2 ^ 64" "0 < ?c" using assms(1) ring_cap_pos by (auto simp: os_cap_def)
  have "os_generation (os_slots s ! (h mod ?c)) \<noteq> word_of_nat h"
  proof (cases "?c \<le> h")
    case True
    have "os_generation (os_slots s ! ((h - ?c) mod ?c)) = word_of_nat (h - ?c)"
      by (rule os_at_generation [OF assms(2)]) (use True c in linarith)+
    moreover have "(h - ?c) mod ?c = h mod ?c" using True by (simp add: le_mod_geq)
    moreover have "h - ?c \<noteq> h" using True c by linarith
    then have "(word_of_nat (h - ?c) :: u64) \<noteq> word_of_nat h"
      by (subst of_nat_word_eq) (use True c in simp_all)
    ultimately show ?thesis by simp
  next
    case False
    then have "os_generation (os_slots s ! (h mod ?c)) = - 1" using assms(2) by (simp add: os_at_def)
    moreover have "(- 1 :: u64) \<noteq> word_of_nat h"
    proof
      assume "(- 1 :: u64) = word_of_nat h"
      then have "unat (- 1 :: u64) = unat (word_of_nat h :: u64)" by (rule arg_cong)
      then show False using False c by (simp add: unat_of_nat unsigned_minus_1_eq_mask mask_eq_exp_minus_1)
    qed
    ultimately show ?thesis by simp
  qed
  moreover have "os_generation (os_slots s ! (p mod ?c)) = word_of_nat p" if "p < h"
    using assms(2,3) that by (simp add: os_at_def)
  ultimately show ?thesis using assms(4) by (cases "p = h") auto
qed

lemma raw_try_send_effect:
  assumes "os_wf s" "os_count s < length (os_slots s)"
  shows "os_wf (snd (raw_try_send v s))" "os_contents (snd (raw_try_send v s)) = os_contents s @ [v]"
proof -
  obtain h t where cap: "os_cap s" and at: "os_at h t s" using assms(1) by (auto simp: os_wf_def)
  let ?b = "os_slots s" and ?x = "\<lparr>os_generation = word_of_nat h, os_data = Some v\<rparr>"
  define s2 where "s2 = s\<lparr>os_slots := ?b[h mod length ?b := ?x],
      os_sends_since_publish := os_sends_since_publish s + 1, os_head := os_head s + 1\<rparr>"
  have send: "snd (raw_try_send v s) = s2"
    using at os_slot_eq [OF cap, of h] by (simp add: raw_try_send_def s2_def Let_def os_at_def)
  have n: "h - t < length ?b" "t + (h - t) = h" "h + 1 - t = Suc (h - t)"
    using assms(2) os_count_at [OF cap at] at by (auto simp: os_at_def)
  have cell: "cells (os_slots s2) t (h + 1 - t) = cells ?b t (h - t) @ [?x]"
    using cells_write [OF n(1), of t ?x] unfolding s2_def n(3) by (simp add: n(2))
  have gen: "os_generation (?b[h mod length ?b := ?x] ! (k mod length ?b)) = word_of_nat k"
    if "k < h + 1" "h + 1 \<le> k + length ?b" for k
  proof (cases "k = h")
    case True
    moreover have "h mod length ?b < length ?b" using n(1) by (intro mod_less_divisor) linarith
    ultimately show ?thesis by simp
  next
    case False
    then have "k < h" "h - k < length ?b" using that by auto
    then have "k mod length ?b \<noteq> h mod length ?b"
      using mod_add_inj_le [of k 0 "length ?b" "h - k"] by auto
    then show ?thesis using at that False by (simp add: os_at_def)
  qed
  have "os_at (h + 1) t s2"
    using at n cell gen by (auto simp: os_at_def s2_def add.commute nth_list_update)
  moreover have "os_cap s2" using cap by (simp add: os_cap_def s2_def)
  ultimately show "os_wf (snd (raw_try_send v s))"
    "os_contents (snd (raw_try_send v s)) = os_contents s @ [v]"
    using os_contents_at [of s2 "h + 1" t] os_contents_at [OF cap at] cell send by (auto simp: os_wf_def)
qed

lemma raw_try_recv_cases:
  assumes "os_wf s"
  obtains (empty) "os_contents s = []" "raw_try_recv s = (None, s)" "os_available s = 0"
  | (got) v where "os_contents s = v # os_contents (snd (raw_try_recv s))"
      "raw_try_recv s = (Some (unat (os_tail s AND os_mask s), v), s\<lparr>os_tail := os_tail s + 1\<rparr>)"
      "os_wf (snd (raw_try_recv s))" "os_available s = 1"
proof -
  obtain h t where cap: "os_cap s" and at: "os_at h t s" using assms(1) by (auto simp: os_wf_def)
  let ?b = "os_slots s" and ?c = "length (os_slots s)"
  have t: "t \<le> h" "os_tail s = word_of_nat t" using at by (auto simp: os_at_def)
  note gen = os_generation_iff [OF cap at order.refl t(1)]
  note slot = os_slot_eq [OF cap, of t]
  show thesis
  proof (cases "t = h")
    case True
    then have "os_contents s = []" using os_contents_at [OF cap at] by simp
    then show thesis using empty gen slot True by (simp add: raw_try_recv_def os_available_def Let_def t(2))
  next
    case False
    define s2 where "s2 = s\<lparr>os_tail := os_tail s + 1\<rparr>"
    have lt: "t < h" "h - t = Suc (h - Suc t)" using t(1) False by auto
    have w: "cells ?b t (h - t) = ?b ! (t mod ?c) # cells ?b (Suc t) (h - Suc t)"
      unfolding lt(2) by (rule cells_Suc)
    then obtain v where v: "os_data (?b ! (t mod ?c)) = Some v"
      using at by (cases "os_data (?b ! (t mod ?c))") (auto simp: os_at_def)
    have recv: "raw_try_recv s = (Some (unat (os_tail s AND os_mask s), v), s2)"
      using gen lt(1) v slot by (simp add: raw_try_recv_def Let_def s2_def t(2))
    have at2: "os_at h (Suc t) s2" using at w lt(1) by (auto simp: os_at_def s2_def add.commute)
    have cap2: "os_cap s2" using cap by (simp add: os_cap_def s2_def)
    have "os_contents s = v # os_contents s2"
      using os_contents_at [OF cap2 at2] os_contents_at [OF cap at] w v by (simp add: s2_def)
    moreover have "os_available s = 1" using gen lt(1) slot by (simp add: os_available_def Let_def t(2))
    ultimately show thesis using got recv at2 cap2 by (auto simp: os_wf_def s2_def)
  qed
qed

lemma raw_try_recv_effect:
  assumes "os_wf s"
  shows "os_wf (snd (raw_try_recv s))"
    and "(case fst (raw_try_recv s) of Some (_, v) \<Rightarrow> [v] | None \<Rightarrow> []) @ os_contents (snd (raw_try_recv s)) =
         os_contents s"
    and "fst (raw_try_recv s) = None \<longleftrightarrow> os_contents s = []"
  using assms by (cases rule: raw_try_recv_cases [OF assms]; simp)+

lemma os_count_from_eq:
  assumes "os_cap s" "os_at h t s" "t \<le> p" "p \<le> h"
  shows "os_count_from s n (word_of_nat p) = min n (h - p)"
  using assms(3,4)
proof (induction n arbitrary: p)
  case (Suc n)
  note gen = os_generation_iff [OF assms(1,2) Suc.prems] and slot = os_slot_eq [OF assms(1), of p]
  show ?case
  proof (cases "p < h")
    case True
    then have "os_count_from s n (word_of_nat (Suc p)) = min n (h - Suc p)"
      using Suc.prems by (intro Suc.IH) simp_all
    then show ?thesis using gen slot True by (simp add: Let_def add.commute)
  next
    case False
    then show ?thesis using gen slot Suc.prems by simp
  qed
qed simp

lemma count_available_eq: "os_wf s \<Longrightarrow> count_available lim s = min (unat lim) (os_count s)"
  using os_count_from_eq os_count_at unfolding os_wf_def count_available_def os_at_def
  by (metis order.refl)

lemma create_spsc_wf:
  assumes "is_pow2 capacity" "capacity < 2 ^ 64"
  shows "os_wf (create_spsc capacity)" "os_contents (create_spsc capacity) = []"
proof -
  have "os_at 0 0 (create_spsc capacity)" by (simp add: os_at_def create_spsc_def os_slot_init_def)
  moreover have "os_cap (create_spsc capacity)"
    using assms by (simp add: os_cap_def create_spsc_def ring_cap_def)
  ultimately show "os_wf (create_spsc capacity)" by (auto simp: os_wf_def)
  show "os_contents (create_spsc capacity) = []" by (simp add: os_contents_def os_count_def create_spsc_def)
qed

lemma create_spsc_shape [simp]:
  "length (os_slots (create_spsc capacity)) = capacity" "os_count (create_spsc capacity) = 0"
  "os_rx_alive (create_spsc capacity)"
  by (simp_all add: create_spsc_def os_count_def)

lemma os_try_send_effect:
  assumes "os_wf s" "os_count s < length (os_slots s)"
  shows "os_wf (snd (os_try_send v s))"
    and "os_contents (snd (os_try_send v s)) = os_contents s @ (if os_rx_alive s then [v] else [])"
    and "os_count (snd (os_try_send v s)) = os_count s + (if os_rx_alive s then 1 else 0)"
proof -
  show "os_wf (snd (os_try_send v s))"
    and c: "os_contents (snd (os_try_send v s)) = os_contents s @ (if os_rx_alive s then [v] else [])"
    using raw_try_send_effect [OF assms] assms(1) by (simp_all add: os_try_send_def)
  from arg_cong [OF c, of length]
  show "os_count (snd (os_try_send v s)) = os_count s + (if os_rx_alive s then 1 else 0)" by simp
qed

lemma os_ring_shape [simp]:
  "length (os_slots (snd (os_try_send v s))) = length (os_slots s)"
  "length (os_slots (snd (raw_try_recv s))) = length (os_slots s)"
  "os_rx_alive (snd (os_try_send v s)) = os_rx_alive s"
  "os_rx_alive (snd (raw_try_recv s)) = os_rx_alive s"
  by (simp_all add: os_try_send_def raw_try_send_def raw_try_recv_def Let_def)

lemma os_flags [simp]:
  "os_wf (os_publish s) = os_wf s" "os_wf (os_tx_drop s) = os_wf s" "os_wf (os_rx_drop s) = os_wf s"
  "os_contents (os_publish s) = os_contents s" "os_contents (os_tx_drop s) = os_contents s"
  "os_contents (os_rx_drop s) = os_contents s"
  "os_count (os_publish s) = os_count s" "os_count (os_tx_drop s) = os_count s" "os_count (os_rx_drop s) = os_count s"
  "length (os_slots (os_publish s)) = length (os_slots s)" "length (os_slots (os_tx_drop s)) = length (os_slots s)"
  "length (os_slots (os_rx_drop s)) = length (os_slots s)"
  by (simp_all add: os_publish_def os_tx_drop_def os_rx_drop_def os_wf_def os_cap_def os_at_def
      os_contents_def os_count_def)

text \<open>The ring as a queue: a send is allowed while the receiver is less than a ring behind.\<close>

datatype 'v onesided_op = OsSend 'v | OsPublish | OsRecv | OsTxDrop | OsRxDrop

fun onesided_step :: "'v onesided_op \<Rightarrow> 'v onesided \<Rightarrow> 'v onesided" where
  "onesided_step (OsSend v) s = snd (os_try_send v s)"
| "onesided_step OsPublish s = os_publish s"
| "onesided_step OsRecv s = snd (raw_try_recv s)"
| "onesided_step OsTxDrop s = os_tx_drop s"
| "onesided_step OsRxDrop s = os_rx_drop s"

fun onesided_allowed :: "'v onesided_op \<Rightarrow> 'v onesided \<Rightarrow> bool" where
  "onesided_allowed (OsSend v) s \<longleftrightarrow> os_count s < length (os_slots s)"
| "onesided_allowed _ s \<longleftrightarrow> True"

fun onesided_taken :: "'v onesided_op \<Rightarrow> 'v onesided \<Rightarrow> 'v list" where
  "onesided_taken (OsSend v) s = (case fst (os_try_send v s) of Some _ \<Rightarrow> [v] | None \<Rightarrow> [])"
| "onesided_taken _ s = []"

fun onesided_given :: "'v onesided_op \<Rightarrow> 'v onesided \<Rightarrow> 'v list" where
  "onesided_given OsRecv s = (case fst (raw_try_recv s) of Some (_, v) \<Rightarrow> [v] | None \<Rightarrow> [])"
| "onesided_given _ s = []"

lemma os_try_send_result: "fst (os_try_send v s) = None \<longleftrightarrow> \<not> os_rx_alive s"
  by (simp add: os_try_send_def raw_try_send_def Let_def)

interpretation osf: fifo os_wf os_contents onesided_allowed onesided_step onesided_taken onesided_given
proof unfold_locales
  fix s :: "'a onesided" and op
  assume wf: "os_wf s" and allowed: "onesided_allowed op s"
  show "os_wf (onesided_step op s)"
    using wf allowed os_try_send_effect(1) raw_try_recv_effect(1) by (cases op) simp_all
  show "onesided_given op s @ os_contents (onesided_step op s) = os_contents s @ onesided_taken op s"
  proof (cases op)
    case (OsSend v)
    then show ?thesis
      using os_try_send_effect(2) [OF wf, of v] os_try_send_result [of v s] allowed
      by (auto split: option.splits)
  qed (simp_all add: raw_try_recv_effect(2) [OF wf])
qed

text \<open>
  The one-sided ring is a first-in first-out channel as long as no send is made a whole ring
  ahead of the receiver: the generations alone tell the receiver what is there, through every
  wrap of the ring and of the 64-bit positions, and \<open>count_available\<close> reports exactly the
  number of waiting values up to its limit.
\<close>
theorem onesided_fifo:
  assumes "is_pow2 capacity" "capacity < 2 ^ 64"
    and "ops_allowed onesided_step onesided_allowed ops (create_spsc capacity)"
  shows "let s0 = create_spsc capacity; s = run_ops onesided_step ops s0
         in ops_collect onesided_step onesided_given ops s0 @ os_contents s =
              ops_collect onesided_step onesided_taken ops s0 \<and>
            count_available lim s = min (unat lim) (length (os_contents s)) \<and>
            (fst (raw_try_recv s) = None \<longleftrightarrow> os_contents s = [])"
proof -
  note c = create_spsc_wf [OF assms(1,2)]
  have wf: "os_wf (run_ops onesided_step ops (create_spsc capacity))"
    by (rule osf.run_inv [OF c(1) assms(3)])
  show ?thesis
    using osf.run_contents [OF c(1) assms(3)] c(2) count_available_eq [OF wf, of lim]
      raw_try_recv_effect(3) [OF wf] unfolding Let_def by simp
qed

theorem onesided_fifo_witness:
  "let s0 = create_spsc 2 :: nat onesided;
       ops = [OsSend 7, OsSend 8, OsRecv, OsSend 9, OsRecv]
   in ops_allowed onesided_step onesided_allowed ops s0 \<and>
      ops_collect onesided_step onesided_given ops s0 = [7, 8] \<and>
      ops_collect onesided_step onesided_given ops s0 @ os_contents (run_ops onesided_step ops s0) =
        ops_collect onesided_step onesided_taken ops s0"
proof -
  let ?s = "create_spsc 2 :: nat onesided"
  let ?ops = "[OsSend (7 :: nat), OsSend 8, OsRecv, OsSend 9, OsRecv]"
  have a: "ops_allowed onesided_step onesided_allowed ?ops ?s"
    "ops_collect onesided_step onesided_given ?ops ?s = [7, 8]"
    by (simp_all add: create_spsc_def os_slot_init_def os_try_send_def raw_try_send_def raw_try_recv_def
        os_count_def eval_nat_numeral)
  have "is_pow2 2" using is_pow2_double [OF is_pow2_1] by simp
  then have "ops_collect onesided_step onesided_given ?ops ?s @ os_contents (run_ops onesided_step ?ops ?s) =
      ops_collect onesided_step onesided_taken ?ops ?s"
    using onesided_fifo [of 2 ?ops, OF _ _ a(1), unfolded Let_def] by (simp only:) simp
  then show ?thesis using a unfolding Let_def by blast
qed

end
