(* ===== verification/Mempc_Onesided_Channel.thy ===== *)
theory Mempc_Onesided_Channel
  imports Mempc_Onesided
begin

text \<open>
  The channel of \<^verbatim>\<open>mempc/src/onesided.rs\<close>: every caller owns a call ring and a response ring,
  one server scans the call rings in turn.  A lane is one caller with the two ends the server
  keeps for it.  The server's program may hold any number of reply tokens and answer them in
  any order; \<open>os_step\<close> is one operation of one of the parties.
\<close>

section \<open>Callers and the server\<close>

record ('q, 'p) os_lane =
  ol_call :: "'q onesided"
  ol_resp :: "'p response onesided"
  ol_inflight :: u64
  ol_max_inflight :: u64

definition os_call :: "'q \<Rightarrow> ('q, 'p) os_lane \<Rightarrow> ('q call_error + u64) \<times> ('q, 'p) os_lane" where
  "os_call req l =
     (if \<not> os_rx_alive (ol_call l) then (Inl (Disconnected req), l)
      else if ol_max_inflight l \<le> ol_inflight l then (Inl (InflightExceeded req), l)
      else case os_try_send req (ol_call l) of
             (Some slot_idx, c) \<Rightarrow>
               (Inr (word_of_nat slot_idx), l\<lparr>ol_call := c, ol_inflight := ol_inflight l + 1\<rparr>)
           | (None, c) \<Rightarrow> (Inl (Full req), l\<lparr>ol_call := c\<rparr>))"

definition os_sync :: "('q, 'p) os_lane \<Rightarrow> ('q, 'p) os_lane" where
  "os_sync l = l\<lparr>ol_call := os_publish (ol_call l)\<rparr>"

definition os_try_recv_response :: "('q, 'p) os_lane \<Rightarrow> (u64 \<times> 'p) option \<times> ('q, 'p) os_lane" where
  "os_try_recv_response l =
     (case raw_try_recv (ol_resp l) of
        (None, r) \<Rightarrow> (None, l\<lparr>ol_resp := r\<rparr>)
      | (Some (_, resp), r) \<Rightarrow>
          (Some (rs_token resp, rs_data resp), l\<lparr>ol_resp := r, ol_inflight := ol_inflight l - 1\<rparr>))"

definition os_pending_count :: "('q, 'p) os_lane \<Rightarrow> u64" where
  "os_pending_count l = ol_inflight l"

record ('q, 'p) os_server =
  os_lanes :: "('q, 'p) os_lane list"
  os_scan_pos :: nat

record 'q os_recv_ref =
  rr_caller_id :: nat
  rr_slot_idx :: nat
  rr_data :: 'q

definition os_into_token :: "'q os_recv_ref \<Rightarrow> reply_token" where
  "os_into_token r = \<lparr>rt_caller_id = rr_caller_id r, rt_slot_token = word_of_nat (rr_slot_idx r)\<rparr>"

definition os_poll :: "('q, 'p) os_server \<Rightarrow> u32" where
  "os_poll s = fold (\<lambda>l total. total + word_of_nat (os_available (ol_call l))) (os_lanes s) 0"

primrec os_scan :: "nat \<Rightarrow> ('q, 'p) os_server \<Rightarrow> 'q os_recv_ref option \<times> ('q, 'p) os_server" where
  "os_scan 0 s = (None, s)"
| "os_scan (Suc k) s =
     (let caller_id = os_scan_pos s;
          pos = (if length (os_lanes s) \<le> caller_id + 1 then 0 else caller_id + 1);
          l = os_lanes s ! caller_id
      in case raw_try_recv (ol_call l) of
           (Some (slot_idx, data), c) \<Rightarrow>
             (Some \<lparr>rr_caller_id = caller_id, rr_slot_idx = slot_idx, rr_data = data\<rparr>,
              s\<lparr>os_lanes := (os_lanes s)[caller_id := l\<lparr>ol_call := c\<rparr>], os_scan_pos := pos\<rparr>)
         | (None, c) \<Rightarrow>
             os_scan k (s\<lparr>os_lanes := (os_lanes s)[caller_id := l\<lparr>ol_call := c\<rparr>], os_scan_pos := pos\<rparr>))"

definition os_try_recv :: "('q, 'p) os_server \<Rightarrow> 'q os_recv_ref option \<times> ('q, 'p) os_server" where
  "os_try_recv s = os_scan (length (os_lanes s)) s"

definition os_lane_reply :: "u64 \<Rightarrow> 'p \<Rightarrow> ('q, 'p) os_lane \<Rightarrow> ('q, 'p) os_lane" where
  "os_lane_reply token resp l =
     l\<lparr>ol_resp := snd (os_try_send \<lparr>rs_token = token, rs_data = resp\<rparr> (ol_resp l))\<rparr>"

text \<open>\<open>None\<close>: the index of the caller is out of range and the server panics.\<close>

definition os_reply :: "reply_token \<Rightarrow> 'p \<Rightarrow> ('q, 'p) os_server \<Rightarrow> ('q, 'p) os_server option" where
  "os_reply token resp s =
     (let i = rt_caller_id token
      in if i < length (os_lanes s)
         then Some (s\<lparr>os_lanes := (os_lanes s)[i := os_lane_reply (rt_slot_token token) resp (os_lanes s ! i)]\<rparr>)
         else None)"

definition os_recv_ref_reply :: "'q os_recv_ref \<Rightarrow> 'p \<Rightarrow> ('q, 'p) os_server \<Rightarrow> ('q, 'p) os_server option" where
  "os_recv_ref_reply r resp s =
     (let i = rr_caller_id r
      in if i < length (os_lanes s)
         then Some (s\<lparr>os_lanes := (os_lanes s)[i := os_lane_reply (word_of_nat (rr_slot_idx r)) resp (os_lanes s ! i)]\<rparr>)
         else None)"

definition os_lane_new :: "nat \<Rightarrow> nat \<Rightarrow> ('q, 'p) os_lane" where
  "os_lane_new ring_depth max_inflight =
     \<lparr>ol_call = create_spsc ring_depth, ol_resp = create_spsc ring_depth,
      ol_inflight = 0, ol_max_inflight = word_of_nat max_inflight\<rparr>"

text \<open>\<open>None\<close>: the assertion on the depth fails.\<close>

definition onesided_create :: "nat \<Rightarrow> nat \<Rightarrow> nat \<Rightarrow> ('q, 'p) os_server option" where
  "onesided_create max_callers ring_depth max_inflight =
     (if is_pow2 ring_depth
      then Some \<lparr>os_lanes = replicate max_callers (os_lane_new ring_depth max_inflight), os_scan_pos = 0\<rparr>
      else None)"

definition os_caller_drop :: "('q, 'p) os_lane \<Rightarrow> ('q, 'p) os_lane" where
  "os_caller_drop l = l\<lparr>ol_call := os_tx_drop (ol_call l), ol_resp := os_rx_drop (ol_resp l)\<rparr>"

definition os_server_drop :: "('q, 'p) os_server \<Rightarrow> ('q, 'p) os_server" where
  "os_server_drop s =
     s\<lparr>os_lanes := map (\<lambda>l. l\<lparr>ol_call := os_rx_drop (ol_call l), ol_resp := os_tx_drop (ol_resp l)\<rparr>) (os_lanes s)\<rparr>"

section \<open>The bound on requests in flight\<close>

text \<open>\<open>held\<close> is the number of tokens the server's program holds for the lane.\<close>

definition os_lane_ok :: "nat \<Rightarrow> nat \<Rightarrow> ('q, 'p) os_lane \<Rightarrow> bool" where
  "os_lane_ok depth held l \<longleftrightarrow>
     os_wf (ol_call l) \<and> os_wf (ol_resp l) \<and>
     length (os_slots (ol_call l)) = depth \<and> length (os_slots (ol_resp l)) = depth \<and>
     unat (ol_max_inflight l) \<le> depth \<and> ol_inflight l \<le> ol_max_inflight l \<and>
     os_count (ol_call l) + held + os_count (ol_resp l) \<le> unat (ol_inflight l)"

lemma os_call_cases:
  assumes "os_lane_ok depth held l"
  obtains (disconnected) "os_call req l = (Inl (Disconnected req), l)" "\<not> os_rx_alive (ol_call l)"
  | (exceeded) "os_call req l = (Inl (InflightExceeded req), l)" "ol_inflight l = ol_max_inflight l"
  | (sent) l' where "os_call req l = (Inr (word_of_nat (unat (os_head (ol_call l) AND os_mask (ol_call l)))), l')"
      "ol_inflight l < ol_max_inflight l"
      "os_contents (ol_call l') = os_contents (ol_call l) @ [req]" "ol_resp l' = ol_resp l"
      "unat (ol_inflight l') = unat (ol_inflight l) + 1" "os_lane_ok depth held l'"
      "ol_call l' = snd (raw_try_send req (ol_call l))" "ol_max_inflight l' = ol_max_inflight l"
proof (cases "os_rx_alive (ol_call l) \<and> ol_inflight l < ol_max_inflight l")
  case True
  define l' where "l' = l\<lparr>ol_call := snd (raw_try_send req (ol_call l)), ol_inflight := ol_inflight l + 1\<rparr>"
  have lt: "unat (ol_inflight l) < unat (ol_max_inflight l)" using True by (simp add: word_less_nat_alt)
  then have inc: "unat (ol_inflight l') = unat (ol_inflight l) + 1"
    by (simp add: l'_def unat_inc_less)
  have room: "os_wf (ol_call l)" "os_count (ol_call l) < length (os_slots (ol_call l))"
    using assms lt by (auto simp: os_lane_ok_def)
  note e = os_try_send_effect [OF room, of req]
  have send: "os_try_send req (ol_call l) = raw_try_send req (ol_call l)" using True by (simp add: os_try_send_def)
  have call: "os_call req l = (Inr (word_of_nat (unat (os_head (ol_call l) AND os_mask (ol_call l)))), l')"
    using True send by (simp add: os_call_def l'_def raw_try_send_def Let_def not_le)
  have "os_wf (ol_call l')" "os_count (ol_call l') = os_count (ol_call l) + 1"
    "length (os_slots (ol_call l')) = length (os_slots (ol_call l))"
    using e(1,3) True send os_ring_shape(1) [of req "ol_call l"] by (simp_all add: l'_def)
  moreover have "ol_resp l' = ol_resp l" "ol_max_inflight l' = ol_max_inflight l" by (simp_all add: l'_def)
  ultimately have ok: "os_lane_ok depth held l'"
    using assms lt inc by (simp add: os_lane_ok_def word_le_nat_alt)
  have c: "os_contents (ol_call l') = os_contents (ol_call l) @ [req]"
    using e(2) True send by (simp add: l'_def)
  show thesis
    by (rule sent [OF call _ c _ inc ok]) (use True in \<open>simp_all add: l'_def\<close>)
next
  case False
  show thesis
  proof (cases "os_rx_alive (ol_call l)")
    case True
    with False assms have "ol_inflight l = ol_max_inflight l" by (simp add: os_lane_ok_def not_less)
    then show thesis by (intro exceeded) (simp_all add: os_call_def True)
  qed (intro disconnected, simp_all add: os_call_def)
qed

lemma os_try_recv_response_cases:
  assumes "os_lane_ok depth held l"
  obtains (empty) "os_try_recv_response l = (None, l)" "os_contents (ol_resp l) = []"
  | (got) r l' where "os_try_recv_response l = (Some (rs_token r, rs_data r), l')"
      "os_contents (ol_resp l) = r # os_contents (ol_resp l')" "ol_call l' = ol_call l"
      "unat (ol_inflight l') + 1 = unat (ol_inflight l)" "os_lane_ok depth held l'"
      "ol_max_inflight l' = ol_max_inflight l"
proof -
  have wf: "os_wf (ol_resp l)" using assms by (simp add: os_lane_ok_def)
  show thesis
  proof (cases rule: raw_try_recv_cases [OF wf])
    case 1
    then show thesis using empty by (simp add: os_try_recv_response_def)
  next
    case (2 r)
    let ?i = "unat (os_tail (ol_resp l) AND os_mask (ol_resp l))"
    define l' where "l' = l\<lparr>ol_resp := snd (raw_try_recv (ol_resp l)), ol_inflight := ol_inflight l - 1\<rparr>"
    have cnt: "os_count (ol_resp l) = Suc (os_count (ol_resp l'))"
      using arg_cong [OF 2(1), of length] by (simp add: l'_def)
    have "0 < unat (ol_inflight l)" using cnt assms by (auto simp: os_lane_ok_def)
    then have dec: "unat (ol_inflight l') + 1 = unat (ol_inflight l)"
      by (simp add: l'_def unat_minus_one unat_gt_0)
    have ok: "os_lane_ok depth held l'"
      using assms 2(3) cnt dec os_ring_shape(2) [of "ol_resp l"]
      by (auto simp: os_lane_ok_def word_le_nat_alt l'_def)
    have "os_try_recv_response l = (Some (rs_token r, rs_data r), l')"
      using 2(2) by (simp add: os_try_recv_response_def l'_def)
    then show thesis by (rule got) (use 2(1) dec ok in \<open>simp_all add: l'_def\<close>)
  qed
qed

lemma os_lane_reply_effect:
  assumes "os_lane_ok depth (Suc held) l"
  shows "os_lane_ok depth held (os_lane_reply token resp l)"
    and "os_contents (ol_resp (os_lane_reply token resp l)) =
         os_contents (ol_resp l) @ (if os_rx_alive (ol_resp l) then [\<lparr>rs_token = token, rs_data = resp\<rparr>] else [])"
proof -
  have room: "os_wf (ol_resp l)" "os_count (ol_resp l) < length (os_slots (ol_resp l))"
    using assms by (auto simp: os_lane_ok_def word_le_nat_alt)
  note e = os_try_send_effect [OF room]
  show "os_contents (ol_resp (os_lane_reply token resp l)) =
      os_contents (ol_resp l) @ (if os_rx_alive (ol_resp l) then [\<lparr>rs_token = token, rs_data = resp\<rparr>] else [])"
    using e(2) by (simp add: os_lane_reply_def)
  show "os_lane_ok depth held (os_lane_reply token resp l)"
    using assms e(1,3) by (auto simp: os_lane_ok_def os_lane_reply_def)
qed

lemma os_lane_recv_effect:
  assumes "os_lane_ok depth held l" "os_contents (ol_call l) = v # vs"
  shows "raw_try_recv (ol_call l) =
      (Some (unat (os_tail (ol_call l) AND os_mask (ol_call l)), v), snd (raw_try_recv (ol_call l)))"
    and "os_contents (snd (raw_try_recv (ol_call l))) = vs"
    and "os_lane_ok depth (Suc held) (l\<lparr>ol_call := snd (raw_try_recv (ol_call l))\<rparr>)"
proof -
  have wf: "os_wf (ol_call l)" using assms by (simp add: os_lane_ok_def)
  have "raw_try_recv (ol_call l) =
      (Some (unat (os_tail (ol_call l) AND os_mask (ol_call l)), v), snd (raw_try_recv (ol_call l))) \<and>
      os_contents (snd (raw_try_recv (ol_call l))) = vs"
    by (cases rule: raw_try_recv_cases [OF wf]) (use assms(2) in auto)
  then show r: "raw_try_recv (ol_call l) =
      (Some (unat (os_tail (ol_call l) AND os_mask (ol_call l)), v), snd (raw_try_recv (ol_call l)))"
    and c: "os_contents (snd (raw_try_recv (ol_call l))) = vs" by blast+
  have "os_count (ol_call l) = Suc (os_count (snd (raw_try_recv (ol_call l))))"
    using arg_cong [OF assms(2), of length] arg_cong [OF c, of length] by simp
  then show "os_lane_ok depth (Suc held) (l\<lparr>ol_call := snd (raw_try_recv (ol_call l))\<rparr>)"
    using assms(1) raw_try_recv_effect(1) [OF wf] by (simp add: os_lane_ok_def)
qed

section \<open>The whole channel\<close>

definition held_by :: "nat \<Rightarrow> reply_token list \<Rightarrow> nat" where
  "held_by i tokens = length (filter (\<lambda>tk. rt_caller_id tk = i) tokens)"

lemma held_by_Nil [simp]: "held_by i [] = 0"
  by (simp add: held_by_def)

lemma held_by_snoc [simp]: "held_by i (tokens @ [tk]) = held_by i tokens + (if rt_caller_id tk = i then 1 else 0)"
  by (simp add: held_by_def)

lemma held_by_remove1:
  "tk \<in> set tokens \<Longrightarrow>
     held_by i tokens = held_by i (remove1 tk tokens) + (if rt_caller_id tk = i then 1 else 0)"
  by (induction tokens) (auto simp: held_by_def)

inductive os_reachable ::
  "nat \<Rightarrow> nat \<Rightarrow> nat \<Rightarrow> ('q, 'p) os_server \<Rightarrow> reply_token list \<Rightarrow> bool"
  for max_callers ring_depth max_inflight where
  os_start: "onesided_create max_callers ring_depth max_inflight = Some s \<Longrightarrow>
    os_reachable max_callers ring_depth max_inflight s []"
| os_calls: "os_reachable max_callers ring_depth max_inflight s tokens \<Longrightarrow> i < length (os_lanes s) \<Longrightarrow>
    os_reachable max_callers ring_depth max_inflight
      (s\<lparr>os_lanes := (os_lanes s)[i := snd (os_call req (os_lanes s ! i))]\<rparr>) tokens"
| os_syncs: "os_reachable max_callers ring_depth max_inflight s tokens \<Longrightarrow> i < length (os_lanes s) \<Longrightarrow>
    os_reachable max_callers ring_depth max_inflight
      (s\<lparr>os_lanes := (os_lanes s)[i := os_sync (os_lanes s ! i)]\<rparr>) tokens"
| os_responses: "os_reachable max_callers ring_depth max_inflight s tokens \<Longrightarrow> i < length (os_lanes s) \<Longrightarrow>
    os_reachable max_callers ring_depth max_inflight
      (s\<lparr>os_lanes := (os_lanes s)[i := snd (os_try_recv_response (os_lanes s ! i))]\<rparr>) tokens"
| os_receives: "os_reachable max_callers ring_depth max_inflight s tokens \<Longrightarrow>
    os_try_recv s = (Some r, s') \<Longrightarrow>
    os_reachable max_callers ring_depth max_inflight s' (tokens @ [os_into_token r])"
| os_finds_none: "os_reachable max_callers ring_depth max_inflight s tokens \<Longrightarrow>
    os_try_recv s = (None, s') \<Longrightarrow> os_reachable max_callers ring_depth max_inflight s' tokens"
| os_replies: "os_reachable max_callers ring_depth max_inflight s tokens \<Longrightarrow> tk \<in> set tokens \<Longrightarrow>
    os_reply tk resp s = Some s' \<Longrightarrow>
    os_reachable max_callers ring_depth max_inflight s' (remove1 tk tokens)"
| os_forgets: "os_reachable max_callers ring_depth max_inflight s tokens \<Longrightarrow> tk \<in> set tokens \<Longrightarrow>
    os_reachable max_callers ring_depth max_inflight s (remove1 tk tokens)"
| os_caller_leaves: "os_reachable max_callers ring_depth max_inflight s tokens \<Longrightarrow> i < length (os_lanes s) \<Longrightarrow>
    os_reachable max_callers ring_depth max_inflight
      (s\<lparr>os_lanes := (os_lanes s)[i := os_caller_drop (os_lanes s ! i)]\<rparr>) tokens"
| os_server_leaves: "os_reachable max_callers ring_depth max_inflight s tokens \<Longrightarrow>
    os_reachable max_callers ring_depth max_inflight (os_server_drop s) tokens"

definition os_inv :: "nat \<Rightarrow> ('q, 'p) os_server \<Rightarrow> reply_token list \<Rightarrow> bool" where
  "os_inv depth s tokens \<longleftrightarrow>
     (\<forall>i < length (os_lanes s). os_lane_ok depth (held_by i tokens) (os_lanes s ! i)) \<and>
     (\<forall>tk \<in> set tokens. rt_caller_id tk < length (os_lanes s)) \<and>
     (os_lanes s = [] \<or> os_scan_pos s < length (os_lanes s))"

lemma os_inv_lane: "os_inv depth s tokens \<Longrightarrow> i < length (os_lanes s) \<Longrightarrow> os_lane_ok depth (held_by i tokens) (os_lanes s ! i)"
  by (simp add: os_inv_def)

text \<open>An operation on one lane, with what it does to the tokens held.\<close>

lemma os_inv_update:
  assumes "os_inv depth s tokens" "i < length (os_lanes s)" "os_lane_ok depth (held_by i tokens') l"
    and "\<And>j. j \<noteq> i \<Longrightarrow> held_by j tokens' = held_by j tokens" "set tokens' \<subseteq> set tokens \<union> {tk. rt_caller_id tk = i}"
    and "os_lanes s' = (os_lanes s)[i := l]" "os_scan_pos s' < length (os_lanes s)"
  shows "os_inv depth s' tokens'"
  unfolding os_inv_def
proof (intro conjI allI ballI impI)
  fix j assume "j < length (os_lanes s')"
  then show "os_lane_ok depth (held_by j tokens') (os_lanes s' ! j)"
    using assms(1-4,6) by (cases "j = i") (simp_all add: os_inv_def)
next
  fix tk assume "tk \<in> set tokens'"
  then show "rt_caller_id tk < length (os_lanes s')" using assms(1,2,5,6) by (auto simp: os_inv_def)
qed (use assms(6,7) in simp)

lemma os_inv_scan_pos: "os_inv depth s tokens \<Longrightarrow> i < length (os_lanes s) \<Longrightarrow> os_scan_pos s < length (os_lanes s)"
  by (auto simp: os_inv_def)

lemma os_inv_advance: "os_inv depth s tokens \<Longrightarrow> os_inv depth (s\<lparr>os_scan_pos := k mod length (os_lanes s)\<rparr>) tokens"
  by (cases "os_lanes s") (simp_all add: os_inv_def)

text \<open>The scan takes the first waiting request in cyclic order, starting at the scan position.\<close>

lemma next_scan_pos: "p < n \<Longrightarrow> (if n \<le> p + 1 then 0 else p + 1) = (p + 1) mod (n :: nat)"
  by (cases "p + 1 = n") simp_all

lemma os_scan_None:
  assumes "os_inv depth s tokens" "os_lanes s \<noteq> []" "os_scan k s = (None, s')"
  shows "os_lanes s' = os_lanes s \<and> os_scan_pos s' = (os_scan_pos s + k) mod length (os_lanes s) \<and>
         (\<forall>j < k. os_contents (ol_call (os_lanes s ! ((os_scan_pos s + j) mod length (os_lanes s)))) = [])"
  using assms
proof (induction k arbitrary: s)
  case 0
  then show ?case by (simp add: os_inv_def)
next
  case (Suc k)
  let ?n = "length (os_lanes s)" and ?p = "os_scan_pos s"
  let ?l = "os_lanes s ! ?p" and ?s = "s\<lparr>os_scan_pos := (?p + 1) mod ?n\<rparr>"
  have p: "?p < ?n" using Suc.prems by (auto simp: os_inv_def)
  have wf: "os_wf (ol_call ?l)" using os_inv_lane [OF Suc.prems(1) p] by (simp add: os_lane_ok_def)
  have e: "raw_try_recv (ol_call ?l) = (None, ol_call ?l)" "os_contents (ol_call ?l) = []"
    by (cases rule: raw_try_recv_cases [OF wf]; use Suc.prems(3) in \<open>auto simp: Let_def\<close>)+
  have scan: "os_scan k ?s = (None, s')"
    using Suc.prems(3) e(1) next_scan_pos [OF p] by (simp add: Let_def list_update_id)
  from Suc.IH [OF os_inv_advance [OF Suc.prems(1)] _ scan] have ih: "os_lanes s' = os_lanes s" "os_scan_pos s' = (?p + Suc k) mod ?n"
    "\<And>j. j < k \<Longrightarrow> os_contents (ol_call (os_lanes s ! ((?p + Suc j) mod ?n))) = []"
    using Suc.prems(2) by (simp_all add: mod_simps)
  have "os_contents (ol_call (os_lanes s ! ((?p + j) mod ?n))) = []" if "j < Suc k" for j
    using that ih(3) e(2) p by (cases j) simp_all
  then show ?case using ih(1,2) by simp
qed

lemma os_scan_Some:
  assumes "os_inv depth s tokens" "os_lanes s \<noteq> []" "os_scan k s = (Some r, s')"
  obtains j vs where "j < k" "rr_caller_id r = (os_scan_pos s + j) mod length (os_lanes s)"
    "\<And>i. i < j \<Longrightarrow> os_contents (ol_call (os_lanes s ! ((os_scan_pos s + i) mod length (os_lanes s)))) = []"
    "os_contents (ol_call (os_lanes s ! rr_caller_id r)) = rr_data r # vs"
    "rr_slot_idx r = unat (os_tail (ol_call (os_lanes s ! rr_caller_id r)) AND os_mask (ol_call (os_lanes s ! rr_caller_id r)))"
    "os_lanes s' = (os_lanes s)[rr_caller_id r := (os_lanes s ! rr_caller_id r)
        \<lparr>ol_call := snd (raw_try_recv (ol_call (os_lanes s ! rr_caller_id r)))\<rparr>]"
    "os_scan_pos s' = (rr_caller_id r + 1) mod length (os_lanes s)"
  using assms
proof (induction k arbitrary: s thesis)
  case (Suc k)
  let ?n = "length (os_lanes s)" and ?p = "os_scan_pos s"
  let ?l = "os_lanes s ! ?p" and ?s = "s\<lparr>os_scan_pos := (?p + 1) mod ?n\<rparr>"
  have p: "?p < ?n" using Suc.prems by (auto simp: os_inv_def)
  have ok: "os_lane_ok depth (held_by ?p tokens) ?l" by (rule os_inv_lane [OF Suc.prems(2) p])
  show ?case
  proof (cases "os_contents (ol_call ?l)")
    case Nil
    have "os_wf (ol_call ?l)" using ok by (simp add: os_lane_ok_def)
    then have "raw_try_recv (ol_call ?l) = (None, ol_call ?l)"
      by (cases rule: raw_try_recv_cases) (use Nil in simp_all)
    then have scan: "os_scan k ?s = (Some r, s')"
      using Suc.prems(4) next_scan_pos [OF p] by (simp add: Let_def list_update_id)
    note inv = os_inv_advance [OF Suc.prems(2), of "?p + 1"]
    obtain j vs where j: "j < k" "rr_caller_id r = (?p + Suc j) mod ?n"
      "\<And>i. i < j \<Longrightarrow> os_contents (ol_call (os_lanes s ! ((?p + Suc i) mod ?n))) = []"
      and rest: "os_contents (ol_call (os_lanes s ! rr_caller_id r)) = rr_data r # vs"
      "rr_slot_idx r = unat (os_tail (ol_call (os_lanes s ! rr_caller_id r)) AND os_mask (ol_call (os_lanes s ! rr_caller_id r)))"
      "os_lanes s' = (os_lanes s)[rr_caller_id r := (os_lanes s ! rr_caller_id r)
          \<lparr>ol_call := snd (raw_try_recv (ol_call (os_lanes s ! rr_caller_id r)))\<rparr>]"
      "os_scan_pos s' = (rr_caller_id r + 1) mod ?n"
      by (rule Suc.IH [OF _ inv _ scan]) (use Suc.prems(3) in \<open>simp_all add: mod_simps\<close>)
    have "os_contents (ol_call (os_lanes s ! ((?p + i) mod ?n))) = []" if "i < Suc j" for i
      using that j(3) Nil p by (cases i) simp_all
    then show ?thesis using Suc.prems(1) [of "Suc j" vs] j(1,2) rest by blast
  next
    case (Cons v vs)
    note e = os_lane_recv_effect [OF ok Cons]
    from Suc.prems(4) e(1) next_scan_pos [OF p]
    have "r = \<lparr>rr_caller_id = ?p, rr_slot_idx = unat (os_tail (ol_call ?l) AND os_mask (ol_call ?l)), rr_data = v\<rparr>"
      "s' = s\<lparr>os_lanes := (os_lanes s)[?p := ?l\<lparr>ol_call := snd (raw_try_recv (ol_call ?l))\<rparr>],
              os_scan_pos := (?p + 1) mod ?n\<rparr>"
      by (auto simp: Let_def split: prod.splits)
    then show ?thesis using Suc.prems(1) [of 0 vs] Cons p by simp
  qed
qed simp

lemma os_try_recv_inv:
  assumes "os_inv depth s tokens"
  shows "os_try_recv s = (None, s') \<Longrightarrow> os_inv depth s' tokens"
    and "os_try_recv s = (Some r, s') \<Longrightarrow> os_inv depth s' (tokens @ [os_into_token r])"
proof -
  show "os_inv depth s' tokens" if "os_try_recv s = (None, s')"
  proof (cases "os_lanes s = []")
    case False
    then show ?thesis using os_scan_None [OF assms False] that assms by (simp add: os_try_recv_def os_inv_def)
  qed (use that assms in \<open>simp add: os_try_recv_def\<close>)
  show "os_inv depth s' (tokens @ [os_into_token r])" if r: "os_try_recv s = (Some r, s')"
  proof -
    let ?i = "rr_caller_id r"
    have ne: "os_lanes s \<noteq> []" using r by (auto simp: os_try_recv_def)
    obtain j vs where j: "?i = (os_scan_pos s + j) mod length (os_lanes s)"
      "os_contents (ol_call (os_lanes s ! ?i)) = rr_data r # vs"
      "os_lanes s' = (os_lanes s)[?i := (os_lanes s ! ?i)\<lparr>ol_call := snd (raw_try_recv (ol_call (os_lanes s ! ?i)))\<rparr>]"
      "os_scan_pos s' = (?i + 1) mod length (os_lanes s)"
      using os_scan_Some [OF assms ne r [unfolded os_try_recv_def]] by metis
    have i: "?i < length (os_lanes s)" using j(1) ne by simp
    note ok = os_lane_recv_effect(3) [OF os_inv_lane [OF assms i] j(2)]
    show ?thesis
      by (rule os_inv_update [OF assms i _ _ _ j(3)]) (use ok ne j(4) in \<open>auto simp: os_into_token_def\<close>)
  qed
qed

lemma os_lane_new_ok:
  assumes "is_pow2 depth" "depth < 2 ^ 64" "max_inflight \<le> depth"
  shows "os_lane_ok depth 0 (os_lane_new depth max_inflight)"
proof -
  have "unat (word_of_nat max_inflight :: u64) = max_inflight" using assms(2,3) by (simp add: unat_of_nat)
  then show ?thesis using assms(3) by (simp add: os_lane_ok_def os_lane_new_def create_spsc_wf(1) [OF assms(1,2)])
qed

lemma os_reachable_inv:
  assumes "os_reachable max_callers ring_depth max_inflight s tokens"
    and "max_inflight \<le> ring_depth" "ring_depth < 2 ^ 64"
  shows "os_inv ring_depth s tokens"
  using assms(1)
proof induction
  case (os_start s)
  then have p: "is_pow2 ring_depth" by (simp add: onesided_create_def split: if_splits)
  show ?case using os_start p os_lane_new_ok [OF p assms(3,2)] by (auto simp: onesided_create_def os_inv_def)
next
  case (os_calls s tokens i req)
  note ok = os_inv_lane [OF os_calls.IH os_calls.hyps(2)]
  have "os_lane_ok ring_depth (held_by i tokens) (snd (os_call req (os_lanes s ! i)))"
    by (cases rule: os_call_cases [OF ok, of req]) (use ok in simp_all)
  then show ?case using os_inv_update [OF os_calls.IH os_calls.hyps(2)] os_inv_scan_pos [OF os_calls.IH os_calls.hyps(2)] by auto
next
  case (os_syncs s tokens i)
  note ok = os_inv_lane [OF os_syncs.IH os_syncs.hyps(2)]
  then have "os_lane_ok ring_depth (held_by i tokens) (os_sync (os_lanes s ! i))"
    by (simp add: os_lane_ok_def os_sync_def)
  then show ?case using os_inv_update [OF os_syncs.IH os_syncs.hyps(2)] os_inv_scan_pos [OF os_syncs.IH os_syncs.hyps(2)] by auto
next
  case (os_responses s tokens i)
  note ok = os_inv_lane [OF os_responses.IH os_responses.hyps(2)]
  have "os_lane_ok ring_depth (held_by i tokens) (snd (os_try_recv_response (os_lanes s ! i)))"
    by (cases rule: os_try_recv_response_cases [OF ok]) (use ok in simp_all)
  then show ?case
    using os_inv_update [OF os_responses.IH os_responses.hyps(2)] os_inv_scan_pos [OF os_responses.IH os_responses.hyps(2)] by auto
next
  case (os_receives s tokens r s')
  then show ?case using os_try_recv_inv(2) by blast
next
  case (os_finds_none s tokens s')
  then show ?case using os_try_recv_inv(1) by blast
next
  case (os_replies s tokens tk resp s')
  let ?i = "rt_caller_id tk"
  have i: "?i < length (os_lanes s)" using os_replies by (simp add: os_inv_def)
  have "os_lane_ok ring_depth (Suc (held_by ?i (remove1 tk tokens))) (os_lanes s ! ?i)"
    using os_inv_lane [OF os_replies.IH i] held_by_remove1 [OF os_replies.hyps(2), of ?i] by simp
  note ok = os_lane_reply_effect(1) [OF this, of "rt_slot_token tk" resp]
  show ?case
    by (rule os_inv_update [OF os_replies.IH i ok])
      (use os_replies.hyps(3) i os_inv_scan_pos [OF os_replies.IH i] held_by_remove1 [OF os_replies.hyps(2)]
        set_remove1_subset in \<open>auto simp: os_reply_def Let_def\<close>)
next
  case (os_forgets s tokens tk)
  have "os_lane_ok ring_depth (held_by i (remove1 tk tokens)) (os_lanes s ! i)" if "i < length (os_lanes s)" for i
    using os_inv_lane [OF os_forgets.IH that] held_by_remove1 [OF os_forgets.hyps(2), of i] by (simp add: os_lane_ok_def)
  then show ?case using os_forgets.IH set_remove1_subset [of tk tokens] by (auto simp: os_inv_def)
next
  case (os_caller_leaves s tokens i)
  note ok = os_inv_lane [OF os_caller_leaves.IH os_caller_leaves.hyps(2)]
  then have "os_lane_ok ring_depth (held_by i tokens) (os_caller_drop (os_lanes s ! i))"
    by (simp add: os_lane_ok_def os_caller_drop_def)
  then show ?case
    using os_inv_update [OF os_caller_leaves.IH os_caller_leaves.hyps(2)] os_inv_scan_pos [OF os_caller_leaves.IH os_caller_leaves.hyps(2)]
    by auto
next
  case (os_server_leaves s tokens)
  then show ?case by (simp add: os_inv_def os_server_drop_def os_lane_ok_def)
qed



text \<open>
  The server scans its callers in turn.  A receive finds nothing exactly when no caller has
  a request waiting; otherwise it takes the oldest request of the first such caller in cyclic
  order, and the next scan starts behind that caller, so no caller is passed over twice.
\<close>
theorem onesided_try_recv_first:
  assumes "os_reachable max_callers ring_depth max_inflight s tokens"
    and "max_inflight \<le> ring_depth" "ring_depth < 2 ^ 64"
  shows "case os_try_recv s of
     (None, s') \<Rightarrow> \<forall>i < length (os_lanes s). os_contents (ol_call (os_lanes s ! i)) = []
   | (Some r, s') \<Rightarrow>
       \<exists>j vs. j < length (os_lanes s) \<and> rr_caller_id r = (os_scan_pos s + j) mod length (os_lanes s) \<and>
         os_contents (ol_call (os_lanes s ! rr_caller_id r)) = rr_data r # vs \<and>
         os_contents (ol_call (os_lanes s' ! rr_caller_id r)) = vs \<and>
         (\<forall>i < j. os_contents (ol_call (os_lanes s ! ((os_scan_pos s + i) mod length (os_lanes s)))) = []) \<and>
         os_scan_pos s' = (rr_caller_id r + 1) mod length (os_lanes s)"
proof -
  note inv = os_reachable_inv [OF assms]
  let ?n = "length (os_lanes s)"
  obtain r s' where recv: "os_try_recv s = (r, s')" by (cases "os_try_recv s")
  show ?thesis
  proof (cases "os_lanes s = []")
    case True
    then show ?thesis by (simp add: os_try_recv_def)
  next
    case ne: False
    then have p: "os_scan_pos s < ?n" using inv by (simp add: os_inv_def)
    show ?thesis
    proof (cases r)
      case None
      have "os_contents (ol_call (os_lanes s ! i)) = []" if "i < ?n" for i
      proof -
        let ?j = "if os_scan_pos s \<le> i then i - os_scan_pos s else i + ?n - os_scan_pos s"
        have "?j < ?n" "(os_scan_pos s + ?j) mod ?n = i" using that p by auto
        then show ?thesis
          using os_scan_None [OF inv ne recv [unfolded os_try_recv_def None]] by metis
      qed
      then show ?thesis using recv None by simp
    next
      case (Some q)
      obtain j vs where j: "j < ?n" "rr_caller_id q = (os_scan_pos s + j) mod ?n"
        "\<And>i. i < j \<Longrightarrow> os_contents (ol_call (os_lanes s ! ((os_scan_pos s + i) mod ?n))) = []"
        "os_contents (ol_call (os_lanes s ! rr_caller_id q)) = rr_data q # vs"
        "os_lanes s' = (os_lanes s)[rr_caller_id q := (os_lanes s ! rr_caller_id q)
            \<lparr>ol_call := snd (raw_try_recv (ol_call (os_lanes s ! rr_caller_id q)))\<rparr>]"
        "os_scan_pos s' = (rr_caller_id q + 1) mod ?n"
        using os_scan_Some [OF inv ne recv [unfolded os_try_recv_def Some]] by metis
      have i: "rr_caller_id q < ?n" using j(2) ne by simp
      have "os_contents (ol_call (os_lanes s' ! rr_caller_id q)) = vs"
        using os_lane_recv_effect(2) [OF os_inv_lane [OF inv i] j(4)] j(5) i by simp
      then show ?thesis using recv Some j by auto
    qed
  qed
qed

theorem onesided_try_recv_first_witness:
  "\<exists>s :: (nat, nat) os_server. os_reachable 3 2 2 s [] \<and>
     (\<exists>r s'. os_try_recv s = (Some r, s') \<and> rr_caller_id r = 1 \<and> rr_data r = 5 \<and>
        os_scan_pos s' = (rr_caller_id r + 1) mod length (os_lanes s))"
proof -
  have p: "is_pow2 2" using is_pow2_double [OF is_pow2_1] by simp
  define s0 where "s0 = (\<lparr>os_lanes = replicate 3 (os_lane_new 2 2), os_scan_pos = 0\<rparr> :: (nat, nat) os_server)"
  define s where "s = s0\<lparr>os_lanes := (os_lanes s0)[1 := snd (os_call 5 (os_lanes s0 ! 1))]\<rparr>"
  have "os_reachable 3 2 2 s0 []" by (rule os_start) (simp add: onesided_create_def p s0_def)
  then have r: "os_reachable 3 2 2 s []" unfolding s_def by (rule os_calls) (simp add: s0_def)
  have "\<exists>q s'. os_try_recv s = (Some q, s') \<and> rr_caller_id q = 1 \<and> rr_data q = 5"
    by (simp add: s_def s0_def os_try_recv_def os_lane_new_def create_spsc_def os_slot_init_def os_call_def
        os_try_send_def raw_try_send_def raw_try_recv_def Let_def eval_nat_numeral)
  then obtain q s' where q: "os_try_recv s = (Some q, s')" "rr_caller_id q = 1" "rr_data q = 5" by blast
  have "(2 :: nat) < 2 ^ 64" by simp
  from onesided_try_recv_first [OF r order.refl this] q(1)
  have "os_scan_pos s' = (rr_caller_id q + 1) mod length (os_lanes s)" by auto
  then show ?thesis using q r by blast
qed

end
