(* ===== verification/Mempc_User_Data.thy ===== *)
theory Mempc_User_Data
  imports Mempc_Common "HOL-Library.Monad_Syntax"
begin

text \<open>
  The adapter that attaches a value to every call and hands it to a callback with the response
  (\<^verbatim>\<open>mempc/src/user_data.rs\<close>).  It works on any caller: the operations of the caller are
  arguments of its definitions, and the locale \<open>mpsc_caller\<close> is what it needs of them.  The
  callback's effect is the list of the pairs it was invoked on.
\<close>

record ('c, 'u) with_user_data =
  wu_caller :: 'c
  wu_user_data :: "'u option list"

definition wu_new :: "'c \<Rightarrow> nat \<Rightarrow> ('c, 'u) with_user_data" where
  "wu_new caller capacity = \<lparr>wu_caller = caller, wu_user_data = replicate capacity None\<rparr>"

text \<open>\<open>None\<close>: with no slots at all, the remainder panics.\<close>

definition wu_call ::
  "('q \<Rightarrow> 'c \<Rightarrow> ('q call_error + u64) \<times> 'c) \<Rightarrow> 'q \<Rightarrow> 'u \<Rightarrow> ('c, 'u) with_user_data \<Rightarrow>
   (('q call_error + unit) \<times> ('c, 'u) with_user_data) option" where
  "wu_call call req u s =
     (case call req (wu_caller s) of
        (Inr token, c) \<Rightarrow>
          if wu_user_data s = [] then None
          else let slot = unat token mod length (wu_user_data s)
               in Some (Inr (), s\<lparr>wu_caller := c, wu_user_data := (wu_user_data s)[slot := Some u]\<rparr>)
      | (Inl e, c) \<Rightarrow> Some (Inl e, s\<lparr>wu_caller := c\<rparr>))"

partial_function (option) wu_drain ::
  "('c \<Rightarrow> (u64 \<times> 'p) option \<times> 'c) \<Rightarrow> ('c, 'u) with_user_data \<Rightarrow>
   (('u \<times> 'p) list \<times> ('c, 'u) with_user_data) option" where
  [code]: "wu_drain try_recv s =
     (case try_recv (wu_caller s) of
        (None, c) \<Rightarrow> Some ([], s\<lparr>wu_caller := c\<rparr>)
      | (Some (token, resp), c) \<Rightarrow>
          if wu_user_data s = [] then None
          else let slot = unat token mod length (wu_user_data s)
               in Option.bind
                    (wu_drain try_recv (s\<lparr>wu_caller := c, wu_user_data := (wu_user_data s)[slot := None]\<rparr>))
                    (\<lambda>(called, s1).
                       Some (case wu_user_data s ! slot of Some u \<Rightarrow> (u, resp) # called | None \<Rightarrow> called, s1)))"

definition wu_poll ::
  "('c \<Rightarrow> 'c) \<Rightarrow> ('c \<Rightarrow> (u64 \<times> 'p) option \<times> 'c) \<Rightarrow> ('c, 'u) with_user_data \<Rightarrow>
   (('u \<times> 'p) list \<times> ('c, 'u) with_user_data) option" where
  "wu_poll sync try_recv s = wu_drain try_recv (s\<lparr>wu_caller := sync (wu_caller s)\<rparr>)"

definition wu_pending_count :: "('c \<Rightarrow> u64) \<Rightarrow> ('c, 'u) with_user_data \<Rightarrow> u64" where
  "wu_pending_count pending_count s = pending_count (wu_caller s)"

section \<open>What the adapter needs of a caller\<close>

text \<open>
  \<open>live\<close> is the tokens of the calls that have no response yet, oldest first, and \<open>waiting\<close>
  the responses that can be received.  Responses come in the order of the calls, and no two
  live tokens fall into the same slot.
\<close>

locale mpsc_caller =
  fixes inv :: "'c \<Rightarrow> bool"
    and live :: "'c \<Rightarrow> u64 list"
    and waiting :: "'c \<Rightarrow> 'p list"
    and capacity :: nat
    and call :: "'q \<Rightarrow> 'c \<Rightarrow> ('q call_error + u64) \<times> 'c"
    and sync :: "'c \<Rightarrow> 'c"
    and try_recv :: "'c \<Rightarrow> (u64 \<times> 'p) option \<times> 'c"
  assumes call_ok: "inv c \<Longrightarrow> call req c = (Inr token, c') \<Longrightarrow>
            inv c' \<and> live c' = live c @ [token] \<and> waiting c' = waiting c"
    and call_err: "inv c \<Longrightarrow> call req c = (Inl e, c') \<Longrightarrow> inv c' \<and> live c' = live c \<and> waiting c' = waiting c"
    and sync_keeps: "inv c \<Longrightarrow> inv (sync c) \<and> live (sync c) = live c \<and> waiting (sync c) = waiting c"
    and recv_some: "inv c \<Longrightarrow> try_recv c = (Some (token, resp), c') \<Longrightarrow>
            inv c' \<and> live c = token # live c' \<and> waiting c = resp # waiting c'"
    and recv_none: "inv c \<Longrightarrow> try_recv c = (None, c') \<Longrightarrow> inv c' \<and> live c' = live c \<and> waiting c' = [] \<and> waiting c = []"
    and apart: "inv c \<Longrightarrow> distinct (map (\<lambda>token. unat token mod capacity) (live c))"

definition wu_pending :: "('c \<Rightarrow> u64 list) \<Rightarrow> ('c, 'u) with_user_data \<Rightarrow> 'u option list" where
  "wu_pending live s =
     map (\<lambda>token. wu_user_data s ! (unat token mod length (wu_user_data s))) (live (wu_caller s))"

definition wu_ok :: "('c \<Rightarrow> bool) \<Rightarrow> ('c \<Rightarrow> u64 list) \<Rightarrow> nat \<Rightarrow> ('c, 'u) with_user_data \<Rightarrow> bool" where
  "wu_ok cinv live capacity s \<longleftrightarrow>
     cinv (wu_caller s) \<and> length (wu_user_data s) = capacity \<and> 0 < capacity \<and> None \<notin> set (wu_pending live s)"

lemma wu_pending_update:
  assumes "length (wu_user_data s) = capacity" "\<And>token. token \<in> set tokens \<Longrightarrow> unat token mod capacity \<noteq> slot"
  shows "map (\<lambda>token. (wu_user_data s)[slot := x] ! (unat token mod capacity)) tokens =
         map (\<lambda>token. wu_user_data s ! (unat token mod capacity)) tokens"
  by (rule map_cong) (use assms in \<open>auto intro!: nth_list_update_neq\<close>)

context mpsc_caller
begin

lemma wu_call_effect:
  assumes "wu_ok inv live capacity s"
  shows "\<exists>r s'. wu_call call req u s = Some (r, s') \<and> wu_ok inv live capacity s' \<and>
    waiting (wu_caller s') = waiting (wu_caller s) \<and>
    wu_pending live s' = wu_pending live s @ (case r of Inr _ \<Rightarrow> [Some u] | Inl _ \<Rightarrow> [])"
proof -
  have inv: "inv (wu_caller s)" and cap: "length (wu_user_data s) = capacity" "0 < capacity"
    and some: "None \<notin> set (wu_pending live s)"
    using assms by (simp_all add: wu_ok_def)
  obtain r c where call: "call req (wu_caller s) = (r, c)" by (cases "call req (wu_caller s)")
  show ?thesis
  proof (cases r)
    case (Inl e)
    from call_err [OF inv call [unfolded Inl]] show ?thesis
      using call Inl cap some by (simp add: wu_call_def wu_ok_def wu_pending_def)
  next
    case (Inr token)
    let ?slot = "unat token mod capacity"
    let ?s = "s\<lparr>wu_caller := c, wu_user_data := (wu_user_data s)[?slot := Some u]\<rparr>"
    note ok = call_ok [OF inv call [unfolded Inr]]
    have "?slot \<notin> (\<lambda>token. unat token mod capacity) ` set (live (wu_caller s))"
      using apart [of c] ok by simp
    then have "unat t mod capacity \<noteq> ?slot" if "t \<in> set (live (wu_caller s))" for t using that by (metis image_eqI)
    then have "wu_pending live ?s = wu_pending live s @ [Some u]"
      using ok cap wu_pending_update [OF cap(1), of "live (wu_caller s)" ?slot "Some u"]
      by (simp add: wu_pending_def)
    moreover have "wu_call call req u s = Some (Inr (), ?s)"
      using call Inr cap by (auto simp: wu_call_def Let_def)
    ultimately show ?thesis using ok cap some by (simp add: wu_ok_def)
  qed
qed

lemma wu_drain_effect:
  assumes "wu_ok inv live capacity s"
  shows "\<exists>called s'. wu_drain try_recv s = Some (called, s') \<and> wu_ok inv live capacity s' \<and>
    waiting (wu_caller s') = [] \<and> map snd called = waiting (wu_caller s) \<and>
    map (Some \<circ> fst) called @ wu_pending live s' = wu_pending live s"
  using assms
proof (induction "length (live (wu_caller s))" arbitrary: s rule: less_induct)
  case less
  have inv: "inv (wu_caller s)" and cap: "length (wu_user_data s) = capacity" "0 < capacity"
    and some: "None \<notin> set (wu_pending live s)"
    using less.prems by (simp_all add: wu_ok_def)
  obtain r c where recv: "try_recv (wu_caller s) = (r, c)" by (cases "try_recv (wu_caller s)")
  show ?case
  proof (cases r)
    case None
    from recv_none [OF inv recv [unfolded None]] show ?thesis
      using recv None cap some by (subst wu_drain.simps) (simp add: wu_ok_def wu_pending_def)
  next
    case (Some tr)
    obtain token resp where tr: "tr = (token, resp)" by (cases tr)
    let ?slot = "unat token mod capacity"
    define s1 where "s1 = s\<lparr>wu_caller := c, wu_user_data := (wu_user_data s)[?slot := None]\<rparr>"
    note ok = recv_some [OF inv recv [unfolded Some tr]]
    have "?slot \<notin> (\<lambda>token. unat token mod capacity) ` set (live c)" using apart [OF inv] ok by simp
    then have "unat t mod capacity \<noteq> ?slot" if "t \<in> set (live c)" for t using that by (metis image_eqI)
    then have p1: "wu_pending live s = wu_user_data s ! ?slot # wu_pending live s1"
      using ok cap wu_pending_update [OF cap(1), of "live c" ?slot None] by (simp add: wu_pending_def s1_def)
    then obtain u where u: "wu_user_data s ! ?slot = Some u" using some by (cases "wu_user_data s ! ?slot") auto
    have "wu_ok inv live capacity s1" using ok cap some p1 by (simp add: wu_ok_def s1_def)
    moreover have "length (live (wu_caller s1)) < length (live (wu_caller s))" using ok by (simp add: s1_def)
    ultimately obtain called s' where ih: "wu_drain try_recv s1 = Some (called, s')" "wu_ok inv live capacity s'"
      "waiting (wu_caller s') = []" "map snd called = waiting (wu_caller s1)"
      "map (Some \<circ> fst) called @ wu_pending live s' = wu_pending live s1"
      using less.hyps [of s1] by blast
    have "wu_drain try_recv s = Some ((u, resp) # called, s')"
      using recv Some tr cap u ih(1) by (subst wu_drain.simps) (auto simp: Let_def s1_def)
    then show ?thesis using ih p1 u ok by (simp add: s1_def)
  qed
qed

text \<open>A poll always returns, and hands every waiting response to its own call's value.\<close>

lemma wu_poll_effect:
  assumes "wu_ok inv live capacity s"
  shows "\<exists>called s'. wu_poll sync try_recv s = Some (called, s') \<and> wu_ok inv live capacity s' \<and>
    waiting (wu_caller s') = [] \<and> map snd called = waiting (wu_caller s) \<and>
    map (Some \<circ> fst) called @ wu_pending live s' = wu_pending live s"
proof -
  have inv: "inv (wu_caller s)" using assms by (simp add: wu_ok_def)
  let ?s = "s\<lparr>wu_caller := sync (wu_caller s)\<rparr>"
  have "wu_ok inv live capacity ?s" "wu_pending live ?s = wu_pending live s" "waiting (wu_caller ?s) = waiting (wu_caller s)"
    using assms sync_keeps [OF inv] by (auto simp: wu_ok_def wu_pending_def)
  then show ?thesis using wu_drain_effect [of ?s] by (simp add: wu_poll_def)
qed

lemma wu_environment:
  assumes "wu_ok inv live capacity s" "inv c" "live c = live (wu_caller s)"
  shows "wu_ok inv live capacity (s\<lparr>wu_caller := c\<rparr>)" "wu_pending live (s\<lparr>wu_caller := c\<rparr>) = wu_pending live s"
  using assms by (auto simp: wu_ok_def wu_pending_def)

lemma wu_new_ok: "inv c \<Longrightarrow> live c = [] \<Longrightarrow> 0 < capacity \<Longrightarrow> wu_ok inv live capacity (wu_new c capacity)"
  by (simp add: wu_ok_def wu_pending_def wu_new_def)

end

end
