(* ===== verification/Mempc_Onesided_Order.thy ===== *)
theory Mempc_Onesided_Order
  imports Mempc_Onesided_Channel Mempc_User_Data
begin

text \<open>
  The one-sided channel under the adapter of \<^verbatim>\<open>user_data.rs\<close>.  A caller of the channel satisfies
  the contract \<open>mpsc_caller\<close> when its server answers in the order of arrival and the adapter
  has at least one slot per slot of the call ring; when the server answers out of order, the
  slot index the channel uses as a token is issued again while it is still live.
\<close>

section \<open>A lane answered in order\<close>

text \<open>The caller's state is the lane and the tokens its server holds, oldest first.\<close>

definition os_call_held ::
  "'q \<Rightarrow> ('q, 'p) os_lane \<times> u64 list \<Rightarrow> ('q call_error + u64) \<times> ('q, 'p) os_lane \<times> u64 list" where
  "os_call_held req c = (fst (os_call req (fst c)), snd (os_call req (fst c)), snd c)"

definition os_sync_held :: "('q, 'p) os_lane \<times> u64 list \<Rightarrow> ('q, 'p) os_lane \<times> u64 list" where
  "os_sync_held c = (os_sync (fst c), snd c)"

definition os_response_held ::
  "('q, 'p) os_lane \<times> u64 list \<Rightarrow> (u64 \<times> 'p) option \<times> ('q, 'p) os_lane \<times> u64 list" where
  "os_response_held c = (fst (os_try_recv_response (fst c)), snd (os_try_recv_response (fst c)), snd c)"

definition os_call_tokens :: "('q, 'p) os_lane \<Rightarrow> u64 list" where
  "os_call_tokens l =
     map (\<lambda>k. word_of_nat (unat ((os_tail (ol_call l) + word_of_nat k) AND os_mask (ol_call l))))
       [0..<os_count (ol_call l)]"

definition os_live :: "('q, 'p) os_lane \<times> u64 list \<Rightarrow> u64 list" where
  "os_live c = map rs_token (os_contents (ol_resp (fst c))) @ snd c @ os_call_tokens (fst c)"

definition os_waiting :: "('q, 'p) os_lane \<times> u64 list \<Rightarrow> 'p list" where
  "os_waiting c = map rs_data (os_contents (ol_resp (fst c)))"

definition slot_run :: "nat \<Rightarrow> nat \<Rightarrow> nat \<Rightarrow> u64 list" where
  "slot_run depth p n = map (\<lambda>k. word_of_nat ((p + k) mod depth)) [0..<n]"

definition os_inorder :: "nat \<Rightarrow> nat \<Rightarrow> ('q, 'p) os_lane \<times> u64 list \<Rightarrow> bool" where
  "os_inorder depth capacity c \<longleftrightarrow>
     os_lane_ok depth (length (snd c)) (fst c) \<and> depth \<le> capacity \<and> os_rx_alive (ol_resp (fst c)) \<and>
     (\<exists>p. os_head (ol_call (fst c)) = word_of_nat (p + unat (ol_inflight (fst c))) \<and>
          os_live c = slot_run depth p (unat (ol_inflight (fst c))))"

lemma slot_run_snoc: "slot_run depth p (n + 1) = slot_run depth p n @ [word_of_nat ((p + n) mod depth)]"
  by (simp add: slot_run_def)

lemma slot_run_tl:
  assumes "t # ts = slot_run depth p (n + 1)"
  shows "ts = slot_run depth (p + 1) n"
proof -
  have "slot_run depth p (n + 1) = map (\<lambda>k. word_of_nat ((p + k) mod depth)) (0 # map Suc [0..<n])"
    by (simp add: slot_run_def map_Suc_upt upt_conv_Cons del: upt_Suc)
  then show ?thesis using assms by (simp add: slot_run_def)
qed

lemma slot_run_apart:
  assumes "n \<le> depth" "depth \<le> capacity" "depth < 2 ^ 64"
  shows "distinct (map (\<lambda>t. unat t mod capacity) (slot_run depth p n))"
proof -
  have slot: "unat (word_of_nat ((p + k) mod depth) :: u64) mod capacity = (p + k) mod depth" if "k < n" for k
  proof -
    have "(p + k) mod depth < depth" using that assms(1) by (intro mod_less_divisor) linarith
    then show ?thesis using assms(2,3) by (simp add: unat_of_nat)
  qed
  have "inj_on (\<lambda>k. (p + k) mod depth) {0..<n}"
  proof (rule inj_onI)
    fix j k assume "j \<in> {0..<n}" "k \<in> {0..<n}" "(p + j) mod depth = (p + k) mod depth"
    then show "j = k"
      using mod_add_inj_le [of p j depth k] mod_add_inj_le [of p k depth j] assms(1) by (cases "j \<le> k") simp_all
  qed
  then have "distinct (map (\<lambda>k. (p + k) mod depth) [0..<n])" by (simp add: distinct_map)
  moreover have "map (\<lambda>t. unat t mod capacity) (slot_run depth p n) = map (\<lambda>k. (p + k) mod depth) [0..<n]"
    unfolding slot_run_def map_map by (rule map_cong) (use slot in auto)
  ultimately show ?thesis by simp
qed

lemma os_lane_ok_depth: "os_lane_ok depth held l \<Longrightarrow> depth < 2 ^ 64"
  by (auto simp: os_lane_ok_def os_wf_def os_cap_def)

lemma os_call_tokens_send:
  assumes "os_wf (ol_call l)" "ol_call l' = snd (raw_try_send req (ol_call l))"
    and "os_count (ol_call l') = os_count (ol_call l) + 1"
  shows "os_call_tokens l' =
         os_call_tokens l @ [word_of_nat (unat (os_head (ol_call l) AND os_mask (ol_call l)))]"
proof -
  have "os_tail (ol_call l') = os_tail (ol_call l)" "os_mask (ol_call l') = os_mask (ol_call l)"
    using assms(2) by (simp_all add: raw_try_send_def Let_def)
  moreover have "os_tail (ol_call l) + word_of_nat (os_count (ol_call l)) = os_head (ol_call l)"
    unfolding os_count_def by (rule add_unat_diff)
  ultimately show ?thesis using assms(3) by (simp add: os_call_tokens_def)
qed

lemma os_call_tokens_recv:
  assumes "os_tail (ol_call l') = os_tail (ol_call l) + 1" "os_mask (ol_call l') = os_mask (ol_call l)"
    and "os_count (ol_call l) = Suc (os_count (ol_call l'))"
  shows "os_call_tokens l =
         word_of_nat (unat (os_tail (ol_call l) AND os_mask (ol_call l))) # os_call_tokens l'"
proof -
  let ?f = "\<lambda>k. word_of_nat (unat ((os_tail (ol_call l) + word_of_nat k) AND os_mask (ol_call l))) :: u64"
  have "os_call_tokens l = map ?f (0 # map Suc [0..<os_count (ol_call l')])"
    unfolding os_call_tokens_def assms(3) by (simp add: map_Suc_upt upt_conv_Cons del: upt_Suc)
  then show ?thesis using assms(1,2) by (simp add: os_call_tokens_def add.assoc)
qed

lemma os_inorder_call:
  assumes "os_inorder depth capacity c" "os_call_held req c = (r, c')"
  shows "os_inorder depth capacity c'" "os_waiting c' = os_waiting c"
    and "os_live c' = os_live c @ (case r of Inr token \<Rightarrow> [token] | Inl _ \<Rightarrow> [])"
proof -
  obtain l held where c: "c = (l, held)" by (cases c)
  obtain p where p: "os_head (ol_call l) = word_of_nat (p + unat (ol_inflight l))"
    "os_live (l, held) = slot_run depth p (unat (ol_inflight l))"
    and ok: "os_lane_ok depth (length held) l" and alive: "os_rx_alive (ol_resp l)" and cap: "depth \<le> capacity"
    using assms(1) by (auto simp: os_inorder_def c)
  have "os_inorder depth capacity c' \<and> os_waiting c' = os_waiting c \<and>
      os_live c' = os_live c @ (case r of Inr token \<Rightarrow> [token] | Inl _ \<Rightarrow> [])"
  proof (cases rule: os_call_cases [OF ok, of req])
    case (3 l')
    let ?t = "word_of_nat (unat (os_head (ol_call l) AND os_mask (ol_call l))) :: u64"
    have c': "c' = (l', held)" "r = Inr ?t" using assms(2) 3(1) by (simp_all add: os_call_held_def c)
    have wf: "os_wf (ol_call l)" "length (os_slots (ol_call l)) = depth" "os_cap (ol_call l)"
      using ok by (auto simp: os_lane_ok_def os_wf_def)
    have "os_count (ol_call l') = os_count (ol_call l) + 1" using arg_cong [OF 3(3), of length] by simp
    note tok = os_call_tokens_send [OF wf(1) 3(7) this]
    then have live: "os_live c' = os_live c @ [?t]" using 3(4) by (simp add: os_live_def c c')
    have "?t = word_of_nat ((p + unat (ol_inflight l)) mod depth)"
      using os_slot_eq [OF wf(3), of "p + unat (ol_inflight l)"] by (simp add: p(1) wf(2))
    then have "os_live c' = slot_run depth p (unat (ol_inflight l'))"
      unfolding 3(5) slot_run_snoc using live p(2) by (simp add: c)
    moreover have "os_head (ol_call l') = word_of_nat (p + unat (ol_inflight l'))"
      using 3(5,7) p(1) by (simp add: raw_try_send_def Let_def)
    ultimately show ?thesis
      using 3(4,6) alive cap live c' by (auto simp: os_inorder_def os_waiting_def c)
  qed (use assms in \<open>auto simp: os_call_held_def c\<close>)
  then show "os_inorder depth capacity c'" "os_waiting c' = os_waiting c"
    "os_live c' = os_live c @ (case r of Inr token \<Rightarrow> [token] | Inl _ \<Rightarrow> [])" by blast+
qed

lemma os_inorder_response:
  assumes "os_inorder depth capacity c" "os_response_held c = (r, c')"
  shows "os_inorder depth capacity c'"
    and "os_live c = (case r of Some (token, _) \<Rightarrow> [token] | None \<Rightarrow> []) @ os_live c'"
    and "os_waiting c = (case r of Some (_, resp) \<Rightarrow> [resp] | None \<Rightarrow> []) @ os_waiting c'"
    and "r = None \<Longrightarrow> os_waiting c = []"
proof -
  obtain l held where c: "c = (l, held)" by (cases c)
  obtain p where p: "os_head (ol_call l) = word_of_nat (p + unat (ol_inflight l))"
    "os_live (l, held) = slot_run depth p (unat (ol_inflight l))"
    and ok: "os_lane_ok depth (length held) l" and alive: "os_rx_alive (ol_resp l)" and cap: "depth \<le> capacity"
    using assms(1) by (auto simp: os_inorder_def c)
  have "os_inorder depth capacity c' \<and>
      os_live c = (case r of Some (token, _) \<Rightarrow> [token] | None \<Rightarrow> []) @ os_live c' \<and>
      os_waiting c = (case r of Some (_, resp) \<Rightarrow> [resp] | None \<Rightarrow> []) @ os_waiting c' \<and>
      (r = None \<longrightarrow> os_waiting c = [])"
  proof (cases rule: os_try_recv_response_cases [OF ok])
    case 1
    then show ?thesis using assms by (auto simp: os_response_held_def c os_waiting_def)
  next
    case (2 q l')
    have c': "c' = (l', held)" "r = Some (rs_token q, rs_data q)"
      using assms(2) 2(1) by (simp_all add: os_response_held_def c)
    have tok: "os_call_tokens l' = os_call_tokens l" using 2(3) by (simp add: os_call_tokens_def)
    then have live: "os_live c = rs_token q # os_live c'" using 2(2) by (simp add: os_live_def c c')
    have "os_live c' = slot_run depth (p + 1) (unat (ol_inflight l'))"
      by (rule slot_run_tl [of "rs_token q"]) (use live p(2) 2(4) in \<open>simp add: c\<close>)
    moreover have "os_head (ol_call l') = word_of_nat (p + 1 + unat (ol_inflight l'))"
      using p(1) 2(3) unfolding 2(4) [symmetric] by (simp add: ac_simps)
    moreover have "os_rx_alive (ol_resp l')"
      using 2(1) alive by (auto simp: os_try_recv_response_def raw_try_recv_def Let_def split: prod.splits option.splits if_splits)
    ultimately have "os_inorder depth capacity c'"
      unfolding os_inorder_def c' fst_conv snd_conv using 2(5) cap by (intro conjI exI [of _ "p + 1"])
    then show ?thesis using 2(2) live c' by (simp add: os_waiting_def c)
  qed
  then show "os_inorder depth capacity c'"
    "os_live c = (case r of Some (token, _) \<Rightarrow> [token] | None \<Rightarrow> []) @ os_live c'"
    "os_waiting c = (case r of Some (_, resp) \<Rightarrow> [resp] | None \<Rightarrow> []) @ os_waiting c'"
    "r = None \<Longrightarrow> os_waiting c = []" by blast+
qed

lemma os_inorder_apart:
  assumes "os_inorder depth capacity c"
  shows "distinct (map (\<lambda>token. unat token mod capacity) (os_live c))"
proof -
  have ok: "os_lane_ok depth (length (snd c)) (fst c)" and cap: "depth \<le> capacity"
    using assms by (auto simp: os_inorder_def)
  obtain p where p: "os_live c = slot_run depth p (unat (ol_inflight (fst c)))"
    using assms by (auto simp: os_inorder_def)
  have "unat (ol_inflight (fst c)) \<le> depth" using ok by (auto simp: os_lane_ok_def word_le_nat_alt)
  from slot_run_apart [OF this cap os_lane_ok_depth [OF ok]] show ?thesis by (simp add: p)
qed

lemma os_inorder_sync:
  "os_inorder depth capacity c \<Longrightarrow>
     os_inorder depth capacity (os_sync_held c) \<and> os_live (os_sync_held c) = os_live c \<and>
     os_waiting (os_sync_held c) = os_waiting c"
  by (auto simp: os_inorder_def os_sync_held_def os_sync_def os_lane_ok_def os_live_def os_waiting_def
      os_call_tokens_def) (auto simp: os_publish_def)

interpretation osu: mpsc_caller "os_inorder depth capacity" os_live os_waiting capacity
  os_call_held os_sync_held os_response_held for depth capacity
proof unfold_locales
  fix c c' :: "('a, 'b) os_lane \<times> u64 list" and req token resp e
  assume inv: "os_inorder depth capacity c"
  show "os_inorder depth capacity c' \<and> os_live c' = os_live c @ [token] \<and> os_waiting c' = os_waiting c"
    if "os_call_held req c = (Inr token, c')" using os_inorder_call [OF inv that] by simp
  show "os_inorder depth capacity c' \<and> os_live c' = os_live c \<and> os_waiting c' = os_waiting c"
    if "os_call_held req c = (Inl e, c')" using os_inorder_call [OF inv that] by simp
  show "os_inorder depth capacity c' \<and> os_live c = token # os_live c' \<and> os_waiting c = resp # os_waiting c'"
    if "os_response_held c = (Some (token, resp), c')" using os_inorder_response [OF inv that] by simp
  show "os_inorder depth capacity c' \<and> os_live c' = os_live c \<and> os_waiting c' = [] \<and> os_waiting c = []"
    if "os_response_held c = (None, c')" using os_inorder_response [OF inv that] by simp
qed (simp_all add: os_inorder_sync os_inorder_apart)

section \<open>The server's side\<close>

lemma os_inorder_receive:
  assumes "os_inorder depth capacity (l, held)" "raw_try_recv (ol_call l) = (Some (i, req), r)"
  shows "os_inorder depth capacity (l\<lparr>ol_call := r\<rparr>, held @ [word_of_nat i])"
    and "os_live (l\<lparr>ol_call := r\<rparr>, held @ [word_of_nat i]) = os_live (l, held)"
proof -
  have ok: "os_lane_ok depth (length held) l" using assms(1) by (simp add: os_inorder_def)
  then have wf: "os_wf (ol_call l)" by (simp add: os_lane_ok_def)
  have "\<exists>v. os_contents (ol_call l) = v # os_contents r \<and> r = ol_call l\<lparr>os_tail := os_tail (ol_call l) + 1\<rparr> \<and>
      i = unat (os_tail (ol_call l) AND os_mask (ol_call l))"
    by (cases rule: raw_try_recv_cases [OF wf]) (use assms(2) in auto)
  then obtain v where v: "os_contents (ol_call l) = v # os_contents r"
    and r: "r = ol_call l\<lparr>os_tail := os_tail (ol_call l) + 1\<rparr>"
    and i: "i = unat (os_tail (ol_call l) AND os_mask (ol_call l))" by blast
  let ?l = "l\<lparr>ol_call := r\<rparr>"
  have "os_call_tokens l = word_of_nat i # os_call_tokens ?l"
    unfolding i by (rule os_call_tokens_recv) (use r arg_cong [OF v, of length] in simp_all)
  then show live: "os_live (?l, held @ [word_of_nat i]) = os_live (l, held)" by (simp add: os_live_def)
  have "os_lane_ok depth (length (held @ [word_of_nat i])) ?l"
    using os_lane_recv_effect(3) [OF ok v] assms(2) by simp
  then show "os_inorder depth capacity (?l, held @ [word_of_nat i])"
    using assms(1) live r by (auto simp: os_inorder_def)
qed

lemma os_inorder_reply:
  assumes "os_inorder depth capacity (l, token # held)"
  shows "os_inorder depth capacity (os_lane_reply token resp l, held)"
    and "os_live (os_lane_reply token resp l, held) = os_live (l, token # held)"
    and "os_waiting (os_lane_reply token resp l, held) = os_waiting (l, token # held) @ [resp]"
proof -
  have ok: "os_lane_ok depth (Suc (length held)) l" and alive: "os_rx_alive (ol_resp l)"
    using assms by (simp_all add: os_inorder_def)
  note e = os_lane_reply_effect [OF ok, of token resp]
  have same: "ol_call (os_lane_reply token resp l) = ol_call l" "ol_inflight (os_lane_reply token resp l) = ol_inflight l"
    "os_rx_alive (ol_resp (os_lane_reply token resp l))"
    using alive by (simp_all add: os_lane_reply_def)
  show live: "os_live (os_lane_reply token resp l, held) = os_live (l, token # held)"
    and "os_waiting (os_lane_reply token resp l, held) = os_waiting (l, token # held) @ [resp]"
    using e(2) alive same by (simp_all add: os_live_def os_waiting_def os_call_tokens_def)
  show "os_inorder depth capacity (os_lane_reply token resp l, held)"
    using assms e(1) live same by (simp add: os_inorder_def)
qed

section \<open>Calls with user data\<close>

text \<open>
  A run of one caller and its server: \<open>issued\<close> is the user data of the accepted calls, \<open>answers\<close>
  the replies in the order they were given, \<open>called\<close> what the callback has been invoked on.
\<close>

inductive os_ud_run ::
  "nat \<Rightarrow> nat \<Rightarrow> 'u list \<Rightarrow> 'p list \<Rightarrow> ('u \<times> 'p) list \<Rightarrow>
   (('q, 'p) os_lane \<times> u64 list, 'u) with_user_data \<Rightarrow> bool"
  for depth capacity where
  ud_start: "os_inorder depth capacity (l, []) \<Longrightarrow> ol_inflight l = 0 \<Longrightarrow> 0 < capacity \<Longrightarrow>
    os_ud_run depth capacity [] [] [] (wu_new (l, []) capacity)"
| ud_accepted: "os_ud_run depth capacity issued answers called s \<Longrightarrow>
    wu_call os_call_held req u s = Some (Inr (), s') \<Longrightarrow>
    os_ud_run depth capacity (issued @ [u]) answers called s'"
| ud_refused: "os_ud_run depth capacity issued answers called s \<Longrightarrow>
    wu_call os_call_held req u s = Some (Inl e, s') \<Longrightarrow>
    os_ud_run depth capacity issued answers called s'"
| ud_polled: "os_ud_run depth capacity issued answers called s \<Longrightarrow>
    wu_poll os_sync_held os_response_held s = Some (new, s') \<Longrightarrow>
    os_ud_run depth capacity issued answers (called @ new) s'"
| ud_received: "os_ud_run depth capacity issued answers called s \<Longrightarrow> wu_caller s = (l, held) \<Longrightarrow>
    raw_try_recv (ol_call l) = (Some (i, req), r) \<Longrightarrow>
    os_ud_run depth capacity issued answers called
      (s\<lparr>wu_caller := (l\<lparr>ol_call := r\<rparr>, held @ [word_of_nat i])\<rparr>)"
| ud_answered: "os_ud_run depth capacity issued answers called s \<Longrightarrow> wu_caller s = (l, token # held) \<Longrightarrow>
    os_ud_run depth capacity issued (answers @ [resp]) called
      (s\<lparr>wu_caller := (os_lane_reply token resp l, held)\<rparr>)"

lemma os_ud_run_inv:
  assumes "os_ud_run depth capacity issued answers called s"
  shows "wu_ok (os_inorder depth capacity) os_live capacity s \<and>
         map (Some \<circ> fst) called @ wu_pending os_live s = map Some issued \<and>
         map snd called @ os_waiting (wu_caller s) = answers"
  using assms
proof induction
  case (ud_start l)
  then have live: "os_live (l, []) = []" by (auto simp: os_inorder_def slot_run_def)
  then have "os_waiting (l, []) = []" by (simp add: os_live_def os_waiting_def)
  then show ?case using osu.wu_new_ok [OF ud_start(1) live ud_start(3)] live
    by (auto simp: wu_pending_def wu_new_def)
next
  case (ud_accepted issued answers called s req u s')
  then show ?case using osu.wu_call_effect [of depth capacity s req u] by (auto simp flip: append_assoc)
next
  case (ud_refused issued answers called s req u e s')
  then show ?case using osu.wu_call_effect [of depth capacity s req u] by auto
next
  case (ud_polled issued answers called s new s')
  then show ?case using osu.wu_poll_effect [of depth capacity s] by (auto simp: comp_def)
next
  case (ud_received issued answers called s l held i req r)
  then have inv: "os_inorder depth capacity (l, held)" by (simp add: wu_ok_def)
  note e = os_inorder_receive [OF inv ud_received(3)]
  show ?case
    using osu.wu_environment [of depth capacity s, OF _ e(1)] e(2) ud_received.IH ud_received(2)
    by (simp add: os_waiting_def)
next
  case (ud_answered issued answers called s l token held resp)
  then have inv: "os_inorder depth capacity (l, token # held)" by (simp add: wu_ok_def)
  note e = os_inorder_reply [OF inv, of resp]
  show ?case
    using osu.wu_environment [of depth capacity s, OF _ e(1)] e(2,3) ud_answered.IH ud_answered(2)
    by (simp flip: append_assoc)
qed

text \<open>
  C20. With a server that answers in order and an adapter with at least as many slots as the
  ring, every poll returns, and the callback sees, call by call, the user data of the call and
  the reply to it: after a poll the callback has been invoked on the user data of the answered
  calls, each with its own answer, and on nothing else.
\<close>
theorem user_data_matched:
  fixes issued :: "'u list"
  assumes "os_ud_run depth capacity issued answers called s"
  shows "\<exists>new s'. wu_poll os_sync_held os_response_held s = Some (new, s') \<and>
    called @ new = zip (take (length answers) issued) answers \<and> length answers \<le> length issued"
proof -
  note inv = os_ud_run_inv [OF assms]
  then obtain new s' where poll: "wu_poll os_sync_held os_response_held s = Some (new, s')"
    and m: "map snd new = os_waiting (wu_caller s)"
      "map (Some \<circ> fst) new @ wu_pending os_live s' = wu_pending os_live s"
    using osu.wu_poll_effect [of depth capacity s] by blast
  let ?all = "called @ new"
  have snd: "map snd ?all = answers" using inv m(1) by simp
  then have len: "length answers = length ?all" by (metis length_map)
  have all: "map Some (map fst ?all) @ wu_pending os_live s' = map Some issued" using inv m(2) by simp
  have "take (length ?all) (map Some issued) = map Some (map fst ?all)" unfolding all [symmetric] by simp
  then have "map Some (take (length ?all) issued) = map Some (map fst ?all)" by (simp only: take_map)
  moreover have "inj (map (Some :: 'u \<Rightarrow> 'u option))" by (simp add: inj_on_def)
  ultimately have fst: "map fst ?all = take (length answers) issued" unfolding len by (metis inj_eq)
  have "length ?all \<le> length issued" using arg_cong [OF all, of length] by simp
  then show ?thesis using poll fst snd len zip_map_fst_snd [of ?all] by auto
qed

lemma os_lane_new_inorder:
  assumes "is_pow2 depth" "depth < 2 ^ 64" "max_inflight \<le> depth" "depth \<le> capacity"
  shows "os_inorder depth capacity (os_lane_new depth max_inflight, [])"
proof -
  have "os_lane_ok depth 0 (os_lane_new depth max_inflight)" by (rule os_lane_new_ok [OF assms(1-3)])
  moreover have "os_live (os_lane_new depth max_inflight, []) = []"
    by (simp add: os_live_def os_lane_new_def os_call_tokens_def create_spsc_wf(2) [OF assms(1,2)])
  ultimately show ?thesis
    using assms(4) by (simp add: os_inorder_def slot_run_def) (simp add: os_lane_new_def create_spsc_def exI [of _ 0])
qed

lemma replicate_2: "replicate 2 x = [x, x]"
  by (simp add: numeral_2_eq_2)

lemmas os_eval = os_lane_new_def create_spsc_def os_slot_init_def os_call_def os_call_held_def os_sync_held_def
  os_sync_def os_publish_def os_response_held_def os_try_recv_response_def os_try_send_def raw_try_send_def
  raw_try_recv_def os_lane_reply_def wu_new_def wu_call_def Let_def word_le_nat_alt replicate_2

theorem user_data_matched_witness:
  "\<exists>s :: ((nat, nat) os_lane \<times> u64 list, nat) with_user_data.
     os_ud_run 2 2 [7] [9] [] s \<and>
     (\<exists>new s'. wu_poll os_sync_held os_response_held s = Some (new, s') \<and> new = [(7, 9)])"
proof -
  let ?l = "os_lane_new 2 2 :: (nat, nat) os_lane" and ?s0 = "wu_new (os_lane_new 2 2, []) 2"
  have "is_pow2 2" using is_pow2_double [OF is_pow2_1] by simp
  then have "os_inorder 2 2 (?l, [])" by (intro os_lane_new_inorder) simp_all
  then have r0: "os_ud_run 2 2 [] [] [] (?s0 :: ((nat, nat) os_lane \<times> u64 list, nat) with_user_data)"
    by (intro ud_start) (simp_all add: os_lane_new_def)
  define l1 where "l1 = snd (os_call 5 ?l)"
  define s1 where "s1 = (\<lparr>wu_caller = (l1, []), wu_user_data = [Some 7, None]\<rparr>
      :: ((nat, nat) os_lane \<times> u64 list, nat) with_user_data)"
  have "wu_call os_call_held 5 7 ?s0 = Some (Inr (), s1)"
    by (simp add: os_eval s1_def l1_def)
  from ud_accepted [OF r0 this] have r1: "os_ud_run 2 2 [7] [] [] s1" by simp
  have "raw_try_recv (ol_call l1) = (Some (0, 5), snd (raw_try_recv (ol_call l1)))"
    by (simp add: os_eval l1_def)
  from ud_received [OF r1 _ this, of "[]"] have
    "os_ud_run 2 2 [7] [] [] (s1\<lparr>wu_caller := (l1\<lparr>ol_call := snd (raw_try_recv (ol_call l1))\<rparr>, [0])\<rparr>)"
    by (simp add: s1_def)
  from ud_answered [OF this, of _ 0 "[]" 9] obtain s where r: "os_ud_run 2 2 [7] [9] [] (s
      :: ((nat, nat) os_lane \<times> u64 list, nat) with_user_data)" by auto
  from user_data_matched [OF r] r show ?thesis by auto
qed


end
