(* ===== verification/Scalerpc_Protocol.thy ===== *)
theory Scalerpc_Protocol
  imports Byte_Codec
begin

text \<open>
  Model of \<^verbatim>\<open>scalerpc/src/protocol.rs\<close>: the message trailer that is polled for new requests, the
  packed request and response headers, the endpoint entry by which a client announces a batch,
  and the context-switch event.  A header copied to memory is its byte image on a
  little-endian machine; integers keep their Rust widths.
\<close>

definition REQUEST_MAGIC :: u32 where "REQUEST_MAGIC = 0xDEADBEEF"

definition RESPONSE_MAGIC :: u32 where "RESPONSE_MAGIC = 0xBEEFDEAD"

definition MESSAGE_VALID :: u32 where "MESSAGE_VALID = 1"

definition MESSAGE_INVALID :: u32 where "MESSAGE_INVALID = 0"

definition MESSAGE_BLOCK_SIZE :: nat where "MESSAGE_BLOCK_SIZE = 4080"

definition MESSAGE_TRAILER_SIZE :: nat where "MESSAGE_TRAILER_SIZE = 8"

definition MESSAGE_MAX_DATA_SIZE :: nat where
  "MESSAGE_MAX_DATA_SIZE = MESSAGE_BLOCK_SIZE - MESSAGE_TRAILER_SIZE"

named_theorems block_sizes \<open>the sizes and offsets of a message block\<close>

declare MESSAGE_BLOCK_SIZE_def [block_sizes] MESSAGE_TRAILER_SIZE_def [block_sizes]
  MESSAGE_MAX_DATA_SIZE_def [block_sizes]

section \<open>The message trailer\<close>

record message_trailer =
  tr_msg_len :: u32
  tr_valid :: u32

definition trailer_is_valid :: "message_trailer \<Rightarrow> bool" where
  "trailer_is_valid t \<longleftrightarrow> tr_valid t \<noteq> MESSAGE_INVALID"

definition trailer_set_valid :: "u32 \<Rightarrow> message_trailer \<Rightarrow> message_trailer" where
  "trailer_set_valid len t = t\<lparr>tr_msg_len := len, tr_valid := MESSAGE_VALID\<rparr>"

definition trailer_clear :: "message_trailer \<Rightarrow> message_trailer" where
  "trailer_clear t = t\<lparr>tr_valid := MESSAGE_INVALID, tr_msg_len := 0\<rparr>"

text \<open>
  A trailer sits at the end of the block that starts at offset \<open>off\<close> of a memory region.  The
  length is stored before the valid word, and read after it.
\<close>

definition trailer_write_to :: "bytes \<Rightarrow> nat \<Rightarrow> u32 \<Rightarrow> bytes" where
  "trailer_write_to mem off msg_len =
     (let trailer_offset = MESSAGE_BLOCK_SIZE - MESSAGE_TRAILER_SIZE;
          mem = write_at (off + trailer_offset) (le_bytes 4 msg_len) mem
      in write_at (off + trailer_offset + 4) (le_bytes 4 MESSAGE_VALID) mem)"

definition trailer_read_from :: "bytes \<Rightarrow> nat \<Rightarrow> u32 \<times> u32" where
  "trailer_read_from mem off =
     (let trailer_offset = MESSAGE_BLOCK_SIZE - MESSAGE_TRAILER_SIZE;
          valid = read_u32 mem (off + trailer_offset + 4);
          msg_len = read_u32 mem (off + trailer_offset)
      in (msg_len, valid))"

text \<open>\<^verbatim>\<open>data_ptr\<close>: the offset of right-aligned data; the subtraction underflows beyond the block.\<close>

definition trailer_data_offset :: "u32 \<Rightarrow> nat option" where
  "trailer_data_offset msg_len =
     (let data_end = MESSAGE_BLOCK_SIZE - MESSAGE_TRAILER_SIZE
      in if unat msg_len \<le> data_end then Some (data_end - unat msg_len) else None)"

section \<open>Request headers\<close>

record request_header =
  rq_magic :: u32
  rq_req_id :: u64
  rq_rpc_type :: u16
  rq_payload_len :: u16
  rq_client_slot_addr :: u64
  rq_client_slot_rkey :: u32
  rq_sender_conn_id :: u32
  rq_slot_seq :: u64

definition REQUEST_HEADER_SIZE :: nat where "REQUEST_HEADER_SIZE = 40"

definition request_new_with_seq ::
  "u64 \<Rightarrow> u16 \<Rightarrow> u16 \<Rightarrow> u64 \<Rightarrow> u32 \<Rightarrow> u32 \<Rightarrow> u64 \<Rightarrow> request_header" where
  "request_new_with_seq req_id rpc_type payload_len client_slot_addr client_slot_rkey
       sender_conn_id slot_seq =
     \<lparr>rq_magic = REQUEST_MAGIC,
      rq_req_id = req_id,
      rq_rpc_type = rpc_type,
      rq_payload_len = payload_len,
      rq_client_slot_addr = client_slot_addr,
      rq_client_slot_rkey = client_slot_rkey,
      rq_sender_conn_id = sender_conn_id,
      rq_slot_seq = slot_seq\<rparr>"

definition request_new ::
  "u64 \<Rightarrow> u16 \<Rightarrow> u16 \<Rightarrow> u64 \<Rightarrow> u32 \<Rightarrow> u32 \<Rightarrow> request_header" where
  "request_new req_id rpc_type payload_len client_slot_addr client_slot_rkey sender_conn_id =
     \<lparr>rq_magic = REQUEST_MAGIC,
      rq_req_id = req_id,
      rq_rpc_type = rpc_type,
      rq_payload_len = payload_len,
      rq_client_slot_addr = client_slot_addr,
      rq_client_slot_rkey = client_slot_rkey,
      rq_sender_conn_id = sender_conn_id,
      rq_slot_seq = 0\<rparr>"

definition request_is_valid :: "request_header \<Rightarrow> bool" where
  "request_is_valid h \<longleftrightarrow> rq_magic h = REQUEST_MAGIC"

definition request_image :: "request_header \<Rightarrow> bytes" where
  "request_image h =
     le_bytes 4 (rq_magic h) @ le_bytes 8 (rq_req_id h) @ le_bytes 2 (rq_rpc_type h)
       @ le_bytes 2 (rq_payload_len h) @ le_bytes 8 (rq_client_slot_addr h)
       @ le_bytes 4 (rq_client_slot_rkey h) @ le_bytes 4 (rq_sender_conn_id h)
       @ le_bytes 8 (rq_slot_seq h)"

definition request_write_to :: "request_header \<Rightarrow> bytes \<Rightarrow> nat \<Rightarrow> bytes" where
  "request_write_to h mem off = write_at off (request_image h) mem"

definition request_read_from :: "bytes \<Rightarrow> nat \<Rightarrow> request_header" where
  "request_read_from mem off =
     \<lparr>rq_magic = read_u32 mem off,
      rq_req_id = read_u64 mem (off + 4),
      rq_rpc_type = read_u16 mem (off + 12),
      rq_payload_len = read_u16 mem (off + 14),
      rq_client_slot_addr = read_u64 mem (off + 16),
      rq_client_slot_rkey = read_u32 mem (off + 24),
      rq_sender_conn_id = read_u32 mem (off + 28),
      rq_slot_seq = read_u64 mem (off + 32)\<rparr>"

section \<open>Response headers\<close>

definition FLAG_CONTEXT_SWITCH :: u32 where "FLAG_CONTEXT_SWITCH = 1"

definition FLAG_PROCESSING_POOL_INFO :: u32 where "FLAG_PROCESSING_POOL_INFO = 2"

definition FLAG_CREDIT_ACK :: u32 where "FLAG_CREDIT_ACK = 4"

record response_header =
  rs_magic :: u32
  rs_req_id :: u64
  rs_status :: u32
  rs_payload_len :: u32
  rs_flags :: u32
  rs_context_switch_seq :: u64
  rs_processing_pool_addr :: u64
  rs_processing_pool_rkey :: u32
  rs_padding :: u32
  rs_acked_slot_seq :: u64

definition RESPONSE_HEADER_SIZE :: nat where "RESPONSE_HEADER_SIZE = 56"

definition response_new :: "u64 \<Rightarrow> u32 \<Rightarrow> u32 \<Rightarrow> response_header" where
  "response_new req_id status payload_len =
     \<lparr>rs_magic = RESPONSE_MAGIC,
      rs_req_id = req_id,
      rs_status = status,
      rs_payload_len = payload_len,
      rs_flags = 0,
      rs_context_switch_seq = 0,
      rs_processing_pool_addr = 0,
      rs_processing_pool_rkey = 0,
      rs_padding = 0,
      rs_acked_slot_seq = 0\<rparr>"

definition with_credit_ack :: "u64 \<Rightarrow> u32 \<Rightarrow> u32 \<Rightarrow> u64 \<Rightarrow> response_header" where
  "with_credit_ack req_id status payload_len acked_seq =
     \<lparr>rs_magic = RESPONSE_MAGIC,
      rs_req_id = req_id,
      rs_status = status,
      rs_payload_len = payload_len,
      rs_flags = FLAG_CREDIT_ACK,
      rs_context_switch_seq = 0,
      rs_processing_pool_addr = 0,
      rs_processing_pool_rkey = 0,
      rs_padding = 0,
      rs_acked_slot_seq = acked_seq\<rparr>"

definition encode_switch_seq :: "u64 \<Rightarrow> u32 \<Rightarrow> u64" where
  "encode_switch_seq scheduler_seq fetched_seq =
     push_bit 32 (ucast fetched_seq) OR ucast (ucast scheduler_seq :: u32)"

definition with_context_switch :: "u64 \<Rightarrow> u32 \<Rightarrow> u32 \<Rightarrow> u64 \<Rightarrow> u32 \<Rightarrow> response_header" where
  "with_context_switch req_id status payload_len scheduler_seq fetched_seq =
     \<lparr>rs_magic = RESPONSE_MAGIC,
      rs_req_id = req_id,
      rs_status = status,
      rs_payload_len = payload_len,
      rs_flags = FLAG_CONTEXT_SWITCH,
      rs_context_switch_seq = encode_switch_seq scheduler_seq fetched_seq,
      rs_processing_pool_addr = 0,
      rs_processing_pool_rkey = 0,
      rs_padding = 0,
      rs_acked_slot_seq = 0\<rparr>"

definition with_processing_pool_info ::
  "u64 \<Rightarrow> u32 \<Rightarrow> u32 \<Rightarrow> u64 \<Rightarrow> u32 \<Rightarrow> u64 \<Rightarrow> u32 \<Rightarrow> response_header" where
  "with_processing_pool_info req_id status payload_len scheduler_seq fetched_seq pool_addr pool_rkey =
     \<lparr>rs_magic = RESPONSE_MAGIC,
      rs_req_id = req_id,
      rs_status = status,
      rs_payload_len = payload_len,
      rs_flags = FLAG_CONTEXT_SWITCH OR FLAG_PROCESSING_POOL_INFO,
      rs_context_switch_seq = encode_switch_seq scheduler_seq fetched_seq,
      rs_processing_pool_addr = pool_addr,
      rs_processing_pool_rkey = pool_rkey,
      rs_padding = 0,
      rs_acked_slot_seq = 0\<rparr>"

definition with_context_switch_and_credit_ack ::
  "u64 \<Rightarrow> u32 \<Rightarrow> u32 \<Rightarrow> u64 \<Rightarrow> u32 \<Rightarrow> u64 \<Rightarrow> response_header" where
  "with_context_switch_and_credit_ack req_id status payload_len scheduler_seq fetched_seq acked_seq =
     \<lparr>rs_magic = RESPONSE_MAGIC,
      rs_req_id = req_id,
      rs_status = status,
      rs_payload_len = payload_len,
      rs_flags = FLAG_CONTEXT_SWITCH OR FLAG_CREDIT_ACK,
      rs_context_switch_seq = encode_switch_seq scheduler_seq fetched_seq,
      rs_processing_pool_addr = 0,
      rs_processing_pool_rkey = 0,
      rs_padding = 0,
      rs_acked_slot_seq = acked_seq\<rparr>"

definition with_processing_pool_info_and_credit_ack ::
  "u64 \<Rightarrow> u32 \<Rightarrow> u32 \<Rightarrow> u64 \<Rightarrow> u32 \<Rightarrow> u64 \<Rightarrow> u32 \<Rightarrow> u64 \<Rightarrow> response_header" where
  "with_processing_pool_info_and_credit_ack req_id status payload_len scheduler_seq fetched_seq
       pool_addr pool_rkey acked_seq =
     \<lparr>rs_magic = RESPONSE_MAGIC,
      rs_req_id = req_id,
      rs_status = status,
      rs_payload_len = payload_len,
      rs_flags = FLAG_CONTEXT_SWITCH OR FLAG_PROCESSING_POOL_INFO OR FLAG_CREDIT_ACK,
      rs_context_switch_seq = encode_switch_seq scheduler_seq fetched_seq,
      rs_processing_pool_addr = pool_addr,
      rs_processing_pool_rkey = pool_rkey,
      rs_padding = 0,
      rs_acked_slot_seq = acked_seq\<rparr>"

definition response_success :: "u64 \<Rightarrow> u32 \<Rightarrow> response_header" where
  "response_success req_id payload_len = response_new req_id 0 payload_len"

definition response_error :: "u64 \<Rightarrow> u32 \<Rightarrow> response_header" where
  "response_error req_id status = response_new req_id status 0"

definition response_is_valid :: "response_header \<Rightarrow> bool" where
  "response_is_valid h \<longleftrightarrow> rs_magic h = RESPONSE_MAGIC"

definition is_success :: "response_header \<Rightarrow> bool" where
  "is_success h \<longleftrightarrow> rs_status h = 0"

definition has_context_switch :: "response_header \<Rightarrow> bool" where
  "has_context_switch h \<longleftrightarrow> rs_flags h AND FLAG_CONTEXT_SWITCH \<noteq> 0"

definition has_processing_pool_info :: "response_header \<Rightarrow> bool" where
  "has_processing_pool_info h \<longleftrightarrow> rs_flags h AND FLAG_PROCESSING_POOL_INFO \<noteq> 0"

definition has_credit_ack :: "response_header \<Rightarrow> bool" where
  "has_credit_ack h \<longleftrightarrow> rs_flags h AND FLAG_CREDIT_ACK \<noteq> 0"

definition get_context_switch_seq :: "response_header \<Rightarrow> u64" where
  "get_context_switch_seq h = rs_context_switch_seq h AND 0xFFFFFFFF"

definition get_fetched_seq :: "response_header \<Rightarrow> u32" where
  "get_fetched_seq h = ucast (drop_bit 32 (rs_context_switch_seq h))"

definition get_processing_pool_addr :: "response_header \<Rightarrow> u64 option" where
  "get_processing_pool_addr h =
     (if has_processing_pool_info h then Some (rs_processing_pool_addr h) else None)"

definition get_processing_pool_rkey :: "response_header \<Rightarrow> u32 option" where
  "get_processing_pool_rkey h =
     (if has_processing_pool_info h then Some (rs_processing_pool_rkey h) else None)"

definition response_image :: "response_header \<Rightarrow> bytes" where
  "response_image h =
     le_bytes 4 (rs_magic h) @ le_bytes 8 (rs_req_id h) @ le_bytes 4 (rs_status h)
       @ le_bytes 4 (rs_payload_len h) @ le_bytes 4 (rs_flags h)
       @ le_bytes 8 (rs_context_switch_seq h) @ le_bytes 8 (rs_processing_pool_addr h)
       @ le_bytes 4 (rs_processing_pool_rkey h) @ le_bytes 4 (rs_padding h)
       @ le_bytes 8 (rs_acked_slot_seq h)"

definition response_write_to :: "response_header \<Rightarrow> bytes \<Rightarrow> nat \<Rightarrow> bytes" where
  "response_write_to h mem off = write_at off (response_image h) mem"

definition response_read_from :: "bytes \<Rightarrow> nat \<Rightarrow> response_header" where
  "response_read_from mem off =
     \<lparr>rs_magic = read_u32 mem off,
      rs_req_id = read_u64 mem (off + 4),
      rs_status = read_u32 mem (off + 12),
      rs_payload_len = read_u32 mem (off + 16),
      rs_flags = read_u32 mem (off + 20),
      rs_context_switch_seq = read_u64 mem (off + 24),
      rs_processing_pool_addr = read_u64 mem (off + 32),
      rs_processing_pool_rkey = read_u32 mem (off + 40),
      rs_padding = read_u32 mem (off + 44),
      rs_acked_slot_seq = read_u64 mem (off + 48)\<rparr>"

section \<open>Endpoint entries and context-switch events\<close>

record endpoint_entry =
  ee_req_addr :: u64
  ee_batch_size :: u32
  ee_seq :: u32

definition ENDPOINT_ENTRY_SIZE :: nat where "ENDPOINT_ENTRY_SIZE = 16"

definition endpoint_entry_new :: "u64 \<Rightarrow> u32 \<Rightarrow> u32 \<Rightarrow> endpoint_entry" where
  "endpoint_entry_new req_addr batch_size seq =
     \<lparr>ee_req_addr = req_addr, ee_batch_size = batch_size, ee_seq = seq\<rparr>"

definition endpoint_entry_default :: endpoint_entry where
  "endpoint_entry_default = \<lparr>ee_req_addr = 0, ee_batch_size = 0, ee_seq = 0\<rparr>"

definition endpoint_entry_image :: "endpoint_entry \<Rightarrow> bytes" where
  "endpoint_entry_image e =
     le_bytes 8 (ee_req_addr e) @ le_bytes 4 (ee_batch_size e) @ le_bytes 4 (ee_seq e)"

definition endpoint_entry_write_to :: "endpoint_entry \<Rightarrow> bytes \<Rightarrow> nat \<Rightarrow> bytes" where
  "endpoint_entry_write_to e mem off = write_at off (endpoint_entry_image e) mem"

definition endpoint_entry_read_from :: "bytes \<Rightarrow> nat \<Rightarrow> endpoint_entry" where
  "endpoint_entry_read_from mem off =
     \<lparr>ee_req_addr = read_u64 mem off, ee_batch_size = read_u32 mem (off + 8),
      ee_seq = read_u32 mem (off + 12)\<rparr>"

record context_switch_event =
  cse_magic :: u32
  cse_fetched_seq :: u32
  cse_sequence :: u64

definition CSE_MAGIC :: u32 where "CSE_MAGIC = 0xC5E7C5E7"

definition CSE_SIZE :: nat where "CSE_SIZE = 16"

definition cse_new :: "u64 \<Rightarrow> u32 \<Rightarrow> context_switch_event" where
  "cse_new sequence fetched_seq =
     \<lparr>cse_magic = CSE_MAGIC, cse_fetched_seq = fetched_seq, cse_sequence = sequence\<rparr>"

definition cse_is_valid :: "context_switch_event \<Rightarrow> bool" where
  "cse_is_valid e \<longleftrightarrow> cse_magic e = CSE_MAGIC"

definition cse_image :: "context_switch_event \<Rightarrow> bytes" where
  "cse_image e =
     le_bytes 4 (cse_magic e) @ le_bytes 4 (cse_fetched_seq e) @ le_bytes 8 (cse_sequence e)"

definition cse_write_to :: "context_switch_event \<Rightarrow> bytes \<Rightarrow> nat \<Rightarrow> bytes" where
  "cse_write_to e mem off = write_at off (cse_image e) mem"

definition cse_read_from :: "bytes \<Rightarrow> nat \<Rightarrow> context_switch_event" where
  "cse_read_from mem off =
     \<lparr>cse_magic = read_u32 mem off, cse_fetched_seq = read_u32 mem (off + 4),
      cse_sequence = read_u64 mem (off + 8)\<rparr>"

declare REQUEST_HEADER_SIZE_def [block_sizes] RESPONSE_HEADER_SIZE_def [block_sizes]
  ENDPOINT_ENTRY_SIZE_def [block_sizes] CSE_SIZE_def [block_sizes]

section \<open>The records are fixed-width codecs\<close>

interpretation rqh: byte_codec REQUEST_HEADER_SIZE request_image request_read_from
proof unfold_locales
  fix x :: request_header
  show "length (request_image x) = REQUEST_HEADER_SIZE"
    by (simp add: request_image_def REQUEST_HEADER_SIZE_def)
  show "request_read_from (request_image x) 0 = x"
    by (cases x) (simp add: request_image_def request_read_from_def read_field_simps)
next
  fix off off' and buf buf' :: bytes
  assume eq: "read_at off REQUEST_HEADER_SIZE buf = read_at off' REQUEST_HEADER_SIZE buf'"
  show "request_read_from buf off = request_read_from buf' off'"
    using read_u32_sub [OF eq, of 0] read_u64_sub [OF eq, of 4] read_u16_sub [OF eq, of 12]
      read_u16_sub [OF eq, of 14] read_u64_sub [OF eq, of 16] read_u32_sub [OF eq, of 24]
      read_u32_sub [OF eq, of 28] read_u64_sub [OF eq, of 32]
    by (simp add: request_read_from_def REQUEST_HEADER_SIZE_def)
qed

interpretation rsh: byte_codec RESPONSE_HEADER_SIZE response_image response_read_from
proof unfold_locales
  fix x :: response_header
  show "length (response_image x) = RESPONSE_HEADER_SIZE"
    by (simp add: response_image_def RESPONSE_HEADER_SIZE_def)
  show "response_read_from (response_image x) 0 = x"
    by (cases x) (simp add: response_image_def response_read_from_def read_field_simps)
next
  fix off off' and buf buf' :: bytes
  assume eq: "read_at off RESPONSE_HEADER_SIZE buf = read_at off' RESPONSE_HEADER_SIZE buf'"
  show "response_read_from buf off = response_read_from buf' off'"
    using read_u32_sub [OF eq, of 0] read_u64_sub [OF eq, of 4] read_u32_sub [OF eq, of 12]
      read_u32_sub [OF eq, of 16] read_u32_sub [OF eq, of 20] read_u64_sub [OF eq, of 24]
      read_u64_sub [OF eq, of 32] read_u32_sub [OF eq, of 40] read_u32_sub [OF eq, of 44]
      read_u64_sub [OF eq, of 48]
    by (simp add: response_read_from_def RESPONSE_HEADER_SIZE_def)
qed

interpretation eeh: byte_codec ENDPOINT_ENTRY_SIZE endpoint_entry_image endpoint_entry_read_from
proof unfold_locales
  fix x :: endpoint_entry
  show "length (endpoint_entry_image x) = ENDPOINT_ENTRY_SIZE"
    by (simp add: endpoint_entry_image_def ENDPOINT_ENTRY_SIZE_def)
  show "endpoint_entry_read_from (endpoint_entry_image x) 0 = x"
    by (cases x) (simp add: endpoint_entry_image_def endpoint_entry_read_from_def read_field_simps)
next
  fix off off' and buf buf' :: bytes
  assume eq: "read_at off ENDPOINT_ENTRY_SIZE buf = read_at off' ENDPOINT_ENTRY_SIZE buf'"
  show "endpoint_entry_read_from buf off = endpoint_entry_read_from buf' off'"
    using read_u64_sub [OF eq, of 0] read_u32_sub [OF eq, of 8] read_u32_sub [OF eq, of 12]
    by (simp add: endpoint_entry_read_from_def ENDPOINT_ENTRY_SIZE_def)
qed

interpretation cseh: byte_codec CSE_SIZE cse_image cse_read_from
proof unfold_locales
  fix x :: context_switch_event
  show "length (cse_image x) = CSE_SIZE"
    by (simp add: cse_image_def CSE_SIZE_def)
  show "cse_read_from (cse_image x) 0 = x"
    by (cases x) (simp add: cse_image_def cse_read_from_def read_field_simps)
next
  fix off off' and buf buf' :: bytes
  assume eq: "read_at off CSE_SIZE buf = read_at off' CSE_SIZE buf'"
  show "cse_read_from buf off = cse_read_from buf' off'"
    using read_u32_sub [OF eq, of 0] read_u32_sub [OF eq, of 4] read_u64_sub [OF eq, of 8]
    by (simp add: cse_read_from_def CSE_SIZE_def)
qed

text \<open>The sequence numbers packed into one word are recovered from its halves.\<close>

lemma get_fetched_seq_encode:
  "ucast (drop_bit 32 (encode_switch_seq s f)) = (f :: u32)"
  by (auto simp: encode_switch_seq_def bit_eq_iff bit_simps)

lemma get_context_switch_seq_encode:
  "encode_switch_seq s f AND 0xFFFFFFFF = take_bit 32 s"
proof -
  have "(0xFFFFFFFF :: u64) = mask 32" by (simp add: mask_eq_exp_minus_1)
  then show ?thesis by (auto simp: encode_switch_seq_def bit_eq_iff bit_simps)
qed

lemmas flag_defs = FLAG_CONTEXT_SWITCH_def FLAG_PROCESSING_POOL_INFO_def FLAG_CREDIT_ACK_def

lemma response_flags_decoded [simp]:
  "\<not> has_context_switch (response_new i s l)"
  "\<not> has_context_switch (with_credit_ack i s l a)"
  "has_context_switch (with_context_switch_and_credit_ack i s l q f a)"
  "has_context_switch (with_processing_pool_info_and_credit_ack i s l q f pa pk a)"
  "\<not> has_processing_pool_info (with_credit_ack i s l a)"
  "\<not> has_processing_pool_info (with_context_switch_and_credit_ack i s l q f a)"
  "has_processing_pool_info (with_processing_pool_info_and_credit_ack i s l q f pa pk a)"
  "has_credit_ack (with_credit_ack i s l a)"
  "has_credit_ack (with_context_switch_and_credit_ack i s l q f a)"
  "has_credit_ack (with_processing_pool_info_and_credit_ack i s l q f pa pk a)"
  by (simp_all add: has_context_switch_def has_processing_pool_info_def has_credit_ack_def
      response_new_def with_credit_ack_def with_context_switch_and_credit_ack_def
      with_processing_pool_info_and_credit_ack_def flag_defs)

section \<open>Message blocks\<close>

lemma trailer_write_to_eq:
  assumes "off + MESSAGE_BLOCK_SIZE \<le> length mem"
  shows "trailer_write_to mem off l = write_at (off + 4072) (le_bytes 4 l @ le_bytes 4 MESSAGE_VALID) mem"
proof -
  have "off + 4080 \<le> length mem" using assms by (simp add: block_sizes)
  then show ?thesis
    by (simp add: trailer_write_to_def write_at_def block_sizes Let_def drop_append)
qed

lemma trailer_read_write:
  assumes "off + MESSAGE_BLOCK_SIZE \<le> length mem"
  shows "trailer_read_from (trailer_write_to mem off l) off = (l, MESSAGE_VALID)"
proof -
  let ?t = "le_bytes 4 l @ le_bytes 4 MESSAGE_VALID :: bytes"
  have le: "off + 4072 + length ?t \<le> length mem" using assms by (simp add: block_sizes)
  have "read_at (off + 4072 + i) 4 (write_at (off + 4072) ?t mem) = read_at i 4 ?t" if "i + 4 \<le> 8" for i
    using read_write_inside [OF le, of "off + 4072 + i" 4] that by simp
  from this [of 0] this [of 4] show ?thesis
    by (simp add: trailer_write_to_eq [OF assms] trailer_read_from_def block_sizes Let_def
        read_u32_def read_at_append_left read_at_append_right read_at_all add.commute)
qed

end
