(* ===== verification/Scalerpc_Pool.thy ===== *)
theory Scalerpc_Pool
  imports Scalerpc_Protocol Outcome
begin

text \<open>
  Model of \<^verbatim>\<open>scalerpc/src/pool.rs\<close> and of the errors of \<^verbatim>\<open>scalerpc/src/error.rs\<close>: one registered
  memory region cut into 4096-byte slots, each with a 16-byte header (state and owner) and a
  data area, and the list of free slots, which is used as a stack.  The region is modelled
  byte by byte, because requests and responses are placed there by the device.  A
  \<^verbatim>\<open>SlotHandle\<close> is the index it carries; dropping it gives the slot back.
\<close>

section \<open>Errors and slot states\<close>

datatype slot_state = Free | Reserved | RequestPending | ResponseReady

fun slot_state_u8 :: "slot_state \<Rightarrow> u8" where
  "slot_state_u8 Free = 0"
| "slot_state_u8 Reserved = 1"
| "slot_state_u8 RequestPending = 2"
| "slot_state_u8 ResponseReady = 3"

definition from_u8 :: "u8 \<Rightarrow> slot_state option" where
  "from_u8 v =
     (if v = 0 then Some Free
      else if v = 1 then Some Reserved
      else if v = 2 then Some RequestPending
      else if v = 3 then Some ResponseReady
      else None)"

text \<open>A protocol error carries the constant part of its message.\<close>

datatype srpc_error =
    NoFreeSlots
  | InvalidSlotIndex nat
  | InvalidSlotState slot_state slot_state
  | IoError
  | ConnectionNotFound nat
  | GroupNotFound nat
  | NoAvailableConnection
  | MaxActiveReached
  | Protocol string
  | NoCredits

section \<open>Slots\<close>

definition SLOT_HEADER_SIZE :: nat where "SLOT_HEADER_SIZE = 16"

definition DEFAULT_SLOT_SIZE :: nat where "DEFAULT_SLOT_SIZE = 4096"

definition NO_OWNER :: u32 where "NO_OWNER = 0xFFFFFFFF"

declare SLOT_HEADER_SIZE_def [block_sizes] DEFAULT_SLOT_SIZE_def [block_sizes]

text \<open>A slot is the offset of its first byte in the region.\<close>

definition get_state :: "bytes \<Rightarrow> nat \<Rightarrow> slot_state" where
  "get_state mem slot = (case from_u8 (mem ! slot) of Some s \<Rightarrow> s | None \<Rightarrow> Free)"

definition set_state :: "slot_state \<Rightarrow> nat \<Rightarrow> bytes \<Rightarrow> bytes" where
  "set_state s slot mem = mem[slot := slot_state_u8 s]"

definition try_transition :: "slot_state \<Rightarrow> slot_state \<Rightarrow> nat \<Rightarrow> bytes \<Rightarrow> bool \<times> bytes" where
  "try_transition expected new slot mem =
     (if mem ! slot = slot_state_u8 expected then (True, mem[slot := slot_state_u8 new])
      else (False, mem))"

definition slot_owner :: "bytes \<Rightarrow> nat \<Rightarrow> u32 option" where
  "slot_owner mem slot =
     (let owner = read_u32 mem (slot + 4) in if owner = NO_OWNER then None else Some owner)"

definition set_owner :: "u32 option \<Rightarrow> nat \<Rightarrow> bytes \<Rightarrow> bytes" where
  "set_owner conn_id slot mem =
     write_at (slot + 4) (le_bytes 4 (case conn_id of Some c \<Rightarrow> c | None \<Rightarrow> NO_OWNER)) mem"

definition data_ptr :: "nat \<Rightarrow> nat" where
  "data_ptr slot = slot + SLOT_HEADER_SIZE"

section \<open>The pool\<close>

record message_pool =
  pl_base :: u64
  pl_mem :: bytes
  pl_lkey :: u32
  pl_rkey :: u32
  pl_num_slots :: nat
  pl_slot_data_size :: nat
  pl_free_list :: "nat list"

text \<open>
  Allocation and registration are done by the operating system and the device: the address
  and the two keys of the region, or no region.
\<close>

type_synonym mr_oracle = "(u64 \<times> u32 \<times> u32) option"

definition pool_new :: "mr_oracle \<Rightarrow> nat \<Rightarrow> nat \<Rightarrow> (message_pool, srpc_error) outcome" where
  "pool_new mr num_slots slot_data_size =
     (case mr of
        None \<Rightarrow> Err IoError
      | Some (base, lkey, rkey) \<Rightarrow>
          let mem = replicate (DEFAULT_SLOT_SIZE * num_slots) 0;
              init = (\<lambda>mem i. let slot = i * DEFAULT_SLOT_SIZE
                              in set_owner None slot (set_state Free slot mem))
          in Ok \<lparr>pl_base = base, pl_mem = foldl init mem [0..<num_slots], pl_lkey = lkey,
                 pl_rkey = rkey, pl_num_slots = num_slots, pl_slot_data_size = slot_data_size,
                 pl_free_list = [0..<num_slots]\<rparr>)"

definition get_slot :: "message_pool \<Rightarrow> nat \<Rightarrow> nat option" where
  "get_slot p index = (if index \<ge> pl_num_slots p then None else Some (index * DEFAULT_SLOT_SIZE))"

definition slot_data_addr :: "message_pool \<Rightarrow> nat \<Rightarrow> u64 option" where
  "slot_data_addr p index =
     (if index \<ge> pl_num_slots p then None
      else Some (pl_base p + word_of_nat (index * DEFAULT_SLOT_SIZE) + word_of_nat SLOT_HEADER_SIZE))"

definition slot_addr :: "message_pool \<Rightarrow> nat \<Rightarrow> u64 option" where
  "slot_addr p index =
     (if index \<ge> pl_num_slots p then None
      else Some (pl_base p + word_of_nat (index * DEFAULT_SLOT_SIZE)))"

definition pool_alloc :: "message_pool \<Rightarrow> (nat, srpc_error) outcome \<times> message_pool" where
  "pool_alloc p =
     (if pl_free_list p = [] then (Err NoFreeSlots, p)
      else
        let index = last (pl_free_list p);
            p1 = p\<lparr>pl_free_list := butlast (pl_free_list p)\<rparr>
        in case get_slot p1 index of
             None \<Rightarrow> (Panic, p1)
           | Some slot \<Rightarrow>
               let (ok, mem) = try_transition Free Reserved slot (pl_mem p1)
               in if \<not> ok then
                    (Err (InvalidSlotState Free (get_state (pl_mem p1) slot)),
                     p1\<lparr>pl_free_list := pl_free_list p1 @ [index]\<rparr>)
                  else (Ok index, p1\<lparr>pl_mem := mem\<rparr>))"

definition swap_remove :: "nat \<Rightarrow> 'a list \<Rightarrow> 'a list" where
  "swap_remove pos xs =
     (if Suc pos = length xs then butlast xs else (butlast xs)[pos := last xs])"

text \<open>The loop of \<^verbatim>\<open>alloc_from_slots\<close> over the free list, from position \<open>pos\<close> on.\<close>

fun alloc_scan ::
  "message_pool \<Rightarrow> nat \<Rightarrow> nat \<Rightarrow> nat \<Rightarrow> nat list \<Rightarrow> (nat, srpc_error) outcome \<times> message_pool" where
  "alloc_scan p min_slot max_slot pos [] = (Err NoFreeSlots, p)"
| "alloc_scan p min_slot max_slot pos (free_idx # rest) =
     (if free_idx \<ge> min_slot \<and> free_idx \<le> max_slot then
        case get_slot p free_idx of
          None \<Rightarrow> (Panic, p)
        | Some slot \<Rightarrow>
            let (ok, mem) = try_transition Free Reserved slot (pl_mem p)
            in if ok then
                 (Ok free_idx, p\<lparr>pl_mem := mem, pl_free_list := swap_remove pos (pl_free_list p)\<rparr>)
               else alloc_scan p min_slot max_slot (Suc pos) rest
      else alloc_scan p min_slot max_slot (Suc pos) rest)"

definition alloc_from_slots ::
  "nat list \<Rightarrow> message_pool \<Rightarrow> (nat, srpc_error) outcome \<times> message_pool" where
  "alloc_from_slots slots p =
     (if slots = [] then (Err NoFreeSlots, p)
      else alloc_scan p (slots ! 0) (slots ! (length slots - 1)) 0 (pl_free_list p))"

definition free_slot_by_index :: "nat \<Rightarrow> message_pool \<Rightarrow> message_pool" where
  "free_slot_by_index index p =
     (case get_slot p index of
        None \<Rightarrow> p
      | Some slot \<Rightarrow>
          p\<lparr>pl_mem := set_owner None slot (set_state Free slot (pl_mem p)),
            pl_free_list := pl_free_list p @ [index]\<rparr>)"

definition free_count :: "message_pool \<Rightarrow> nat" where
  "free_count p = length (pl_free_list p)"

section \<open>Handles\<close>

definition handle_data_addr :: "nat \<Rightarrow> message_pool \<Rightarrow> u64 option" where
  "handle_data_addr index p = slot_data_addr p index"

definition handle_write :: "nat \<Rightarrow> bytes \<Rightarrow> message_pool \<Rightarrow> (nat, srpc_error) outcome \<times> message_pool" where
  "handle_write index data p =
     (let len = min (length data) (pl_slot_data_size p)
      in case get_slot p index of
           None \<Rightarrow> (Panic, p)
         | Some slot \<Rightarrow>
             if data_ptr slot + len > length (pl_mem p) then (Panic, p)
             else (Ok len, p\<lparr>pl_mem := write_at (data_ptr slot) (take len data) (pl_mem p)\<rparr>))"

definition handle_read :: "nat \<Rightarrow> nat \<Rightarrow> message_pool \<Rightarrow> (bytes, srpc_error) outcome" where
  "handle_read index len p =
     (let len = min len (pl_slot_data_size p)
      in case get_slot p index of
           None \<Rightarrow> Panic
         | Some slot \<Rightarrow>
             if data_ptr slot + pl_slot_data_size p > length (pl_mem p) then Panic
             else Ok (read_at (data_ptr slot) len (pl_mem p)))"

definition handle_set_state :: "nat \<Rightarrow> slot_state \<Rightarrow> message_pool \<Rightarrow> message_pool" where
  "handle_set_state index s p = p\<lparr>pl_mem := set_state s (index * DEFAULT_SLOT_SIZE) (pl_mem p)\<rparr>"

definition handle_set_owner :: "nat \<Rightarrow> u32 option \<Rightarrow> message_pool \<Rightarrow> message_pool" where
  "handle_set_owner index c p = p\<lparr>pl_mem := set_owner c (index * DEFAULT_SLOT_SIZE) (pl_mem p)\<rparr>"

definition handle_release :: "nat \<Rightarrow> nat" where
  "handle_release index = index"

definition handle_drop :: "nat \<Rightarrow> message_pool \<Rightarrow> message_pool" where
  "handle_drop index p = free_slot_by_index index p"

section \<open>State bytes\<close>

text \<open>A write inside a slot behind its first byte leaves every state byte alone.\<close>

lemma slot_span:
  fixes i j :: nat
  assumes "i * 4096 < j * 4096 + 4096" "j * 4096 < i * 4096 + 4096"
  shows "i = j"
proof -
  have "i * 4096 < Suc j * 4096" "j * 4096 < Suc i * 4096" using assms by simp_all
  then have "i < Suc j" "j < Suc i" by (simp_all only: mult_less_cancel2)
  then show ?thesis by simp
qed

lemma state_byte_write:
  assumes "length mem = n * 4096" "i < n" "j < n" "0 < a" "a + length xs \<le> 4096"
  shows "write_at (i * 4096 + a) xs mem ! (j * 4096) = mem ! (j * 4096)"
proof -
  have i: "Suc i * 4096 \<le> n * 4096" and j: "Suc j * 4096 \<le> n * 4096"
    using assms(2,3) by (intro mult_le_mono; simp)+
  have "\<not> (i * 4096 + a \<le> j * 4096 \<and> j * 4096 < i * 4096 + a + length xs)"
  proof
    assume *: "i * 4096 + a \<le> j * 4096 \<and> j * 4096 < i * 4096 + a + length xs"
    then have "i = j" using assms(4,5) by (intro slot_span) linarith+
    with * assms(4) show False by simp
  qed
  moreover have "i * 4096 + a + length xs \<le> length mem" "j * 4096 < length mem"
    using assms(1,5) i j by simp_all
  ultimately show ?thesis by (subst nth_write_at) auto
qed

lemma state_byte_update:
  "i * 4096 < length (mem :: bytes) \<Longrightarrow>
     mem[i * 4096 := b] ! (j * 4096) = (if i = j then b else mem ! (j * 4096))"
  by (cases "i = j") simp_all

lemma state_byte_owner:
  assumes "length mem = n * 4096" "i < n" "j < n"
  shows "set_owner c (i * 4096) mem ! (j * 4096) = mem ! (j * 4096)"
  unfolding set_owner_def by (rule state_byte_write [OF assms]) simp_all

lemma length_set_owner [simp]:
  assumes "i < n" "length mem = n * 4096"
  shows "length (set_owner c (i * 4096) mem) = n * 4096"
proof -
  have "Suc i * 4096 \<le> n * 4096" using assms(1) by (intro mult_le_mono) simp_all
  then show ?thesis using assms(2) by (simp add: set_owner_def length_write_at)
qed

section \<open>No slot is handed out twice\<close>

text \<open>
  \<open>held\<close> lists the slots that were handed out and not given back.  Free and held slots are all
  slots, each once, and the state byte of every free slot says so.
\<close>

definition pool_inv :: "message_pool \<Rightarrow> nat list \<Rightarrow> bool" where
  "pool_inv p held \<longleftrightarrow>
     length (pl_mem p) = pl_num_slots p * 4096 \<and>
     distinct (pl_free_list p @ held) \<and>
     set (pl_free_list p @ held) = {..<pl_num_slots p} \<and>
     (\<forall>i\<in>set (pl_free_list p). pl_mem p ! (i * 4096) = 0)"

lemma pool_init_loop:
  assumes "m \<le> n" "length mem = n * 4096"
  defines "init \<equiv> \<lambda>mem i. let slot = i * DEFAULT_SLOT_SIZE in set_owner None slot (set_state Free slot mem)"
  shows "length (foldl init mem [0..<m]) = n * 4096 \<and>
         (\<forall>i<m. foldl init mem [0..<m] ! (i * 4096) = 0)"
  using assms(1)
proof (induction m)
  case 0
  then show ?case by (simp add: assms(2))
next
  case (Suc m)
  let ?mem = "foldl init mem [0..<m]"
  have IH: "length ?mem = n * 4096" "\<forall>i<m. ?mem ! (i * 4096) = 0" and m: "m < n"
    using Suc by simp_all
  have "Suc m * 4096 \<le> n * 4096" using m by (intro mult_le_mono) simp_all
  then have in_range: "m * 4096 < length ?mem" using IH(1) by simp
  show ?case
    using IH m in_range
    by (auto simp: init_def set_state_def block_sizes less_Suc_eq state_byte_owner [where n = n]
        state_byte_update Let_def)
qed

lemma pool_new_inv:
  assumes "pool_new (Some mr) n sz = Ok p"
  shows "pool_inv p []"
proof -
  let ?init = "\<lambda>mem i. let slot = i * DEFAULT_SLOT_SIZE in set_owner None slot (set_state Free slot mem)"
  let ?mem = "foldl ?init (replicate (DEFAULT_SLOT_SIZE * n) 0) [0..<n]"
  obtain base lkey rkey where mr: "mr = (base, lkey, rkey)" by (cases mr)
  have p: "pl_mem p = ?mem" "pl_num_slots p = n" "pl_free_list p = [0..<n]"
    using assms by (auto simp only: pool_new_def mr Let_def option.case prod.case outcome.inject message_pool.select_convs)
  have "length ?mem = n * 4096 \<and> (\<forall>i<n. ?mem ! (i * 4096) = 0)"
    by (rule pool_init_loop) (simp_all add: block_sizes)
  then show ?thesis unfolding pool_inv_def p by (simp add: atLeast0LessThan)
qed

lemma get_slot_Some: "get_slot p i = Some s \<longleftrightarrow> i < pl_num_slots p \<and> s = i * 4096"
  by (auto simp: get_slot_def block_sizes)

text \<open>Removing the element behind \<open>xs\<close> moves the last element into its place.\<close>

lemma swap_remove_split:
  "swap_remove (length xs) (xs @ x # ys) = xs @ (if ys = [] then [] else last ys # butlast ys)"
  by (simp add: swap_remove_def butlast_append list_update_append)

lemma pool_inv_take:
  assumes "pool_inv p held" "pl_free_list p = xs @ i # ys"
    and "set fl = set (xs @ ys)" "distinct fl"
  shows "pool_inv (p\<lparr>pl_mem := (pl_mem p)[i * 4096 := b], pl_free_list := fl\<rparr>) (i # held)"
    and "i < pl_num_slots p" "i \<notin> set held"
proof -
  have inv: "length (pl_mem p) = pl_num_slots p * 4096" "distinct ((xs @ i # ys) @ held)"
    "set ((xs @ i # ys) @ held) = {..<pl_num_slots p}" "\<forall>j\<in>set (xs @ i # ys). pl_mem p ! (j * 4096) = 0"
    using assms(1,2) by (simp_all add: pool_inv_def)
  show i: "i < pl_num_slots p" "i \<notin> set held" using inv(2,3) by auto
  have "Suc i * 4096 \<le> pl_num_slots p * 4096" using i(1) by (intro mult_le_mono) simp_all
  then have range: "i * 4096 < length (pl_mem p)" using inv(1) by simp
  have "distinct (fl @ i # held)" using inv(2) assms(3,4) by auto
  moreover have "set (fl @ i # held) = {..<pl_num_slots p}" using inv(3) assms(3) by auto
  moreover have "\<forall>j\<in>set fl. (pl_mem p)[i * 4096 := b] ! (j * 4096) = 0"
    using inv(2,4) assms(3) range by (auto simp: state_byte_update)
  ultimately show "pool_inv (p\<lparr>pl_mem := (pl_mem p)[i * 4096 := b], pl_free_list := fl\<rparr>) (i # held)"
    using inv(1) by (simp add: pool_inv_def)
qed

lemma pool_alloc_cases:
  assumes "pool_inv p held"
  obtains "pl_free_list p = []" "pool_alloc p = (Err NoFreeSlots, p)"
  | xs i where "pl_free_list p = xs @ [i]"
      "pool_alloc p = (Ok i, p\<lparr>pl_mem := (pl_mem p)[i * 4096 := 1], pl_free_list := xs\<rparr>)"
proof (cases "pl_free_list p" rule: rev_cases)
  case Nil
  then show thesis by (intro that(1)) (simp_all add: pool_alloc_def)
next
  case (snoc xs i)
  then have "i < pl_num_slots p" "pl_mem p ! (i * 4096) = 0"
    using assms by (auto simp: pool_inv_def)
  with snoc show thesis
    by (intro that(2) [OF snoc])
      (simp add: pool_alloc_def Let_def get_slot_def try_transition_def block_sizes)
qed

lemma alloc_scan_cases:
  assumes "pool_inv p held" "pl_free_list p = xs @ ys"
  shows "(\<forall>i\<in>set ys. \<not> (lo \<le> i \<and> i \<le> hi)) \<and> alloc_scan p lo hi (length xs) ys = (Err NoFreeSlots, p) \<or>
    (\<exists>as i bs. ys = as @ i # bs \<and> lo \<le> i \<and> i \<le> hi \<and>
       alloc_scan p lo hi (length xs) ys =
         (Ok i, p\<lparr>pl_mem := (pl_mem p)[i * 4096 := 1],
                  pl_free_list := swap_remove (length (xs @ as)) (pl_free_list p)\<rparr>))"
  using assms(2)
proof (induction ys arbitrary: xs)
  case Nil
  then show ?case by simp
next
  case (Cons y ys)
  show ?case
  proof (cases "lo \<le> y \<and> y \<le> hi")
    case True
    have "y < pl_num_slots p" "pl_mem p ! (y * 4096) = 0"
      using assms(1) Cons.prems by (auto simp: pool_inv_def)
    with True have "alloc_scan p lo hi (length xs) (y # ys) =
        (Ok y, p\<lparr>pl_mem := (pl_mem p)[y * 4096 := 1],
                 pl_free_list := swap_remove (length (xs @ [])) (pl_free_list p)\<rparr>)"
      by (simp add: Let_def get_slot_def try_transition_def block_sizes)
    with True show ?thesis by blast
  next
    case False
    then have eq: "alloc_scan p lo hi (length xs) (y # ys) = alloc_scan p lo hi (length (xs @ [y])) ys"
      by auto
    have "pl_free_list p = (xs @ [y]) @ ys" using Cons.prems by simp
    from Cons.IH [OF this] show ?thesis unfolding eq
    proof (elim disjE exE conjE, goal_cases)
      case 1
      with False show ?case by (intro disjI1) simp
    next
      case (2 as i bs)
      then show ?case by (intro disjI2 exI [of _ "y # as"] exI [of _ i] exI [of _ bs]) simp
    qed
  qed
qed

lemma free_inv:
  assumes "pool_inv p held" "i \<in> set held"
  shows "pool_inv (free_slot_by_index i p) (remove1 i held)"
proof -
  have inv: "length (pl_mem p) = pl_num_slots p * 4096" "distinct (pl_free_list p @ held)"
    "set (pl_free_list p @ held) = {..<pl_num_slots p}" "\<forall>j\<in>set (pl_free_list p). pl_mem p ! (j * 4096) = 0"
    using assms(1) by (simp_all add: pool_inv_def)
  have i: "i < pl_num_slots p" using inv(3) assms(2) by auto
  have "Suc i * 4096 \<le> pl_num_slots p * 4096" using i by (intro mult_le_mono) simp_all
  then have range: "i * 4096 < length (pl_mem p)" using inv(1) by simp
  let ?mem = "set_owner None (i * 4096) (set_state Free (i * 4096) (pl_mem p))"
  have "length ?mem = pl_num_slots p * 4096" using inv(1) i by (simp add: set_state_def)
  moreover have "?mem ! (j * 4096) = 0" if j: "j = i \<or> j \<in> set (pl_free_list p)" for j
  proof -
    have "j < pl_num_slots p" using j i inv(3) by auto
    then have "?mem ! (j * 4096) = set_state Free (i * 4096) (pl_mem p) ! (j * 4096)"
      using i inv(1) by (intro state_byte_owner [where n = "pl_num_slots p"]) (simp_all add: set_state_def)
    then show ?thesis using j inv(4) range by (auto simp: set_state_def state_byte_update)
  qed
  moreover have "distinct ((pl_free_list p @ [i]) @ remove1 i held)"
    using inv(2) assms(2) by (auto dest: notin_set_remove1)
  moreover have "set ((pl_free_list p @ [i]) @ remove1 i held) = {..<pl_num_slots p}"
    using inv(2,3) assms(2) i by auto
  ultimately show ?thesis
    using i by (simp add: pool_inv_def free_slot_by_index_def get_slot_def block_sizes)
qed

lemma pool_inv_mem:
  assumes "pool_inv p held" "length mem = length (pl_mem p)"
    and "\<And>j. j \<in> set (pl_free_list p) \<Longrightarrow> mem ! (j * 4096) = pl_mem p ! (j * 4096)"
  shows "pool_inv (p\<lparr>pl_mem := mem\<rparr>) held"
  using assms by (simp add: pool_inv_def)

lemma pool_inv_place:
  assumes "pool_inv p held" "i < pl_num_slots p" "0 < a" "a + length xs \<le> 4096"
  shows "pool_inv (p\<lparr>pl_mem := write_at (i * 4096 + a) xs (pl_mem p)\<rparr>) held"
proof (rule pool_inv_mem [OF assms(1)])
  have inv: "length (pl_mem p) = pl_num_slots p * 4096" "set (pl_free_list p) \<subseteq> {..<pl_num_slots p}"
    using assms(1) by (auto simp: pool_inv_def)
  have "Suc i * 4096 \<le> pl_num_slots p * 4096" using assms(2) by (intro mult_le_mono) simp_all
  then show "length (write_at (i * 4096 + a) xs (pl_mem p)) = length (pl_mem p)"
    using assms(4) inv(1) by (simp add: length_write_at)
  show "write_at (i * 4096 + a) xs (pl_mem p) ! (j * 4096) = pl_mem p ! (j * 4096)"
    if "j \<in> set (pl_free_list p)" for j
    using that inv assms by (intro state_byte_write [where n = "pl_num_slots p"]) auto
qed

text \<open>
  Everything that can happen to a pool: allocations, a holder that gives its slot back, writes
  its header or its data, and the device, which may place bytes in the data area of any slot.
\<close>

inductive pool_run :: "message_pool \<Rightarrow> nat list \<Rightarrow> bool" where
  pr_new: "pool_new (Some mr) n sz = Ok p \<Longrightarrow> pool_run p []"
| pr_alloc: "pool_run p held \<Longrightarrow> pool_alloc p = (Ok i, p') \<Longrightarrow> pool_run p' (i # held)"
| pr_alloc_from: "pool_run p held \<Longrightarrow> alloc_from_slots slots p = (Ok i, p') \<Longrightarrow> pool_run p' (i # held)"
| pr_drop: "pool_run p held \<Longrightarrow> i \<in> set held \<Longrightarrow> pool_run (handle_drop i p) (remove1 i held)"
| pr_state: "pool_run p held \<Longrightarrow> i \<in> set held \<Longrightarrow> pool_run (handle_set_state i s p) held"
| pr_owner: "pool_run p held \<Longrightarrow> i \<in> set held \<Longrightarrow> pool_run (handle_set_owner i c p) held"
| pr_write: "pool_run p held \<Longrightarrow> i \<in> set held \<Longrightarrow> pl_slot_data_size p \<le> MESSAGE_BLOCK_SIZE \<Longrightarrow>
    handle_write i data p = (Ok k, p') \<Longrightarrow> pool_run p' held"
| pr_place: "pool_run p held \<Longrightarrow> get_slot p i = Some slot \<Longrightarrow> a + length xs \<le> MESSAGE_BLOCK_SIZE \<Longrightarrow>
    pool_run (p\<lparr>pl_mem := write_at (data_ptr slot + a) xs (pl_mem p)\<rparr>) held"

lemma alloc_from_inv:
  assumes "pool_inv p held" "alloc_from_slots slots p = (Ok i, p')"
  shows "pool_inv p' (i # held)" "i \<notin> set held" "slots ! 0 \<le> i" "i \<le> last slots"
proof -
  have ne: "slots \<noteq> []" using assms(2) by (auto simp: alloc_from_slots_def)
  then have hi: "slots ! (length slots - 1) = last slots" by (simp add: last_conv_nth)
  have scan: "alloc_scan p (slots ! 0) (last slots) (length []) (pl_free_list p) = (Ok i, p')"
    using assms(2) ne hi by (simp add: alloc_from_slots_def)
  from alloc_scan_cases [OF assms(1), of "[]" "pl_free_list p" "slots ! 0" "last slots"]
  obtain as bs where fl: "pl_free_list p = as @ i # bs" and bounds: "slots ! 0 \<le> i" "i \<le> last slots"
    and p': "p' = p\<lparr>pl_mem := (pl_mem p)[i * 4096 := 1],
                    pl_free_list := swap_remove (length as) (pl_free_list p)\<rparr>"
    unfolding scan by auto
  let ?fl = "swap_remove (length as) (pl_free_list p)"
  have sr: "?fl = as @ (if bs = [] then [] else last bs # butlast bs)"
    unfolding fl by (rule swap_remove_split)
  have d: "distinct (as @ bs)" using assms(1) fl by (auto simp: pool_inv_def)
  have "set ?fl = set (as @ bs) \<and> distinct ?fl"
    using d by (cases bs rule: rev_cases) (auto simp: sr)
  then show "pool_inv p' (i # held)" "i \<notin> set held"
    unfolding p' using pool_inv_take [OF assms(1) fl] by auto
  show "slots ! 0 \<le> i" "i \<le> last slots" by (fact bounds)+
qed

lemma pool_run_inv: "pool_run p held \<Longrightarrow> pool_inv p held"
proof (induction rule: pool_run.induct)
  case (pr_new mr n sz p)
  then show ?case by (rule pool_new_inv)
next
  case (pr_alloc p held i p')
  then show ?case
    using pool_inv_take(1) [OF pr_alloc.IH, of _ i "[]" _ 1]
    by (cases rule: pool_alloc_cases [OF pr_alloc.IH]) (auto simp: pool_inv_def)
next
  case (pr_alloc_from p held slots i p')
  then show ?case by (intro alloc_from_inv(1))
next
  case (pr_drop p held i)
  then show ?case by (simp add: handle_drop_def free_inv)
next
  case (pr_state p held i s)
  then have "i \<notin> set (pl_free_list p)" by (auto simp: pool_inv_def)
  then have "i * 4096 \<noteq> j * 4096" if "j \<in> set (pl_free_list p)" for j using that by auto
  then show ?case
    using pr_state.IH unfolding handle_set_state_def
    by (intro pool_inv_mem) (auto simp: set_state_def block_sizes)
next
  case (pr_owner p held i c)
  then have "i < pl_num_slots p" by (auto simp: pool_inv_def)
  then show ?case
    using pool_inv_place [OF pr_owner.IH, of i 4] by (simp add: handle_set_owner_def set_owner_def block_sizes)
next
  case (pr_write p held i data k p')
  then show ?case
    using pool_inv_place [OF pr_write.IH, of i 16 "take (min (length data) (pl_slot_data_size p)) data"]
    by (auto simp: handle_write_def Let_def data_ptr_def block_sizes get_slot_def split: if_splits)
next
  case (pr_place p held i slot a xs)
  then show ?case
    using pool_inv_place [OF pr_place.IH, of i "16 + a" xs]
    by (simp add: get_slot_Some data_ptr_def block_sizes add.assoc)
qed

lemma pool_partition:
  assumes "pool_inv p held"
  shows "distinct (pl_free_list p @ held)" "set (pl_free_list p @ held) = {..<pl_num_slots p}"
    and "free_count p + length held = pl_num_slots p"
proof -
  show d: "distinct (pl_free_list p @ held)" and s: "set (pl_free_list p @ held) = {..<pl_num_slots p}"
    using assms by (simp_all add: pool_inv_def)
  show "free_count p + length held = pl_num_slots p"
    using distinct_card [OF d] unfolding s by (simp add: free_count_def)
qed

lemma pool_alloc_exclusive:
  assumes "pool_inv p held"
  shows "case pool_alloc p of
           (Ok i, p') \<Rightarrow> i < pl_num_slots p \<and> i \<notin> set held \<and> free_count p = Suc (free_count p')
         | (Err e, p') \<Rightarrow> e = NoFreeSlots \<and> p' = p \<and> length held = pl_num_slots p
         | (Panic, p') \<Rightarrow> False"
  using pool_partition [OF assms] by (cases rule: pool_alloc_cases [OF assms]) (auto simp: free_count_def)

lemma alloc_from_exclusive:
  assumes "pool_inv p held" "slots \<noteq> []"
  shows "case alloc_from_slots slots p of
           (Ok i, p') \<Rightarrow> i \<notin> set held \<and> slots ! 0 \<le> i \<and> i \<le> last slots
         | (Err e, p') \<Rightarrow> e = NoFreeSlots \<and> p' = p \<and> {slots ! 0..last slots} \<inter> {..<pl_num_slots p} \<subseteq> set held
         | (Panic, p') \<Rightarrow> False"
proof -
  have eq: "alloc_from_slots slots p = alloc_scan p (slots ! 0) (last slots) (length []) (pl_free_list p)"
    using assms(2) by (simp add: alloc_from_slots_def last_conv_nth)
  from alloc_scan_cases [OF assms(1), of "[]" "pl_free_list p" "slots ! 0" "last slots"] eq
  consider "\<forall>i\<in>set (pl_free_list p). \<not> (slots ! 0 \<le> i \<and> i \<le> last slots)"
      "alloc_from_slots slots p = (Err NoFreeSlots, p)"
    | i p' where "alloc_from_slots slots p = (Ok i, p')" by auto
  then show ?thesis
  proof cases
    case 1
    then show ?thesis using pool_partition(2) [OF assms(1)] by auto
  next
    case 2
    then show ?thesis using alloc_from_inv [OF assms(1) 2] by simp
  qed
qed

text \<open>
  C25.  The message pool never hands out a slot twice.  After any sequence of allocations,
  returns, header and data writes by the holders, and bytes placed by the device in any data
  area, the free slots and the slots in use are all slots of the pool, each once.  An
  allocation returns a slot that is not in use, from the requested range when there is one; it
  fails only with \<open>NoFreeSlots\<close>, exactly when every slot (of the range) is in use, and then
  changes nothing.  It never panics, and the state check behind the free list never fails.
\<close>

theorem pool_exclusive:
  assumes "pool_run p held" "slots \<noteq> []"
  shows "distinct (pl_free_list p @ held) \<and> set (pl_free_list p @ held) = {..<pl_num_slots p} \<and>
    (case pool_alloc p of
       (Ok i, p') \<Rightarrow> i < pl_num_slots p \<and> i \<notin> set held \<and> free_count p = Suc (free_count p')
     | (Err e, p') \<Rightarrow> e = NoFreeSlots \<and> p' = p \<and> length held = pl_num_slots p
     | (Panic, p') \<Rightarrow> False) \<and>
    (case alloc_from_slots slots p of
       (Ok i, p') \<Rightarrow> i \<notin> set held \<and> slots ! 0 \<le> i \<and> i \<le> last slots
     | (Err e, p') \<Rightarrow> e = NoFreeSlots \<and> p' = p \<and> {slots ! 0..last slots} \<inter> {..<pl_num_slots p} \<subseteq> set held
     | (Panic, p') \<Rightarrow> False)"
  using pool_partition [OF pool_run_inv [OF assms(1)]] pool_alloc_exclusive [OF pool_run_inv [OF assms(1)]]
    alloc_from_exclusive [OF pool_run_inv [OF assms(1)] assms(2)]
  by blast

theorem pool_exclusive_witness:
  "\<exists>p p' i. pool_run p [] \<and> pool_alloc p = (Ok i, p') \<and> pool_run p' [i] \<and>
     distinct (pl_free_list p' @ [i]) \<and> set (pl_free_list p' @ [i]) = {..<3}"
proof -
  obtain p where p: "pool_new (Some (0x1000, 1, 2)) 3 4080 = Ok p"
    by (simp add: pool_new_def Let_def)
  have n: "pl_num_slots p = 3" "pl_free_list p \<noteq> []" using p by (auto simp: pool_new_def Let_def)
  have run: "pool_run p []" by (rule pr_new [OF p])
  obtain i p' where a: "pool_alloc p = (Ok i, p')" and n': "pl_num_slots p' = 3"
    using n by (cases rule: pool_alloc_cases [OF pool_run_inv [OF run]]) auto
  have run': "pool_run p' [i]" by (rule pr_alloc [OF run a])
  from pool_exclusive [OF run', of "[0]"]
  have "distinct (pl_free_list p' @ [i]) \<and> set (pl_free_list p' @ [i]) = {..<3}" by (simp add: n')
  with run a run' show ?thesis by blast
qed

end
