(* ===== verification/Scalerpc_Mapping.thy ===== *)
theory Scalerpc_Mapping
  imports Scalerpc_Pool
begin

text \<open>
  Model of \<^verbatim>\<open>scalerpc/src/mapping.rs\<close>: the table that says which slots belong to which connection.
  The two directions are kept in two vectors, and two counters are kept beside them.  A
  counter that would go below zero is a panic.
\<close>

record mapping_entry =
  me_conn_id :: nat
  me_slots :: "nat list"
  me_remote_slot_addr :: u64
  me_remote_slot_rkey :: u32

definition entry_new :: "nat \<Rightarrow> mapping_entry" where
  "entry_new conn_id =
     \<lparr>me_conn_id = conn_id, me_slots = [], me_remote_slot_addr = 0, me_remote_slot_rkey = 0\<rparr>"

definition set_remote :: "u64 \<Rightarrow> u32 \<Rightarrow> mapping_entry \<Rightarrow> mapping_entry" where
  "set_remote addr rkey e = e\<lparr>me_remote_slot_addr := addr, me_remote_slot_rkey := rkey\<rparr>"

definition add_slot :: "nat \<Rightarrow> mapping_entry \<Rightarrow> mapping_entry" where
  "add_slot slot_index e = e\<lparr>me_slots := me_slots e @ [slot_index]\<rparr>"

definition remove_slot :: "nat \<Rightarrow> mapping_entry \<Rightarrow> bool \<times> mapping_entry" where
  "remove_slot slot_index e =
     (if slot_index \<in> set (me_slots e) then (True, e\<lparr>me_slots := remove1 slot_index (me_slots e)\<rparr>)
      else (False, e))"

record virtual_mapping =
  vm_entries :: "mapping_entry option list"
  vm_slot_to_conn :: "nat option list"
  vm_num_connections :: nat
  vm_num_bound_slots :: nat

definition vm_new :: virtual_mapping where
  "vm_new = \<lparr>vm_entries = [], vm_slot_to_conn = [], vm_num_connections = 0, vm_num_bound_slots = 0\<rparr>"

definition register_connection :: "nat \<Rightarrow> virtual_mapping \<Rightarrow> virtual_mapping" where
  "register_connection conn_id m =
     (let entries = (if conn_id \<ge> length (vm_entries m) then resize (conn_id + 1) None (vm_entries m)
                     else vm_entries m)
      in m\<lparr>vm_entries := entries[conn_id := Some (entry_new conn_id)],
           vm_num_connections := vm_num_connections m + 1\<rparr>)"

text \<open>The loop of \<^verbatim>\<open>unregister_connection\<close> over the slots of the removed entry.\<close>

fun unbind_all :: "nat list \<Rightarrow> virtual_mapping \<Rightarrow> (unit, srpc_error) outcome \<times> virtual_mapping" where
  "unbind_all [] m = (Ok (), m)"
| "unbind_all (slot # slots) m =
     (if slot < length (vm_slot_to_conn m) \<and> vm_slot_to_conn m ! slot \<noteq> None then
        let m = m\<lparr>vm_slot_to_conn := (vm_slot_to_conn m)[slot := None]\<rparr>
        in if vm_num_bound_slots m = 0 then (Panic, m)
           else unbind_all slots (m\<lparr>vm_num_bound_slots := vm_num_bound_slots m - 1\<rparr>)
      else unbind_all slots m)"

definition unregister_connection ::
  "nat \<Rightarrow> virtual_mapping \<Rightarrow> (mapping_entry option, srpc_error) outcome \<times> virtual_mapping" where
  "unregister_connection conn_id m =
     (if conn_id \<ge> length (vm_entries m) then (Ok None, m)
      else case vm_entries m ! conn_id of
             None \<Rightarrow> (Ok None, m)
           | Some entry \<Rightarrow>
               and_then (unbind_all (me_slots entry) (m\<lparr>vm_entries := (vm_entries m)[conn_id := None]\<rparr>))
                 (\<lambda>_ m. if vm_num_connections m = 0 then (Panic, m)
                        else (Ok (Some entry), m\<lparr>vm_num_connections := vm_num_connections m - 1\<rparr>)))"

definition get_connection :: "virtual_mapping \<Rightarrow> nat \<Rightarrow> mapping_entry option" where
  "get_connection m conn_id =
     (if conn_id < length (vm_entries m) then vm_entries m ! conn_id else None)"

definition grow_slots :: "nat \<Rightarrow> virtual_mapping \<Rightarrow> virtual_mapping" where
  "grow_slots slot_index m =
     (if slot_index \<ge> length (vm_slot_to_conn m)
      then m\<lparr>vm_slot_to_conn := resize (slot_index + 1) None (vm_slot_to_conn m)\<rparr> else m)"

definition bind_slot ::
  "nat \<Rightarrow> nat \<Rightarrow> virtual_mapping \<Rightarrow> (unit, srpc_error) outcome \<times> virtual_mapping" where
  "bind_slot conn_id slot_index m =
     (let m = grow_slots slot_index m
      in if vm_slot_to_conn m ! slot_index \<noteq> None then (Err (InvalidSlotIndex slot_index), m)
         else case get_connection m conn_id of
                None \<Rightarrow> (Err (ConnectionNotFound conn_id), m)
              | Some entry \<Rightarrow>
                  (Ok (), m\<lparr>vm_entries := (vm_entries m)[conn_id := Some (add_slot slot_index entry)],
                            vm_slot_to_conn := (vm_slot_to_conn m)[slot_index := Some conn_id],
                            vm_num_bound_slots := vm_num_bound_slots m + 1\<rparr>))"

definition unbind_slot ::
  "nat \<Rightarrow> virtual_mapping \<Rightarrow> (nat option, srpc_error) outcome \<times> virtual_mapping" where
  "unbind_slot slot_index m =
     (if slot_index \<ge> length (vm_slot_to_conn m) then (Ok None, m)
      else case vm_slot_to_conn m ! slot_index of
             None \<Rightarrow> (Ok None, m)
           | Some conn_id \<Rightarrow>
               let m = m\<lparr>vm_slot_to_conn := (vm_slot_to_conn m)[slot_index := None]\<rparr>;
                   m = (case get_connection m conn_id of
                          None \<Rightarrow> m
                        | Some entry \<Rightarrow>
                            m\<lparr>vm_entries := (vm_entries m)[conn_id := Some (snd (remove_slot slot_index entry))]\<rparr>)
               in if vm_num_bound_slots m = 0 then (Panic, m)
                  else (Ok (Some conn_id), m\<lparr>vm_num_bound_slots := vm_num_bound_slots m - 1\<rparr>))"

definition get_slot_owner :: "virtual_mapping \<Rightarrow> nat \<Rightarrow> nat option" where
  "get_slot_owner m slot_index =
     (if slot_index < length (vm_slot_to_conn m) then vm_slot_to_conn m ! slot_index else None)"

definition set_remote_slot ::
  "nat \<Rightarrow> u64 \<Rightarrow> u32 \<Rightarrow> virtual_mapping \<Rightarrow> (unit, srpc_error) outcome \<times> virtual_mapping" where
  "set_remote_slot conn_id addr rkey m =
     (case get_connection m conn_id of
        None \<Rightarrow> (Err (ConnectionNotFound conn_id), m)
      | Some entry \<Rightarrow>
          (Ok (), m\<lparr>vm_entries := (vm_entries m)[conn_id := Some (set_remote addr rkey entry)]\<rparr>))"

definition vm_connections :: "virtual_mapping \<Rightarrow> mapping_entry list" where
  "vm_connections m = map the (filter (\<lambda>e. e \<noteq> None) (vm_entries m))"

section \<open>The two directions agree\<close>

text \<open>
  Every entry is stored under its own number and lists its slots once; a slot belongs to a
  connection exactly when the connection lists it; the counters count both tables.
\<close>

definition vm_inv :: "virtual_mapping \<Rightarrow> bool" where
  "vm_inv m \<longleftrightarrow>
     (\<forall>c e. get_connection m c = Some e \<longrightarrow> me_conn_id e = c \<and> distinct (me_slots e)) \<and>
     (\<forall>s c. get_slot_owner m s = Some c \<longleftrightarrow>
        (\<exists>e. get_connection m c = Some e \<and> s \<in> set (me_slots e))) \<and>
     vm_num_connections m = card (dom (get_connection m)) \<and>
     vm_num_bound_slots m = card (dom (get_slot_owner m))"

lemma finite_tables [simp]: "finite (dom (get_connection m))" "finite (dom (get_slot_owner m))"
proof -
  have "dom (get_connection m) \<subseteq> {..<length (vm_entries m)}"
    by (auto simp: get_connection_def split: if_splits)
  then show "finite (dom (get_connection m))" by (rule finite_subset) simp
  have "dom (get_slot_owner m) \<subseteq> {..<length (vm_slot_to_conn m)}"
    by (auto simp: get_slot_owner_def split: if_splits)
  then show "finite (dom (get_slot_owner m))" by (rule finite_subset) simp
qed

text \<open>What each update does to the two tables as partial functions.\<close>

lemma get_connection_register:
  "get_connection (register_connection c m) = (get_connection m)(c \<mapsto> entry_new c)"
  by (rule ext) (auto simp: get_connection_def register_connection_def Let_def nth_resize nth_list_update)

lemma get_slot_owner_register [simp]: "get_slot_owner (register_connection c m) = get_slot_owner m"
  by (rule ext) (simp add: get_slot_owner_def register_connection_def Let_def)

lemma get_connection_update:
  "c < length (vm_entries m) \<Longrightarrow>
     get_connection (m\<lparr>vm_entries := (vm_entries m)[c := e]\<rparr>) = (get_connection m)(c := e)"
  by (rule ext) (auto simp: get_connection_def nth_list_update)

lemma get_slot_owner_update:
  "s < length (vm_slot_to_conn m) \<Longrightarrow>
     get_slot_owner (m\<lparr>vm_slot_to_conn := (vm_slot_to_conn m)[s := c]\<rparr>) = (get_slot_owner m)(s := c)"
  by (rule ext) (auto simp: get_slot_owner_def nth_list_update)

lemma tables_frame [simp]:
  "get_connection (m\<lparr>vm_slot_to_conn := x\<rparr>) = get_connection m"
  "get_connection (m\<lparr>vm_num_connections := k\<rparr>) = get_connection m"
  "get_connection (m\<lparr>vm_num_bound_slots := k\<rparr>) = get_connection m"
  "get_slot_owner (m\<lparr>vm_entries := y\<rparr>) = get_slot_owner m"
  "get_slot_owner (m\<lparr>vm_num_connections := k\<rparr>) = get_slot_owner m"
  "get_slot_owner (m\<lparr>vm_num_bound_slots := k\<rparr>) = get_slot_owner m"
  by (rule ext; simp add: get_connection_def get_slot_owner_def)+

lemma tables_commute [simp]:
  "get_slot_owner (m\<lparr>vm_entries := x, vm_slot_to_conn := y\<rparr>) = get_slot_owner (m\<lparr>vm_slot_to_conn := y\<rparr>)"
  "get_connection (m\<lparr>vm_slot_to_conn := y, vm_entries := x\<rparr>) = get_connection (m\<lparr>vm_entries := x\<rparr>)"
  by (rule ext; simp add: get_connection_def get_slot_owner_def)+

lemma get_slot_owner_grow:
  "get_slot_owner (m\<lparr>vm_slot_to_conn := resize (Suc s) None (vm_slot_to_conn m)\<rparr>) = get_slot_owner m"
  if "length (vm_slot_to_conn m) \<le> s"
  by (rule ext) (use that in \<open>auto simp: get_slot_owner_def nth_resize\<close>)

lemma get_connection_range: "get_connection m c = Some e \<Longrightarrow> c < length (vm_entries m)"
  by (auto simp: get_connection_def split: if_splits)

lemma get_slot_owner_range: "get_slot_owner m s = Some c \<Longrightarrow> s < length (vm_slot_to_conn m)"
  by (auto simp: get_slot_owner_def split: if_splits)

text \<open>Binding a slot, by the tables.\<close>

lemma bind_slot_cases:
  obtains c' where "get_slot_owner m s = Some c'" "fst (bind_slot c s m) = Err (InvalidSlotIndex s)"
      "get_connection (snd (bind_slot c s m)) = get_connection m"
      "get_slot_owner (snd (bind_slot c s m)) = get_slot_owner m"
      "vm_num_connections (snd (bind_slot c s m)) = vm_num_connections m"
      "vm_num_bound_slots (snd (bind_slot c s m)) = vm_num_bound_slots m"
  | "get_slot_owner m s = None" "get_connection m c = None"
      "fst (bind_slot c s m) = Err (ConnectionNotFound c)"
      "get_connection (snd (bind_slot c s m)) = get_connection m"
      "get_slot_owner (snd (bind_slot c s m)) = get_slot_owner m"
      "vm_num_connections (snd (bind_slot c s m)) = vm_num_connections m"
      "vm_num_bound_slots (snd (bind_slot c s m)) = vm_num_bound_slots m"
  | e where "get_slot_owner m s = None" "get_connection m c = Some e" "fst (bind_slot c s m) = Ok ()"
      "get_connection (snd (bind_slot c s m)) = (get_connection m)(c \<mapsto> add_slot s e)"
      "get_slot_owner (snd (bind_slot c s m)) = (get_slot_owner m)(s \<mapsto> c)"
      "vm_num_connections (snd (bind_slot c s m)) = vm_num_connections m"
      "vm_num_bound_slots (snd (bind_slot c s m)) = vm_num_bound_slots m + 1"
proof -
  define n where "n = grow_slots s m"
  have n: "get_connection n = get_connection m" "get_slot_owner n = get_slot_owner m"
    "s < length (vm_slot_to_conn n)" "vm_num_connections n = vm_num_connections m"
    "vm_num_bound_slots n = vm_num_bound_slots m"
    by (simp_all add: n_def grow_slots_def get_slot_owner_grow)
  have owner: "vm_slot_to_conn n ! s = get_slot_owner m s"
    using n(2,3) by (simp add: get_slot_owner_def flip: n(2))
  have b: "bind_slot c s m =
      (if get_slot_owner m s \<noteq> None then (Err (InvalidSlotIndex s), n)
       else case get_connection m c of
              None \<Rightarrow> (Err (ConnectionNotFound c), n)
            | Some e \<Rightarrow>
                (Ok (), n\<lparr>vm_entries := (vm_entries n)[c := Some (add_slot s e)],
                          vm_slot_to_conn := (vm_slot_to_conn n)[s := Some c],
                          vm_num_bound_slots := vm_num_bound_slots n + 1\<rparr>))"
    by (simp add: bind_slot_def Let_def n(1) owner flip: n_def)
  show thesis
  proof (cases "get_slot_owner m s")
    case (Some c')
    then show thesis using n by (intro that(1)) (simp_all add: b)
  next
    case None
    note free = this
    show thesis
    proof (cases "get_connection m c")
      case None
      then show thesis using n free by (intro that(2)) (simp_all add: b)
    next
      case (Some e)
      then have "c < length (vm_entries n)" using n(1) by (intro get_connection_range) simp
      then have "get_connection (n\<lparr>vm_entries := (vm_entries n)[c := Some (add_slot s e)]\<rparr>) =
          (get_connection m)(c \<mapsto> add_slot s e)"
        by (simp add: get_connection_update n(1))
      moreover have "get_slot_owner (n\<lparr>vm_slot_to_conn := (vm_slot_to_conn n)[s := Some c]\<rparr>) =
          (get_slot_owner m)(s \<mapsto> c)"
        using n(2,3) by (simp add: get_slot_owner_update)
      ultimately show thesis
        using n free Some by (intro that(3)) (simp_all add: b)
    qed
  qed
qed

lemma unbind_slot_cases:
  assumes "vm_inv m"
  obtains "get_slot_owner m s = None" "unbind_slot s m = (Ok None, m)"
  | c e where "get_slot_owner m s = Some c" "get_connection m c = Some e" "s \<in> set (me_slots e)"
      "fst (unbind_slot s m) = Ok (Some c)"
      "get_connection (snd (unbind_slot s m)) = (get_connection m)(c \<mapsto> e\<lparr>me_slots := remove1 s (me_slots e)\<rparr>)"
      "get_slot_owner (snd (unbind_slot s m)) = (get_slot_owner m)(s := None)"
      "vm_num_connections (snd (unbind_slot s m)) = vm_num_connections m"
      "Suc (vm_num_bound_slots (snd (unbind_slot s m))) = vm_num_bound_slots m"
proof (cases "get_slot_owner m s")
  case None
  then show thesis
    by (intro that(1)) (auto simp: get_slot_owner_def unbind_slot_def split: if_splits)
next
  case (Some c)
  then obtain e where e: "get_connection m c = Some e" "s \<in> set (me_slots e)"
    using assms by (auto simp: vm_inv_def)
  note r = get_connection_range [OF e(1)] get_slot_owner_range [OF Some]
  have "dom (get_slot_owner m) \<noteq> {}" using Some by auto
  then have pos: "0 < vm_num_bound_slots m" using assms by (simp add: vm_inv_def card_gt_0_iff)
  have u: "unbind_slot s m =
      (Ok (Some c), m\<lparr>vm_slot_to_conn := (vm_slot_to_conn m)[s := None],
         vm_entries := (vm_entries m)[c := Some (e\<lparr>me_slots := remove1 s (me_slots e)\<rparr>)],
         vm_num_bound_slots := vm_num_bound_slots m - 1\<rparr>)"
    using Some e r pos by (simp add: unbind_slot_def Let_def get_slot_owner_def remove_slot_def)
  show thesis
    using Some e r pos
    by (intro that(2)) (simp_all add: u get_connection_update get_slot_owner_update)
qed

lemma unbind_all_effect:
  assumes "distinct slots" "\<forall>s\<in>set slots. get_slot_owner m s \<noteq> None"
    and "length slots \<le> vm_num_bound_slots m"
  shows "\<exists>m'. unbind_all slots m = (Ok (), m') \<and> get_connection m' = get_connection m \<and>
    get_slot_owner m' = get_slot_owner m |` (- set slots) \<and>
    vm_num_connections m' = vm_num_connections m \<and>
    vm_num_bound_slots m' = vm_num_bound_slots m - length slots"
  using assms
proof (induction slots arbitrary: m)
  case Nil
  then show ?case by simp
next
  case (Cons s slots)
  let ?m = "m\<lparr>vm_slot_to_conn := (vm_slot_to_conn m)[s := None], vm_num_bound_slots := vm_num_bound_slots m - 1\<rparr>"
  have s: "s < length (vm_slot_to_conn m)" "vm_slot_to_conn m ! s \<noteq> None" "0 < vm_num_bound_slots m"
    using Cons.prems by (auto simp: get_slot_owner_def split: if_splits)
  have o: "get_slot_owner ?m = (get_slot_owner m)(s := None)"
    using s(1) by (simp add: get_slot_owner_update)
  have "\<exists>m'. unbind_all slots ?m = (Ok (), m') \<and> get_connection m' = get_connection ?m \<and>
    get_slot_owner m' = get_slot_owner ?m |` (- set slots) \<and>
    vm_num_connections m' = vm_num_connections ?m \<and>
    vm_num_bound_slots m' = vm_num_bound_slots ?m - length slots"
    using Cons.prems s(1) by (intro Cons.IH) (auto simp: get_slot_owner_update)
  then show ?case using s unfolding o by (auto simp: fun_eq_iff Let_def restrict_map_def)
qed

lemma unregister_cases:
  assumes "vm_inv m"
  obtains "get_connection m c = None" "unregister_connection c m = (Ok None, m)"
  | e where "get_connection m c = Some e" "fst (unregister_connection c m) = Ok (Some e)"
      "get_connection (snd (unregister_connection c m)) = (get_connection m)(c := None)"
      "get_slot_owner (snd (unregister_connection c m)) =
         get_slot_owner m |` (- set (me_slots e))"
      "Suc (vm_num_connections (snd (unregister_connection c m))) = vm_num_connections m"
      "vm_num_bound_slots (snd (unregister_connection c m)) = vm_num_bound_slots m - length (me_slots e)"
proof (cases "get_connection m c")
  case None
  then show thesis
    by (intro that(1)) (auto simp: get_connection_def unregister_connection_def split: if_splits)
next
  case (Some e)
  note r = get_connection_range [OF Some]
  have e: "distinct (me_slots e)" and owned: "\<forall>s\<in>set (me_slots e). get_slot_owner m s \<noteq> None"
    using assms Some unfolding vm_inv_def by blast+
  have "card (set (me_slots e)) \<le> card (dom (get_slot_owner m))"
    using owned by (intro card_mono) auto
  then have len: "length (me_slots e) \<le> vm_num_bound_slots m"
    using assms e by (simp add: vm_inv_def distinct_card)
  have "dom (get_connection m) \<noteq> {}" using Some by auto
  then have pos: "0 < vm_num_connections m" using assms by (simp add: vm_inv_def card_gt_0_iff)
  let ?m = "m\<lparr>vm_entries := (vm_entries m)[c := None]\<rparr>"
  from unbind_all_effect [of "me_slots e" ?m] e owned len
  obtain m' where m': "unbind_all (me_slots e) ?m = (Ok (), m')" "get_connection m' = get_connection ?m"
    "get_slot_owner m' = get_slot_owner m |` (- set (me_slots e))"
    "vm_num_connections m' = vm_num_connections m"
    "vm_num_bound_slots m' = vm_num_bound_slots m - length (me_slots e)"
    by (auto simp: tables_frame(4))
  have u: "unregister_connection c m = (Ok (Some e), m'\<lparr>vm_num_connections := vm_num_connections m - 1\<rparr>)"
    using Some r pos m' by (simp add: unregister_connection_def get_connection_def outcome_simps)
  show thesis
    using m' r pos Some by (intro that(2)) (simp_all add: u get_connection_update)
qed

lemma vm_disjoint:
  assumes "vm_inv m" "get_connection m c = Some e" "get_connection m c' = Some e'"
    and "s \<in> set (me_slots e)" "s \<in> set (me_slots e')"
  shows "c = c'"
proof -
  have "get_slot_owner m s = Some c" "get_slot_owner m s = Some c'"
    using assms unfolding vm_inv_def by blast+
  then show ?thesis by simp
qed

section \<open>Every operation keeps the tables consistent\<close>

lemma vm_inv_new: "vm_inv vm_new"
proof -
  have "get_connection vm_new = Map.empty" "get_slot_owner vm_new = Map.empty"
    by (simp_all add: vm_new_def get_connection_def get_slot_owner_def fun_eq_iff)
  then show ?thesis by (simp add: vm_inv_def vm_new_def)
qed

lemma vm_inv_register:
  assumes "vm_inv m" "get_connection m c = None"
  shows "vm_inv (register_connection c m)"
proof -
  have "c \<notin> dom (get_connection m)" using assms(2) by auto
  moreover have "vm_num_connections (register_connection c m) = Suc (vm_num_connections m)"
    "vm_num_bound_slots (register_connection c m) = vm_num_bound_slots m"
    by (simp_all add: register_connection_def Let_def)
  ultimately show ?thesis
    using assms by (auto simp: vm_inv_def get_connection_register entry_new_def)
qed

lemma vm_inv_bind: "vm_inv m \<Longrightarrow> vm_inv (snd (bind_slot c s m))"
proof (cases rule: bind_slot_cases [of m s c])
  case (3 e)
  assume inv: "vm_inv m"
  have "s \<notin> dom (get_slot_owner m)" using 3(1) by auto
  then have bound: "vm_num_bound_slots (snd (bind_slot c s m)) =
      card (dom (get_slot_owner (snd (bind_slot c s m))))"
    using inv 3 by (simp add: vm_inv_def)
  have conns: "vm_num_connections (snd (bind_slot c s m)) =
      card (dom (get_connection (snd (bind_slot c s m))))"
    using inv 3 by (simp add: vm_inv_def insert_absorb domI)
  have "s \<notin> set (me_slots e')" if "get_connection m c' = Some e'" for c' e'
    using inv 3(1) that unfolding vm_inv_def by (metis option.distinct(1))
  then show ?thesis
    using inv 3 bound conns unfolding vm_inv_def
    by (auto simp: add_slot_def split: if_splits)
qed (simp_all add: vm_inv_def)

lemma vm_inv_unbind:
  assumes "vm_inv m"
  shows "vm_inv (snd (unbind_slot s m)) \<and> fst (unbind_slot s m) \<noteq> Panic"
proof (cases rule: unbind_slot_cases [OF assms, of s])
  case 1
  then show ?thesis using assms by simp
next
  case (2 c e)
  have "s \<in> dom (get_slot_owner m)" using 2(1) by auto
  then have bound: "vm_num_bound_slots (snd (unbind_slot s m)) = card (dom (get_slot_owner m) - {s})"
    using assms 2 by (simp add: vm_inv_def)
  have conns: "vm_num_connections (snd (unbind_slot s m)) =
      card (dom (get_connection (snd (unbind_slot s m))))"
    using assms 2 by (simp add: vm_inv_def insert_absorb domI)
  have e: "distinct (me_slots e)" "me_conn_id e = c" using assms 2(2) by (auto simp: vm_inv_def)
  have other: "s \<notin> set (me_slots e')" if "get_connection m c' = Some e'" "c' \<noteq> c" for c' e'
    using assms 2(1) that unfolding vm_inv_def by (metis option.inject)
  have "get_slot_owner (snd (unbind_slot s m)) s' = Some c' \<longleftrightarrow>
      (\<exists>e'. get_connection (snd (unbind_slot s m)) c' = Some e' \<and> s' \<in> set (me_slots e'))" for s' c'
    using assms 2 e other unfolding vm_inv_def by (cases "s' = s"; cases "c' = c") auto
  then show ?thesis
    using assms 2 bound conns e unfolding vm_inv_def by (auto split: if_splits)
qed

lemma vm_inv_unregister:
  assumes "vm_inv m"
  shows "vm_inv (snd (unregister_connection c m)) \<and> fst (unregister_connection c m) \<noteq> Panic"
proof (cases rule: unregister_cases [OF assms, of c])
  case 1
  then show ?thesis using assms by simp
next
  case (2 e)
  let ?m = "snd (unregister_connection c m)"
  have e: "distinct (me_slots e)" "set (me_slots e) \<subseteq> dom (get_slot_owner m)"
    using assms 2(1) unfolding vm_inv_def by blast+
  have "dom (get_slot_owner ?m) = dom (get_slot_owner m) - set (me_slots e)"
    using 2(4) by auto
  then have bound: "vm_num_bound_slots ?m = card (dom (get_slot_owner ?m))"
    using assms 2(6) e by (simp add: vm_inv_def card_Diff_subset distinct_card)
  have "c \<in> dom (get_connection m)" using 2(1) by auto
  then have conns: "vm_num_connections ?m = card (dom (get_connection ?m))"
    using assms 2(3,5) by (simp add: vm_inv_def)
  have owner: "get_slot_owner m s = Some c' \<longleftrightarrow> (\<exists>e'. get_connection m c' = Some e' \<and> s \<in> set (me_slots e'))"
    for s c' using assms unfolding vm_inv_def by blast
  have "get_slot_owner ?m s = Some c' \<longleftrightarrow> (\<exists>e'. get_connection ?m c' = Some e' \<and> s \<in> set (me_slots e'))" for s c'
  proof (cases "c' = c")
    case True
    then show ?thesis using owner [of s c] 2(1,3,4) by (simp add: restrict_map_def)
  next
    case False
    then show ?thesis using owner [of s c] owner [of s c'] 2(1,3,4) by (auto simp: restrict_map_def)
  qed
  moreover have "me_conn_id e' = c' \<and> distinct (me_slots e')" if "get_connection ?m c' = Some e'" for c' e'
    using assms that 2(3) by (auto simp: vm_inv_def split: if_splits)
  ultimately show ?thesis using bound conns 2(2) unfolding vm_inv_def by simp
qed

lemma set_remote_effect:
  "get_connection (snd (set_remote_slot c a k m)) =
     (case get_connection m c of None \<Rightarrow> get_connection m
      | Some e \<Rightarrow> (get_connection m)(c \<mapsto> set_remote a k e))"
  "get_slot_owner (snd (set_remote_slot c a k m)) = get_slot_owner m"
  "vm_num_connections (snd (set_remote_slot c a k m)) = vm_num_connections m"
  "vm_num_bound_slots (snd (set_remote_slot c a k m)) = vm_num_bound_slots m"
  by (auto simp: set_remote_slot_def get_connection_update dest: get_connection_range split: option.split)

lemma vm_inv_set_remote: "vm_inv m \<Longrightarrow> vm_inv (snd (set_remote_slot c a k m))"
  by (cases "get_connection m c")
    (auto simp: vm_inv_def set_remote_effect set_remote_def insert_absorb domI)

text \<open>All uses of a mapping table.  A connection is registered only while its number is unused.\<close>

inductive vm_run :: "virtual_mapping \<Rightarrow> bool" where
  vr_new: "vm_run vm_new"
| vr_register: "vm_run m \<Longrightarrow> get_connection m c = None \<Longrightarrow> vm_run (register_connection c m)"
| vr_unregister: "vm_run m \<Longrightarrow> vm_run (snd (unregister_connection c m))"
| vr_bind: "vm_run m \<Longrightarrow> vm_run (snd (bind_slot c s m))"
| vr_unbind: "vm_run m \<Longrightarrow> vm_run (snd (unbind_slot s m))"
| vr_remote: "vm_run m \<Longrightarrow> vm_run (snd (set_remote_slot c a k m))"

lemma vm_run_inv: "vm_run m \<Longrightarrow> vm_inv m"
  by (induction rule: vm_run.induct)
    (simp_all add: vm_inv_new vm_inv_register vm_inv_unregister vm_inv_bind vm_inv_unbind vm_inv_set_remote)



end
