(* ===== verification/Scalerpc_Connection.thy ===== *)
theory Scalerpc_Connection
  imports Scalerpc_Mapping
begin

text \<open>
  Model of \<^verbatim>\<open>scalerpc/src/connection.rs\<close>: the endpoint description the two sides exchange and
  the wrapper around a queue pair.  The queue pair itself belongs to the device; the model
  keeps the work requests it accepted, how many were attempted and how many the doorbell has
  published.  Whether the device accepts a request is the \<open>submit\<close> parameter.  Memory regions
  are bytes at a base address; the device copies between them.
\<close>

record remote_endpoint =
  re_qpn :: u32
  re_psn :: u32
  re_lid :: u16
  re_slot_addr :: u64
  re_slot_rkey :: u32
  re_event_buffer_addr :: u64
  re_event_buffer_rkey :: u32
  re_warmup_buffer_addr :: u64
  re_warmup_buffer_rkey :: u32
  re_warmup_buffer_slots :: u32
  re_endpoint_entry_addr :: u64
  re_endpoint_entry_rkey :: u32
  re_server_conn_id :: u32
  re_pool_num_slots :: u32

datatype rdma_op = RdmaWrite | RdmaRead

record rdma_wr =
  wr_op :: rdma_op
  wr_remote_addr :: u64
  wr_rkey :: u32
  wr_local_addr :: u64
  wr_len :: u32
  wr_lkey :: u32
  wr_signaled :: u64

record connection =
  cn_conn_id :: nat
  cn_qpn :: u32
  cn_lid :: u16
  cn_remote :: "remote_endpoint option"
  cn_sq :: "rdma_wr list"
  cn_sq_attempts :: nat
  cn_sq_rung :: nat

text \<open>The device supplies the number of the new queue pair and the port's identifier, or fails.\<close>

definition connection_new :: "(u32 \<times> u16) option \<Rightarrow> nat \<Rightarrow> (connection, srpc_error) outcome" where
  "connection_new dev conn_id =
     (case dev of
        None \<Rightarrow> Err IoError
      | Some (qpn, lid) \<Rightarrow>
          Ok \<lparr>cn_conn_id = conn_id, cn_qpn = qpn, cn_lid = lid, cn_remote = None, cn_sq = [],
              cn_sq_attempts = 0, cn_sq_rung = 0\<rparr>)"

definition connection_local_endpoint :: "connection \<Rightarrow> remote_endpoint" where
  "connection_local_endpoint c =
     \<lparr>re_qpn = cn_qpn c, re_psn = 0, re_lid = cn_lid c, re_slot_addr = 0, re_slot_rkey = 0,
      re_event_buffer_addr = 0, re_event_buffer_rkey = 0, re_warmup_buffer_addr = 0,
      re_warmup_buffer_rkey = 0, re_warmup_buffer_slots = 0, re_endpoint_entry_addr = 0,
      re_endpoint_entry_rkey = 0, re_server_conn_id = word_of_nat (cn_conn_id c),
      re_pool_num_slots = 0\<rparr>"

text \<open>\<open>accepted\<close> is whether the queue pair could be connected.\<close>

definition connection_connect ::
  "bool \<Rightarrow> remote_endpoint \<Rightarrow> connection \<Rightarrow> (unit, srpc_error) outcome \<times> connection" where
  "connection_connect accepted remote c =
     (if accepted then (Ok (), c\<lparr>cn_remote := Some remote\<rparr>) else (Err IoError, c))"

definition ring_sq_doorbell :: "connection \<Rightarrow> connection" where
  "ring_sq_doorbell c = c\<lparr>cn_sq_rung := length (cn_sq c)\<rparr>"

text \<open>\<^verbatim>\<open>emit_ctx\<close> and \<^verbatim>\<open>emit_wqe!\<close>, with the two errors the callers make of them.\<close>

definition emit_wqe :: "submit_oracle \<Rightarrow> rdma_wr \<Rightarrow> connection \<Rightarrow> (unit, srpc_error) outcome \<times> connection" where
  "emit_wqe submit wr c =
     (let c1 = c\<lparr>cn_sq_attempts := cn_sq_attempts c + 1\<rparr>
      in case submit (cn_sq_attempts c) of
           None \<Rightarrow> (Ok (), c1\<lparr>cn_sq := cn_sq c @ [wr]\<rparr>)
         | Some EmitCtxError \<Rightarrow> (Err (Protocol ''emit_ctx failed''), c1)
         | Some _ \<Rightarrow> (Err (Protocol ''emit_wqe failed''), c1))"

text \<open>The bytes of a request written into a slot or block: header, payload and trailer.\<close>

definition put_request ::
  "nat \<Rightarrow> request_header \<Rightarrow> bytes \<Rightarrow> bytes \<Rightarrow> bytes option" where
  "put_request off header payload mem =
     (if off + REQUEST_HEADER_SIZE + length payload > length mem \<or> off + MESSAGE_BLOCK_SIZE > length mem
      then None
      else
        let mem = request_write_to header mem off;
            mem = (if payload \<noteq> [] then write_at (off + REQUEST_HEADER_SIZE) payload mem else mem);
            msg_len = word_of_nat (REQUEST_HEADER_SIZE + length payload)
        in Some (trailer_write_to mem off msg_len))"

section \<open>What the device moves\<close>

text \<open>
  A region is its base address and its bytes.  A WRITE reads the gather range of the local
  region when it is executed and stores it at the remote address.
\<close>

definition rdma_write_place :: "rdma_wr \<Rightarrow> u64 \<times> bytes \<Rightarrow> u64 \<times> bytes \<Rightarrow> bytes" where
  "rdma_write_place wr local remote =
     write_at (unat (wr_remote_addr wr - fst remote))
       (read_at (unat (wr_local_addr wr - fst local)) (unat (wr_len wr)) (snd local)) (snd remote)"

definition rdma_read_place :: "rdma_wr \<Rightarrow> u64 \<times> bytes \<Rightarrow> u64 \<times> bytes \<Rightarrow> bytes" where
  "rdma_read_place wr local remote =
     write_at (unat (wr_local_addr wr - fst local))
       (read_at (unat (wr_remote_addr wr - fst remote)) (unat (wr_len wr)) (snd remote)) (snd local)"

section \<open>A message block holds a request\<close>

definition holds_request :: "bytes \<Rightarrow> nat \<Rightarrow> request_header \<Rightarrow> bytes \<Rightarrow> bool" where
  "holds_request mem off header payload \<longleftrightarrow>
     request_read_from mem off = header \<and>
     read_at (off + REQUEST_HEADER_SIZE) (length payload) mem = payload \<and>
     trailer_read_from mem off = (word_of_nat (REQUEST_HEADER_SIZE + length payload), MESSAGE_VALID)"

lemma read_write_at:
  "off + length xs \<le> length buf \<Longrightarrow> p + n \<le> off \<or> off + length xs \<le> p \<Longrightarrow>
     read_at p n (write_at off xs buf) = read_at p n buf"
  by (auto simp: read_write_before read_write_after)

lemma write_at_Nil [simp]: "write_at p [] buf = buf"
  by (simp add: write_at_def)

lemma trailer_frame:
  assumes "off + 4080 \<le> length mem" "p + n \<le> off + 4072 \<or> off + 4080 \<le> p"
  shows "read_at p n (trailer_write_to mem off l) = read_at p n mem"
proof -
  have "off + MESSAGE_BLOCK_SIZE \<le> length mem" using assms(1) by (simp add: block_sizes)
  then show ?thesis
    unfolding trailer_write_to_eq [OF \<open>off + MESSAGE_BLOCK_SIZE \<le> length mem\<close>]
    by (intro read_write_at) (use assms in auto)
qed

lemma length_trailer_write_to [simp]:
  "off + 4080 \<le> length mem \<Longrightarrow> length (trailer_write_to mem off l) = length mem"
  by (simp add: trailer_write_to_eq block_sizes length_write_at)

lemma put_request_Some:
  assumes "off + 4080 \<le> length mem" "length payload \<le> 4032"
  obtains mem' where "put_request off header payload mem = Some mem'" "length mem' = length mem"
    "holds_request mem' off header payload"
    "\<And>p n. p + n \<le> off \<or> off + 4080 \<le> p \<Longrightarrow> read_at p n mem' = read_at p n mem"
proof -
  let ?img = "request_image header"
  let ?m1 = "write_at off ?img mem"
  let ?m2 = "write_at (off + 40) payload ?m1"
  let ?l = "word_of_nat (40 + length payload) :: u32"
  let ?m3 = "trailer_write_to ?m2 off ?l"
  have img: "length ?img = 40" by (simp add: request_image_def)
  have l1: "length ?m1 = length mem" using assms img by (simp add: length_write_at)
  have l2: "length ?m2 = length mem" using assms l1 by (simp add: length_write_at)
  have eq: "put_request off header payload mem = Some ?m3"
    using assms by (auto simp: put_request_def Let_def block_sizes request_write_to_def)
  have hdr: "read_at off 40 ?m3 = ?img"
    using assms l1 l2 img read_write_same [of off ?img mem]
    by (simp add: trailer_frame read_write_at)
  then have "request_read_from ?m3 off = header"
    using rqh.reader_at [of off ?m3 header] by (simp add: block_sizes)
  moreover have "read_at (off + 40) (length payload) ?m3 = payload"
    using assms l1 l2 read_write_same [of "off + 40" payload ?m1] by (simp add: trailer_frame)
  moreover have "trailer_read_from ?m3 off = (?l, MESSAGE_VALID)"
    using assms l2 by (intro trailer_read_write) (simp add: block_sizes)
  ultimately have "holds_request ?m3 off header payload" by (simp add: holds_request_def block_sizes)
  moreover have "read_at p n ?m3 = read_at p n mem" if "p + n \<le> off \<or> off + 4080 \<le> p" for p n
    using that assms l1 l2 img by (auto simp: trailer_frame read_write_at)
  moreover have "length ?m3 = length mem" using assms(1) l2 by simp
  ultimately show thesis using eq that by blast
qed

text \<open>A block copied elsewhere holds the same request.\<close>

lemma holds_request_copy:
  assumes "read_at off 4080 mem = read_at off' 4080 mem'" "off + 4080 \<le> length mem" "off' + 4080 \<le> length mem'"
    and "holds_request mem off header payload" "length payload \<le> 4032"
  shows "holds_request mem' off' header payload"
proof -
  have "read_at off 40 mem = read_at off' 40 mem'"
    using read_at_sub [OF assms(1), of 0 40] by simp
  then have "request_read_from mem off = request_read_from mem' off'"
    using assms(2,3) by (intro rqh.reader_local) (simp_all add: block_sizes)
  moreover have "read_at (off + 40) (length payload) mem = read_at (off' + 40) (length payload) mem'"
    using assms(5) by (intro read_at_sub [OF assms(1)]) simp
  moreover have "trailer_read_from mem off = trailer_read_from mem' off'"
    using read_u32_sub [OF assms(1), of 4072] read_u32_sub [OF assms(1), of 4076]
    by (simp add: trailer_read_from_def block_sizes Let_def add.commute)
  ultimately show ?thesis using assms(4) by (simp add: holds_request_def block_sizes)
qed

section \<open>Addresses of slots\<close>

text \<open>A pool whose region does not wrap around the address space.\<close>

definition pool_placed :: "message_pool \<Rightarrow> bool" where
  "pool_placed p \<longleftrightarrow>
     length (pl_mem p) = pl_num_slots p * 4096 \<and> unat (pl_base p) + pl_num_slots p * 4096 < 2 ^ 64"

lemma slot_data_addr_offset:
  assumes "pool_placed p" "slot_data_addr p i = Some a"
  shows "unat (a - pl_base p) = i * 4096 + 16" "i < pl_num_slots p" "i * 4096 + 4096 \<le> length (pl_mem p)"
proof -
  show i: "i < pl_num_slots p" using assms(2) by (simp add: slot_data_addr_def split: if_splits)
  have "Suc i * 4096 \<le> pl_num_slots p * 4096" using i by (intro mult_le_mono) simp_all
  then have le: "i * 4096 + 4096 \<le> pl_num_slots p * 4096" by simp
  then show "i * 4096 + 4096 \<le> length (pl_mem p)" using assms(1) by (simp add: pool_placed_def)
  have "i * 4096 + 16 < 2 ^ 64" using le assms(1) by (simp add: pool_placed_def)
  then have "unat (word_of_nat (i * 4096 + 16) :: u64) = i * 4096 + 16"
    by (subst unat_of_nat) simp
  moreover have "a - pl_base p = word_of_nat (i * 4096 + 16)"
    using assms(2) by (auto simp: slot_data_addr_def block_sizes add.assoc split: if_splits)
  ultimately show "unat (a - pl_base p) = i * 4096 + 16" by simp
qed

end
