(* ===== verification/Scalerpc_Client.thy ===== *)
theory Scalerpc_Client
  imports Scalerpc_Connection
begin

text \<open>
  Model of \<^verbatim>\<open>scalerpc/src/client.rs\<close>: the warmup buffer in which a client prepares a batch for
  the server to fetch, the event buffer into which the server writes context-switch events,
  the per-connection state machine with its credit window, the two ways of sending a request,
  and the pending call that is polled for its response.

  The client is one record that the operations update; cells and borrowed references of the
  source are fields of it.  An operation that fails keeps the updates made before the failure.
  Counters of fixed width wrap.  The process-wide generator of request identifiers is the
  field \<open>cl_next_req_id\<close>.
\<close>

section \<open>Warmup and event buffers\<close>

datatype client_state = Connected | Warmup | Process | Idle

record warmup_buffer =
  wb_base :: u64
  wb_rkey :: u32
  wb_mem :: bytes
  wb_request_count :: nat
  wb_write_offset :: nat

definition warmup_new :: "mr_oracle \<Rightarrow> nat \<Rightarrow> (warmup_buffer, srpc_error) outcome" where
  "warmup_new mr num_slots =
     (case mr of
        None \<Rightarrow> Err IoError
      | Some (base, lkey, rkey) \<Rightarrow>
          Ok \<lparr>wb_base = base, wb_rkey = rkey, wb_mem = replicate (num_slots * MESSAGE_BLOCK_SIZE) 0,
              wb_request_count = 0, wb_write_offset = 0\<rparr>)"

definition warmup_capacity :: "warmup_buffer \<Rightarrow> nat" where
  "warmup_capacity wb = length (wb_mem wb) div MESSAGE_BLOCK_SIZE"

text \<open>A payload that leaves the buffer is written outside the allocation: no result.\<close>

definition write_request ::
  "request_header \<Rightarrow> bytes \<Rightarrow> warmup_buffer \<Rightarrow> (nat, srpc_error) outcome \<times> warmup_buffer" where
  "write_request header payload wb =
     (if wb_request_count wb \<ge> warmup_capacity wb then (Err NoFreeSlots, wb)
      else
        let slot_index = wb_request_count wb
        in case put_request (slot_index * MESSAGE_BLOCK_SIZE) header payload (wb_mem wb) of
             None \<Rightarrow> (Panic, wb)
           | Some mem \<Rightarrow>
               (Ok slot_index, wb\<lparr>wb_mem := mem, wb_request_count := wb_request_count wb + 1\<rparr>))"

definition warmup_clear :: "warmup_buffer \<Rightarrow> warmup_buffer" where
  "warmup_clear wb =
     (let clear_slot = (\<lambda>mem i. write_at (i * MESSAGE_BLOCK_SIZE + (MESSAGE_BLOCK_SIZE - 8) + 4)
                                   (le_bytes 4 (0 :: u32)) mem)
      in wb\<lparr>wb_request_count := 0, wb_write_offset := 0,
            wb_mem := foldl clear_slot (wb_mem wb) [0..<warmup_capacity wb]\<rparr>)"

definition warmup_slot_addr :: "warmup_buffer \<Rightarrow> nat \<Rightarrow> u64 option" where
  "warmup_slot_addr wb index =
     (if index \<ge> warmup_capacity wb then None
      else Some (wb_base wb + word_of_nat (index * MESSAGE_BLOCK_SIZE)))"

record event_buffer =
  eb_base :: u64
  eb_rkey :: u32
  eb_mem :: bytes
  eb_last_sequence :: u64

definition event_buffer_new :: "mr_oracle \<Rightarrow> (event_buffer, srpc_error) outcome" where
  "event_buffer_new mr =
     (case mr of
        None \<Rightarrow> Err IoError
      | Some (base, lkey, rkey) \<Rightarrow>
          Ok \<lparr>eb_base = base, eb_rkey = rkey, eb_mem = replicate CSE_SIZE 0, eb_last_sequence = 0\<rparr>)"

definition event_poll :: "event_buffer \<Rightarrow> (u64 \<times> u32) option \<times> event_buffer" where
  "event_poll eb =
     (let event = cse_read_from (eb_mem eb) 0
      in if cse_is_valid event \<and> cse_sequence event > eb_last_sequence eb then
           (Some (cse_sequence event, cse_fetched_seq event), eb\<lparr>eb_last_sequence := cse_sequence event\<rparr>)
         else (None, eb))"

definition event_clear :: "event_buffer \<Rightarrow> event_buffer" where
  "event_clear eb = eb\<lparr>eb_mem := write_at 0 (replicate CSE_SIZE 0) (eb_mem eb), eb_last_sequence := 0\<rparr>"

section \<open>Client state\<close>

record connection_state =
  cs_state :: client_state
  cs_warmup_buffer :: warmup_buffer
  cs_event_buffer :: event_buffer
  cs_endpoint_entry_addr :: u64
  cs_endpoint_entry_rkey :: u32
  cs_endpoint_entry_seq :: u32
  cs_last_notified_count :: nat
  cs_pending_notification :: bool
  cs_server_conn_id :: u32
  cs_server_pool_num_slots :: nat
  cs_direct_slot_index :: nat
  cs_last_context_switch_seq :: u64
  cs_last_acknowledged_seq :: u32
  cs_send_slots :: "nat list"
  cs_direct_send_slot_index :: nat
  cs_response_slots :: "nat list"
  cs_response_slot_index :: nat
  cs_next_slot_seq :: u64
  cs_last_acked_seq :: u64
  cs_credit_window_size :: nat

record rpc_client =
  cl_pool :: message_pool
  cl_mapping :: virtual_mapping
  cl_connections :: "connection option list"
  cl_connection_states :: "connection_state option list"
  cl_max_connections :: nat
  cl_needs_flush :: "nat list"
  cl_shared_cqs :: bool
  cl_next_req_id :: u64

definition client_new ::
  "mr_oracle \<Rightarrow> nat \<Rightarrow> nat \<Rightarrow> nat \<Rightarrow> u64 \<Rightarrow> (rpc_client, srpc_error) outcome" where
  "client_new mr num_slots slot_data_size max_connections next_id =
     (case pool_new mr num_slots slot_data_size of
        Ok pool \<Rightarrow>
          Ok \<lparr>cl_pool = pool, cl_mapping = vm_new, cl_connections = [], cl_connection_states = [],
              cl_max_connections = max_connections, cl_needs_flush = [], cl_shared_cqs = False,
              cl_next_req_id = next_id\<rparr>
      | Err e \<Rightarrow> Err e
      | Panic \<Rightarrow> Panic)"

definition get_conn :: "rpc_client \<Rightarrow> nat \<Rightarrow> connection option" where
  "get_conn cl conn_id =
     (if conn_id < length (cl_connections cl) then cl_connections cl ! conn_id else None)"

definition get_conn_state :: "rpc_client \<Rightarrow> nat \<Rightarrow> connection_state option" where
  "get_conn_state cl conn_id =
     (if conn_id < length (cl_connection_states cl) then cl_connection_states cl ! conn_id else None)"

definition set_conn_state :: "nat \<Rightarrow> connection_state \<Rightarrow> rpc_client \<Rightarrow> rpc_client" where
  "set_conn_state conn_id cs cl =
     cl\<lparr>cl_connection_states := (cl_connection_states cl)[conn_id := Some cs]\<rparr>"

definition set_conn :: "nat \<Rightarrow> connection \<Rightarrow> rpc_client \<Rightarrow> rpc_client" where
  "set_conn conn_id c cl = cl\<lparr>cl_connections := (cl_connections cl)[conn_id := Some c]\<rparr>"

definition client_state_of :: "rpc_client \<Rightarrow> nat \<Rightarrow> client_state option" where
  "client_state_of cl conn_id = map_option cs_state (get_conn_state cl conn_id)"

definition debug_state :: "rpc_client \<Rightarrow> nat \<Rightarrow> (bool \<times> u32 \<times> u32 \<times> nat \<times> nat) option" where
  "debug_state cl conn_id =
     map_option (\<lambda>s. (cs_pending_notification s, cs_endpoint_entry_seq s, cs_last_acknowledged_seq s,
                      wb_request_count (cs_warmup_buffer s), cs_last_notified_count s))
       (get_conn_state cl conn_id)"

definition event_buffer_addr :: "rpc_client \<Rightarrow> nat \<Rightarrow> (u64 \<times> u32) option" where
  "event_buffer_addr cl conn_id =
     map_option (\<lambda>s. (eb_base (cs_event_buffer s), eb_rkey (cs_event_buffer s))) (get_conn_state cl conn_id)"

section \<open>Adding and connecting\<close>

text \<open>\<^verbatim>\<open>bind_slot\<close> for the fixed range of slots of a new connection.\<close>

fun bind_range :: "nat \<Rightarrow> nat list \<Rightarrow> virtual_mapping \<Rightarrow> (unit, srpc_error) outcome \<times> virtual_mapping" where
  "bind_range conn_id [] m = (Ok (), m)"
| "bind_range conn_id (s # ss) m = and_then (bind_slot conn_id s m) (\<lambda>_ m. bind_range conn_id ss m)"

text \<open>Up to \<open>n\<close> allocations, each released from its handle, until one fails.\<close>

fun take_slots :: "nat \<Rightarrow> message_pool \<Rightarrow> (nat list, srpc_error) outcome \<times> message_pool" where
  "take_slots 0 p = (Ok [], p)"
| "take_slots (Suc n) p =
     (case pool_alloc p of
        (Ok slot, p) \<Rightarrow>
          and_then (take_slots n p) (\<lambda>slots p. (Ok (handle_release slot # slots), p))
      | (Err e, p) \<Rightarrow> (Ok [], p)
      | (Panic, p) \<Rightarrow> (Panic, p))"

definition connection_state_new ::
  "warmup_buffer \<Rightarrow> event_buffer \<Rightarrow> nat list \<Rightarrow> nat list \<Rightarrow> connection_state" where
  "connection_state_new wb eb send_slots response_slots =
     \<lparr>cs_state = Connected, cs_warmup_buffer = wb, cs_event_buffer = eb,
      cs_endpoint_entry_addr = 0, cs_endpoint_entry_rkey = 0, cs_endpoint_entry_seq = 0,
      cs_last_notified_count = 0, cs_pending_notification = False, cs_server_conn_id = 0,
      cs_server_pool_num_slots = 64, cs_direct_slot_index = 0, cs_last_context_switch_seq = 0,
      cs_last_acknowledged_seq = 0, cs_send_slots = send_slots, cs_direct_send_slot_index = 0,
      cs_response_slots = response_slots, cs_response_slot_index = 0, cs_next_slot_seq = 0,
      cs_last_acked_seq = 0, cs_credit_window_size = 64\<rparr>"

text \<open>
  The device's answers: whether the completion queues could be created, the queue pair, and
  the two registered regions.
\<close>

record add_oracle =
  ao_cqs :: bool
  ao_qp :: "(u32 \<times> u16) option"
  ao_warmup :: mr_oracle
  ao_event :: mr_oracle

definition client_add_connection ::
  "add_oracle \<Rightarrow> rpc_client \<Rightarrow> (nat, srpc_error) outcome \<times> rpc_client" where
  "client_add_connection dev cl =
     (let conn_id = length (cl_connections cl)
      in if conn_id \<ge> cl_max_connections cl then
           (Err (Protocol ''max_connections limit reached''), cl)
         else if \<not> cl_shared_cqs cl \<and> \<not> ao_cqs dev then (Err IoError, cl)
         else
           let cl = cl\<lparr>cl_shared_cqs := True\<rparr>
           in case connection_new (ao_qp dev) conn_id of
                Err e \<Rightarrow> (Err e, cl)
              | Panic \<Rightarrow> (Panic, cl)
              | Ok conn \<Rightarrow>
                  let mapping = register_connection conn_id (cl_mapping cl);
                      slots_per_conn = pl_num_slots (cl_pool cl) div cl_max_connections cl;
                      start_slot = conn_id * slots_per_conn;
                      (r, mapping) = bind_range conn_id [start_slot..<start_slot + slots_per_conn] mapping;
                      cl = cl\<lparr>cl_mapping := mapping\<rparr>
                  in case r of
                       Err e \<Rightarrow> (Err e, cl)
                     | Panic \<Rightarrow> (Panic, cl)
                     | Ok _ \<Rightarrow>
                         (case warmup_new (ao_warmup dev) 16 of
                            Err e \<Rightarrow> (Err e, cl)
                          | Panic \<Rightarrow> (Panic, cl)
                          | Ok wb \<Rightarrow>
                              (case event_buffer_new (ao_event dev) of
                                 Err e \<Rightarrow> (Err e, cl)
                               | Panic \<Rightarrow> (Panic, cl)
                               | Ok eb \<Rightarrow>
                                   let available = free_count (cl_pool cl);
                                       num_send_slots = max (min 2048 (available div 4)) 1;
                                       (s, pool) = take_slots num_send_slots (cl_pool cl);
                                       available = free_count pool;
                                       num_response_slots = max (min 2048 (available div 2)) 8;
                                       (t, pool) = take_slots num_response_slots pool;
                                       cl = cl\<lparr>cl_pool := pool\<rparr>
                                   in case (s, t) of
                                        (Ok send_slots, Ok response_slots) \<Rightarrow>
                                          (Ok conn_id,
                                           cl\<lparr>cl_connections := cl_connections cl @ [Some conn],
                                              cl_connection_states := cl_connection_states cl
                                                @ [Some (connection_state_new wb eb send_slots response_slots)]\<rparr>)
                                      | _ \<Rightarrow> (Panic, cl))))"

definition client_connect ::
  "bool \<Rightarrow> nat \<Rightarrow> remote_endpoint \<Rightarrow> rpc_client \<Rightarrow> (unit, srpc_error) outcome \<times> rpc_client" where
  "client_connect accepted conn_id remote cl =
     (case get_conn cl conn_id of
        None \<Rightarrow> (Err (ConnectionNotFound conn_id), cl)
      | Some conn \<Rightarrow>
          let (r, mapping) = set_remote_slot conn_id (re_slot_addr remote) (re_slot_rkey remote) (cl_mapping cl);
              cl = cl\<lparr>cl_mapping := mapping\<rparr>
          in case r of
               Err e \<Rightarrow> (Err e, cl)
             | Panic \<Rightarrow> (Panic, cl)
             | Ok _ \<Rightarrow>
                 let cl = (case get_conn_state cl conn_id of
                             None \<Rightarrow> cl
                           | Some cs \<Rightarrow>
                               let cs = cs\<lparr>cs_endpoint_entry_addr := re_endpoint_entry_addr remote,
                                           cs_endpoint_entry_rkey := re_endpoint_entry_rkey remote,
                                           cs_server_conn_id := re_server_conn_id remote\<rparr>;
                                   cs = (if re_pool_num_slots remote > 0
                                         then cs\<lparr>cs_server_pool_num_slots := unat (re_pool_num_slots remote),
                                                 cs_credit_window_size := unat (re_pool_num_slots remote)\<rparr>
                                         else cs)
                               in set_conn_state conn_id cs cl);
                     (r, conn) = connection_connect accepted remote conn
                 in (r, set_conn conn_id conn cl))"

definition client_local_endpoint :: "nat \<Rightarrow> rpc_client \<Rightarrow> (remote_endpoint, srpc_error) outcome" where
  "client_local_endpoint conn_id cl =
     (case get_conn cl conn_id of
        None \<Rightarrow> Err (ConnectionNotFound conn_id)
      | Some conn \<Rightarrow>
          let ep = (connection_local_endpoint conn)\<lparr>re_slot_addr := pl_base (cl_pool cl),
                                                     re_slot_rkey := pl_rkey (cl_pool cl)\<rparr>;
              ep = (case event_buffer_addr cl conn_id of
                      None \<Rightarrow> ep
                    | Some (addr, rkey) \<Rightarrow> ep\<lparr>re_event_buffer_addr := addr, re_event_buffer_rkey := rkey\<rparr>)
          in case get_conn_state cl conn_id of
               None \<Rightarrow> Ok ep
             | Some cs \<Rightarrow>
                 let wb = cs_warmup_buffer cs
                 in Ok (ep\<lparr>re_warmup_buffer_addr := wb_base wb, re_warmup_buffer_rkey := wb_rkey wb,
                           re_warmup_buffer_slots := word_of_nat (warmup_capacity wb)\<rparr>))"

section \<open>Announcing a batch\<close>

definition mark_needs_flush :: "nat \<Rightarrow> rpc_client \<Rightarrow> rpc_client" where
  "mark_needs_flush conn_id cl =
     (if conn_id \<in> set (cl_needs_flush cl) then cl
      else cl\<lparr>cl_needs_flush := cl_needs_flush cl @ [conn_id]\<rparr>)"

definition notify_warmup_ready ::
  "submit_oracle \<Rightarrow> nat \<Rightarrow> rpc_client \<Rightarrow> (unit, srpc_error) outcome \<times> rpc_client" where
  "notify_warmup_ready submit conn_id cl =
     (case (get_conn cl conn_id, get_conn_state cl conn_id) of
        (Some conn, Some cs) \<Rightarrow>
          let batch_size = word_of_nat (wb_request_count (cs_warmup_buffer cs)) :: u32
          in if batch_size = 0 then (Ok (), cl)
             else if cs_endpoint_entry_addr cs = 0 then (Ok (), cl)
             else
               let new_seq = cs_endpoint_entry_seq cs + 1;
                   cl = set_conn_state conn_id (cs\<lparr>cs_endpoint_entry_seq := new_seq\<rparr>) cl;
                   entry = endpoint_entry_new (wb_base (cs_warmup_buffer cs)) batch_size new_seq;
                   (r, pool) = pool_alloc (cl_pool cl);
                   cl = cl\<lparr>cl_pool := pool\<rparr>
               in (case r of
                     Err e \<Rightarrow> (Err e, cl)
                   | Panic \<Rightarrow> (Panic, cl)
                   | Ok slot \<Rightarrow>
                       (case slot_data_addr pool slot of
                          None \<Rightarrow> (Panic, cl)
                        | Some addr \<Rightarrow>
                            let pool = pool\<lparr>pl_mem := endpoint_entry_write_to entry (pl_mem pool)
                                              (data_ptr (slot * DEFAULT_SLOT_SIZE))\<rparr>;
                                (r, conn) = emit_wqe submit
                                  \<lparr>wr_op = RdmaWrite, wr_remote_addr = cs_endpoint_entry_addr cs,
                                   wr_rkey = cs_endpoint_entry_rkey cs, wr_local_addr = addr,
                                   wr_len = word_of_nat ENDPOINT_ENTRY_SIZE, wr_lkey = pl_lkey pool,
                                   wr_signaled = ucast new_seq\<rparr> conn;
                                cl = set_conn conn_id conn (cl\<lparr>cl_pool := handle_drop slot pool\<rparr>)
                            in case r of
                                 Ok _ \<Rightarrow> (Ok (), mark_needs_flush conn_id cl)
                               | Err e \<Rightarrow> (Err e, cl)
                               | Panic \<Rightarrow> (Panic, cl)))
      | _ \<Rightarrow> (Err (ConnectionNotFound conn_id), cl))"

definition flush_warmup ::
  "submit_oracle \<Rightarrow> nat \<Rightarrow> rpc_client \<Rightarrow> (nat, srpc_error) outcome \<times> rpc_client" where
  "flush_warmup submit conn_id cl =
     (case get_conn_state cl conn_id of
        None \<Rightarrow> (Err (ConnectionNotFound conn_id), cl)
      | Some cs \<Rightarrow>
          if cs_pending_notification cs then (Ok 0, cl)
          else
            let warmup_count = wb_request_count (cs_warmup_buffer cs)
            in if warmup_count > cs_last_notified_count cs then
                 and_then (notify_warmup_ready submit conn_id cl)
                   (\<lambda>_ cl. case get_conn_state cl conn_id of
                             None \<Rightarrow> (Panic, cl)
                           | Some cs \<Rightarrow>
                               (Ok warmup_count,
                                set_conn_state conn_id
                                  (cs\<lparr>cs_last_notified_count := warmup_count, cs_pending_notification := True\<rparr>) cl))
               else (Ok 0, cl))"

text \<open>\<^verbatim>\<open>flush_all_warmup\<close> ignores the errors of single connections; a panic ends it.\<close>

fun flush_from :: "(nat \<Rightarrow> submit_oracle) \<Rightarrow> nat list \<Rightarrow> nat \<times> rpc_client \<Rightarrow> (nat, srpc_error) outcome \<times> rpc_client" where
  "flush_from submit [] (n0, cl) = (Ok n0, cl)"
| "flush_from submit (conn_id # rest) (n0, cl) =
     (case flush_warmup (submit conn_id) conn_id cl of
        (Ok n, cl) \<Rightarrow> flush_from submit rest (n0 + n, cl)
      | (Err e, cl) \<Rightarrow> flush_from submit rest (n0, cl)
      | (Panic, cl) \<Rightarrow> (Panic, cl))"

definition flush_all_warmup ::
  "(nat \<Rightarrow> submit_oracle) \<Rightarrow> rpc_client \<Rightarrow> (nat, srpc_error) outcome \<times> rpc_client" where
  "flush_all_warmup submit cl = flush_from submit [0..<length (cl_connection_states cl)] (0, cl)"

section \<open>Context-switch events\<close>

definition on_event :: "u64 \<Rightarrow> u32 \<Rightarrow> connection_state \<Rightarrow> connection_state" where
  "on_event sched_seq fetched_seq cs =
     (if fetched_seq > 0 then
        if fetched_seq \<le> cs_last_acknowledged_seq cs then cs
        else
          let cs = cs\<lparr>cs_last_acknowledged_seq := fetched_seq\<rparr>;
              cs = (if sched_seq > cs_last_context_switch_seq cs
                    then cs\<lparr>cs_last_context_switch_seq := sched_seq\<rparr> else cs)
          in if fetched_seq = cs_endpoint_entry_seq cs then
               cs\<lparr>cs_direct_slot_index := cs_last_notified_count cs,
                  cs_pending_notification := False,
                  cs_warmup_buffer := warmup_clear (cs_warmup_buffer cs),
                  cs_last_notified_count := 0\<rparr>
             else cs
      else if sched_seq \<le> cs_last_context_switch_seq cs then cs
      else
        let cs = cs\<lparr>cs_last_context_switch_seq := sched_seq\<rparr>
        in if cs_state cs = Process then cs\<lparr>cs_state := Idle\<rparr> else cs)"

definition check_events :: "nat \<Rightarrow> rpc_client \<Rightarrow> rpc_client" where
  "check_events conn_id cl =
     (case get_conn_state cl conn_id of
        None \<Rightarrow> cl
      | Some cs \<Rightarrow>
          (case event_poll (cs_event_buffer cs) of
             (None, eb) \<Rightarrow> set_conn_state conn_id (cs\<lparr>cs_event_buffer := eb\<rparr>) cl
           | (Some (sched_seq, fetched_seq), eb) \<Rightarrow>
               set_conn_state conn_id (on_event sched_seq fetched_seq (cs\<lparr>cs_event_buffer := eb\<rparr>)) cl))"

definition check_all_events :: "rpc_client \<Rightarrow> rpc_client" where
  "check_all_events cl = fold check_events [0..<length (cl_connection_states cl)] cl"

definition ring_doorbells :: "rpc_client \<Rightarrow> rpc_client" where
  "ring_doorbells cl =
     (let ring = (\<lambda>conn_id cl. case get_conn cl conn_id of
                                 None \<Rightarrow> cl
                               | Some conn \<Rightarrow> set_conn conn_id (ring_sq_doorbell conn) cl)
      in (fold ring (cl_needs_flush cl) cl)\<lparr>cl_needs_flush := []\<rparr>)"

text \<open>\<open>cqes\<close> is what draining the completion queues returns.\<close>

definition client_poll ::
  "(nat \<Rightarrow> submit_oracle) \<Rightarrow> nat \<Rightarrow> rpc_client \<Rightarrow> (nat, srpc_error) outcome \<times> rpc_client" where
  "client_poll submit cqes cl =
     and_then (flush_all_warmup submit (check_all_events cl)) (\<lambda>_ cl. (Ok cqes, ring_doorbells cl))"

definition client_poll_minimal :: "nat \<Rightarrow> rpc_client \<Rightarrow> nat \<times> rpc_client" where
  "client_poll_minimal cqes cl = (cqes, ring_doorbells (check_all_events cl))"

section \<open>Sending a request\<close>

record pending_rpc =
  pn_slot_index :: nat
  pn_req_id :: u64
  pn_conn_id :: nat
  pn_send_slot_index :: "nat option"

definition next_req_id :: "rpc_client \<Rightarrow> u64 \<times> rpc_client" where
  "next_req_id cl = (cl_next_req_id cl, cl\<lparr>cl_next_req_id := cl_next_req_id cl + 1\<rparr>)"

definition no_credits :: "connection_state \<Rightarrow> bool" where
  "no_credits cs \<longleftrightarrow>
     (let window = word_of_nat (cs_credit_window_size cs)
      in window > 0 \<and> cs_next_slot_seq cs - cs_last_acked_seq cs \<ge> window)"

definition server_slot_idx :: "connection_state \<Rightarrow> nat" where
  "server_slot_idx cs =
     (let window = word_of_nat (cs_credit_window_size cs)
      in if window > 0 then unat (cs_next_slot_seq cs mod window)
         else cs_direct_slot_index cs mod cs_server_pool_num_slots cs)"

text \<open>The steps of \<^verbatim>\<open>call_direct\<close> after the checks: ring slots, header, local copy and work request.\<close>

definition send_direct ::
  "submit_oracle \<Rightarrow> nat \<Rightarrow> u16 \<Rightarrow> bytes \<Rightarrow> u64 \<Rightarrow> u32 \<Rightarrow> nat \<Rightarrow> u64 \<Rightarrow> connection \<Rightarrow> connection_state
     \<Rightarrow> rpc_client \<Rightarrow> (pending_rpc, srpc_error) outcome \<times> rpc_client" where
  "send_direct submit conn_id rpc_type payload remote_base_addr remote_rkey slot_idx next_seq conn cs cl =
     (if cs_response_slots cs = [] then (Panic, cl)
      else
        let response_slot_index =
              cs_response_slots cs ! (cs_response_slot_index cs mod length (cs_response_slots cs));
            cs = cs\<lparr>cs_response_slot_index := cs_response_slot_index cs + 1\<rparr>;
            cl = set_conn_state conn_id cs cl
        in case slot_data_addr (cl_pool cl) response_slot_index of
             None \<Rightarrow> (Err (InvalidSlotIndex response_slot_index), cl)
           | Some response_slot_addr \<Rightarrow>
               let (req_id, cl) = next_req_id cl;
                   header = request_new_with_seq req_id rpc_type (word_of_nat (length payload))
                              response_slot_addr (pl_rkey (cl_pool cl)) (cs_server_conn_id cs) next_seq
               in if cs_send_slots cs = [] then (Panic, cl)
                  else
                    let send_slot_idx = cs_direct_send_slot_index cs mod length (cs_send_slots cs);
                        cs = cs\<lparr>cs_direct_send_slot_index := send_slot_idx + 1\<rparr>;
                        cl = set_conn_state conn_id cs cl;
                        local_slot_index = cs_send_slots cs ! send_slot_idx
                    in case (get_slot (cl_pool cl) local_slot_index, slot_data_addr (cl_pool cl) local_slot_index) of
                         (Some local_slot, Some local_slot_addr) \<Rightarrow>
                           (case put_request (data_ptr local_slot) header payload (pl_mem (cl_pool cl)) of
                              None \<Rightarrow> (Panic, cl)
                            | Some mem \<Rightarrow>
                                let cl = cl\<lparr>cl_pool := (cl_pool cl)\<lparr>pl_mem := mem\<rparr>\<rparr>;
                                    (r, conn) = emit_wqe submit
                                      \<lparr>wr_op = RdmaWrite,
                                       wr_remote_addr = remote_base_addr + word_of_nat (slot_idx * 4096),
                                       wr_rkey = remote_rkey, wr_local_addr = local_slot_addr,
                                       wr_len = word_of_nat MESSAGE_BLOCK_SIZE,
                                       wr_lkey = pl_lkey (cl_pool cl), wr_signaled = req_id\<rparr> conn;
                                    cl = set_conn conn_id conn cl
                                in case r of
                                     Err e \<Rightarrow> (Err e, cl)
                                   | Panic \<Rightarrow> (Panic, cl)
                                   | Ok _ \<Rightarrow>
                                       (Ok \<lparr>pn_slot_index = response_slot_index, pn_req_id = req_id,
                                            pn_conn_id = conn_id, pn_send_slot_index = None\<rparr>,
                                        mark_needs_flush conn_id cl))
                       | _ \<Rightarrow> (Err (InvalidSlotIndex local_slot_index), cl))"

definition call_direct ::
  "submit_oracle \<Rightarrow> nat \<Rightarrow> u16 \<Rightarrow> bytes \<Rightarrow> rpc_client \<Rightarrow> (pending_rpc, srpc_error) outcome \<times> rpc_client" where
  "call_direct submit conn_id rpc_type payload cl =
     (case (get_conn cl conn_id, get_conn_state cl conn_id) of
        (Some conn, Some cs) \<Rightarrow>
          if no_credits cs then (Err NoCredits, cl)
          else
            (case get_connection (cl_mapping cl) conn_id of
               None \<Rightarrow> (Err (ConnectionNotFound conn_id), cl)
             | Some entry \<Rightarrow>
                 if me_remote_slot_addr entry = 0 then (Err (Protocol ''Remote slot address not configured''), cl)
                 else if cs_server_pool_num_slots cs = 0 then (Err (Protocol ''Server pool size not configured''), cl)
                 else
                   let slot_idx = server_slot_idx cs;
                       next_seq = cs_next_slot_seq cs;
                       cs = cs\<lparr>cs_direct_slot_index := cs_direct_slot_index cs + 1,
                               cs_next_slot_seq := next_seq + 1\<rparr>
                   in send_direct submit conn_id rpc_type payload (me_remote_slot_addr entry)
                        (me_remote_slot_rkey entry) slot_idx next_seq conn cs (set_conn_state conn_id cs cl))
      | _ \<Rightarrow> (Err (ConnectionNotFound conn_id), cl))"

definition send_warmup ::
  "nat \<Rightarrow> u16 \<Rightarrow> bytes \<Rightarrow> rpc_client \<Rightarrow> (pending_rpc, srpc_error) outcome \<times> rpc_client" where
  "send_warmup conn_id rpc_type payload cl =
     (case get_conn_state cl conn_id of
        None \<Rightarrow> (Err (ConnectionNotFound conn_id), cl)
      | Some cs \<Rightarrow>
          let cs = (if cs_state cs = Idle \<or> cs_state cs = Connected
                    then cs\<lparr>cs_warmup_buffer := warmup_clear (cs_warmup_buffer cs),
                            cs_last_notified_count := 0, cs_state := Warmup\<rparr>
                    else cs);
              cl = set_conn_state conn_id cs cl
          in if cs_pending_notification cs then (Err NoFreeSlots, cl)
             else if wb_request_count (cs_warmup_buffer cs) \<ge> warmup_capacity (cs_warmup_buffer cs)
             then (Err NoFreeSlots, cl)
             else
               let (r, pool) = pool_alloc (cl_pool cl);
                   cl = cl\<lparr>cl_pool := pool\<rparr>
               in case r of
                    Err e \<Rightarrow> (Err e, cl)
                  | Panic \<Rightarrow> (Panic, cl)
                  | Ok response_slot \<Rightarrow>
                      let (req_id, cl) = next_req_id cl
                      in case handle_data_addr response_slot pool of
                           None \<Rightarrow> (Panic, cl)
                         | Some addr \<Rightarrow>
                             let header = request_new req_id rpc_type (word_of_nat (length payload)) addr
                                            (pl_rkey pool) (cs_server_conn_id cs);
                                 (r, wb) = write_request header payload (cs_warmup_buffer cs);
                                 cl = set_conn_state conn_id (cs\<lparr>cs_warmup_buffer := wb\<rparr>) cl
                             in case r of
                                  Err e \<Rightarrow> (Err e, cl\<lparr>cl_pool := handle_drop response_slot pool\<rparr>)
                                | Panic \<Rightarrow> (Panic, cl)
                                | Ok _ \<Rightarrow>
                                    (Ok \<lparr>pn_slot_index = handle_release response_slot, pn_req_id = req_id,
                                         pn_conn_id = conn_id, pn_send_slot_index = None\<rparr>, cl))"

definition call_async ::
  "submit_oracle \<Rightarrow> nat \<Rightarrow> u16 \<Rightarrow> bytes \<Rightarrow> rpc_client \<Rightarrow> (pending_rpc, srpc_error) outcome \<times> rpc_client" where
  "call_async submit conn_id rpc_type payload cl =
     (let cl = check_events conn_id cl;
          current_state = (case client_state_of cl conn_id of None \<Rightarrow> Connected | Some s \<Rightarrow> s)
      in case current_state of
           Process \<Rightarrow> call_direct submit conn_id rpc_type payload cl
         | _ \<Rightarrow> send_warmup conn_id rpc_type payload cl)"

definition client_recv :: "rpc_client \<Rightarrow> rpc_client" where
  "client_recv cl = check_all_events cl"

section \<open>Responses\<close>

text \<open>A response keeps the offset of its payload in the pool's region.\<close>

record rpc_response =
  rp_header :: response_header
  rp_payload_ptr :: nat
  rp_context_switch_seq :: "u64 option"
  rp_processing_pool_info :: "(u64 \<times> u32) option"
  rp_acked_slot_seq :: "u64 option"

definition pending_poll :: "message_pool \<Rightarrow> pending_rpc \<Rightarrow> rpc_response option" where
  "pending_poll pool pn =
     (case get_slot pool (pn_slot_index pn) of
        None \<Rightarrow> None
      | Some slot \<Rightarrow>
          let ptr = data_ptr slot;
              magic = read_u32 (pl_mem pool) ptr
          in if magic \<noteq> RESPONSE_MAGIC then None
             else
               let header = response_read_from (pl_mem pool) ptr
               in if rs_req_id header = pn_req_id pn then
                    Some \<lparr>rp_header = header, rp_payload_ptr = ptr + RESPONSE_HEADER_SIZE,
                          rp_context_switch_seq =
                            (if has_context_switch header then Some (rs_context_switch_seq header) else None),
                          rp_processing_pool_info =
                            (if has_processing_pool_info header
                             then Some (rs_processing_pool_addr header, rs_processing_pool_rkey header) else None),
                          rp_acked_slot_seq =
                            (if has_credit_ack header then Some (rs_acked_slot_seq header) else None)\<rparr>
                  else None)"

definition rp_payload :: "message_pool \<Rightarrow> rpc_response \<Rightarrow> bytes" where
  "rp_payload pool r = read_at (rp_payload_ptr r) (unat (rs_payload_len (rp_header r))) (pl_mem pool)"

definition rp_copy_payload :: "message_pool \<Rightarrow> rpc_response \<Rightarrow> bytes \<Rightarrow> nat \<times> bytes" where
  "rp_copy_payload pool r buf =
     (let len = min (length buf) (unat (rs_payload_len (rp_header r)))
      in (len, write_at 0 (take len (rp_payload pool r)) buf))"

definition rp_switch_seq :: "rpc_response \<Rightarrow> u64 option" where
  "rp_switch_seq r = map_option (\<lambda>seq. seq AND 0xFFFFFFFF) (rp_context_switch_seq r)"

definition rp_fetched_seq :: "rpc_response \<Rightarrow> u32 option" where
  "rp_fetched_seq r = map_option (\<lambda>seq. ucast (drop_bit 32 seq)) (rp_context_switch_seq r)"

definition pending_release :: "pending_rpc \<Rightarrow> message_pool \<Rightarrow> message_pool" where
  "pending_release pn pool = free_slot_by_index (pn_slot_index pn) pool"

definition pending_drop :: "pending_rpc \<Rightarrow> message_pool \<Rightarrow> message_pool" where
  "pending_drop pn pool =
     (let pool = (case get_slot pool (pn_slot_index pn) of
                    None \<Rightarrow> pool
                  | Some slot \<Rightarrow>
                      pool\<lparr>pl_mem := write_at (data_ptr slot) (le_bytes 4 (0 :: u32)) (pl_mem pool)\<rparr>);
          pool = free_slot_by_index (pn_slot_index pn) pool
      in case pn_send_slot_index pn of
           None \<Rightarrow> pool
         | Some send_slot_index \<Rightarrow> free_slot_by_index send_slot_index pool)"

definition on_response_switch :: "u64 \<Rightarrow> u32 \<Rightarrow> connection_state \<Rightarrow> connection_state" where
  "on_response_switch sched_seq fetched_seq cs =
     (if fetched_seq > 0 then
        if fetched_seq \<le> cs_last_acknowledged_seq cs then cs
        else
          let cs = cs\<lparr>cs_last_acknowledged_seq := fetched_seq\<rparr>;
              cs = (if sched_seq > cs_last_context_switch_seq cs
                    then cs\<lparr>cs_last_context_switch_seq := sched_seq\<rparr> else cs)
          in if fetched_seq = cs_endpoint_entry_seq cs then
               cs\<lparr>cs_pending_notification := False,
                  cs_warmup_buffer := warmup_clear (cs_warmup_buffer cs),
                  cs_last_notified_count := 0,
                  cs_direct_slot_index := 0\<rparr>
             else cs
      else if sched_seq \<le> cs_last_context_switch_seq cs then cs
      else
        let cs = cs\<lparr>cs_last_context_switch_seq := sched_seq\<rparr>
        in if cs_state cs = Process then cs\<lparr>cs_state := Idle\<rparr> else cs)"

definition process_response_context_switch :: "nat \<Rightarrow> rpc_response \<Rightarrow> rpc_client \<Rightarrow> rpc_client" where
  "process_response_context_switch conn_id r cl =
     (let cl = (case (rp_processing_pool_info r, get_conn_state cl conn_id) of
                  (Some (pool_addr, pool_rkey), Some cs) \<Rightarrow>
                    (case set_remote_slot conn_id pool_addr pool_rkey (cl_mapping cl) of
                       (Ok _, m) \<Rightarrow> set_conn_state conn_id (cs\<lparr>cs_state := Process\<rparr>) (cl\<lparr>cl_mapping := m\<rparr>)
                     | (_, m) \<Rightarrow> cl\<lparr>cl_mapping := m\<rparr>)
                | _ \<Rightarrow> cl)
      in case (rp_switch_seq r, rp_fetched_seq r, get_conn_state cl conn_id) of
           (Some sched_seq, Some fetched_seq, Some cs) \<Rightarrow>
             set_conn_state conn_id (on_response_switch sched_seq fetched_seq cs) cl
         | _ \<Rightarrow> cl)"

definition process_credit_ack :: "nat \<Rightarrow> u64 \<Rightarrow> rpc_client \<Rightarrow> rpc_client" where
  "process_credit_ack conn_id acked_seq cl =
     (case get_conn_state cl conn_id of
        None \<Rightarrow> cl
      | Some cs \<Rightarrow>
          if acked_seq > cs_last_acked_seq cs
          then set_conn_state conn_id (cs\<lparr>cs_last_acked_seq := acked_seq\<rparr>) cl else cl)"

definition poll_pending :: "pending_rpc \<Rightarrow> rpc_client \<Rightarrow> rpc_response option \<times> rpc_client" where
  "poll_pending pn cl =
     (case pending_poll (cl_pool cl) pn of
        None \<Rightarrow> (None, cl)
      | Some r \<Rightarrow>
          let cl = process_response_context_switch (pn_conn_id pn) r cl;
              cl = (case rp_acked_slot_seq r of
                      None \<Rightarrow> cl | Some acked_seq \<Rightarrow> process_credit_ack (pn_conn_id pn) acked_seq cl)
          in (Some r, cl))"

definition credit_status :: "rpc_client \<Rightarrow> nat \<Rightarrow> (u64 \<times> u64 \<times> nat) option" where
  "credit_status cl conn_id =
     map_option (\<lambda>cs.
        let in_flight = cs_next_slot_seq cs - cs_last_acked_seq cs;
            window = word_of_nat (cs_credit_window_size cs);
            available = (if in_flight \<le> window then window - in_flight else 0)
        in (in_flight, available, cs_credit_window_size cs))
       (get_conn_state cl conn_id)"

end
