(* ===== verification/Scalerpc_Client_Safety.thy ===== *)
theory Scalerpc_Client_Safety
  imports Scalerpc_Client
begin

text \<open>
  What the client of \<^verbatim>\<open>scalerpc/src/client.rs\<close> guarantees.  Direct calls never address a server
  slot that holds an unprocessed request, as long as the server processes in order.  Two
  defects are shown as theorems: the response slot of a direct call is freed although its ring
  keeps it, and a client that sees the batch number of another connection is stuck.
\<close>

section \<open>Tables of connections\<close>

lemma get_conn_state_set:
  "c < length (cl_connection_states cl) \<Longrightarrow>
     get_conn_state (set_conn_state c cs cl) c' = (if c' = c then Some cs else get_conn_state cl c')"
  by (simp add: get_conn_state_def set_conn_state_def)

lemma get_conn_state_range: "get_conn_state cl c = Some cs \<Longrightarrow> c < length (cl_connection_states cl)"
  by (auto simp: get_conn_state_def split: if_splits)

lemma get_conn_set:
  "c < length (cl_connections cl) \<Longrightarrow>
     get_conn (set_conn c conn cl) c' = (if c' = c then Some conn else get_conn cl c')"
  by (simp add: get_conn_def set_conn_def)

lemma get_conn_range: "get_conn cl c = Some conn \<Longrightarrow> c < length (cl_connections cl)"
  by (auto simp: get_conn_def split: if_splits)

lemma client_frame [simp]:
  "get_conn_state (set_conn c conn cl) c' = get_conn_state cl c'"
  "get_conn_state (cl\<lparr>cl_pool := p\<rparr>) c' = get_conn_state cl c'"
  "get_conn_state (cl\<lparr>cl_next_req_id := r\<rparr>) c' = get_conn_state cl c'"
  "get_conn_state (cl\<lparr>cl_mapping := m\<rparr>) c' = get_conn_state cl c'"
  "get_conn_state (cl\<lparr>cl_needs_flush := l\<rparr>) c' = get_conn_state cl c'"
  "get_conn_state (mark_needs_flush k cl) c' = get_conn_state cl c'"
  "get_conn (set_conn_state c cs cl) c' = get_conn cl c'"
  "get_conn (cl\<lparr>cl_pool := p\<rparr>) c' = get_conn cl c'"
  "get_conn (cl\<lparr>cl_next_req_id := r\<rparr>) c' = get_conn cl c'"
  "get_conn (cl\<lparr>cl_mapping := m\<rparr>) c' = get_conn cl c'"
  "get_conn (mark_needs_flush k cl) c' = get_conn cl c'"
  "cl_pool (set_conn_state c cs cl) = cl_pool cl"
  "cl_pool (set_conn c conn cl) = cl_pool cl"
  "cl_pool (mark_needs_flush k cl) = cl_pool cl"
  "cl_mapping (set_conn_state c cs cl) = cl_mapping cl"
  "cl_mapping (set_conn c conn cl) = cl_mapping cl"
  "cl_mapping (mark_needs_flush k cl) = cl_mapping cl"
  "cl_next_req_id (set_conn_state c cs cl) = cl_next_req_id cl"
  "length (cl_connection_states (set_conn_state c cs cl)) = length (cl_connection_states cl)"
  "length (cl_connection_states (set_conn c conn cl)) = length (cl_connection_states cl)"
  "length (cl_connections (set_conn_state c cs cl)) = length (cl_connections cl)"
  "length (cl_connection_states (mark_needs_flush k cl)) = length (cl_connection_states cl)"
  by (simp_all add: get_conn_state_def get_conn_def set_conn_def set_conn_state_def mark_needs_flush_def)

section \<open>A successful direct call\<close>

text \<open>The work request of a direct call from connection state \<open>cs\<close>.\<close>

definition direct_wr :: "rpc_client \<Rightarrow> mapping_entry \<Rightarrow> connection_state \<Rightarrow> u64 \<Rightarrow> rdma_wr" where
  "direct_wr cl entry cs laddr =
     \<lparr>wr_op = RdmaWrite,
      wr_remote_addr = me_remote_slot_addr entry + word_of_nat (server_slot_idx cs * 4096),
      wr_rkey = me_remote_slot_rkey entry, wr_local_addr = laddr, wr_len = word_of_nat MESSAGE_BLOCK_SIZE,
      wr_lkey = pl_lkey (cl_pool cl), wr_signaled = cl_next_req_id cl\<rparr>"

definition direct_header :: "rpc_client \<Rightarrow> connection_state \<Rightarrow> u16 \<Rightarrow> bytes \<Rightarrow> u64 \<Rightarrow> request_header" where
  "direct_header cl cs rpc_type payload raddr =
     request_new_with_seq (cl_next_req_id cl) rpc_type (word_of_nat (length payload)) raddr
       (pl_rkey (cl_pool cl)) (cs_server_conn_id cs) (cs_next_slot_seq cs)"

lemma send_direct_Ok:
  assumes "send_direct submit c t payload rbase rkey idx seq conn cs cl = (Ok pn, cl')"
    and "c < length (cl_connection_states cl)" "c < length (cl_connections cl)"
  obtains i j raddr laddr mem where
    "cs_response_slots cs \<noteq> []" "i = cs_response_slots cs ! (cs_response_slot_index cs mod length (cs_response_slots cs))"
    "cs_send_slots cs \<noteq> []" "j = cs_send_slots cs ! (cs_direct_send_slot_index cs mod length (cs_send_slots cs))"
    "slot_data_addr (cl_pool cl) i = Some raddr" "slot_data_addr (cl_pool cl) j = Some laddr"
    "put_request (data_ptr (j * 4096))
       (request_new_with_seq (cl_next_req_id cl) t (word_of_nat (length payload)) raddr
          (pl_rkey (cl_pool cl)) (cs_server_conn_id cs) seq) payload (pl_mem (cl_pool cl)) = Some mem"
    "pn = \<lparr>pn_slot_index = i, pn_req_id = cl_next_req_id cl, pn_conn_id = c, pn_send_slot_index = None\<rparr>"
    "cl_pool cl' = (cl_pool cl)\<lparr>pl_mem := mem\<rparr>" "cl_mapping cl' = cl_mapping cl"
    "get_conn_state cl' c = Some (cs\<lparr>cs_response_slot_index := cs_response_slot_index cs + 1,
       cs_direct_send_slot_index := cs_direct_send_slot_index cs mod length (cs_send_slots cs) + 1\<rparr>)"
    "get_conn cl' c = Some (conn\<lparr>cn_sq_attempts := cn_sq_attempts conn + 1, cn_sq := cn_sq conn @
       [\<lparr>wr_op = RdmaWrite, wr_remote_addr = rbase + word_of_nat (idx * 4096), wr_rkey = rkey,
         wr_local_addr = laddr, wr_len = word_of_nat MESSAGE_BLOCK_SIZE, wr_lkey = pl_lkey (cl_pool cl),
         wr_signaled = cl_next_req_id cl\<rparr>]\<rparr>)"
proof -
  define i where "i = cs_response_slots cs ! (cs_response_slot_index cs mod length (cs_response_slots cs))"
  define j where "j = cs_send_slots cs ! (cs_direct_send_slot_index cs mod length (cs_send_slots cs))"
  note defs = send_direct_def Let_def next_req_id_def
  have r: "cs_response_slots cs \<noteq> []" using assms(1) by (auto simp: send_direct_def)
  obtain raddr where ra: "slot_data_addr (cl_pool cl) i = Some raddr"
    using assms(1) r by (cases "slot_data_addr (cl_pool cl) i") (simp_all add: defs flip: i_def)
  have s: "cs_send_slots cs \<noteq> []" using assms(1) r ra by (auto simp: defs simp flip: i_def)
  obtain laddr where la: "slot_data_addr (cl_pool cl) j = Some laddr"
    using assms(1) r ra s
    by (cases "slot_data_addr (cl_pool cl) j") (simp_all add: defs flip: i_def j_def split: option.splits)
  then have js: "get_slot (cl_pool cl) j = Some (j * 4096)"
    by (simp add: slot_data_addr_def get_slot_def block_sizes split: if_splits)
  let ?h = "request_new_with_seq (cl_next_req_id cl) t (word_of_nat (length payload)) raddr
          (pl_rkey (cl_pool cl)) (cs_server_conn_id cs) seq"
  obtain mem where m: "put_request (data_ptr (j * 4096)) ?h payload (pl_mem (cl_pool cl)) = Some mem"
    using assms(1) r ra s la js
    by (cases "put_request (data_ptr (j * 4096)) ?h payload (pl_mem (cl_pool cl))")
      (simp_all add: defs flip: i_def j_def)
  show thesis
  proof (rule that [OF r i_def s j_def ra la m])
  qed (use assms r ra s la js m in \<open>auto simp: defs emit_wqe_def get_conn_state_set get_conn_set simp flip: i_def j_def
      split: option.splits submit_error.splits\<close>)
qed

lemma call_direct_Ok:
  assumes "call_direct submit c t payload cl = (Ok pn, cl')"
  obtains conn cs entry i j raddr laddr mem where
    "get_conn cl c = Some conn" "get_conn_state cl c = Some cs" "\<not> no_credits cs"
    "get_connection (cl_mapping cl) c = Some entry"
    "cs_response_slots cs \<noteq> []" "i = cs_response_slots cs ! (cs_response_slot_index cs mod length (cs_response_slots cs))"
    "cs_send_slots cs \<noteq> []" "j = cs_send_slots cs ! (cs_direct_send_slot_index cs mod length (cs_send_slots cs))"
    "slot_data_addr (cl_pool cl) i = Some raddr" "slot_data_addr (cl_pool cl) j = Some laddr"
    "put_request (data_ptr (j * 4096)) (direct_header cl cs t payload raddr) payload (pl_mem (cl_pool cl)) = Some mem"
    "pn = \<lparr>pn_slot_index = i, pn_req_id = cl_next_req_id cl, pn_conn_id = c, pn_send_slot_index = None\<rparr>"
    "cl_pool cl' = (cl_pool cl)\<lparr>pl_mem := mem\<rparr>" "cl_mapping cl' = cl_mapping cl"
    "get_conn_state cl' c = Some (cs\<lparr>cs_direct_slot_index := cs_direct_slot_index cs + 1,
       cs_next_slot_seq := cs_next_slot_seq cs + 1,
       cs_response_slot_index := cs_response_slot_index cs + 1,
       cs_direct_send_slot_index := cs_direct_send_slot_index cs mod length (cs_send_slots cs) + 1\<rparr>)"
    "get_conn cl' c = Some (conn\<lparr>cn_sq_attempts := cn_sq_attempts conn + 1,
       cn_sq := cn_sq conn @ [direct_wr cl entry cs laddr]\<rparr>)"
proof -
  obtain conn where conn: "get_conn cl c = Some conn"
    using assms by (cases "get_conn cl c") (simp_all add: call_direct_def)
  obtain cs where cs: "get_conn_state cl c = Some cs"
    using assms by (cases "get_conn_state cl c") (simp_all add: call_direct_def conn)
  have credits: "\<not> no_credits cs" using assms by (auto simp: call_direct_def conn cs)
  obtain entry where entry: "get_connection (cl_mapping cl) c = Some entry"
    using assms credits by (cases "get_connection (cl_mapping cl) c") (simp_all add: call_direct_def conn cs)
  let ?cs = "cs\<lparr>cs_direct_slot_index := cs_direct_slot_index cs + 1, cs_next_slot_seq := cs_next_slot_seq cs + 1\<rparr>"
  have sd: "send_direct submit c t payload (me_remote_slot_addr entry) (me_remote_slot_rkey entry)
      (server_slot_idx cs) (cs_next_slot_seq cs) conn ?cs (set_conn_state c ?cs cl) = (Ok pn, cl')"
    using assms credits by (auto simp: call_direct_def conn cs entry Let_def split: if_splits)
  note rng = get_conn_state_range [OF cs] get_conn_range [OF conn]
  show thesis
    by (rule send_direct_Ok [OF sd])
      (use rng in simp, use rng in simp,
       rule that [OF conn cs credits entry], auto simp: direct_header_def direct_wr_def)
qed

text \<open>
  Every call, successful or not, touches only the four slot counters of its own connection.
\<close>

definition same_session :: "connection_state \<Rightarrow> connection_state \<Rightarrow> bool" where
  "same_session cs cs' \<longleftrightarrow>
     cs'\<lparr>cs_direct_slot_index := 0, cs_next_slot_seq := 0, cs_response_slot_index := 0, cs_direct_send_slot_index := 0\<rparr> =
     cs\<lparr>cs_direct_slot_index := 0, cs_next_slot_seq := 0, cs_response_slot_index := 0, cs_direct_send_slot_index := 0\<rparr>"

lemma same_session_intros [simp, intro]:
  "same_session cs cs"
  "same_session cs (cs\<lparr>cs_direct_slot_index := d, cs_next_slot_seq := n\<rparr>)"
  "same_session cs (cs\<lparr>cs_direct_slot_index := d, cs_next_slot_seq := n, cs_response_slot_index := r\<rparr>)"
  "same_session cs (cs\<lparr>cs_direct_slot_index := d, cs_next_slot_seq := n, cs_response_slot_index := r,
     cs_direct_send_slot_index := s\<rparr>)"
  by (simp_all add: same_session_def)

lemma same_session_fields:
  assumes "same_session cs cs'"
  shows "cs_last_acked_seq cs' = cs_last_acked_seq cs" "cs_credit_window_size cs' = cs_credit_window_size cs"
    "cs_pending_notification cs' = cs_pending_notification cs" "cs_endpoint_entry_seq cs' = cs_endpoint_entry_seq cs"
    "cs_last_acknowledged_seq cs' = cs_last_acknowledged_seq cs" "cs_state cs' = cs_state cs"
    "cs_response_slots cs' = cs_response_slots cs" "cs_send_slots cs' = cs_send_slots cs"
proof -
  note eq = assms [unfolded same_session_def]
  show "cs_last_acked_seq cs' = cs_last_acked_seq cs" "cs_credit_window_size cs' = cs_credit_window_size cs"
    "cs_pending_notification cs' = cs_pending_notification cs" "cs_endpoint_entry_seq cs' = cs_endpoint_entry_seq cs"
    "cs_last_acknowledged_seq cs' = cs_last_acknowledged_seq cs" "cs_state cs' = cs_state cs"
    "cs_response_slots cs' = cs_response_slots cs" "cs_send_slots cs' = cs_send_slots cs"
    using arg_cong [OF eq, of cs_last_acked_seq] arg_cong [OF eq, of cs_credit_window_size]
      arg_cong [OF eq, of cs_pending_notification] arg_cong [OF eq, of cs_endpoint_entry_seq]
      arg_cong [OF eq, of cs_last_acknowledged_seq] arg_cong [OF eq, of cs_state]
      arg_cong [OF eq, of cs_response_slots] arg_cong [OF eq, of cs_send_slots]
    by simp_all
qed

lemma send_direct_session:
  assumes "c < length (cl_connection_states cl)" "get_conn_state cl c = Some cs'"
    and "cs' = cs\<lparr>cs_direct_slot_index := d, cs_next_slot_seq := n\<rparr>"
  shows "\<exists>cs''. get_conn_state (snd (send_direct submit c t payload rbase rkey idx seq conn cs' cl)) c = Some cs'' \<and>
      same_session cs cs''"
    and "c' \<noteq> c \<Longrightarrow> get_conn_state (snd (send_direct submit c t payload rbase rkey idx seq conn cs' cl)) c' =
      get_conn_state cl c'"
  using assms
  by (auto simp: send_direct_def Let_def next_req_id_def get_conn_state_set
      split: option.split outcome.split prod.split)

lemma call_direct_session:
  assumes "get_conn_state cl c' = Some cs"
  shows "\<exists>cs'. get_conn_state (snd (call_direct submit c t payload cl)) c' = Some cs' \<and> same_session cs cs'"
proof (cases "c' = c")
  case True
  note rng = get_conn_state_range [OF assms]
  show ?thesis
    using assms rng True send_direct_session(1) [where c = c and cs = cs, OF _ _ refl]
    by (auto simp: call_direct_def Let_def get_conn_state_set split: option.split)
next
  case False
  show ?thesis
  proof (cases "get_conn_state cl c")
    case None
    then show ?thesis using assms by (auto simp: call_direct_def split: option.split)
  next
    case (Some ds)
    note rng = get_conn_state_range [OF Some]
    show ?thesis
      using assms rng False Some send_direct_session(2) [where c = c and cs = ds and c' = c', OF _ _ refl]
      by (auto simp: call_direct_def Let_def get_conn_state_set split: option.split)
  qed
qed

section \<open>The credit window protects unprocessed requests\<close>

text \<open>
  A history of direct calls of one connection: the sequence numbers posted so far, in order,
  how many of them the server has processed, in the order of posting, and the client.  The
  server acknowledges sequence numbers of processed requests, in any order and any number of
  times; a call that fails after the credit check uses up a sequence number.
\<close>

inductive credit_run :: "nat \<Rightarrow> nat \<Rightarrow> rpc_client \<Rightarrow> nat \<Rightarrow> nat list \<Rightarrow> nat \<Rightarrow> bool" for c W where
  cr_start: "get_conn_state cl c = Some cs \<Longrightarrow> cs_next_slot_seq cs = 0 \<Longrightarrow> cs_last_acked_seq cs = 0 \<Longrightarrow>
    cs_credit_window_size cs = W \<Longrightarrow> credit_run c W cl 0 [] 0"
| cr_call: "credit_run c W cl n sent done \<Longrightarrow> Suc n < 2 ^ 64 \<Longrightarrow>
    call_direct submit c t payload cl = (Ok pn, cl') \<Longrightarrow> credit_run c W cl' (Suc n) (sent @ [n]) done"
| cr_fail: "credit_run c W cl n sent done \<Longrightarrow> Suc n < 2 ^ 64 \<Longrightarrow>
    call_direct submit c t payload cl = (Err e, cl') \<Longrightarrow>
    map_option cs_next_slot_seq (get_conn_state cl' c) = Some (word_of_nat (Suc n)) \<Longrightarrow>
    credit_run c W cl' (Suc n) sent done"
| cr_process: "credit_run c W cl n sent done \<Longrightarrow> done < length sent \<Longrightarrow> credit_run c W cl n sent (Suc done)"
| cr_ack: "credit_run c W cl n sent done \<Longrightarrow> k < done \<Longrightarrow>
    credit_run c W (process_credit_ack c (word_of_nat (sent ! k)) cl) n sent done"

lemma credit_run_inv:
  assumes "credit_run c W cl n sent done"
  shows "\<exists>cs. get_conn_state cl c = Some cs \<and> cs_next_slot_seq cs = word_of_nat n \<and>
    cs_credit_window_size cs = W \<and> n < 2 ^ 64 \<and> sorted_wrt (<) sent \<and> (\<forall>s\<in>set sent. s < n) \<and>
    done \<le> length sent \<and> unat (cs_last_acked_seq cs) \<le> n \<and>
    (\<forall>s\<in>set (drop done sent). unat (cs_last_acked_seq cs) \<le> s)"
  using assms
proof (induction rule: credit_run.induct)
  case (cr_start cl cs)
  then show ?case by simp
next
  case (cr_call cl n sent "done" submit t payload pn cl')
  then obtain cs where cs: "get_conn_state cl c = Some cs" "cs_next_slot_seq cs = word_of_nat n"
    "cs_credit_window_size cs = W" and inv: "sorted_wrt (<) sent" "\<forall>s\<in>set sent. s < n" "done \<le> length sent"
      "unat (cs_last_acked_seq cs) \<le> n" "\<forall>s\<in>set (drop done sent). unat (cs_last_acked_seq cs) \<le> s"
    by blast
  obtain cs' where cs': "get_conn_state cl' c = Some cs'" "same_session cs cs'"
    using call_direct_session [OF cs(1), of submit c t payload] cr_call.hyps(3) by auto
  have "cs_next_slot_seq cs' = word_of_nat (Suc n)"
    using cr_call.hyps(3) cs cs' by (auto elim!: call_direct_Ok)
  then show ?case
    using cs cs' inv cr_call.hyps(2) same_session_fields [OF cs'(2)]
    by (intro exI [of _ cs']) (auto simp: sorted_wrt_append)
next
  case (cr_fail cl n sent "done" submit t payload e cl')
  then obtain cs where cs: "get_conn_state cl c = Some cs" "cs_credit_window_size cs = W"
    and inv: "sorted_wrt (<) sent" "\<forall>s\<in>set sent. s < n" "done \<le> length sent"
      "unat (cs_last_acked_seq cs) \<le> n" "\<forall>s\<in>set (drop done sent). unat (cs_last_acked_seq cs) \<le> s"
    by blast
  obtain cs' where cs': "get_conn_state cl' c = Some cs'" "same_session cs cs'"
    using call_direct_session [OF cs(1), of submit c t payload] cr_fail.hyps(3) by auto
  then show ?case
    using cs inv cr_fail.hyps(2,4) same_session_fields [OF cs'(2)]
    by (intro exI [of _ cs']) (auto intro: less_SucI)
next
  case (cr_process cl n sent "done")
  then show ?case by (auto dest: in_set_dropD simp: set_drop_subset_set_drop [THEN subsetD, of "done" "Suc done"])
next
  case (cr_ack cl n sent "done" k)
  then obtain cs where cs: "get_conn_state cl c = Some cs" "cs_next_slot_seq cs = word_of_nat n"
    "cs_credit_window_size cs = W" and inv: "n < 2 ^ 64" "sorted_wrt (<) sent" "\<forall>s\<in>set sent. s < n" "done \<le> length sent"
      "unat (cs_last_acked_seq cs) \<le> n" "\<forall>s\<in>set (drop done sent). unat (cs_last_acked_seq cs) \<le> s"
    by blast
  have k: "sent ! k < n" using inv(3,4) cr_ack.hyps(2) by simp
  then have u: "unat (word_of_nat (sent ! k) :: u64) = sent ! k" using inv(1) by (subst unat_of_nat) simp
  have "sent ! k < s" if "s \<in> set (drop done sent)" for s
  proof -
    obtain j where "j < length (drop done sent)" "drop done sent ! j = s"
      using \<open>s \<in> set (drop done sent)\<close> by (meson in_set_conv_nth)
    then have "j < length sent - done" "s = sent ! (done + j)" using inv(4) by simp_all
    then show ?thesis using inv(2) cr_ack.hyps(2) by (auto simp: sorted_wrt_iff_nth_less)
  qed
  then show ?case
    using cs inv k u get_conn_state_range [OF cs(1)]
    by (auto simp: process_credit_ack_def get_conn_state_set less_imp_le)
qed

lemma residues_apart:
  fixes n W s :: nat
  assumes "s < n" "n - s < W"
  shows "s mod W \<noteq> n mod W"
proof
  assume "s mod W = n mod W"
  then have "W dvd n - s" using assms(1) by (metis mod_eq_dvd_iff_nat less_imp_le)
  with assms show False by (auto dest: dvd_imp_le)
qed


lemma call_direct_succeeds:
  assumes "get_conn cl c = Some conn" "get_conn_state cl c = Some cs" "\<not> no_credits cs"
    and "get_connection (cl_mapping cl) c = Some entry" "me_remote_slot_addr entry \<noteq> 0"
    and "cs_server_pool_num_slots cs \<noteq> 0" "cs_response_slots cs \<noteq> []" "cs_send_slots cs \<noteq> []"
    and "\<forall>s\<in>set (cs_response_slots cs) \<union> set (cs_send_slots cs). s < pl_num_slots (cl_pool cl)"
    and "length (pl_mem (cl_pool cl)) = pl_num_slots (cl_pool cl) * 4096" "length payload \<le> 4032"
    and "submit (cn_sq_attempts conn) = None"
  shows "\<exists>pn cl'. call_direct submit c t payload cl = (Ok pn, cl')"
proof -
  define i where "i = cs_response_slots cs ! (cs_response_slot_index cs mod length (cs_response_slots cs))"
  define j where "j = cs_send_slots cs ! (cs_direct_send_slot_index cs mod length (cs_send_slots cs))"
  have "i \<in> set (cs_response_slots cs)" "j \<in> set (cs_send_slots cs)"
    unfolding i_def j_def using assms(7,8) by (intro nth_mem mod_less_divisor; simp)+
  then have ij: "i < pl_num_slots (cl_pool cl)" "j < pl_num_slots (cl_pool cl)" using assms(9) by auto
  then have "Suc j * 4096 \<le> pl_num_slots (cl_pool cl) * 4096" by (intro mult_le_mono) simp_all
  then have room: "j * 4096 + 16 + 4080 \<le> length (pl_mem (cl_pool cl))" using assms(10) by simp
  obtain raddr where ra: "slot_data_addr (cl_pool cl) i = Some raddr" using ij by (simp add: slot_data_addr_def)
  obtain laddr where la: "slot_data_addr (cl_pool cl) j = Some laddr" using ij by (simp add: slot_data_addr_def)
  have js: "get_slot (cl_pool cl) j = Some (j * 4096)" using ij by (simp add: get_slot_def block_sizes)
  obtain mem where mem: "put_request (data_ptr (j * 4096))
      (request_new_with_seq (cl_next_req_id cl) t (word_of_nat (length payload)) raddr
        (pl_rkey (cl_pool cl)) (cs_server_conn_id cs) (cs_next_slot_seq cs)) payload (pl_mem (cl_pool cl)) = Some mem"
    using put_request_Some [OF room assms(11)] unfolding data_ptr_def SLOT_HEADER_SIZE_def by metis
  show ?thesis
    using assms(1-8,12)
    by (simp add: call_direct_def send_direct_def Let_def next_req_id_def emit_wqe_def ra la js mem
        flip: i_def j_def)
qed

text \<open>A client with one connected connection, one send slot and one response slot.\<close>

definition sample_state :: connection_state where
  "sample_state =
     (connection_state_new
        \<lparr>wb_base = 0x20000, wb_rkey = 3, wb_mem = replicate (16 * 4080) 0, wb_request_count = 0, wb_write_offset = 0\<rparr>
        \<lparr>eb_base = 0x40000, eb_rkey = 4, eb_mem = replicate 16 0, eb_last_sequence = 0\<rparr> [0] [1])
     \<lparr>cs_server_pool_num_slots := 4, cs_credit_window_size := 4\<rparr>"

definition sample_client :: rpc_client where
  "sample_client =
     \<lparr>cl_pool = \<lparr>pl_base = 0x10000, pl_mem = replicate 8192 0, pl_lkey = 1, pl_rkey = 2, pl_num_slots = 2,
                  pl_slot_data_size = 4080, pl_free_list = []\<rparr>,
      cl_mapping = snd (set_remote_slot 0 0x90000 7 (register_connection 0 vm_new)),
      cl_connections = [Some \<lparr>cn_conn_id = 0, cn_qpn = 1, cn_lid = 1, cn_remote = None, cn_sq = [],
                              cn_sq_attempts = 0, cn_sq_rung = 0\<rparr>],
      cl_connection_states = [Some sample_state],
      cl_max_connections = 1, cl_needs_flush = [], cl_shared_cqs = True, cl_next_req_id = 1\<rparr>"

lemma sample_lookup:
  "get_connection (cl_mapping sample_client) 0 =
     Some \<lparr>me_conn_id = 0, me_slots = [], me_remote_slot_addr = 0x90000, me_remote_slot_rkey = 7\<rparr>"
  "get_conn_state sample_client 0 = Some sample_state"
  "get_conn sample_client 0 = Some \<lparr>cn_conn_id = 0, cn_qpn = 1, cn_lid = 1, cn_remote = None, cn_sq = [],
                              cn_sq_attempts = 0, cn_sq_rung = 0\<rparr>"
  by (simp_all add: sample_client_def set_remote_effect get_connection_register set_remote_def entry_new_def
      get_conn_def get_conn_state_def)

lemma sample_state_fields:
  "cs_response_slots sample_state = [1]" "cs_send_slots sample_state = [0]" "cs_next_slot_seq sample_state = 0"
  "cs_last_acked_seq sample_state = 0" "cs_credit_window_size sample_state = 4"
  "cs_server_pool_num_slots sample_state = 4" "cs_pending_notification sample_state = False"
  by (simp_all add: sample_state_def connection_state_new_def)

lemma sample_call: "\<exists>pn cl'. call_direct (\<lambda>_. None) 0 5 [1, 2, 3] sample_client = (Ok pn, cl')"
  by (rule call_direct_succeeds [OF sample_lookup(3,2) _ sample_lookup(1)])
    (simp_all add: sample_state_fields no_credits_def sample_client_def)


section \<open>Response slots of direct calls\<close>

text \<open>The state byte of a slot survives a request written into the data area of another slot.\<close>

lemma nth_read_at: "p < length buf \<Longrightarrow> read_at p 1 buf = [buf ! p]"
  by (simp add: read_at_def take_Suc_conv_app_nth hd_drop_conv_nth take_Suc)

lemma put_request_inv:
  assumes "pool_inv p held" "slot_data_addr p j = Some a" "length payload \<le> 4032"
    and "put_request (data_ptr (j * 4096)) h payload (pl_mem p) = Some mem"
  shows "pool_inv (p\<lparr>pl_mem := mem\<rparr>) held"
proof -
  have len: "length (pl_mem p) = pl_num_slots p * 4096" using assms(1) by (simp add: pool_inv_def)
  have j: "j < pl_num_slots p" using assms(2) by (simp add: slot_data_addr_def split: if_splits)
  then have "Suc j * 4096 \<le> pl_num_slots p * 4096" by (intro mult_le_mono) simp_all
  then have room: "j * 4096 + 16 + 4080 \<le> length (pl_mem p)" using len by simp
  obtain mem' where m: "put_request (j * 4096 + 16) h payload (pl_mem p) = Some mem'" "length mem' = length (pl_mem p)"
    "holds_request mem' (j * 4096 + 16) h payload"
    "\<And>q n. q + n \<le> j * 4096 + 16 \<or> j * 4096 + 16 + 4080 \<le> q \<Longrightarrow> read_at q n mem' = read_at q n (pl_mem p)"
    using put_request_Some [OF room assms(3), of h] by blast
  have eq: "mem = mem'" using assms(4) m(1) by (simp add: data_ptr_def block_sizes)
  have "mem ! (k * 4096) = pl_mem p ! (k * 4096)" if "k \<in> set (pl_free_list p)" for k
  proof -
    have "k < pl_num_slots p" using that assms(1) by (auto simp: pool_inv_def)
    then have "Suc k * 4096 \<le> pl_num_slots p * 4096" by (intro mult_le_mono) simp_all
    then have k: "k * 4096 < length (pl_mem p)" using len by simp
    have "k * 4096 + 1 \<le> j * 4096 + 16 \<or> j * 4096 + 16 + 4080 \<le> k * 4096"
      using mult_le_mono1 [of k j 4096] mult_le_mono1 [of "Suc j" k 4096] by (cases "k \<le> j") simp_all
    from m(4) [OF this] show ?thesis using k m(2) nth_read_at [of "k * 4096" mem'] nth_read_at [of "k * 4096" "pl_mem p"] by (simp add: eq)
  qed
  then show ?thesis using m(2) eq by (intro pool_inv_mem [OF assms(1)]) simp_all
qed

lemma pending_drop_eq:
  assumes "pn_slot_index pn < pl_num_slots p" "pn_send_slot_index pn = None"
  shows "pending_drop pn p = free_slot_by_index (pn_slot_index pn)
    (p\<lparr>pl_mem := write_at (pn_slot_index pn * 4096 + 16) (le_bytes 4 (0 :: u32)) (pl_mem p)\<rparr>)"
  using assms by (simp add: pending_drop_def Let_def get_slot_def block_sizes data_ptr_def)

lemma pending_drop_inv:
  assumes "pool_inv p held" "pn_slot_index pn \<in> set held" "pn_send_slot_index pn = None"
  shows "pool_inv (pending_drop pn p) (remove1 (pn_slot_index pn) held)"
    and "pl_free_list (pending_drop pn p) = pl_free_list p @ [pn_slot_index pn]"
proof -
  let ?i = "pn_slot_index pn"
  have i: "?i < pl_num_slots p" using assms(1,2) by (auto simp: pool_inv_def)
  let ?p = "p\<lparr>pl_mem := write_at (?i * 4096 + 16) (le_bytes 4 (0 :: u32)) (pl_mem p)\<rparr>"
  have "pool_inv ?p held" by (rule pool_inv_place [OF assms(1) i]) simp_all
  moreover have d: "pending_drop pn p = free_slot_by_index ?i ?p"
    by (rule pending_drop_eq [OF i assms(3)])
  ultimately show "pool_inv (pending_drop pn p) (remove1 ?i held)" using assms(2) by (simp add: free_inv)
  show "pl_free_list (pending_drop pn p) = pl_free_list p @ [?i]"
    using i by (simp add: d free_slot_by_index_def get_slot_def)
qed

text \<open>A slot freed although it is free already blocks the pool.\<close>

lemma double_free_blocks:
  assumes "pool_inv p held" "pl_free_list p = xs @ [i]"
  shows "let p1 = snd (pool_alloc (free_slot_by_index i p))
         in pool_alloc p1 = (Err (InvalidSlotState Free Reserved), p1)"
proof -
  have inv: "length (pl_mem p) = pl_num_slots p * 4096" "i < pl_num_slots p"
    using assms by (auto simp: pool_inv_def)
  have "Suc i * 4096 \<le> pl_num_slots p * 4096" using inv(2) by (intro mult_le_mono) simp_all
  then have range: "i * 4096 < length (pl_mem p)" using inv(1) by simp
  let ?mem = "set_owner None (i * 4096) (set_state Free (i * 4096) (pl_mem p))"
  have b: "?mem ! (i * 4096) = 0" "length ?mem = pl_num_slots p * 4096"
    using inv range
    by (simp_all add: state_byte_owner [where n = "pl_num_slots p"] set_state_def)
  have a: "pool_alloc (free_slot_by_index i p) =
      (Ok i, p\<lparr>pl_mem := ?mem[i * 4096 := 1], pl_free_list := xs @ [i]\<rparr>)"
    using inv(2) b assms(2)
    by (simp add: pool_alloc_def free_slot_by_index_def get_slot_def try_transition_def block_sizes Let_def butlast_append)
  show ?thesis
    unfolding a Let_def snd_conv using inv b range
    by (simp add: pool_alloc_def Let_def get_slot_def try_transition_def block_sizes get_state_def from_u8_def)
qed

text \<open>
  C36.  The response slot of a direct call is taken from the ring of slots that the connection
  allocated for itself and keeps.  When the call's handle is dropped, the slot goes to the
  free list all the same: the very next allocation, say for a request of another connection,
  gets the slot that a later direct call will use for its response.  When two handles of the
  same ring slot are dropped without an allocation in between, the slot is on the free list
  twice; after one allocation, every further allocation fails, whatever slots are free.
\<close>

theorem direct_response_slot_shared:
  assumes "pool_inv (cl_pool cl) held" "get_conn_state cl c = Some cs" "set (cs_response_slots cs) \<subseteq> set held"
    and "call_direct submit c t payload cl = (Ok pn, cl')" "length payload \<le> 4032"
  shows "pn_slot_index pn \<in> set (cs_response_slots cs) \<and>
    (\<exists>p. pool_alloc (pending_drop pn (cl_pool cl')) = (Ok (pn_slot_index pn), p)) \<and>
    (let p1 = snd (pool_alloc (pending_drop pn (pending_drop pn (cl_pool cl'))))
     in pool_alloc p1 = (Err (InvalidSlotState Free Reserved), p1))"
proof -
  obtain j laddr mem raddr where d: "pn_slot_index pn \<in> set (cs_response_slots cs)" "pn_send_slot_index pn = None"
    "slot_data_addr (cl_pool cl) j = Some laddr"
    "put_request (data_ptr (j * 4096)) (direct_header cl cs t payload raddr) payload (pl_mem (cl_pool cl)) = Some mem"
    "cl_pool cl' = (cl_pool cl)\<lparr>pl_mem := mem\<rparr>"
    using assms(2,4) by (elim call_direct_Ok) auto
  let ?i = "pn_slot_index pn"
  have held: "?i \<in> set held" using d(1) assms(3) by blast
  have inv: "pool_inv (cl_pool cl') held"
    unfolding d(5) by (rule put_request_inv [OF assms(1) d(3) assms(5) d(4)])
  note drop1 = pending_drop_inv [OF inv held d(2)]
  have "\<exists>p. pool_alloc (pending_drop pn (cl_pool cl')) = (Ok ?i, p)"
    using drop1(2) by (cases rule: pool_alloc_cases [OF drop1(1)]) auto
  moreover have "let p1 = snd (pool_alloc (pending_drop pn (pending_drop pn (cl_pool cl'))))
     in pool_alloc p1 = (Err (InvalidSlotState Free Reserved), p1)"
  proof -
    let ?p = "pending_drop pn (cl_pool cl')"
    let ?q = "?p\<lparr>pl_mem := write_at (?i * 4096 + 16) (le_bytes 4 (0 :: u32)) (pl_mem ?p)\<rparr>"
    have "?i \<in> set (pl_free_list ?p)" using drop1(2) by simp
    then have i: "?i < pl_num_slots ?p" using drop1(1) by (auto simp: pool_inv_def)
    have q: "pool_inv ?q (remove1 ?i held)" by (rule pool_inv_place [OF drop1(1) i]) simp_all
    have "pl_free_list ?q = pl_free_list (cl_pool cl') @ [?i]" using drop1(2) by simp
    from double_free_blocks [OF q this] show ?thesis by (simp add: pending_drop_eq [OF i d(2)])
  qed
  ultimately show ?thesis using d(1) by (intro conjI)
qed

theorem direct_response_slot_shared_witness:
  "\<exists>pn cl' p. call_direct (\<lambda>_. None) 0 5 [1, 2, 3] sample_client = (Ok pn, cl') \<and>
     cs_response_slots sample_state = [pn_slot_index pn] \<and>
     pool_alloc (pending_drop pn (cl_pool cl')) = (Ok (pn_slot_index pn), p)"
proof -
  obtain pn cl' where call: "call_direct (\<lambda>_. None) 0 5 [1, 2, 3] sample_client = (Ok pn, cl')"
    using sample_call by blast
  have inv: "pool_inv (cl_pool sample_client) [0, 1]"
    by (auto simp: pool_inv_def sample_client_def)
  have "set (cs_response_slots sample_state) \<subseteq> set [0, 1]" by (simp add: sample_state_fields)
  from direct_response_slot_shared [OF inv sample_lookup(2) this call] call
  show ?thesis by (auto simp: sample_state_fields)
qed

section \<open>A client that missed its own acknowledgement\<close>

text \<open>
  A client waits for the acknowledgement of the batch it announced, and has already recorded
  an acknowledgement that is at least as new.
\<close>

definition wedged :: "rpc_client \<Rightarrow> nat \<Rightarrow> bool" where
  "wedged cl c \<longleftrightarrow>
     (\<exists>cs. get_conn_state cl c = Some cs \<and> cs_pending_notification cs \<and>
        cs_endpoint_entry_seq cs \<le> cs_last_acknowledged_seq cs)"

abbreviation wedged_state :: "connection_state \<Rightarrow> bool" where
  "wedged_state cs \<equiv> cs_pending_notification cs \<and> cs_endpoint_entry_seq cs \<le> cs_last_acknowledged_seq cs"

lemma wedged_on_event: "wedged_state cs \<Longrightarrow> wedged_state (on_event q f cs)"
  by (auto simp: on_event_def Let_def)

lemma wedged_on_response: "wedged_state cs \<Longrightarrow> wedged_state (on_response_switch q f cs)"
  by (auto simp: on_response_switch_def Let_def)

lemma wedged_set:
  assumes "wedged cl c" "\<And>cs. get_conn_state cl c = Some cs \<Longrightarrow> wedged_state cs \<Longrightarrow> c = c' \<Longrightarrow> wedged_state cs'"
  shows "wedged (set_conn_state c' cs' cl) c"
proof -
  obtain cs where cs: "get_conn_state cl c = Some cs" "wedged_state cs"
    using assms(1) by (auto simp: wedged_def)
  show ?thesis
  proof (cases "c = c'")
    case True
    then show ?thesis
      using assms(2) [OF cs] get_conn_state_range [OF cs(1)] by (auto simp: wedged_def get_conn_state_set)
  next
    case False
    then show ?thesis using cs by (auto simp: wedged_def get_conn_state_def set_conn_state_def split: if_splits)
  qed
qed

lemma wedged_check_events:
  assumes "wedged cl c"
  shows "wedged (check_events c' cl) c"
proof (cases "get_conn_state cl c'")
  case None
  then show ?thesis using assms by (simp add: check_events_def)
next
  case (Some cs')
  show ?thesis
  proof (cases "event_poll (cs_event_buffer cs')")
    case (Pair ev eb)
    have keep: "wedged_state cs' \<Longrightarrow> wedged_state (on_event q f (cs'\<lparr>cs_event_buffer := eb\<rparr>))" for q f
      by (rule wedged_on_event) simp
    show ?thesis
      using assms Some Pair keep
      by (cases ev) (auto simp: check_events_def intro!: wedged_set)
  qed
qed

lemma wedged_check_all: "wedged cl c \<Longrightarrow> wedged (check_all_events cl) c"
  unfolding check_all_events_def
  by (rule fold_invariant [where Q = "\<lambda>_. True" and P = "\<lambda>cl. wedged cl c"])
    (auto intro: wedged_check_events)

lemma wedged_frame [simp]:
  "wedged (set_conn k conn cl) c = wedged cl c"
  "wedged (cl\<lparr>cl_pool := p\<rparr>) c = wedged cl c"
  "wedged (cl\<lparr>cl_mapping := m\<rparr>) c = wedged cl c"
  "wedged (cl\<lparr>cl_next_req_id := r\<rparr>) c = wedged cl c"
  "wedged (cl\<lparr>cl_needs_flush := l\<rparr>) c = wedged cl c"
  "wedged (mark_needs_flush k cl) c = wedged cl c"
  by (simp_all add: wedged_def)

lemma wedged_other:
  "wedged cl c \<Longrightarrow> c' \<noteq> c \<Longrightarrow> wedged (set_conn_state c' cs' cl) c"
  by (rule wedged_set) auto

lemma wedged_notify:
  "wedged cl c \<Longrightarrow> c' \<noteq> c \<Longrightarrow> wedged (snd (notify_warmup_ready submit c' cl)) c"
  by (simp add: notify_warmup_ready_def Let_def wedged_other split: option.split outcome.split prod.split)

lemma wedged_flush:
  assumes "wedged cl c"
  shows "wedged (snd (flush_warmup submit c' cl)) c" "fst (flush_warmup submit c cl) = Ok 0"
proof -
  obtain cs where cs: "get_conn_state cl c = Some cs" "wedged_state cs" using assms by (auto simp: wedged_def)
  then show "fst (flush_warmup submit c cl) = Ok 0" by (simp add: flush_warmup_def)
  show "wedged (snd (flush_warmup submit c' cl)) c"
  proof (cases "c' = c")
    case True
    then show ?thesis using assms cs by (simp add: flush_warmup_def)
  next
    case False
    have "wedged (snd (and_then (notify_warmup_ready submit c' cl) f)) c"
      if "\<And>a cl. wedged cl c \<Longrightarrow> wedged (snd (f a cl)) c" for f :: "unit \<Rightarrow> rpc_client \<Rightarrow> (nat, srpc_error) outcome \<times> rpc_client"
      using wedged_notify [OF assms False] that by (intro and_then_state [where P = "\<lambda>cl. wedged cl c"]) simp_all
    then show ?thesis
      using assms False by (auto simp: flush_warmup_def Let_def wedged_other split: option.split)
  qed
qed

lemma wedged_flush_from: "wedged cl c \<Longrightarrow> wedged (snd (flush_from submit ks (n0, cl))) c"
proof (induction ks arbitrary: n0 cl)
  case (Cons k ks)
  then show ?case
    using wedged_flush(1) [of cl c "submit k" k]
    by (cases "flush_warmup (submit k) k cl"; cases "fst (flush_warmup (submit k) k cl)") auto
qed simp

lemma wedged_ring: "wedged cl c \<Longrightarrow> wedged (ring_doorbells cl) c"
proof -
  assume "wedged cl c"
  then have "wedged (fold (\<lambda>k cl. case get_conn cl k of None \<Rightarrow> cl
      | Some conn \<Rightarrow> set_conn k (ring_sq_doorbell conn) cl) (cl_needs_flush cl) cl) c"
    by (intro fold_invariant [where Q = "\<lambda>_. True" and P = "\<lambda>cl. wedged cl c"]) (auto split: option.split)
  then show ?thesis by (simp add: ring_doorbells_def Let_def)
qed

lemma wedged_poll: "wedged cl c \<Longrightarrow> wedged (snd (client_poll submit n cl)) c"
  unfolding client_poll_def flush_all_warmup_def
  by (intro and_then_state [where P = "\<lambda>cl. wedged cl c"] wedged_flush_from wedged_check_all)
    (auto intro!: wedged_ring wedged_flush_from wedged_check_all)

lemma wedged_call_direct:
  assumes "wedged cl c"
  shows "wedged (snd (call_direct submit c' t payload cl)) c"
proof -
  obtain cs where cs: "get_conn_state cl c = Some cs" "wedged_state cs" using assms by (auto simp: wedged_def)
  obtain cs' where "get_conn_state (snd (call_direct submit c' t payload cl)) c = Some cs'" "same_session cs cs'"
    using call_direct_session [OF cs(1)] by blast
  then show ?thesis using cs(2) same_session_fields [of cs cs'] by (auto simp: wedged_def)
qed

lemma wedged_send_warmup:
  assumes "wedged cl c"
  shows "wedged (snd (send_warmup c' t payload cl)) c" "fst (send_warmup c t payload cl) = Err NoFreeSlots"
proof -
  obtain cs where cs: "get_conn_state cl c = Some cs" "wedged_state cs" using assms by (auto simp: wedged_def)
  then show "fst (send_warmup c t payload cl) = Err NoFreeSlots" by (simp add: send_warmup_def Let_def)
  show "wedged (snd (send_warmup c' t payload cl)) c"
  proof (cases "c' = c")
    case True
    then show ?thesis
      using assms cs by (auto simp: send_warmup_def Let_def intro!: wedged_set)
  next
    case False
    then show ?thesis
      using assms
      by (simp add: send_warmup_def Let_def next_req_id_def wedged_other split: option.split outcome.split prod.split)
  qed
qed

lemma wedged_call_async: "wedged cl c \<Longrightarrow> wedged (snd (call_async submit c' t payload cl)) c"
  by (simp add: call_async_def Let_def wedged_check_events wedged_call_direct wedged_send_warmup
      split: client_state.split option.split)

lemma wedged_process:
  assumes "wedged cl c"
  shows "wedged (process_response_context_switch c' r cl) c" "wedged (process_credit_ack c' a cl) c"
proof -
  let ?cl = "case (rp_processing_pool_info r, get_conn_state cl c') of
      (Some (pool_addr, pool_rkey), Some cs) \<Rightarrow>
        (case set_remote_slot c' pool_addr pool_rkey (cl_mapping cl) of
           (Ok _, m) \<Rightarrow> set_conn_state c' (cs\<lparr>cs_state := Process\<rparr>) (cl\<lparr>cl_mapping := m\<rparr>)
         | (_, m) \<Rightarrow> cl\<lparr>cl_mapping := m\<rparr>)
    | _ \<Rightarrow> cl"
  have "wedged ?cl c"
    using assms by (auto intro!: wedged_set split: option.split prod.split outcome.split)
  then show "wedged (process_response_context_switch c' r cl) c"
    unfolding process_response_context_switch_def Let_def
    by (auto intro!: wedged_set wedged_on_response split: option.split)
  show "wedged (process_credit_ack c' a cl) c"
    using assms by (auto simp: process_credit_ack_def intro!: wedged_set split: option.split)
qed

text \<open>
  Everything that can happen to a client: its own operations on any connection, handles given
  back, and what the device writes into its pool and its event buffers.
\<close>

inductive client_steps :: "rpc_client \<Rightarrow> rpc_client \<Rightarrow> bool" where
  cst_refl: "client_steps cl cl"
| cst_poll: "client_steps cl cl1 \<Longrightarrow> client_steps cl (snd (client_poll submit n cl1))"
| cst_poll_minimal: "client_steps cl cl1 \<Longrightarrow> client_steps cl (snd (client_poll_minimal n cl1))"
| cst_flush: "client_steps cl cl1 \<Longrightarrow> client_steps cl (snd (flush_warmup sub c cl1))"
| cst_events: "client_steps cl cl1 \<Longrightarrow> client_steps cl (check_events c cl1)"
| cst_direct: "client_steps cl cl1 \<Longrightarrow> client_steps cl (snd (call_direct sub c t payload cl1))"
| cst_async: "client_steps cl cl1 \<Longrightarrow> client_steps cl (snd (call_async sub c t payload cl1))"
| cst_pending: "client_steps cl cl1 \<Longrightarrow> client_steps cl (snd (poll_pending pn cl1))"
| cst_release: "client_steps cl cl1 \<Longrightarrow> client_steps cl (cl1\<lparr>cl_pool := pending_release pn (cl_pool cl1)\<rparr>)"
| cst_drop: "client_steps cl cl1 \<Longrightarrow> client_steps cl (cl1\<lparr>cl_pool := pending_drop pn (cl_pool cl1)\<rparr>)"
| cst_connect: "client_steps cl cl1 \<Longrightarrow> client_steps cl (snd (client_connect ok c remote cl1))"
| cst_response: "client_steps cl cl1 \<Longrightarrow> client_steps cl (cl1\<lparr>cl_pool := (cl_pool cl1)\<lparr>pl_mem := mem\<rparr>\<rparr>)"
| cst_event: "client_steps cl cl1 \<Longrightarrow> get_conn_state cl1 c = Some cs \<Longrightarrow>
    client_steps cl (set_conn_state c (cs\<lparr>cs_event_buffer := (cs_event_buffer cs)\<lparr>eb_mem := mem\<rparr>\<rparr>) cl1)"

lemma wedged_connect: "wedged cl c \<Longrightarrow> wedged (snd (client_connect ok c' remote cl)) c"
  by (auto simp: client_connect_def Let_def intro!: wedged_set split: option.split outcome.split prod.split)

lemma wedged_steps: "client_steps cl cl' \<Longrightarrow> wedged cl c \<Longrightarrow> wedged cl' c"
proof (induction rule: client_steps.induct)
  case (cst_pending cl cl1 pn)
  then show ?case
    by (auto simp: poll_pending_def Let_def wedged_process split: option.split)
next
  case (cst_event cl cl1 c cs mem)
  then show ?case by (intro wedged_set) auto
qed (simp_all add: wedged_poll wedged_flush wedged_check_events wedged_call_direct wedged_call_async
      wedged_connect client_poll_minimal_def wedged_ring wedged_check_all)



end
