(* ===== verification/Scalerpc_Scheduler.thy ===== *)
theory Scalerpc_Scheduler
  imports Scalerpc_Pool
begin

text \<open>
  Model of the group scheduler and of the endpoint entries of \<^verbatim>\<open>scalerpc/src/server.rs\<close>.  The
  scheduler gives the groups of connections time slices in turn; the endpoint entries are the
  words by which clients announce batches of requests to be fetched.  Instants are numbers of
  microseconds, and the current time is an argument.  \<^const>\<open>None\<close> stands for the panic of a
  remainder by zero or of an index out of range.
\<close>

section \<open>The group scheduler\<close>

datatype scheduler_state = Processing | ContextSwitching

record group_context =
  gc_group_id :: nat
  gc_connections :: "nat list"
  gc_context_switch_seq :: u64

definition group_new :: "nat \<Rightarrow> group_context" where
  "group_new group_id = \<lparr>gc_group_id = group_id, gc_connections = [], gc_context_switch_seq = 0\<rparr>"

definition group_add_connection :: "nat \<Rightarrow> group_context \<Rightarrow> group_context" where
  "group_add_connection conn_id g = g\<lparr>gc_connections := gc_connections g @ [conn_id]\<rparr>"

record group_scheduler =
  gs_groups :: "group_context list"
  gs_current_group :: nat
  gs_next_group :: nat
  gs_time_slice_us :: nat
  gs_last_switch :: nat
  gs_state :: scheduler_state
  gs_context_switch_seq :: u64

definition scheduler_new :: "nat \<Rightarrow> nat \<Rightarrow> nat \<Rightarrow> group_scheduler" where
  "scheduler_new now num_groups time_slice_us =
     \<lparr>gs_groups = map group_new [0..<num_groups],
      gs_current_group = 0,
      gs_next_group = (if num_groups > 1 then 1 else 0),
      gs_time_slice_us = time_slice_us,
      gs_last_switch = now,
      gs_state = Processing,
      gs_context_switch_seq = 0\<rparr>"

definition should_switch :: "nat \<Rightarrow> group_scheduler \<Rightarrow> bool" where
  "should_switch now sc \<longleftrightarrow>
     (if length (gs_groups sc) \<le> 1 then False else now - gs_last_switch sc \<ge> gs_time_slice_us sc)"

definition scheduler_add_connection ::
  "nat \<Rightarrow> group_scheduler \<Rightarrow> (nat \<times> group_scheduler) option" where
  "scheduler_add_connection conn_id sc =
     (if length (gs_groups sc) = 0 then None
      else
        let group_id = conn_id mod length (gs_groups sc)
        in Some (group_id, sc\<lparr>gs_groups :=
             (gs_groups sc)[group_id := group_add_connection conn_id (gs_groups sc ! group_id)]\<rparr>))"

definition add_connection_to_group ::
  "nat \<Rightarrow> nat \<Rightarrow> group_scheduler \<Rightarrow> (unit, srpc_error) outcome \<times> group_scheduler" where
  "add_connection_to_group conn_id group_id sc =
     (if group_id \<ge> length (gs_groups sc) then (Err (GroupNotFound group_id), sc)
      else (Ok (), sc\<lparr>gs_groups :=
              (gs_groups sc)[group_id := group_add_connection conn_id (gs_groups sc ! group_id)]\<rparr>))"

definition current_group_connections :: "group_scheduler \<Rightarrow> nat list option" where
  "current_group_connections sc =
     map_option gc_connections (get_opt (gs_groups sc) (gs_current_group sc))"

definition next_group_connections :: "group_scheduler \<Rightarrow> nat list option" where
  "next_group_connections sc =
     map_option gc_connections (get_opt (gs_groups sc) (gs_next_group sc))"

text \<open>The loop that skips empty groups, at most once around.\<close>

fun skip_empty :: "nat \<Rightarrow> group_context list \<Rightarrow> nat \<Rightarrow> nat" where
  "skip_empty 0 groups next = next"
| "skip_empty (Suc k) groups next =
     (if gc_connections (groups ! next) \<noteq> [] then next
      else skip_empty k groups ((next + 1) mod length groups))"

definition do_context_switch :: "nat \<Rightarrow> group_scheduler \<Rightarrow> (u64 \<times> group_scheduler) option" where
  "do_context_switch now sc =
     (let sc = sc\<lparr>gs_state := ContextSwitching\<rparr>;
          num_groups = length (gs_groups sc)
      in if num_groups = 0 then None
         else
           let next = skip_empty num_groups (gs_groups sc) ((gs_current_group sc + 1) mod num_groups);
               new_seq = gs_context_switch_seq sc + 1
           in Some (new_seq, sc\<lparr>gs_current_group := next, gs_next_group := (next + 1) mod num_groups,
                gs_context_switch_seq := new_seq, gs_last_switch := now, gs_state := Processing\<rparr>))"

definition context_switch :: "nat \<Rightarrow> group_scheduler \<Rightarrow> (u64 \<times> group_scheduler) option" where
  "context_switch now sc =
     (let sc = sc\<lparr>gs_state := ContextSwitching\<rparr>;
          num_groups = length (gs_groups sc)
      in if num_groups = 0 then None
         else
           let next = skip_empty num_groups (gs_groups sc) ((gs_current_group sc + 1) mod num_groups);
               new_seq = gs_context_switch_seq sc + 1
           in Some (new_seq, sc\<lparr>gs_current_group := next, gs_next_group := (next + 1) mod num_groups,
                gs_context_switch_seq := new_seq,
                gs_groups := (gs_groups sc)[next := (gs_groups sc ! next)\<lparr>gc_context_switch_seq := new_seq\<rparr>],
                gs_last_switch := now, gs_state := Processing\<rparr>))"

section \<open>Endpoint entries\<close>

record endpoint_entry_pool =
  ep_base :: u64
  ep_mem :: bytes
  ep_rkey :: u32
  ep_num_entries :: nat
  ep_last_seqs :: "u32 list"

definition entry_pool_new :: "mr_oracle \<Rightarrow> nat \<Rightarrow> (endpoint_entry_pool, srpc_error) outcome" where
  "entry_pool_new mr max_connections =
     (case mr of
        None \<Rightarrow> Err IoError
      | Some (base, lkey, rkey) \<Rightarrow>
          Ok \<lparr>ep_base = base, ep_mem = replicate (max_connections * ENDPOINT_ENTRY_SIZE) 0,
              ep_rkey = rkey, ep_num_entries = max_connections,
              ep_last_seqs = replicate max_connections 0\<rparr>)"

definition entry_addr :: "endpoint_entry_pool \<Rightarrow> nat \<Rightarrow> u64" where
  "entry_addr ep conn_id = ep_base ep + word_of_nat (conn_id * ENDPOINT_ENTRY_SIZE)"

definition read_entry :: "endpoint_entry_pool \<Rightarrow> nat \<Rightarrow> endpoint_entry" where
  "read_entry ep conn_id =
     (if conn_id \<ge> ep_num_entries ep then endpoint_entry_default
      else endpoint_entry_read_from (ep_mem ep) (conn_id * ENDPOINT_ENTRY_SIZE))"

definition has_new_batch ::
  "nat \<Rightarrow> endpoint_entry_pool \<Rightarrow> endpoint_entry option \<times> endpoint_entry_pool" where
  "has_new_batch conn_id ep =
     (if conn_id \<ge> ep_num_entries ep then (None, ep)
      else
        let entry = read_entry ep conn_id
        in if ee_seq entry > ep_last_seqs ep ! conn_id \<and> ee_batch_size entry > 0 then
             (Some entry, ep\<lparr>ep_last_seqs := (ep_last_seqs ep)[conn_id := ee_seq entry]\<rparr>)
           else (None, ep))"

definition clear_entry :: "nat \<Rightarrow> endpoint_entry_pool \<Rightarrow> endpoint_entry_pool" where
  "clear_entry conn_id ep =
     (if conn_id \<ge> ep_num_entries ep then ep
      else ep\<lparr>ep_mem := write_at (conn_id * ENDPOINT_ENTRY_SIZE + 8) (le_bytes 4 (0 :: u32)) (ep_mem ep)\<rparr>)"

section \<open>Context switches visit the groups in turn\<close>

abbreviation group_busy :: "group_context list \<Rightarrow> nat \<Rightarrow> bool" where
  "group_busy groups g \<equiv> gc_connections (groups ! g) \<noteq> []"

lemma skip_empty_first:
  assumes "\<forall>j<k. \<not> group_busy groups ((next + j) mod length groups)"
    and "k < fuel" "group_busy groups ((next + k) mod length groups)" "next < length groups"
  shows "skip_empty fuel groups next = (next + k) mod length groups"
  using assms
proof (induction k arbitrary: fuel "next")
  case 0
  then obtain f where "fuel = Suc f" by (cases fuel) auto
  with 0 show ?case by simp
next
  case (Suc k)
  then obtain f where f: "fuel = Suc f" "k < f" by (cases fuel) auto
  let ?n = "length groups"
  have shift: "((next + 1) mod ?n + j) mod ?n = (next + Suc j) mod ?n" for j
    by (simp add: mod_add_left_eq)
  have "\<not> group_busy groups next" using Suc.prems(1,4) by (auto dest!: spec [of _ 0])
  moreover have "skip_empty f groups ((next + 1) mod ?n) = ((next + 1) mod ?n + k) mod ?n"
  proof (rule Suc.IH)
    show "\<forall>j<k. \<not> group_busy groups (((next + 1) mod ?n + j) mod ?n)"
      using Suc.prems(1) unfolding shift by auto
    show "group_busy groups (((next + 1) mod ?n + k) mod ?n)"
      unfolding shift by (rule Suc.prems(3))
    show "(next + 1) mod ?n < ?n" using Suc.prems(4) by (intro mod_less_divisor) linarith
  qed (rule f(2))
  ultimately show ?case unfolding f(1) shift by simp
qed

text \<open>The group after \<open>c\<close> at the smallest distance from 1 to the number of groups that is not empty.\<close>

lemma skip_empty_next:
  assumes "c < length groups" "0 < d" "d \<le> length groups"
    and "group_busy groups ((c + d) mod length groups)"
    and "\<forall>j. 0 < j \<and> j < d \<longrightarrow> \<not> group_busy groups ((c + j) mod length groups)"
  shows "skip_empty (length groups) groups ((c + 1) mod length groups) = (c + d) mod length groups"
proof -
  let ?n = "length groups"
  have shift: "((c + 1) mod ?n + j) mod ?n = (c + Suc j) mod ?n" for j
    by (simp add: mod_add_left_eq)
  have "skip_empty ?n groups ((c + 1) mod ?n) = ((c + 1) mod ?n + (d - 1)) mod ?n"
  proof (rule skip_empty_first)
    show "\<forall>j<d - 1. \<not> group_busy groups (((c + 1) mod ?n + j) mod ?n)"
      unfolding shift
    proof (intro allI impI)
      fix j assume "j < d - 1"
      then show "\<not> group_busy groups ((c + Suc j) mod ?n)"
        using assms(5) by (metis less_diff_conv Suc_eq_plus1 zero_less_Suc)
    qed
    show "group_busy groups (((c + 1) mod ?n + (d - 1)) mod ?n)"
      using assms(2,4) unfolding shift by simp
    show "(c + 1) mod ?n < ?n" using assms(1) by (intro mod_less_divisor) linarith
  qed (use assms in simp)
  then show ?thesis unfolding shift using assms(2) by simp
qed

text \<open>Both versions of the switch change the current group alike and keep the connections.\<close>

lemma switch_alike:
  "map_option (\<lambda>(q, s). (q, gs_current_group s, gs_next_group s)) (context_switch now sc) =
   map_option (\<lambda>(q, s). (q, gs_current_group s, gs_next_group s)) (do_context_switch now sc)"
  by (simp add: context_switch_def do_context_switch_def Let_def)

lemma map_connections_update:
  "map gc_connections (gs[i := (gs ! i)\<lparr>gc_context_switch_seq := q\<rparr>]) = map gc_connections gs"
  by (cases "i < length gs") (simp_all add: map_update list_update_same_conv list_update_beyond)

text \<open>Any number of switches, of either version, at given times.\<close>

inductive switches :: "nat \<Rightarrow> group_scheduler \<Rightarrow> group_scheduler \<Rightarrow> bool" where
  sw_none: "switches 0 sc sc"
| sw_shared: "do_context_switch now sc = Some (q, sc1) \<Longrightarrow> switches k sc1 sc' \<Longrightarrow> switches (Suc k) sc sc'"
| sw_mut: "context_switch now sc = Some (q, sc1) \<Longrightarrow> switches k sc1 sc' \<Longrightarrow> switches (Suc k) sc sc'"

inductive_cases switches_SucE: "switches (Suc k) sc sc'"

definition next_current :: "group_scheduler \<Rightarrow> nat" where
  "next_current sc =
     skip_empty (length (gs_groups sc)) (gs_groups sc)
       ((gs_current_group sc + 1) mod length (gs_groups sc))"

lemma switch_effect:
  assumes "do_context_switch now sc = Some (q, sc1) \<or> context_switch now sc = Some (q, sc1)"
  shows "gs_current_group sc1 = next_current sc"
    "map gc_connections (gs_groups sc1) = map gc_connections (gs_groups sc)"
    "gs_next_group sc1 = (next_current sc + 1) mod length (gs_groups sc)"
    "gs_context_switch_seq sc1 = gs_context_switch_seq sc + 1" "q = gs_context_switch_seq sc1"
  using assms
  by (auto simp: do_context_switch_def context_switch_def next_current_def Let_def
      map_connections_update split: if_splits)

lemma do_context_switch_total:
  "gs_groups sc \<noteq> [] \<Longrightarrow> \<exists>q sc1. do_context_switch now sc = Some (q, sc1)"
  by (simp add: do_context_switch_def Let_def)

lemma busy_conns:
  assumes "map gc_connections gs' = map gc_connections gs" "i < length gs"
  shows "group_busy gs' i \<longleftrightarrow> group_busy gs i"
  using assms by (metis length_map nth_map)

lemma visited_within:
  assumes "switches k sc sc'" "0 < d" "d \<le> length (gs_groups sc)"
    and "gs_current_group sc < length (gs_groups sc)"
    and "group_busy (gs_groups sc) ((gs_current_group sc + d) mod length (gs_groups sc))" "d \<le> k"
  shows "\<exists>i sc1. 0 < i \<and> i \<le> d \<and> switches i sc sc1 \<and>
    gs_current_group sc1 = (gs_current_group sc + d) mod length (gs_groups sc) \<and> switches (k - i) sc1 sc'"
  using assms
proof (induction k arbitrary: sc d)
  case 0
  then show ?case by simp
next
  case (Suc k)
  let ?gs = "gs_groups sc" let ?n = "length ?gs" let ?c = "gs_current_group sc"
  define m where "m = (LEAST j. 0 < j \<and> group_busy ?gs ((?c + j) mod ?n))"
  have m: "0 < m" "group_busy ?gs ((?c + m) mod ?n)"
    using LeastI [of "\<lambda>j. 0 < j \<and> group_busy ?gs ((?c + j) mod ?n)" d] Suc.prems(2,5) by (simp_all add: m_def)
  have md: "m \<le> d"
    unfolding m_def using Suc.prems(2,5) by (intro Least_le) simp
  have least: "\<forall>j. 0 < j \<and> j < m \<longrightarrow> \<not> group_busy ?gs ((?c + j) mod ?n)"
    unfolding m_def by (auto dest: not_less_Least)
  have cur: "next_current sc = (?c + m) mod ?n"
    unfolding next_current_def using m md Suc.prems(3,4) least by (intro skip_empty_next) auto
  obtain now q sc1 where sw: "do_context_switch now sc = Some (q, sc1) \<or> context_switch now sc = Some (q, sc1)"
    and rest: "switches k sc1 sc'"
    using Suc.prems(1) by (blast elim: switches_SucE)
  have one: "switches (Suc 0) sc sc1" using sw by (auto intro: switches.intros)
  note eff = switch_effect [OF sw]
  have len: "length (gs_groups sc1) = ?n" using eff(2) by (metis length_map)
  have n0: "0 < ?n" using Suc.prems(2,3) by linarith
  show ?case
  proof (cases "m = d")
    case True
    then show ?thesis using one rest eff(1) cur m(1) by (intro exI [of _ 1] exI [of _ sc1]) simp
  next
    case False
    then have d: "0 < d - m" "d - m \<le> ?n" "d - m \<le> k" using md Suc.prems(3,6) m(1) by simp_all
    have pos: "(gs_current_group sc1 + (d - m)) mod ?n = (?c + d) mod ?n"
    proof -
      have "((?c + m) mod ?n + (d - m)) mod ?n = (?c + m + (d - m)) mod ?n" by (rule mod_add_left_eq)
      then show ?thesis using md by (simp add: eff(1) cur)
    qed
    have "(?c + d) mod ?n < ?n" using n0 by simp
    then have busy: "group_busy (gs_groups sc1) ((gs_current_group sc1 + (d - m)) mod length (gs_groups sc1))"
      unfolding len pos using Suc.prems(5) busy_conns [OF eff(2)] by simp
    have "gs_current_group sc1 < length (gs_groups sc1)" using n0 by (simp add: eff(1) cur len)
    from Suc.IH [OF rest d(1) _ this busy d(3)] d(2) obtain i sc2 where i: "0 < i" "i \<le> d - m"
      "switches i sc1 sc2" "gs_current_group sc2 = (?c + d) mod ?n" "switches (k - i) sc2 sc'"
      unfolding len pos by auto
    have "switches (Suc i) sc sc2" using sw i(3) by (auto intro: switches.intros)
    then show ?thesis using i md m(1) by (intro exI [of _ "Suc i"] exI [of _ sc2]) simp
  qed
qed

lemma cyclic_distance:
  fixes c g n :: nat
  assumes "c < n" "g < n"
  obtains d where "0 < d" "d \<le> n" "(c + d) mod n = g"
proof (cases "c < g")
  case True
  then show thesis using assms by (intro that [of "g - c"]) simp_all
next
  case False
  then show thesis using assms by (intro that [of "n + g - c"]) simp_all
qed

lemma next_current_busy:
  assumes "gs_current_group sc < length (gs_groups sc)"
    and "g < length (gs_groups sc)" "group_busy (gs_groups sc) g"
  shows "next_current sc < length (gs_groups sc)" "group_busy (gs_groups sc) (next_current sc)"
proof -
  let ?gs = "gs_groups sc" let ?n = "length ?gs" let ?c = "gs_current_group sc"
  obtain d where d: "0 < d" "d \<le> ?n" "(?c + d) mod ?n = g" by (rule cyclic_distance [OF assms(1,2)])
  define m where "m = (LEAST j. 0 < j \<and> group_busy ?gs ((?c + j) mod ?n))"
  have m: "0 < m" "group_busy ?gs ((?c + m) mod ?n)"
    using LeastI [of "\<lambda>j. 0 < j \<and> group_busy ?gs ((?c + j) mod ?n)" d] d assms(3) by (simp_all add: m_def)
  have "m \<le> d" unfolding m_def using d assms(3) by (intro Least_le) simp
  moreover have "\<forall>j. 0 < j \<and> j < m \<longrightarrow> \<not> group_busy ?gs ((?c + j) mod ?n)"
    unfolding m_def by (auto dest: not_less_Least)
  ultimately have "next_current sc = (?c + m) mod ?n"
    unfolding next_current_def using m d assms(1) by (intro skip_empty_next) auto
  moreover have "(?c + m) mod ?n < ?n" using assms(1) by (intro mod_less_divisor) linarith
  ultimately show "next_current sc < ?n" "group_busy ?gs (next_current sc)" using m(2) by simp_all
qed

text \<open>
  C27.  The scheduler is fair.  In any run of as many context switches as there are groups,
  of either version and at any times, every group that has a connection becomes the current
  group.  A switch never selects an empty group while another one has connections.  When the
  group announced as next, whose requests are fetched ahead of the switch, has connections,
  it is the one selected.
\<close>

theorem scheduler_fair:
  assumes "gs_current_group sc < length (gs_groups sc)"
    and "switches (length (gs_groups sc)) sc sc'"
    and "g < length (gs_groups sc)" "gc_connections (gs_groups sc ! g) \<noteq> []"
  shows "(\<exists>i sc1. 0 < i \<and> i \<le> length (gs_groups sc) \<and> switches i sc sc1 \<and> gs_current_group sc1 = g \<and>
      switches (length (gs_groups sc) - i) sc1 sc') \<and>
    (\<exists>q sc1. do_context_switch now sc = Some (q, sc1) \<and>
       gc_connections (gs_groups sc ! gs_current_group sc1) \<noteq> [] \<and>
       (gs_next_group sc = (gs_current_group sc + 1) mod length (gs_groups sc) \<and>
        gc_connections (gs_groups sc ! gs_next_group sc) \<noteq> [] \<longrightarrow>
        gs_current_group sc1 = gs_next_group sc))"
proof -
  let ?n = "length (gs_groups sc)"
  obtain d where d: "0 < d" "d \<le> ?n" "(gs_current_group sc + d) mod ?n = g"
    by (rule cyclic_distance [OF assms(1,3)])
  have busy: "group_busy (gs_groups sc) ((gs_current_group sc + d) mod ?n)" using assms(4) d(3) by simp
  from visited_within [OF assms(2) d(1,2) assms(1) busy d(2)]
  obtain i sc2 where i: "0 < i" "i \<le> d" "switches i sc sc2" "gs_current_group sc2 = g" "switches (?n - i) sc2 sc'"
    unfolding d(3) by blast
  have "gs_groups sc \<noteq> []" using assms(1) by auto
  from do_context_switch_total [OF this, of now]
  obtain q sc1 where sw: "do_context_switch now sc = Some (q, sc1)" by blast
  then have cur: "gs_current_group sc1 = next_current sc" using switch_effect(1) by blast
  have "next_current sc = gs_next_group sc"
    if "gs_next_group sc = (gs_current_group sc + 1) mod ?n" "group_busy (gs_groups sc) (gs_next_group sc)"
    using that assms(1) skip_empty_next [of "gs_current_group sc" "gs_groups sc" 1]
    by (simp add: next_current_def)
  then have "gs_next_group sc = (gs_current_group sc + 1) mod ?n \<and> group_busy (gs_groups sc) (gs_next_group sc) \<longrightarrow>
      gs_current_group sc1 = gs_next_group sc" unfolding cur by blast
  moreover have "group_busy (gs_groups sc) (gs_current_group sc1)"
    unfolding cur by (rule next_current_busy(2) [OF assms(1,3,4)])
  moreover have "i \<le> ?n" using i(2) d(2) by simp
  ultimately show ?thesis using i sw by (intro conjI exI [of _ i] exI [of _ sc2] exI [of _ q] exI [of _ sc1])
qed

theorem scheduler_fair_witness:
  "\<exists>sc sc1 sc'. length (gs_groups sc) = 3 \<and> gs_current_group sc = 0 \<and>
     gc_connections (gs_groups sc ! 2) = [5] \<and> gc_connections (gs_groups sc ! 1) = [] \<and>
     switches 3 sc sc' \<and> (\<exists>i\<le>3. switches i sc sc1 \<and> gs_current_group sc1 = 2)"
proof -
  define sc where "sc = snd (the (scheduler_add_connection 5 (scheduler_new 0 3 100)))"
  have sc: "length (gs_groups sc) = 3" "gs_current_group sc = 0" "gc_connections (gs_groups sc ! 2) = [5]"
    "gc_connections (gs_groups sc ! 1) = []" unfolding sc_def by code_simp+
  have step: "do_context_switch 0 s = Some (fst (the (do_context_switch 0 s)), snd (the (do_context_switch 0 s)))"
    if "gs_groups s \<noteq> []" for s using that by (simp add: do_context_switch_def Let_def)
  let ?f = "\<lambda>s. snd (the (do_context_switch 0 s))"
  have ne: "gs_groups sc \<noteq> []" "gs_groups (?f sc) \<noteq> []" "gs_groups (?f (?f sc)) \<noteq> []"
    unfolding sc_def by code_simp+
  have run: "switches 3 sc (?f (?f (?f sc)))"
    unfolding numeral_3_eq_3
    by (rule sw_shared [OF step [OF ne(1)] sw_shared [OF step [OF ne(2)] sw_shared [OF step [OF ne(3)] sw_none]]])
  have cur: "gs_current_group sc < length (gs_groups sc)" "2 < length (gs_groups sc)"
    "gc_connections (gs_groups sc ! 2) \<noteq> []" and run': "switches (length (gs_groups sc)) sc (?f (?f (?f sc)))"
    using run by (simp_all add: sc)
  obtain i sc1 where "i \<le> 3" "switches i sc sc1" "gs_current_group sc1 = 2"
    using scheduler_fair [OF cur(1) run' cur(2,3), of 0] unfolding sc(1) by blast
  then show ?thesis using run sc
    by (intro exI [of _ sc] exI [of _ sc1] exI [of _ "?f (?f (?f sc))"]) auto
qed

section \<open>A batch is announced once\<close>

definition entry_pool_wf :: "endpoint_entry_pool \<Rightarrow> bool" where
  "entry_pool_wf ep \<longleftrightarrow>
     length (ep_mem ep) = ep_num_entries ep * 16 \<and> length (ep_last_seqs ep) = ep_num_entries ep"

lemma read_entry_placed:
  fixes e :: endpoint_entry
  assumes "entry_pool_wf ep" "c < ep_num_entries ep" "c' < ep_num_entries ep"
  defines "ep' \<equiv> ep\<lparr>ep_mem := endpoint_entry_write_to e (ep_mem ep) (c * ENDPOINT_ENTRY_SIZE)\<rparr>"
  shows "read_entry ep' c' = (if c' = c then e else read_entry ep c')"
proof -
  let ?mem = "endpoint_entry_write_to e (ep_mem ep) (c * 16)"
  have range: "k * 16 + 16 \<le> length (ep_mem ep)" if "k < ep_num_entries ep" for k
    using mult_le_mono1 [of "Suc k" "ep_num_entries ep" 16] assms(1) that by (simp add: entry_pool_wf_def)
  note r = range [OF assms(2)] range [OF assms(3)]
  have w: "length (endpoint_entry_image e) = 16" by (simp add: endpoint_entry_image_def)
  consider "c' = c" | "c' * 16 + 16 \<le> c * 16" | "c * 16 + 16 \<le> c' * 16" by linarith
  then have "endpoint_entry_read_from ?mem (c' * 16) =
      (if c' = c then e else endpoint_entry_read_from (ep_mem ep) (c' * 16))"
  proof cases
    case 1
    then show ?thesis
      unfolding endpoint_entry_write_to_def
      using eeh.reader_write [of "c * 16" "ep_mem ep" e] r(1) by (simp add: block_sizes)
  next
    case 2
    then have "endpoint_entry_read_from ?mem (c' * 16) = endpoint_entry_read_from (ep_mem ep) (c' * 16)"
      unfolding endpoint_entry_write_to_def
      by (intro eeh.reader_write_before) (use r w in \<open>simp_all only: block_sizes\<close>)
    with 2 show ?thesis by auto
  next
    case 3
    then have "endpoint_entry_read_from ?mem (c' * 16) = endpoint_entry_read_from (ep_mem ep) (c' * 16)"
      unfolding endpoint_entry_write_to_def
      by (intro eeh.reader_write_after) (use r w in \<open>simp_all only: block_sizes\<close>)
    with 3 show ?thesis by auto
  qed
  then show ?thesis using assms(3) by (simp add: read_entry_def ep'_def ENDPOINT_ENTRY_SIZE_def)
qed

lemma batch_reported_once:
  assumes "entry_pool_wf ep" "c < ep_num_entries ep" "ee_seq e > ep_last_seqs ep ! c" "ee_batch_size e > 0"
  defines "ep' \<equiv> ep\<lparr>ep_mem := endpoint_entry_write_to e (ep_mem ep) (c * ENDPOINT_ENTRY_SIZE)\<rparr>"
  shows "fst (has_new_batch c ep') = Some e"
    and "fst (has_new_batch c (snd (has_new_batch c ep'))) = None"
proof -
  let ?ep = "ep'\<lparr>ep_last_seqs := (ep_last_seqs ep')[c := ee_seq e]\<rparr>"
  have r: "read_entry ep' c = e" using read_entry_placed [OF assms(1,2,2)] by (simp add: ep'_def)
  have c: "\<not> c \<ge> ep_num_entries ep'" using assms(2) by (simp add: ep'_def)
  have b: "has_new_batch c ep' = (Some e, ?ep)"
    using c assms(3,4) by (simp add: has_new_batch_def Let_def r) (simp add: ep'_def)
  then show "fst (has_new_batch c ep') = Some e" by simp
  have "read_entry ?ep c = read_entry ep' c" by (simp add: read_entry_def)
  then have "read_entry ?ep c = e" using r by simp
  moreover have "ep_last_seqs ?ep ! c = ee_seq e" using assms(1,2) by (simp add: ep'_def entry_pool_wf_def)
  ultimately show "fst (has_new_batch c (snd (has_new_batch c ep'))) = None"
    using c unfolding b by (simp add: has_new_batch_def Let_def)
qed

end
