(* ===== verification/Scalerpc_Server.thy ===== *)
theory Scalerpc_Server
  imports Scalerpc_Connection Scalerpc_Scheduler
begin

text \<open>
  Model of the server of \<^verbatim>\<open>scalerpc/src/server.rs\<close>: three message pools (requests of the active
  group, requests fetched ahead for the next group, responses under construction), the slots of
  every connection, the scheduler, polling, responses with acknowledgements and context-switch
  events, and the fetching of announced batches.  The request handler is a parameter: a
  function of the call type, the payload and the response buffer, which returns a status, a
  length and the buffer as it left it.  Queue pairs answer through \<open>submit\<close>, per connection.
\<close>

record warmup_buffer_info =
  wi_addr :: u64
  wi_rkey :: u32
  wi_slots :: u32

record incoming_request =
  ir_req_id :: u64
  ir_rpc_type :: u16
  ir_payload_ptr :: nat
  ir_payload_len :: nat
  ir_client_slot_addr :: u64
  ir_client_slot_rkey :: u32
  ir_conn_id :: nat
  ir_slot_index :: nat
  ir_slot_seq :: u64

record rpc_server =
  sv_processing_pool :: message_pool
  sv_warmup_pool :: message_pool
  sv_response_pool :: message_pool
  sv_mapping :: virtual_mapping
  sv_connections :: "connection option list"
  sv_max_connections :: nat
  sv_scheduler :: group_scheduler
  sv_event_buffer_addrs :: "(u64 \<times> u32) option list"
  sv_needs_flush :: "nat list"
  sv_warmup_buffer_infos :: "warmup_buffer_info option list"
  sv_shared_cqs :: bool
  sv_endpoint_entries :: "endpoint_entry_pool option"
  sv_pending_context_switch :: "(u64 \<times> u32) option list"
  sv_next_expected_slot :: "nat list"
  sv_conn_buf :: "nat list"
  sv_last_processed_seq :: "u64 list"

type_synonym handler = "u16 \<Rightarrow> bytes \<Rightarrow> bytes \<Rightarrow> (u32 \<times> nat) \<times> bytes"

definition no_handler :: handler where
  "no_handler rpc_type payload response_buf = ((1, 0), response_buf)"

text \<open>The loop that extends a vector until an index is in range.\<close>

definition grow_to :: "nat \<Rightarrow> 'a \<Rightarrow> 'a list \<Rightarrow> 'a list" where
  "grow_to i x xs = xs @ replicate (Suc i - length xs) x"

definition get_flat :: "'a option list \<Rightarrow> nat \<Rightarrow> 'a option" where
  "get_flat xs i = (if i < length xs then xs ! i else None)"

section \<open>Construction\<close>

definition server_new ::
  "nat \<Rightarrow> mr_oracle \<Rightarrow> mr_oracle \<Rightarrow> mr_oracle \<Rightarrow> mr_oracle \<Rightarrow> nat \<Rightarrow> nat \<Rightarrow> nat \<Rightarrow> nat \<Rightarrow> nat
     \<Rightarrow> (rpc_server, srpc_error) outcome" where
  "server_new now mr1 mr2 mr3 mr4 num_slots slot_data_size max_connections num_groups time_slice_us =
     (case pool_new mr1 num_slots slot_data_size of
        Err e \<Rightarrow> Err e | Panic \<Rightarrow> Panic
      | Ok processing \<Rightarrow>
     (case pool_new mr2 num_slots slot_data_size of
        Err e \<Rightarrow> Err e | Panic \<Rightarrow> Panic
      | Ok warmup \<Rightarrow>
     (case pool_new mr3 num_slots slot_data_size of
        Err e \<Rightarrow> Err e | Panic \<Rightarrow> Panic
      | Ok response \<Rightarrow>
     (case entry_pool_new mr4 max_connections of
        Err e \<Rightarrow> Err e | Panic \<Rightarrow> Panic
      | Ok entries \<Rightarrow>
          Ok \<lparr>sv_processing_pool = processing, sv_warmup_pool = warmup, sv_response_pool = response,
              sv_mapping = vm_new, sv_connections = [], sv_max_connections = max_connections,
              sv_scheduler = scheduler_new now num_groups time_slice_us,
              sv_event_buffer_addrs = [], sv_needs_flush = [], sv_warmup_buffer_infos = [],
              sv_shared_cqs = False, sv_endpoint_entries = Some entries,
              sv_pending_context_switch = [], sv_next_expected_slot = [], sv_conn_buf = [],
              sv_last_processed_seq = []\<rparr>))))"

definition register_event_buffer :: "nat \<Rightarrow> u64 \<Rightarrow> u32 \<Rightarrow> rpc_server \<Rightarrow> rpc_server" where
  "register_event_buffer conn_id addr rkey sv =
     sv\<lparr>sv_event_buffer_addrs :=
          (grow_to conn_id None (sv_event_buffer_addrs sv))[conn_id := Some (addr, rkey)]\<rparr>"

definition server_conn :: "rpc_server \<Rightarrow> nat \<Rightarrow> connection option" where
  "server_conn sv conn_id = get_flat (sv_connections sv) conn_id"

definition set_server_conn :: "nat \<Rightarrow> connection \<Rightarrow> rpc_server \<Rightarrow> rpc_server" where
  "set_server_conn conn_id c sv = sv\<lparr>sv_connections := (sv_connections sv)[conn_id := Some c]\<rparr>"

fun bind_slots :: "nat \<Rightarrow> nat list \<Rightarrow> virtual_mapping \<Rightarrow> (unit, srpc_error) outcome \<times> virtual_mapping" where
  "bind_slots conn_id [] m = (Ok (), m)"
| "bind_slots conn_id (s # ss) m = and_then (bind_slot conn_id s m) (\<lambda>_ m. bind_slots conn_id ss m)"

text \<open>\<open>cqs\<close> and \<open>qp\<close> are the device's answers.\<close>

definition server_add_connection ::
  "bool \<Rightarrow> (u32 \<times> u16) option \<Rightarrow> rpc_server \<Rightarrow> (nat, srpc_error) outcome \<times> rpc_server" where
  "server_add_connection cqs qp sv =
     (let conn_id = length (sv_connections sv)
      in if conn_id \<ge> sv_max_connections sv then (Err (Protocol ''max_connections limit reached''), sv)
         else if \<not> sv_shared_cqs sv \<and> \<not> cqs then (Err IoError, sv)
         else
           let sv = sv\<lparr>sv_shared_cqs := True\<rparr>
           in case connection_new qp conn_id of
                Err e \<Rightarrow> (Err e, sv)
              | Panic \<Rightarrow> (Panic, sv)
              | Ok conn \<Rightarrow>
                  let mapping = register_connection conn_id (sv_mapping sv);
                      slots_per_conn = pl_num_slots (sv_processing_pool sv) div sv_max_connections sv;
                      start_slot = conn_id * slots_per_conn;
                      (r, mapping) = bind_slots conn_id [start_slot..<start_slot + slots_per_conn] mapping;
                      sv = sv\<lparr>sv_mapping := mapping\<rparr>
                  in case r of
                       Err e \<Rightarrow> (Err e, sv)
                     | Panic \<Rightarrow> (Panic, sv)
                     | Ok _ \<Rightarrow>
                         let sv = sv\<lparr>sv_connections := sv_connections sv @ [Some conn]\<rparr>
                         in case scheduler_add_connection conn_id (sv_scheduler sv) of
                              None \<Rightarrow> (Panic, sv)
                            | Some (group_id, sc) \<Rightarrow>
                                let next_slots = sv_next_expected_slot sv;
                                    next_slots = (if conn_id \<ge> length next_slots
                                                  then resize (conn_id + 1) 0 next_slots else next_slots)
                                in (Ok conn_id, sv\<lparr>sv_scheduler := sc,
                                                   sv_next_expected_slot := next_slots[conn_id := 0]\<rparr>))"

definition server_connect ::
  "bool \<Rightarrow> nat \<Rightarrow> remote_endpoint \<Rightarrow> rpc_server \<Rightarrow> (unit, srpc_error) outcome \<times> rpc_server" where
  "server_connect accepted conn_id remote sv =
     (let (r, mapping) = set_remote_slot conn_id (re_slot_addr remote) (re_slot_rkey remote) (sv_mapping sv);
          sv = sv\<lparr>sv_mapping := mapping\<rparr>
      in case r of
           Err e \<Rightarrow> (Err e, sv)
         | Panic \<Rightarrow> (Panic, sv)
         | Ok _ \<Rightarrow>
             let sv = (if re_event_buffer_addr remote \<noteq> 0
                       then register_event_buffer conn_id (re_event_buffer_addr remote) (re_event_buffer_rkey remote) sv
                       else sv);
                 sv = (if re_warmup_buffer_addr remote \<noteq> 0
                       then sv\<lparr>sv_warmup_buffer_infos :=
                              (grow_to conn_id None (sv_warmup_buffer_infos sv))
                                [conn_id := Some \<lparr>wi_addr = re_warmup_buffer_addr remote,
                                                  wi_rkey = re_warmup_buffer_rkey remote,
                                                  wi_slots = re_warmup_buffer_slots remote\<rparr>]\<rparr>
                       else sv)
             in case server_conn sv conn_id of
                  None \<Rightarrow> (Err (ConnectionNotFound conn_id), sv)
                | Some conn \<Rightarrow>
                    let (r, conn) = connection_connect accepted remote conn
                    in (r, set_server_conn conn_id conn sv))"

definition server_local_endpoint :: "nat \<Rightarrow> rpc_server \<Rightarrow> (remote_endpoint, srpc_error) outcome" where
  "server_local_endpoint conn_id sv =
     (case server_conn sv conn_id of
        None \<Rightarrow> Err (ConnectionNotFound conn_id)
      | Some conn \<Rightarrow>
          (case slot_data_addr (sv_processing_pool sv) 0 of
             None \<Rightarrow> Panic
           | Some addr \<Rightarrow>
               let ep = (connection_local_endpoint conn)\<lparr>re_slot_addr := addr,
                                                          re_slot_rkey := pl_rkey (sv_processing_pool sv)\<rparr>;
                   ep = (case sv_endpoint_entries sv of
                           None \<Rightarrow> ep
                         | Some entries \<Rightarrow> ep\<lparr>re_endpoint_entry_addr := entry_addr entries conn_id,
                                                re_endpoint_entry_rkey := ep_rkey entries\<rparr>)
               in Ok (ep\<lparr>re_server_conn_id := word_of_nat conn_id,
                         re_pool_num_slots := word_of_nat (pl_num_slots (sv_processing_pool sv))\<rparr>)))"

section \<open>Context switches\<close>

definition clear_slot_flags :: "message_pool \<Rightarrow> nat \<Rightarrow> message_pool" where
  "clear_slot_flags pool i =
     (case get_slot pool i of
        None \<Rightarrow> pool
      | Some slot \<Rightarrow>
          let mem = write_at (data_ptr slot) (le_bytes 4 (0 :: u32)) (pl_mem pool)
          in pool\<lparr>pl_mem := write_at (data_ptr slot + (MESSAGE_BLOCK_SIZE - 4)) (le_bytes 4 (0 :: u32)) mem\<rparr>)"

definition clear_pool_valid_flags :: "message_pool \<Rightarrow> message_pool" where
  "clear_pool_valid_flags pool = foldl clear_slot_flags pool [0..<pl_num_slots pool]"

definition swap_pools :: "rpc_server \<Rightarrow> rpc_server" where
  "swap_pools sv = sv\<lparr>sv_processing_pool := sv_warmup_pool sv, sv_warmup_pool := sv_processing_pool sv\<rparr>"

definition check_and_switch :: "nat \<Rightarrow> rpc_server \<Rightarrow> (u64 option, srpc_error) outcome \<times> rpc_server" where
  "check_and_switch now sv =
     (if \<not> should_switch now (sv_scheduler sv) then (Ok None, sv)
      else case context_switch now (sv_scheduler sv) of
             None \<Rightarrow> (Panic, sv)
           | Some (seq, sc) \<Rightarrow> (Ok (Some seq), swap_pools (sv\<lparr>sv_scheduler := sc\<rparr>)))"

definition perform_context_switch :: "nat \<Rightarrow> rpc_server \<Rightarrow> (u64 option, srpc_error) outcome \<times> rpc_server" where
  "perform_context_switch now sv =
     (if \<not> should_switch now (sv_scheduler sv) then (Ok None, sv)
      else case current_group_connections (sv_scheduler sv) of
             None \<Rightarrow> (Panic, sv)
           | Some conns \<Rightarrow>
               let sv = sv\<lparr>sv_conn_buf := conns\<rparr>
               in case context_switch now (sv_scheduler sv) of
                    None \<Rightarrow> (Panic, sv)
                  | Some (seq, sc) \<Rightarrow>
                      let sv = swap_pools (sv\<lparr>sv_scheduler := sc\<rparr>)
                      in (Ok (Some seq), sv\<lparr>sv_warmup_pool := clear_pool_valid_flags (sv_warmup_pool sv)\<rparr>))"

definition queue_context_switch_for_piggyback :: "nat list \<Rightarrow> u64 \<Rightarrow> u32 \<Rightarrow> rpc_server \<Rightarrow> rpc_server" where
  "queue_context_switch_for_piggyback conn_ids sequence fetched_seq sv =
     (let queue = (\<lambda>pending conn_id. (grow_to conn_id None pending)[conn_id := Some (sequence, fetched_seq)])
      in sv\<lparr>sv_pending_context_switch := foldl queue (sv_pending_context_switch sv) conn_ids\<rparr>)"

definition take_pending_context_switch :: "nat \<Rightarrow> rpc_server \<Rightarrow> (u64 \<times> u32) option \<times> rpc_server" where
  "take_pending_context_switch conn_id sv =
     (if conn_id < length (sv_pending_context_switch sv)
      then (sv_pending_context_switch sv ! conn_id,
            sv\<lparr>sv_pending_context_switch := (sv_pending_context_switch sv)[conn_id := None]\<rparr>)
      else (None, sv))"

text \<open>One event: a slot of the processing pool is borrowed for the bytes of the event.\<close>

definition send_event ::
  "submit_oracle \<Rightarrow> context_switch_event \<Rightarrow> nat \<Rightarrow> rpc_server \<Rightarrow> (unit, srpc_error) outcome \<times> rpc_server" where
  "send_event submit event conn_id sv =
     (case (get_flat (sv_event_buffer_addrs sv) conn_id, server_conn sv conn_id) of
        (Some (addr, rkey), Some conn) \<Rightarrow>
          (case pool_alloc (sv_processing_pool sv) of
             (Err e, pool) \<Rightarrow> (Err e, sv\<lparr>sv_processing_pool := pool\<rparr>)
           | (Panic, pool) \<Rightarrow> (Panic, sv\<lparr>sv_processing_pool := pool\<rparr>)
           | (Ok slot, pool) \<Rightarrow>
               (case handle_data_addr slot pool of
                  None \<Rightarrow> (Panic, sv\<lparr>sv_processing_pool := pool\<rparr>)
                | Some laddr \<Rightarrow>
                    let pool = pool\<lparr>pl_mem := cse_write_to event (pl_mem pool) (data_ptr (slot * DEFAULT_SLOT_SIZE))\<rparr>;
                        (r, conn) = emit_wqe submit
                          \<lparr>wr_op = RdmaWrite, wr_remote_addr = addr, wr_rkey = rkey, wr_local_addr = laddr,
                           wr_len = word_of_nat CSE_SIZE, wr_lkey = pl_lkey pool,
                           wr_signaled = cse_sequence event\<rparr> conn;
                        sv = sv\<lparr>sv_processing_pool := handle_drop slot pool\<rparr>
                    in case r of
                         Ok _ \<Rightarrow> (Ok (), set_server_conn conn_id (ring_sq_doorbell conn) sv)
                       | Err e \<Rightarrow> (Err e, set_server_conn conn_id conn sv)
                       | Panic \<Rightarrow> (Panic, set_server_conn conn_id conn sv)))
      | _ \<Rightarrow> (Ok (), sv))"

fun send_events ::
  "(nat \<Rightarrow> submit_oracle) \<Rightarrow> context_switch_event \<Rightarrow> nat list \<Rightarrow> rpc_server \<Rightarrow> (unit, srpc_error) outcome \<times> rpc_server" where
  "send_events submit event [] sv = (Ok (), sv)"
| "send_events submit event (conn_id # rest) sv =
     and_then (send_event (submit conn_id) event conn_id sv) (\<lambda>_ sv. send_events submit event rest sv)"

definition notify_context_switch ::
  "(nat \<Rightarrow> submit_oracle) \<Rightarrow> nat list \<Rightarrow> u64 \<Rightarrow> u32 \<Rightarrow> rpc_server \<Rightarrow> (unit, srpc_error) outcome \<times> rpc_server" where
  "notify_context_switch submit conn_ids sequence fetched_seq sv =
     (let sv = queue_context_switch_for_piggyback conn_ids sequence fetched_seq sv
      in send_events submit (cse_new sequence fetched_seq) conn_ids sv)"

definition reset_next_expected_slots :: "nat list \<Rightarrow> rpc_server \<Rightarrow> rpc_server" where
  "reset_next_expected_slots conn_ids sv =
     (let reset = (\<lambda>next_slots conn_id.
            if get_connection (sv_mapping sv) conn_id \<noteq> None \<and> conn_id < length next_slots
            then next_slots[conn_id := 0] else next_slots)
      in sv\<lparr>sv_next_expected_slot := foldl reset (sv_next_expected_slot sv) conn_ids\<rparr>)"

section \<open>Polling for requests\<close>

definition incoming_of :: "request_header \<Rightarrow> nat \<Rightarrow> nat \<Rightarrow> incoming_request" where
  "incoming_of header ptr slot_index =
     \<lparr>ir_req_id = rq_req_id header, ir_rpc_type = rq_rpc_type header, ir_payload_ptr = ptr + REQUEST_HEADER_SIZE,
      ir_payload_len = unat (rq_payload_len header), ir_client_slot_addr = rq_client_slot_addr header,
      ir_client_slot_rkey = rq_client_slot_rkey header, ir_conn_id = unat (rq_sender_conn_id header),
      ir_slot_index = slot_index, ir_slot_seq = rq_slot_seq header\<rparr>"

definition check_slot_for_request :: "nat \<Rightarrow> message_pool \<Rightarrow> incoming_request option \<times> message_pool" where
  "check_slot_for_request slot_index pool =
     (case get_slot pool slot_index of
        None \<Rightarrow> (None, pool)
      | Some slot \<Rightarrow>
          let ptr = data_ptr slot;
              (msg_len, valid) = trailer_read_from (pl_mem pool) ptr
          in if valid = 0 \<or> msg_len = 0 then (None, pool)
             else
               let header = request_read_from (pl_mem pool) ptr;
                   mem = write_at (ptr + (MESSAGE_BLOCK_SIZE - 4)) (le_bytes 4 (0 :: u32)) (pl_mem pool)
               in (Some (incoming_of header ptr slot_index), pool\<lparr>pl_mem := mem\<rparr>))"

definition ir_payload :: "message_pool \<Rightarrow> incoming_request \<Rightarrow> bytes option" where
  "ir_payload pool r =
     (if ir_payload_ptr r + ir_payload_len r > length (pl_mem pool) then None
      else Some (read_at (ir_payload_ptr r) (ir_payload_len r) (pl_mem pool)))"

text \<open>The fallback: all slots of a connection but the expected one, in order.\<close>

fun scan_slots ::
  "nat \<Rightarrow> nat \<Rightarrow> nat list \<Rightarrow> message_pool \<Rightarrow> (nat \<times> incoming_request) option \<times> message_pool" where
  "scan_slots slot_pos idx [] pool = (None, pool)"
| "scan_slots slot_pos idx (slot # slots) pool =
     (if idx \<noteq> slot_pos then
        case check_slot_for_request slot pool of
          (Some request, pool) \<Rightarrow> (Some (idx, request), pool)
        | (None, pool) \<Rightarrow> scan_slots slot_pos (Suc idx) slots pool
      else scan_slots slot_pos (Suc idx) slots pool)"

definition advance_slot :: "nat \<Rightarrow> nat \<Rightarrow> nat \<Rightarrow> rpc_server \<Rightarrow> rpc_server" where
  "advance_slot conn_id num pos sv =
     (let next_pos = (pos + 1) mod num
      in if conn_id < length (sv_next_expected_slot sv)
         then sv\<lparr>sv_next_expected_slot := (sv_next_expected_slot sv)[conn_id := next_pos]\<rparr> else sv)"

definition poll_connection :: "nat \<Rightarrow> rpc_server \<Rightarrow> incoming_request option \<times> rpc_server" where
  "poll_connection conn_id sv =
     (case get_connection (sv_mapping sv) conn_id of
        None \<Rightarrow> (None, sv)
      | Some entry \<Rightarrow>
          if me_slots entry = [] then (None, sv)
          else
            let slot_pos = (case get_opt (sv_next_expected_slot sv) conn_id of None \<Rightarrow> 0 | Some n \<Rightarrow> n)
                             mod length (me_slots entry);
                next_slot = me_slots entry ! slot_pos;
                advance = advance_slot conn_id (length (me_slots entry))
            in case check_slot_for_request next_slot (sv_processing_pool sv) of
                 (Some request, pool) \<Rightarrow> (Some request, advance slot_pos (sv\<lparr>sv_processing_pool := pool\<rparr>))
               | (None, pool) \<Rightarrow>
                   (case scan_slots slot_pos 0 (me_slots entry) pool of
                      (Some (idx, request), pool) \<Rightarrow>
                        (Some request, advance idx (sv\<lparr>sv_processing_pool := pool\<rparr>))
                    | (None, pool) \<Rightarrow> (None, sv\<lparr>sv_processing_pool := pool\<rparr>)))"

fun poll_connections :: "nat list \<Rightarrow> rpc_server \<Rightarrow> incoming_request option \<times> rpc_server" where
  "poll_connections [] sv = (None, sv)"
| "poll_connections (conn_id # rest) sv =
     (case poll_connection conn_id sv of
        (Some request, sv) \<Rightarrow> (Some request, sv)
      | (None, sv) \<Rightarrow> poll_connections rest sv)"

definition poll_request :: "rpc_server \<Rightarrow> (incoming_request option, srpc_error) outcome \<times> rpc_server" where
  "poll_request sv =
     (case current_group_connections (sv_scheduler sv) of
        None \<Rightarrow> (Panic, sv)
      | Some conns \<Rightarrow> let (r, sv) = poll_connections conns sv in (Ok r, sv))"

fun drain_slots :: "nat list \<Rightarrow> message_pool \<Rightarrow> incoming_request list \<times> message_pool" where
  "drain_slots [] pool = ([], pool)"
| "drain_slots (i # is) pool =
     (case check_slot_for_request i pool of
        (r, pool) \<Rightarrow>
          let (rs, pool) = drain_slots is pool
          in (case r of None \<Rightarrow> rs | Some request \<Rightarrow> request # rs, pool))"

definition drain_processing_pool :: "rpc_server \<Rightarrow> incoming_request list \<times> rpc_server" where
  "drain_processing_pool sv =
     (let (rs, pool) = drain_slots [0..<pl_num_slots (sv_processing_pool sv)] (sv_processing_pool sv)
      in (rs, sv\<lparr>sv_processing_pool := pool\<rparr>))"

section \<open>Responses\<close>

definition server_mark_needs_flush :: "nat \<Rightarrow> rpc_server \<Rightarrow> rpc_server" where
  "server_mark_needs_flush conn_id sv =
     (if conn_id \<in> set (sv_needs_flush sv) then sv
      else sv\<lparr>sv_needs_flush := sv_needs_flush sv @ [conn_id]\<rparr>)"

text \<open>The acknowledged sequence number: the largest one processed for the connection.\<close>

definition ack_processed :: "incoming_request \<Rightarrow> rpc_server \<Rightarrow> u64 \<times> rpc_server" where
  "ack_processed request sv =
     (let seqs = grow_to (ir_conn_id request) 0 (sv_last_processed_seq sv);
          seqs = (if ir_slot_seq request > seqs ! ir_conn_id request
                  then seqs[ir_conn_id request := ir_slot_seq request] else seqs)
      in (seqs ! ir_conn_id request, sv\<lparr>sv_last_processed_seq := seqs\<rparr>))"

definition response_header_for ::
  "incoming_request \<Rightarrow> u32 \<Rightarrow> u32 \<Rightarrow> u64 \<Rightarrow> rpc_server \<Rightarrow> response_header \<times> rpc_server" where
  "response_header_for request status payload_len acked_seq sv =
     (case take_pending_context_switch (ir_conn_id request) sv of
        (Some (seq, fetched_seq), sv) \<Rightarrow>
          (if fetched_seq > 0 then
             with_processing_pool_info_and_credit_ack (ir_req_id request) status payload_len seq fetched_seq
               (case slot_data_addr (sv_processing_pool sv) 0 of None \<Rightarrow> 0 | Some a \<Rightarrow> a)
               (pl_rkey (sv_processing_pool sv)) acked_seq
           else
             with_context_switch_and_credit_ack (ir_req_id request) status payload_len seq fetched_seq acked_seq,
           sv)
      | (None, sv) \<Rightarrow> (with_credit_ack (ir_req_id request) status payload_len acked_seq, sv))"

definition send_response_zero_copy ::
  "submit_oracle \<Rightarrow> incoming_request \<Rightarrow> u32 \<Rightarrow> nat \<Rightarrow> rpc_server \<Rightarrow> (unit, srpc_error) outcome \<times> rpc_server" where
  "send_response_zero_copy submit request status payload_len sv =
     (case server_conn sv (ir_conn_id request) of
        None \<Rightarrow> (Err (ConnectionNotFound (ir_conn_id request)), sv)
      | Some conn \<Rightarrow>
          (case (get_slot (sv_response_pool sv) (ir_slot_index request),
                 slot_data_addr (sv_response_pool sv) (ir_slot_index request)) of
             (Some slot, Some addr) \<Rightarrow>
               let (acked_seq, sv) = ack_processed request sv;
                   (header, sv) = response_header_for request status (word_of_nat payload_len) acked_seq sv;
                   pool = sv_response_pool sv;
                   sv = sv\<lparr>sv_response_pool := pool\<lparr>pl_mem := response_write_to header (pl_mem pool) (data_ptr slot)\<rparr>\<rparr>;
                   (r, conn) = emit_wqe submit
                     \<lparr>wr_op = RdmaWrite, wr_remote_addr = ir_client_slot_addr request,
                      wr_rkey = ir_client_slot_rkey request, wr_local_addr = addr,
                      wr_len = word_of_nat (RESPONSE_HEADER_SIZE + payload_len),
                      wr_lkey = pl_lkey (sv_response_pool sv), wr_signaled = ir_req_id request\<rparr> conn;
                   sv = set_server_conn (ir_conn_id request) conn sv
               in (case r of
                     Ok _ \<Rightarrow> (Ok (), server_mark_needs_flush (ir_conn_id request) sv)
                   | Err e \<Rightarrow> (Err e, sv)
                   | Panic \<Rightarrow> (Panic, sv))
           | _ \<Rightarrow> (Err (Protocol ''response slot not found''), sv)))"

definition send_response ::
  "submit_oracle \<Rightarrow> incoming_request \<Rightarrow> u32 \<Rightarrow> bytes \<Rightarrow> rpc_server \<Rightarrow> (unit, srpc_error) outcome \<times> rpc_server" where
  "send_response submit request status payload sv =
     (case server_conn sv (ir_conn_id request) of
        None \<Rightarrow> (Err (ConnectionNotFound (ir_conn_id request)), sv)
      | Some conn \<Rightarrow>
          (case (get_slot (sv_response_pool sv) (ir_slot_index request),
                 slot_data_addr (sv_response_pool sv) (ir_slot_index request)) of
             (Some slot, Some addr) \<Rightarrow>
               let (acked_seq, sv) = ack_processed request sv;
                   (header, sv) = response_header_for request status (word_of_nat (length payload)) acked_seq sv;
                   pool = sv_response_pool sv;
                   mem = response_write_to header (pl_mem pool) (data_ptr slot)
               in if data_ptr slot + RESPONSE_HEADER_SIZE + length payload > length mem then (Panic, sv)
                  else
                    let mem = (if payload \<noteq> [] then write_at (data_ptr slot + RESPONSE_HEADER_SIZE) payload mem else mem);
                        sv = sv\<lparr>sv_response_pool := pool\<lparr>pl_mem := mem\<rparr>\<rparr>;
                        (r, conn) = emit_wqe submit
                          \<lparr>wr_op = RdmaWrite, wr_remote_addr = ir_client_slot_addr request,
                           wr_rkey = ir_client_slot_rkey request, wr_local_addr = addr,
                           wr_len = word_of_nat (RESPONSE_HEADER_SIZE + length payload),
                           wr_lkey = pl_lkey (sv_response_pool sv), wr_signaled = ir_req_id request\<rparr> conn;
                        sv = set_server_conn (ir_conn_id request) conn sv
                    in (case r of
                          Ok _ \<Rightarrow> (Ok (), server_mark_needs_flush (ir_conn_id request) sv)
                        | Err e \<Rightarrow> (Err e, sv)
                        | Panic \<Rightarrow> (Panic, sv))
           | _ \<Rightarrow> (Err (Protocol ''response slot not found''), sv)))"

text \<open>
  Answering one polled request: the handler sees the payload in the processing pool and the
  response buffer of the same slot in the response pool.  The boolean says whether the request
  reached the handler and whether the response was accepted.
\<close>

definition handle_request ::
  "handler \<Rightarrow> (nat \<Rightarrow> submit_oracle) \<Rightarrow> incoming_request \<Rightarrow> rpc_server
     \<Rightarrow> (bool \<times> bool, srpc_error) outcome \<times> rpc_server" where
  "handle_request handler submit request sv =
     (case get_slot (sv_response_pool sv) (ir_slot_index request) of
        None \<Rightarrow> (Ok (False, False), sv)
      | Some slot \<Rightarrow>
          (case ir_payload (sv_processing_pool sv) request of
             None \<Rightarrow> (Panic, sv)
           | Some payload \<Rightarrow>
               let pool = sv_response_pool sv;
                   off = data_ptr slot + RESPONSE_HEADER_SIZE;
                   buf = read_at off (MESSAGE_BLOCK_SIZE - RESPONSE_HEADER_SIZE - 8) (pl_mem pool);
                   ((status, response_len), buf) = handler (ir_rpc_type request) payload buf;
                   sv = sv\<lparr>sv_response_pool := pool\<lparr>pl_mem := write_at off buf (pl_mem pool)\<rparr>\<rparr>;
                   (r, sv) = send_response_zero_copy (submit (ir_conn_id request)) request status response_len sv
               in (case r of Ok _ \<Rightarrow> (Ok (True, True), sv)
                           | Err e \<Rightarrow> (Ok (True, False), sv)
                           | Panic \<Rightarrow> (Panic, sv))))"

fun process_drained_requests ::
  "handler \<Rightarrow> (nat \<Rightarrow> submit_oracle) \<Rightarrow> incoming_request list \<Rightarrow> rpc_server
     \<Rightarrow> (nat, srpc_error) outcome \<times> rpc_server" where
  "process_drained_requests handler submit [] sv = (Ok 0, sv)"
| "process_drained_requests handler submit (request # rest) sv =
     and_then (handle_request handler submit request sv)
       (\<lambda>(_, sent) sv. and_then (process_drained_requests handler submit rest sv)
          (\<lambda>n sv. (Ok ((if sent then 1 else 0) + n), sv)))"

definition flush_doorbells :: "rpc_server \<Rightarrow> rpc_server" where
  "flush_doorbells sv =
     (let ring = (\<lambda>conn_id sv. case server_conn sv conn_id of
                                 None \<Rightarrow> sv
                               | Some conn \<Rightarrow> set_server_conn conn_id (ring_sq_doorbell conn) sv)
      in fold ring (sv_needs_flush sv) sv)"

definition clear_needs_flush :: "rpc_server \<Rightarrow> rpc_server" where
  "clear_needs_flush sv = sv\<lparr>sv_needs_flush := []\<rparr>"

text \<open>
  The loop of \<^verbatim>\<open>process\<close> and \<^verbatim>\<open>poll\<close>: poll and answer until no request is found.  \<open>counted\<close> says
  which requests are counted.
\<close>

partial_function (option) process_loop ::
  "(bool \<times> bool \<Rightarrow> bool) \<Rightarrow> handler \<Rightarrow> (nat \<Rightarrow> submit_oracle) \<Rightarrow> nat \<Rightarrow> rpc_server
     \<Rightarrow> ((nat, srpc_error) outcome \<times> rpc_server) option" where
  "process_loop counted handler submit processed sv =
     (case poll_request sv of
        (Ok None, sv1) \<Rightarrow> Some (Ok processed, sv1)
      | (Ok (Some request), sv1) \<Rightarrow>
          (case handle_request handler submit request sv1 of
             (Ok done, sv2) \<Rightarrow>
               process_loop counted handler submit (if counted done then processed + 1 else processed) sv2
           | (Err e, sv2) \<Rightarrow> Some (Err e, sv2)
           | (Panic, sv2) \<Rightarrow> Some (Panic, sv2))
      | (Err e, sv1) \<Rightarrow> Some (Err e, sv1)
      | (Panic, sv1) \<Rightarrow> Some (Panic, sv1))"

definition server_process ::
  "handler \<Rightarrow> (nat \<Rightarrow> submit_oracle) \<Rightarrow> nat \<Rightarrow> rpc_server \<Rightarrow> ((nat, srpc_error) outcome \<times> rpc_server) option" where
  "server_process handler submit now sv =
     map_option (\<lambda>r. and_then r
       (\<lambda>processed sv.
          let sv = clear_needs_flush (flush_doorbells sv)
          in if should_switch now (sv_scheduler sv) then
               (case do_context_switch now (sv_scheduler sv) of
                  None \<Rightarrow> (Panic, sv)
                | Some (_, sc) \<Rightarrow> (Ok processed, sv\<lparr>sv_scheduler := sc\<rparr>))
             else (Ok processed, sv)))
       (process_loop fst handler submit 0 sv)"

definition server_recv :: "rpc_server \<Rightarrow> (incoming_request option, srpc_error) outcome \<times> rpc_server" where
  "server_recv sv = poll_request sv"

definition server_reply ::
  "submit_oracle \<Rightarrow> incoming_request \<Rightarrow> u32 \<Rightarrow> bytes \<Rightarrow> rpc_server \<Rightarrow> (unit, srpc_error) outcome \<times> rpc_server" where
  "server_reply submit request status payload sv = send_response submit request status payload sv"

section \<open>Fetching announced batches\<close>

definition issue_warmup_read ::
  "submit_oracle \<Rightarrow> nat \<Rightarrow> warmup_buffer_info \<Rightarrow> nat \<Rightarrow> rpc_server \<Rightarrow> (unit, srpc_error) outcome \<times> rpc_server" where
  "issue_warmup_read submit conn_id info slot_idx sv =
     (case Option.bind (get_connection (sv_mapping sv) conn_id) (\<lambda>entry. get_opt (me_slots entry) slot_idx) of
        None \<Rightarrow> (Err (Protocol ''No mapping slot''), sv)
      | Some server_slot_idx \<Rightarrow>
          (case (slot_data_addr (sv_warmup_pool sv) server_slot_idx, server_conn sv conn_id) of
             (Some addr, Some conn) \<Rightarrow>
               let (r, conn) = emit_wqe submit
                     \<lparr>wr_op = RdmaRead,
                      wr_remote_addr = wi_addr info + word_of_nat slot_idx * word_of_nat MESSAGE_BLOCK_SIZE,
                      wr_rkey = wi_rkey info, wr_local_addr = addr, wr_len = word_of_nat MESSAGE_BLOCK_SIZE,
                      wr_lkey = pl_lkey (sv_warmup_pool sv),
                      wr_signaled = push_bit 32 (word_of_nat conn_id) OR word_of_nat slot_idx\<rparr> conn
               in (r, set_server_conn conn_id conn sv)
           | _ \<Rightarrow> (Err (Protocol ''Warmup pool slot addr not found''), sv)))"

fun issue_warmup_reads ::
  "submit_oracle \<Rightarrow> nat \<Rightarrow> warmup_buffer_info \<Rightarrow> nat list \<Rightarrow> rpc_server \<Rightarrow> (unit, srpc_error) outcome \<times> rpc_server" where
  "issue_warmup_reads submit conn_id info [] sv = (Ok (), sv)"
| "issue_warmup_reads submit conn_id info (i # is) sv =
     and_then (issue_warmup_read submit conn_id info i sv)
       (\<lambda>_ sv. issue_warmup_reads submit conn_id info is sv)"

text \<open>
  \<open>exec\<close> is the device: the bytes of the warmup pool after the newly published requests of a
  connection, and whether their completions were seen before the timeout.
\<close>

definition fetch_warmup_batch ::
  "(nat \<Rightarrow> rdma_wr list \<Rightarrow> bytes \<Rightarrow> bytes \<times> bool) \<Rightarrow> submit_oracle \<Rightarrow> nat \<Rightarrow> warmup_buffer_info \<Rightarrow> u32
     \<Rightarrow> rpc_server \<Rightarrow> (nat, srpc_error) outcome \<times> rpc_server" where
  "fetch_warmup_batch exec submit conn_id info batch_size sv =
     (if batch_size = 0 then (Ok 0, sv)
      else
        and_then (issue_warmup_reads submit conn_id info [0..<unat batch_size] sv)
          (\<lambda>_ sv.
             case server_conn sv conn_id of
               None \<Rightarrow> (Err (ConnectionNotFound conn_id), sv)
             | Some conn \<Rightarrow>
                 let published = drop (cn_sq_rung conn) (cn_sq conn);
                     (mem, in_time) = exec conn_id published (pl_mem (sv_warmup_pool sv));
                     sv = set_server_conn conn_id (ring_sq_doorbell conn) sv;
                     sv = sv\<lparr>sv_warmup_pool := (sv_warmup_pool sv)\<lparr>pl_mem := mem\<rparr>\<rparr>
                 in if in_time then (Ok (unat batch_size), sv)
                    else (Err (Protocol ''RDMA READ batch timeout''), sv)))"

fun fetch_connections ::
  "(nat \<Rightarrow> rdma_wr list \<Rightarrow> bytes \<Rightarrow> bytes \<times> bool) \<Rightarrow> (nat \<Rightarrow> submit_oracle) \<Rightarrow> nat list \<Rightarrow> nat \<times> u32 \<Rightarrow> rpc_server
     \<Rightarrow> (nat \<times> u32, srpc_error) outcome \<times> rpc_server" where
  "fetch_connections exec submit [] acc sv = (Ok acc, sv)"
| "fetch_connections exec submit (conn_id # rest) (fetched, last_seq) sv =
     (case sv_endpoint_entries sv of
        None \<Rightarrow> fetch_connections exec submit rest (fetched, last_seq) sv
      | Some entries \<Rightarrow>
          (case has_new_batch conn_id entries of
             (None, entries) \<Rightarrow>
               fetch_connections exec submit rest (fetched, last_seq) (sv\<lparr>sv_endpoint_entries := Some entries\<rparr>)
           | (Some entry, entries) \<Rightarrow>
               let sv = sv\<lparr>sv_endpoint_entries := Some entries\<rparr>
               in (case (get_flat (sv_warmup_buffer_infos sv) conn_id, server_conn sv conn_id) of
                     (Some info, Some conn) \<Rightarrow>
                       and_then (fetch_warmup_batch exec (submit conn_id) conn_id info
                                   (min (ee_batch_size entry) (wi_slots info)) sv)
                         (\<lambda>n sv. fetch_connections exec submit rest (fetched + n, ee_seq entry)
                            (sv\<lparr>sv_endpoint_entries := map_option (clear_entry conn_id) (sv_endpoint_entries sv)\<rparr>))
                   | _ \<Rightarrow> fetch_connections exec submit rest (fetched, last_seq) sv)))"

definition fetch_warmup_requests ::
  "(nat \<Rightarrow> rdma_wr list \<Rightarrow> bytes \<Rightarrow> bytes \<times> bool) \<Rightarrow> (nat \<Rightarrow> submit_oracle) \<Rightarrow> rpc_server
     \<Rightarrow> (nat \<times> u32, srpc_error) outcome \<times> rpc_server" where
  "fetch_warmup_requests exec submit sv =
     (case next_group_connections (sv_scheduler sv) of
        None \<Rightarrow> (Panic, sv)
      | Some conns \<Rightarrow> fetch_connections exec submit conns (0, 0) (sv\<lparr>sv_conn_buf := conns\<rparr>))"

text \<open>The forced switch of \<^verbatim>\<open>poll\<close> after something was fetched; errors of the notification are ignored.\<close>

definition switch_to_fetched ::
  "(nat \<Rightarrow> submit_oracle) \<Rightarrow> nat \<Rightarrow> u32 \<Rightarrow> rpc_server \<Rightarrow> (unit, srpc_error) outcome \<times> rpc_server" where
  "switch_to_fetched submit now fetched_seq sv =
     (case do_context_switch now (sv_scheduler sv) of
        None \<Rightarrow> (Panic, sv)
      | Some (seq, sc) \<Rightarrow>
          let sv = sv\<lparr>sv_scheduler := sc\<rparr>
          in (case current_group_connections sc of
                None \<Rightarrow> (Panic, sv)
              | Some conns \<Rightarrow>
                  let sv = swap_pools (sv\<lparr>sv_conn_buf := conns\<rparr>);
                      sv = sv\<lparr>sv_warmup_pool := clear_pool_valid_flags (sv_warmup_pool sv)\<rparr>;
                      sv = reset_next_expected_slots conns sv;
                      (r, sv) = notify_context_switch submit conns seq fetched_seq sv
                  in (case r of Panic \<Rightarrow> (Panic, sv) | _ \<Rightarrow> (Ok (), sv))))"

text \<open>The switch at the end of a time slice, announced to the connections of the old group.\<close>

definition timed_switch ::
  "(nat \<Rightarrow> submit_oracle) \<Rightarrow> nat \<Rightarrow> rpc_server \<Rightarrow> (unit, srpc_error) outcome \<times> rpc_server" where
  "timed_switch submit now sv =
     and_then (perform_context_switch now sv)
       (\<lambda>s sv. case s of
                 None \<Rightarrow> (Ok (), sv)
               | Some seq \<Rightarrow>
                   (case notify_context_switch submit (sv_conn_buf sv) seq 0 sv of
                      (Panic, sv) \<Rightarrow> (Panic, sv) | (_, sv) \<Rightarrow> (Ok (), sv)))"

text \<open>\<open>cqes\<close> is what the first drain of the completion queues returns.\<close>

definition server_poll ::
  "handler \<Rightarrow> (nat \<Rightarrow> rdma_wr list \<Rightarrow> bytes \<Rightarrow> bytes \<times> bool) \<Rightarrow> (nat \<Rightarrow> submit_oracle) \<Rightarrow> nat \<Rightarrow> nat \<Rightarrow> rpc_server
     \<Rightarrow> ((nat, srpc_error) outcome \<times> rpc_server) option" where
  "server_poll handler exec submit now cqes sv =
     (let sv = clear_needs_flush (flush_doorbells sv);
          (f, sv) = fetch_warmup_requests exec submit sv
      in case f of
           Panic \<Rightarrow> Some (Panic, sv)
         | _ \<Rightarrow>
             let (fetched, fetched_seq) = (case f of Ok r \<Rightarrow> r | _ \<Rightarrow> (0, 0));
                 (s, sv) = (if fetched > 0 then switch_to_fetched submit now fetched_seq sv
                            else timed_switch submit now sv)
             in case s of
                  Panic \<Rightarrow> Some (Panic, sv)
                | _ \<Rightarrow>
                    map_option (\<lambda>r. and_then r
                      (\<lambda>requests_processed sv.
                         (Ok (if requests_processed > 0 then requests_processed else cqes),
                          clear_needs_flush (flush_doorbells sv))))
                      (process_loop snd handler submit 0 sv))"

definition run_scheduler_iteration ::
  "handler \<Rightarrow> (nat \<Rightarrow> rdma_wr list \<Rightarrow> bytes \<Rightarrow> bytes \<times> bool) \<Rightarrow> (nat \<Rightarrow> submit_oracle) \<Rightarrow> nat \<Rightarrow> rpc_server
     \<Rightarrow> ((nat, srpc_error) outcome \<times> rpc_server) option" where
  "run_scheduler_iteration handler exec submit now sv =
     (let (r, sv) = timed_switch submit now sv
      in case r of
           Err e \<Rightarrow> Some (Err e, sv)
         | Panic \<Rightarrow> Some (Panic, sv)
         | Ok _ \<Rightarrow>
             map_option (\<lambda>r. and_then r
               (\<lambda>processed sv.
                  case fetch_warmup_requests exec submit sv of
                    (Panic, sv) \<Rightarrow> (Panic, sv) | (_, sv) \<Rightarrow> (Ok processed, sv)))
               (server_process handler submit now sv))"

definition check_warmup_slot :: "nat \<Rightarrow> message_pool \<Rightarrow> incoming_request option \<times> message_pool" where
  "check_warmup_slot slot_index pool =
     (case get_slot pool slot_index of
        None \<Rightarrow> (None, pool)
      | Some slot \<Rightarrow>
          let ptr = data_ptr slot;
              (msg_len, valid) = trailer_read_from (pl_mem pool) ptr;
              header = request_read_from (pl_mem pool) ptr;
              mem = write_at ptr (le_bytes 4 (0 :: u32)) (pl_mem pool)
          in if valid = 0 \<or> msg_len = 0 then
               if \<not> request_is_valid header then (None, pool)
               else (Some (incoming_of header ptr slot_index), pool\<lparr>pl_mem := mem\<rparr>)
             else if \<not> request_is_valid header then (None, pool)
             else
               (Some (incoming_of header ptr slot_index),
                pool\<lparr>pl_mem := write_at (ptr + (MESSAGE_BLOCK_SIZE - 4)) (le_bytes 4 (0 :: u32)) mem\<rparr>))"

fun drain_warmup_slots :: "nat list \<Rightarrow> message_pool \<Rightarrow> incoming_request list \<times> message_pool" where
  "drain_warmup_slots [] pool = ([], pool)"
| "drain_warmup_slots (i # is) pool =
     (case check_warmup_slot i pool of
        (r, pool) \<Rightarrow>
          let (rs, pool) = drain_warmup_slots is pool
          in (case r of None \<Rightarrow> rs | Some request \<Rightarrow> request # rs, pool))"

definition drain_warmup_pool :: "rpc_server \<Rightarrow> incoming_request list \<times> rpc_server" where
  "drain_warmup_pool sv =
     (let (rs, pool) = drain_warmup_slots [0..<pl_num_slots (sv_warmup_pool sv)] (sv_warmup_pool sv)
      in (rs, sv\<lparr>sv_warmup_pool := pool\<rparr>))"

end
