(* ===== verification/Scalerpc_Server_Safety.thy ===== *)
theory Scalerpc_Server_Safety
  imports Scalerpc_Server
begin

text \<open>
  What the server of \<^verbatim>\<open>scalerpc/src/server.rs\<close> guarantees: polling takes every waiting request
  of the active group exactly once, the processing loop ends, and every operation keeps the
  server well formed.
\<close>

section \<open>Waiting requests\<close>

text \<open>A slot waits when the two words of its trailer say so.\<close>

definition waits :: "message_pool \<Rightarrow> nat \<Rightarrow> bool" where
  "waits pool s \<longleftrightarrow> s < pl_num_slots pool \<and>
     (let (msg_len, valid) = trailer_read_from (pl_mem pool) (s * 4096 + 16) in valid \<noteq> 0 \<and> msg_len \<noteq> 0)"

definition pool_sized :: "message_pool \<Rightarrow> bool" where
  "pool_sized pool \<longleftrightarrow> length (pl_mem pool) = pl_num_slots pool * 4096"

definition clear_valid :: "nat \<Rightarrow> message_pool \<Rightarrow> message_pool" where
  "clear_valid s pool = pool\<lparr>pl_mem := write_at (s * 4096 + 4092) (le_bytes 4 (0 :: u32)) (pl_mem pool)\<rparr>"

lemma slot_in_range:
  assumes "pool_sized pool" "s < pl_num_slots pool"
  shows "s * 4096 + 4096 \<le> length (pl_mem pool)"
  using mult_le_mono1 [of "Suc s" "pl_num_slots pool" 4096] assms by (simp add: pool_sized_def)

lemma check_slot_for_request_eq:
  "check_slot_for_request s pool =
     (if waits pool s
      then (Some (incoming_of (request_read_from (pl_mem pool) (s * 4096 + 16)) (s * 4096 + 16) s), clear_valid s pool)
      else (None, pool))"
  by (simp add: check_slot_for_request_def waits_def get_slot_def data_ptr_def block_sizes Let_def clear_valid_def
      split: prod.split) (simp add: add.commute)

lemma clear_valid_frame [simp]:
  "pl_num_slots (clear_valid s pool) = pl_num_slots pool"
  by (simp add: clear_valid_def)

lemma clear_valid_sized [simp]:
  assumes "pool_sized pool" "s < pl_num_slots pool"
  shows "pool_sized (clear_valid s pool)"
  using slot_in_range [OF assms] assms(1) by (simp add: pool_sized_def clear_valid_def length_write_at)

text \<open>Clearing the flag of a slot leaves all bytes of the other slots, and its own in front of the flag.\<close>

lemma clear_valid_read:
  assumes "pool_sized pool" "s < pl_num_slots pool" "p + n \<le> s * 4096 + 4092 \<or> s * 4096 + 4096 \<le> p"
  shows "read_at p n (pl_mem (clear_valid s pool)) = read_at p n (pl_mem pool)"
  using slot_in_range [OF assms(1,2)] assms(3) by (auto simp: clear_valid_def intro!: read_write_at)

lemma clear_valid_waits:
  assumes "pool_sized pool" "s < pl_num_slots pool"
  shows "waits (clear_valid s pool) t \<longleftrightarrow> t \<noteq> s \<and> waits pool t"
proof (cases "t = s")
  case True
  have "read_u32 (pl_mem (clear_valid s pool)) (s * 4096 + 4092) = 0"
    using slot_in_range [OF assms] read_write_same [of "s * 4096 + 4092" "le_bytes 4 (0 :: u32)" "pl_mem pool"]
    by (simp add: read_u32_def clear_valid_def)
  with True show ?thesis by (simp add: waits_def trailer_read_from_def block_sizes Let_def add.commute)
next
  case False
  then consider "t * 4096 + 4096 \<le> s * 4096" | "s * 4096 + 4096 \<le> t * 4096"
    using slot_span [of s t] by linarith
  then have "read_at (t * 4096 + 4088 + i) 4 (pl_mem (clear_valid s pool)) = read_at (t * 4096 + 4088 + i) 4 (pl_mem pool)"
    if "i \<le> 4" for i
    by cases (use that in \<open>intro clear_valid_read [OF assms]; linarith\<close>)+
  from this [of 0] this [of 4] False show ?thesis
    by (simp add: waits_def trailer_read_from_def block_sizes Let_def read_u32_def add.commute)
qed

definition waiting :: "message_pool \<Rightarrow> nat set" where
  "waiting pool = {s. waits pool s}"

lemma finite_waiting [simp]: "finite (waiting pool)"
  by (rule finite_subset [of _ "{..<pl_num_slots pool}"]) (auto simp: waiting_def waits_def)

lemma clear_valid_waiting:
  "pool_sized pool \<Longrightarrow> waits pool s \<Longrightarrow> waiting (clear_valid s pool) = waiting pool - {s}"
  by (auto simp: waiting_def clear_valid_waits waits_def [of _ s])

section \<open>Polling\<close>

lemma advance_slot_eq:
  "advance_slot c n pos sv = sv\<lparr>sv_next_expected_slot := (sv_next_expected_slot sv)[c := (pos + 1) mod n]\<rparr>"
  by (simp add: advance_slot_def Let_def list_update_beyond)

lemma scan_slots_cases:
  obtains "scan_slots pos idx slots pool = (None, pool)"
      "\<forall>i<length slots. idx + i \<noteq> pos \<longrightarrow> \<not> waits pool (slots ! i)"
  | i where "scan_slots pos idx slots pool =
        (Some (idx + i, incoming_of (request_read_from (pl_mem pool) (slots ! i * 4096 + 16)) (slots ! i * 4096 + 16) (slots ! i)),
         clear_valid (slots ! i) pool)"
      "i < length slots" "waits pool (slots ! i)"
proof (induction slots arbitrary: idx thesis)
  case Nil
  then show ?case by simp
next
  case (Cons s slots)
  show ?case
  proof (cases "idx \<noteq> pos \<and> waits pool s")
    case True
    then show ?thesis
      by (intro Cons.prems(2) [of 0]) (simp_all add: check_slot_for_request_eq)
  next
    case False
    then have eq: "scan_slots pos idx (s # slots) pool = scan_slots pos (Suc idx) slots pool"
      by (auto simp: check_slot_for_request_eq)
    show ?thesis
    proof (rule Cons.IH [of "Suc idx"], goal_cases)
      case 1
      then show ?case using False
        by (intro Cons.prems(1)) (auto simp: eq less_Suc_eq_0_disj simp del: scan_slots.simps)
    next
      case (2 i)
      then show ?case by (intro Cons.prems(2) [of "Suc i"]) (simp_all add: eq del: scan_slots.simps)
    qed
  qed
qed

text \<open>Polling one connection finds a waiting slot of it exactly when there is one.\<close>

lemma poll_connection_cases:
  obtains "poll_connection c sv = (None, sv)"
      "\<And>e s. get_connection (sv_mapping sv) c = Some e \<Longrightarrow> s \<in> set (me_slots e) \<Longrightarrow> \<not> waits (sv_processing_pool sv) s"
  | e s nx where
      "poll_connection c sv =
         (Some (incoming_of (request_read_from (pl_mem (sv_processing_pool sv)) (s * 4096 + 16)) (s * 4096 + 16) s),
          sv\<lparr>sv_processing_pool := clear_valid s (sv_processing_pool sv), sv_next_expected_slot := nx\<rparr>)"
      "get_connection (sv_mapping sv) c = Some e" "s \<in> set (me_slots e)" "waits (sv_processing_pool sv) s"
      "length nx = length (sv_next_expected_slot sv)"
proof (cases "get_connection (sv_mapping sv) c")
  case None
  then show thesis by (intro that(1)) (simp_all add: poll_connection_def)
next
  case (Some e)
  show thesis
  proof (cases "me_slots e = []")
    case True
    with Some show thesis by (intro that(1)) (simp_all add: poll_connection_def)
  next
    case False
    let ?pos = "(case get_opt (sv_next_expected_slot sv) c of None \<Rightarrow> 0 | Some n \<Rightarrow> n) mod length (me_slots e)"
    let ?pool = "sv_processing_pool sv"
    let ?nx = "\<lambda>pos. (sv_next_expected_slot sv)[c := (pos + 1) mod length (me_slots e)]"
    have pos: "?pos < length (me_slots e)" using False by simp
    show thesis
    proof (cases "waits ?pool (me_slots e ! ?pos)")
      case True
      show thesis
        by (rule that(2) [of "me_slots e ! ?pos" "?nx ?pos" e])
          (use Some False True pos in \<open>simp_all add: poll_connection_def Let_def check_slot_for_request_eq advance_slot_eq\<close>)
    next
      case nowait: False
      show thesis
      proof (rule scan_slots_cases [of ?pos 0 "me_slots e" ?pool])
        assume scan: "scan_slots ?pos 0 (me_slots e) ?pool = (None, ?pool)"
          and none: "\<forall>i<length (me_slots e). 0 + i \<noteq> ?pos \<longrightarrow> \<not> waits ?pool (me_slots e ! i)"
        have "\<not> waits ?pool s" if "s \<in> set (me_slots e)" for s
          using that none nowait by (auto simp: in_set_conv_nth)
        then show thesis
          by (intro that(1)) (use Some False nowait scan in \<open>simp_all add: poll_connection_def Let_def check_slot_for_request_eq advance_slot_eq\<close>)
      next
        fix i
        assume "scan_slots ?pos 0 (me_slots e) ?pool =
            (Some (0 + i, incoming_of (request_read_from (pl_mem ?pool) (me_slots e ! i * 4096 + 16)) (me_slots e ! i * 4096 + 16) (me_slots e ! i)),
             clear_valid (me_slots e ! i) ?pool)"
          and "i < length (me_slots e)" "waits ?pool (me_slots e ! i)"
        then show thesis
          by (intro that(2) [of "me_slots e ! i" "?nx i" e])
            (use Some False nowait in \<open>simp_all add: poll_connection_def Let_def check_slot_for_request_eq advance_slot_eq\<close>)
      qed
    qed
  qed
qed

text \<open>The slots the active group is polled for.\<close>

definition polled_slots :: "rpc_server \<Rightarrow> nat list \<Rightarrow> nat set" where
  "polled_slots sv conns = {s. \<exists>c\<in>set conns. \<exists>e. get_connection (sv_mapping sv) c = Some e \<and> s \<in> set (me_slots e)}"

lemma poll_connections_cases:
  obtains "poll_connections conns sv = (None, sv)" "polled_slots sv conns \<inter> waiting (sv_processing_pool sv) = {}"
  | s nx where
      "poll_connections conns sv =
         (Some (incoming_of (request_read_from (pl_mem (sv_processing_pool sv)) (s * 4096 + 16)) (s * 4096 + 16) s),
          sv\<lparr>sv_processing_pool := clear_valid s (sv_processing_pool sv), sv_next_expected_slot := nx\<rparr>)"
      "s \<in> polled_slots sv conns" "waits (sv_processing_pool sv) s" "length nx = length (sv_next_expected_slot sv)"
proof (induction conns arbitrary: thesis)
  case Nil
  then show ?case by (simp add: polled_slots_def)
next
  case (Cons c conns)
  show ?case
  proof (rule poll_connection_cases [of c sv])
    assume none: "poll_connection c sv = (None, sv)"
      and c: "\<And>e s. get_connection (sv_mapping sv) c = Some e \<Longrightarrow> s \<in> set (me_slots e) \<Longrightarrow> \<not> waits (sv_processing_pool sv) s"
    show ?case
    proof (rule Cons.IH, goal_cases)
      case 1
      then show ?case
        by (intro Cons.prems(1)) (use none c in \<open>auto simp: polled_slots_def waiting_def\<close>)
    next
      case (2 s nx)
      show ?case
        by (rule Cons.prems(2) [of s nx]) (use 2 none in \<open>auto simp: polled_slots_def\<close>)
    qed
  next
    fix e s nx
    assume "poll_connection c sv =
         (Some (incoming_of (request_read_from (pl_mem (sv_processing_pool sv)) (s * 4096 + 16)) (s * 4096 + 16) s),
          sv\<lparr>sv_processing_pool := clear_valid s (sv_processing_pool sv), sv_next_expected_slot := nx\<rparr>)"
      "get_connection (sv_mapping sv) c = Some e" "s \<in> set (me_slots e)" "waits (sv_processing_pool sv) s"
      "length nx = length (sv_next_expected_slot sv)"
    then show ?case
      by (intro Cons.prems(2) [of s nx]) (auto simp: polled_slots_def)
  qed
qed

section \<open>The shape of a server\<close>

text \<open>
  The parts of the state on which well-formedness depends.  Most operations leave the shape
  alone: they change the bytes of pools, the queues of connections and the bookkeeping.
\<close>

definition same_pool :: "message_pool \<Rightarrow> message_pool \<Rightarrow> bool" where
  "same_pool p q \<longleftrightarrow> pl_num_slots q = pl_num_slots p \<and> length (pl_mem q) = length (pl_mem p)"

definition same_shape :: "rpc_server \<Rightarrow> rpc_server \<Rightarrow> bool" where
  "same_shape sv sv' \<longleftrightarrow>
     same_pool (sv_processing_pool sv) (sv_processing_pool sv') \<and>
     same_pool (sv_warmup_pool sv) (sv_warmup_pool sv') \<and>
     same_pool (sv_response_pool sv) (sv_response_pool sv') \<and>
     sv_mapping sv' = sv_mapping sv \<and> sv_scheduler sv' = sv_scheduler sv \<and>
     sv_max_connections sv' = sv_max_connections sv \<and>
     length (sv_connections sv') = length (sv_connections sv) \<and>
     length (sv_next_expected_slot sv') = length (sv_next_expected_slot sv)"

lemma same_pool_refl [simp]: "same_pool p p"
  by (simp add: same_pool_def)

lemma same_pool_mem [simp]: "same_pool p (p\<lparr>pl_mem := mem\<rparr>) \<longleftrightarrow> length mem = length (pl_mem p)"
  by (simp add: same_pool_def)

lemma same_pool_trans [trans]: "same_pool p q \<Longrightarrow> same_pool q r \<Longrightarrow> same_pool p r"
  by (simp add: same_pool_def)

lemma same_pool_sized: "same_pool p q \<Longrightarrow> pool_sized q \<longleftrightarrow> pool_sized p"
  by (simp add: same_pool_def pool_sized_def)

lemma same_shape_refl [simp, intro]: "same_shape sv sv"
  by (simp add: same_shape_def)

lemma same_shape_trans [trans]: "same_shape sv sv1 \<Longrightarrow> same_shape sv1 sv2 \<Longrightarrow> same_shape sv sv2"
  by (auto simp: same_shape_def intro: same_pool_trans)

text \<open>Updates of the other fields.\<close>

lemma same_shape_updates [simp]:
  "same_shape sv (set_server_conn c conn sv') \<longleftrightarrow> same_shape sv sv'"
  "same_shape sv (server_mark_needs_flush c sv') \<longleftrightarrow> same_shape sv sv'"
  "same_shape sv (sv'\<lparr>sv_needs_flush := l\<rparr>) \<longleftrightarrow> same_shape sv sv'"
  "same_shape sv (sv'\<lparr>sv_conn_buf := l\<rparr>) \<longleftrightarrow> same_shape sv sv'"
  "same_shape sv (sv'\<lparr>sv_pending_context_switch := pc\<rparr>) \<longleftrightarrow> same_shape sv sv'"
  "same_shape sv (sv'\<lparr>sv_last_processed_seq := ls\<rparr>) \<longleftrightarrow> same_shape sv sv'"
  "same_shape sv (sv'\<lparr>sv_event_buffer_addrs := ev\<rparr>) \<longleftrightarrow> same_shape sv sv'"
  "same_shape sv (sv'\<lparr>sv_warmup_buffer_infos := wi\<rparr>) \<longleftrightarrow> same_shape sv sv'"
  "same_shape sv (sv'\<lparr>sv_endpoint_entries := ee\<rparr>) \<longleftrightarrow> same_shape sv sv'"
  "same_shape sv (sv'\<lparr>sv_shared_cqs := b\<rparr>) \<longleftrightarrow> same_shape sv sv'"
  by (auto simp: same_shape_def set_server_conn_def server_mark_needs_flush_def)

lemma same_shape_pools:
  "same_pool (sv_processing_pool sv) p \<Longrightarrow> same_shape sv (sv\<lparr>sv_processing_pool := p\<rparr>)"
  "same_pool (sv_warmup_pool sv) p \<Longrightarrow> same_shape sv (sv\<lparr>sv_warmup_pool := p\<rparr>)"
  "same_pool (sv_response_pool sv) p \<Longrightarrow> same_shape sv (sv\<lparr>sv_response_pool := p\<rparr>)"
  by (simp_all add: same_shape_def)

text \<open>Writes inside a slot keep the size of the region.\<close>

lemma length_slot_write:
  assumes "pool_sized p" "s < pl_num_slots p" "off + length xs \<le> 4096"
  shows "length (write_at (s * 4096 + off) xs (pl_mem p)) = length (pl_mem p)"
  using slot_in_range [OF assms(1,2)] assms(3) by (simp add: length_write_at)

lemma length_images [simp]:
  "length (request_image rq) = 40" "length (response_image rs) = 56" "length (cse_image ev) = 16"
  by (simp_all add: request_image_def response_image_def cse_image_def)

definition pools_sized :: "rpc_server \<Rightarrow> bool" where
  "pools_sized sv \<longleftrightarrow> pool_sized (sv_processing_pool sv) \<and> pool_sized (sv_warmup_pool sv) \<and>
     pool_sized (sv_response_pool sv)"

lemma same_shape_sized: "same_shape sv sv' \<Longrightarrow> pools_sized sv' \<longleftrightarrow> pools_sized sv"
  by (auto simp: same_shape_def pools_sized_def dest: same_pool_sized)

section \<open>Responses\<close>

lemma take_pending_frame:
  assumes "take_pending_context_switch c sv = (r, sv')"
  shows "sv' = sv\<lparr>sv_pending_context_switch := sv_pending_context_switch sv'\<rparr>"
  using assms by (auto simp: take_pending_context_switch_def split: if_splits)

lemma response_header_frame:
  assumes "response_header_for rq st len ack sv = (h, sv')"
  shows "sv' = sv\<lparr>sv_pending_context_switch := sv_pending_context_switch sv'\<rparr>"
  using assms take_pending_frame [of "ir_conn_id rq" sv]
  by (auto simp: response_header_for_def split: prod.splits option.splits if_splits)

lemma ack_processed_frame:
  assumes "ack_processed rq sv = (a, sv')"
  shows "sv' = sv\<lparr>sv_last_processed_seq := sv_last_processed_seq sv'\<rparr>"
  using assms by (auto simp: ack_processed_def Let_def)

text \<open>A response only touches the response pool, the queue pair and the bookkeeping.\<close>

definition response_frame :: "rpc_server \<Rightarrow> rpc_server \<Rightarrow> bool" where
  "response_frame sv sv' \<longleftrightarrow> same_shape sv sv' \<and>
     sv_processing_pool sv' = sv_processing_pool sv \<and> sv_warmup_pool sv' = sv_warmup_pool sv \<and>
     sv_next_expected_slot sv' = sv_next_expected_slot sv"

lemma response_frame_refl [simp, intro]: "response_frame sv sv"
  by (simp add: response_frame_def)

lemma response_frame_trans [trans]:
  "response_frame sv sv1 \<Longrightarrow> response_frame sv1 sv2 \<Longrightarrow> response_frame sv sv2"
  by (auto simp: response_frame_def intro: same_shape_trans)

lemma response_frame_updates [simp]:
  "response_frame sv (set_server_conn c conn sv') \<longleftrightarrow> response_frame sv sv'"
  "response_frame sv (server_mark_needs_flush c sv') \<longleftrightarrow> response_frame sv sv'"
  "response_frame sv (sv'\<lparr>sv_pending_context_switch := pc\<rparr>) \<longleftrightarrow> response_frame sv sv'"
  "response_frame sv (sv'\<lparr>sv_last_processed_seq := ls\<rparr>) \<longleftrightarrow> response_frame sv sv'"
  "response_frame sv (sv'\<lparr>sv_needs_flush := l\<rparr>) \<longleftrightarrow> response_frame sv sv'"
  by (simp_all add: response_frame_def) (simp_all add: set_server_conn_def server_mark_needs_flush_def)

lemma response_frame_pool:
  "response_frame sv sv' \<Longrightarrow> length mem = length (pl_mem (sv_response_pool sv')) \<Longrightarrow>
     response_frame sv (sv'\<lparr>sv_response_pool := (sv_response_pool sv')\<lparr>pl_mem := mem\<rparr>\<rparr>)"
  by (auto simp: response_frame_def same_shape_def same_pool_def)

lemma send_response_zero_copy_frame:
  assumes "pools_sized sv"
  shows "response_frame sv (snd (send_response_zero_copy submit rq st len sv))"
proof (cases "server_conn sv (ir_conn_id rq)")
  case None
  then show ?thesis by (simp add: send_response_zero_copy_def)
next
  case (Some conn)
  show ?thesis
  proof (cases "ir_slot_index rq < pl_num_slots (sv_response_pool sv)")
    case False
    with Some show ?thesis by (simp add: send_response_zero_copy_def get_slot_def)
  next
    case True
    obtain a sv1 where a: "ack_processed rq sv = (a, sv1)" by fastforce
    obtain h sv2 where h: "response_header_for rq st (word_of_nat len) a sv1 = (h, sv2)" by fastforce
    have f: "response_frame sv sv2" "sv_response_pool sv2 = sv_response_pool sv"
      by (subst response_header_frame [OF h], subst ack_processed_frame [OF a], simp)+
    let ?mem = "response_write_to h (pl_mem (sv_response_pool sv2)) (data_ptr (ir_slot_index rq * 4096))"
    have "length ?mem = length (pl_mem (sv_response_pool sv2))"
      using length_slot_write [of "sv_response_pool sv" "ir_slot_index rq" 16 "response_image h"] True assms f(2)
      by (simp add: response_write_to_def data_ptr_def block_sizes pools_sized_def)
    from response_frame_pool [OF f(1) this] Some True a h show ?thesis
      by (auto simp: send_response_zero_copy_def get_slot_def slot_data_addr_def block_sizes Let_def
          split: prod.split outcome.split)
  qed
qed

text \<open>The two ways to respond write the same kinds of things; a payload outside the region is a panic.\<close>

lemma send_response_frame:
  assumes "pools_sized sv"
  shows "response_frame sv (snd (send_response submit rq st payload sv))"
proof (cases "server_conn sv (ir_conn_id rq)")
  case None
  then show ?thesis by (simp add: send_response_def)
next
  case (Some conn)
  show ?thesis
  proof (cases "ir_slot_index rq < pl_num_slots (sv_response_pool sv)")
    case False
    with Some show ?thesis by (simp add: send_response_def get_slot_def)
  next
    case True
    obtain a sv1 where a: "ack_processed rq sv = (a, sv1)" by fastforce
    obtain h sv2 where h: "response_header_for rq st (word_of_nat (length payload)) a sv1 = (h, sv2)" by fastforce
    have f: "response_frame sv sv2" "sv_response_pool sv2 = sv_response_pool sv"
      by (subst response_header_frame [OF h], subst ack_processed_frame [OF a], simp)+
    let ?p = "data_ptr (ir_slot_index rq * 4096)"
    let ?mem = "response_write_to h (pl_mem (sv_response_pool sv2)) ?p"
    have l: "length ?mem = length (pl_mem (sv_response_pool sv2))"
      using length_slot_write [of "sv_response_pool sv" "ir_slot_index rq" 16 "response_image h"] True assms f(2)
      by (simp add: response_write_to_def data_ptr_def block_sizes pools_sized_def)
    show ?thesis
    proof (cases "?p + RESPONSE_HEADER_SIZE + length payload > length ?mem")
      case over: True
      with Some True a h f(1) show ?thesis
        by (simp add: send_response_def get_slot_def slot_data_addr_def block_sizes)
    next
      case False
      let ?mem' = "if payload \<noteq> [] then write_at (?p + RESPONSE_HEADER_SIZE) payload ?mem else ?mem"
      have "length ?mem' = length (pl_mem (sv_response_pool sv2))"
        using False l by (simp add: length_write_at)
      from response_frame_pool [OF f(1) this] Some True False a h show ?thesis
        by (auto simp: send_response_def get_slot_def slot_data_addr_def block_sizes Let_def
            split: prod.split outcome.split)
    qed
  qed
qed

text \<open>A handler is given a slice: it cannot change its length.\<close>

definition handler_in_place :: "handler \<Rightarrow> bool" where
  "handler_in_place handler \<longleftrightarrow> (\<forall>t payload buf. length (snd (handler t payload buf)) = length buf)"

lemma handle_request_frame:
  assumes "pools_sized sv" "handler_in_place handler"
  shows "response_frame sv (snd (handle_request handler submit rq sv))"
proof (cases "ir_slot_index rq < pl_num_slots (sv_response_pool sv) \<and> ir_payload (sv_processing_pool sv) rq \<noteq> None")
  case False
  then show ?thesis by (auto simp: handle_request_def get_slot_def split: option.split)
next
  case True
  then obtain payload where payload: "ir_payload (sv_processing_pool sv) rq = Some payload" by blast
  let ?off = "data_ptr (ir_slot_index rq * 4096) + RESPONSE_HEADER_SIZE"
  let ?mem = "pl_mem (sv_response_pool sv)"
  let ?buf = "read_at ?off (MESSAGE_BLOCK_SIZE - RESPONSE_HEADER_SIZE - 8) ?mem"
  obtain st len buf where h: "handler (ir_rpc_type rq) payload ?buf = ((st, len), buf)" by (metis prod.exhaust)
  let ?sv = "sv\<lparr>sv_response_pool := (sv_response_pool sv)\<lparr>pl_mem := write_at ?off buf ?mem\<rparr>\<rparr>"
  have "ir_slot_index rq * 4096 + 4096 \<le> length ?mem"
    using slot_in_range [of "sv_response_pool sv"] True assms(1) by (simp add: pools_sized_def)
  moreover have "length buf = length ?buf" using assms(2) h by (metis handler_in_place_def snd_conv)
  ultimately have "length (write_at ?off buf ?mem) = length ?mem"
    by (intro length_write_at) (simp add: data_ptr_def block_sizes length_read_at)
  then have f: "response_frame sv ?sv" by (intro response_frame_pool) simp_all
  then have "pools_sized ?sv" using assms(1) same_shape_sized [of sv ?sv] by (simp add: response_frame_def)
  from response_frame_trans [OF f send_response_zero_copy_frame [OF this]]
  have f': "response_frame sv (snd (send_response_zero_copy (submit (ir_conn_id rq)) rq st len ?sv))" .
  obtain r sv' where r: "send_response_zero_copy (submit (ir_conn_id rq)) rq st len ?sv = (r, sv')" by fastforce
  with f' have "response_frame sv sv'" by simp
  with True payload h r show ?thesis
    by (cases r) (simp_all add: handle_request_def get_slot_def block_sizes)
qed

lemma process_drained_frame:
  assumes "pools_sized sv" "handler_in_place handler"
  shows "response_frame sv (snd (process_drained_requests handler submit rqs sv))"
  using assms(1)
proof (induction rqs arbitrary: sv)
  case Nil
  then show ?case by simp
next
  case (Cons rq rqs)
  obtain r sv1 where 1: "handle_request handler submit rq sv = (r, sv1)" by fastforce
  have f: "response_frame sv sv1" using handle_request_frame [OF Cons.prems assms(2), of submit rq] 1 by simp
  then have "pools_sized sv1" using Cons.prems same_shape_sized [of sv sv1] by (simp add: response_frame_def)
  obtain r' sv2 where 2: "process_drained_requests handler submit rqs sv1 = (r', sv2)" by fastforce
  have "response_frame sv sv2" using response_frame_trans [OF f Cons.IH [OF \<open>pools_sized sv1\<close>]] 2 by simp
  with f 1 2 show ?case by (cases r; cases r') (auto simp: and_then_def split: prod.split)
qed

section \<open>The processing loop ends with nothing left\<close>

definition loop_frame :: "rpc_server \<Rightarrow> rpc_server \<Rightarrow> bool" where
  "loop_frame sv sv' \<longleftrightarrow> same_shape sv sv' \<and> sv_warmup_pool sv' = sv_warmup_pool sv \<and>
     waiting (sv_processing_pool sv') \<subseteq> waiting (sv_processing_pool sv)"

lemma loop_frame_trans [trans]: "loop_frame sv sv1 \<Longrightarrow> loop_frame sv1 sv2 \<Longrightarrow> loop_frame sv sv2"
  by (auto simp: loop_frame_def intro: same_shape_trans)

lemma process_loop_ends:
  assumes "pools_sized sv" "handler_in_place handler" "current_group_connections (sv_scheduler sv) = Some conns"
  shows "\<exists>r sv'. process_loop counted handler submit n sv = Some (r, sv') \<and> loop_frame sv sv' \<and>
    (\<forall>k. r = Ok k \<longrightarrow> polled_slots sv conns \<inter> waiting (sv_processing_pool sv') = {})"
  using assms(1,3)
proof (induction "card (waiting (sv_processing_pool sv))" arbitrary: sv n rule: less_induct)
  case less
  have poll: "poll_request sv = (Ok (fst (poll_connections conns sv)), snd (poll_connections conns sv))"
    using less.prems(2) by (simp add: poll_request_def split: prod.split)
  show ?case
  proof (rule poll_connections_cases [of conns sv])
    assume "poll_connections conns sv = (None, sv)" "polled_slots sv conns \<inter> waiting (sv_processing_pool sv) = {}"
    then show ?thesis by (subst process_loop.simps) (simp add: poll loop_frame_def)
  next
    fix s nx
    let ?rq = "incoming_of (request_read_from (pl_mem (sv_processing_pool sv)) (s * 4096 + 16)) (s * 4096 + 16) s"
    let ?sv1 = "sv\<lparr>sv_processing_pool := clear_valid s (sv_processing_pool sv), sv_next_expected_slot := nx\<rparr>"
    assume s: "poll_connections conns sv = (Some ?rq, ?sv1)" "waits (sv_processing_pool sv) s"
      and nx: "length nx = length (sv_next_expected_slot sv)"
    have range: "s < pl_num_slots (sv_processing_pool sv)" and sized: "pool_sized (sv_processing_pool sv)"
      using s(2) less.prems(1) by (auto simp: waits_def pools_sized_def)
    have shape: "same_shape sv ?sv1"
      using nx clear_valid_sized [OF sized range] sized
      by (simp add: same_shape_def same_pool_def pool_sized_def)
    obtain r sv2 where h: "handle_request handler submit ?rq ?sv1 = (r, sv2)" by fastforce
    have sized1: "pools_sized ?sv1" using same_shape_sized [OF shape] less.prems(1) by simp
    have f: "response_frame ?sv1 sv2" using handle_request_frame [OF sized1 assms(2), of submit ?rq] h by simp
    have w: "waiting (sv_processing_pool sv2) = waiting (sv_processing_pool sv) - {s}"
      using f clear_valid_waiting [OF sized s(2)] by (simp add: response_frame_def)
    have lf: "loop_frame sv sv2"
      using same_shape_trans [OF shape, of sv2] f w by (auto simp: loop_frame_def response_frame_def)
    have step: "process_loop counted handler submit n sv =
        (case r of Ok b \<Rightarrow> process_loop counted handler submit (if counted b then n + 1 else n) sv2
                 | Err e \<Rightarrow> Some (Err e, sv2) | Panic \<Rightarrow> Some (Panic, sv2))"
      by (subst process_loop.simps) (simp add: poll s(1) h split: outcome.split)
    show ?thesis
    proof (cases r)
      case (Ok b)
      have "card (waiting (sv_processing_pool sv2)) < card (waiting (sv_processing_pool sv))"
        unfolding w using s(2) by (intro psubset_card_mono finite_waiting) (auto simp: waiting_def)
      moreover have "pools_sized sv2" "current_group_connections (sv_scheduler sv2) = Some conns"
        "polled_slots sv2 conns = polled_slots sv conns"
        using lf less.prems same_shape_sized [of sv sv2] by (auto simp: loop_frame_def same_shape_def polled_slots_def)
      ultimately show ?thesis
        using less.hyps [of sv2 "if counted b then n + 1 else n"] step Ok loop_frame_trans [OF lf]
        by auto
    qed (use step lf in auto)
  qed
qed

section \<open>Operations that keep the shape\<close>

lemma flush_doorbells_shape [simp]: "same_shape sv (flush_doorbells sv)"
proof -
  let ?ring = "\<lambda>c sv. case server_conn sv c of None \<Rightarrow> sv | Some conn \<Rightarrow> set_server_conn c (ring_sq_doorbell conn) sv"
  have "same_shape sv (fold ?ring cs sv')" if "same_shape sv sv'" for cs sv'
    using that by (induction cs arbitrary: sv') (auto split: option.split)
  then show ?thesis by (simp add: flush_doorbells_def Let_def)
qed

lemma clear_needs_flush_shape [simp]: "same_shape sv (clear_needs_flush sv') \<longleftrightarrow> same_shape sv sv'"
  by (simp add: clear_needs_flush_def)

lemma clear_pool_valid_flags_same:
  assumes "pool_sized p"
  shows "same_pool p (clear_pool_valid_flags p)"
proof -
  have "same_pool p (foldl clear_slot_flags p is)" for "is"
  proof (induction "is" rule: rev_induct)
    case (snoc i "is")
    let ?q = "foldl clear_slot_flags p is"
    have "same_pool ?q (clear_slot_flags ?q i)"
    proof (cases "i < pl_num_slots ?q")
      case True
      have sized: "pool_sized ?q" using same_pool_sized [OF snoc.IH] assms by simp
      let ?m = "write_at (i * 4096 + 16) (le_bytes 4 (0 :: u32)) (pl_mem ?q)"
      have l: "length ?m = length (pl_mem ?q)" using length_slot_write [OF sized True, of 16] by simp
      then have "pool_sized (?q\<lparr>pl_mem := ?m\<rparr>)" using sized by (simp add: pool_sized_def)
      from length_slot_write [OF this, of i 4092 "le_bytes 4 (0 :: u32)"] l True show ?thesis
        by (simp add: clear_slot_flags_def get_slot_def data_ptr_def block_sizes Let_def add.commute)
    qed (simp add: clear_slot_flags_def get_slot_def)
    with snoc.IH show ?case by (auto intro: same_pool_trans)
  qed simp
  then show ?thesis by (simp add: clear_pool_valid_flags_def)
qed

lemma pool_alloc_same: "same_pool p (snd (pool_alloc p))"
  by (auto simp: pool_alloc_def Let_def same_pool_def try_transition_def split: option.split prod.split)

lemma pool_alloc_range: "pool_alloc p = (Ok i, q) \<Longrightarrow> i < pl_num_slots p"
  by (auto simp: pool_alloc_def Let_def get_slot_def split: option.splits prod.splits if_splits)

lemma handle_drop_same:
  assumes "pool_sized p"
  shows "same_pool p (handle_drop i p)"
proof (cases "i < pl_num_slots p")
  case True
  then have "length (set_owner None (i * 4096) (set_state Free (i * 4096) (pl_mem p))) = pl_num_slots p * 4096"
    using assms by (intro length_set_owner) (simp_all add: pool_sized_def set_state_def)
  then show ?thesis using True assms
    by (simp add: handle_drop_def free_slot_by_index_def get_slot_def same_pool_def pool_sized_def block_sizes)
qed (simp add: handle_drop_def free_slot_by_index_def get_slot_def)

lemma send_event_shape:
  assumes "pools_sized sv"
  shows "same_shape sv (snd (send_event submit ev c sv))"
proof (cases "get_flat (sv_event_buffer_addrs sv) c = None \<or> server_conn sv c = None")
  case True
  then show ?thesis by (auto simp: send_event_def split: option.split)
next
  case False
  then obtain addr rkey conn where c: "get_flat (sv_event_buffer_addrs sv) c = Some (addr, rkey)" "server_conn sv c = Some conn"
    by auto
  let ?p = "sv_processing_pool sv"
  obtain r q where a: "pool_alloc ?p = (r, q)" by fastforce
  have q: "same_pool ?p q" using pool_alloc_same [of ?p] a by simp
  show ?thesis
  proof (cases "\<exists>i. r = Ok i")
    case True
    then obtain i where i: "r = Ok i" "i < pl_num_slots q" using pool_alloc_range [of ?p] a q by (auto simp: same_pool_def)
    have sized: "pool_sized q" using same_pool_sized [OF q] assms by (simp add: pools_sized_def)
    let ?m = "cse_write_to ev (pl_mem q) (data_ptr (i * DEFAULT_SLOT_SIZE))"
    have m: "same_pool q (q\<lparr>pl_mem := ?m\<rparr>)"
      using length_slot_write [OF sized i(2), of 16 "cse_image ev"]
      by (simp add: cse_write_to_def data_ptr_def block_sizes)
    have "same_pool ?p (handle_drop i (q\<lparr>pl_mem := ?m\<rparr>))"
      using q m handle_drop_same [of "q\<lparr>pl_mem := ?m\<rparr>" i] same_pool_sized [OF m] sized by (blast intro: same_pool_trans)
    then show ?thesis using c a i
      by (auto simp: send_event_def handle_data_addr_def slot_data_addr_def Let_def same_shape_pools
          split: prod.split outcome.split)
  qed (use c a q in \<open>cases r; auto simp: send_event_def same_shape_pools\<close>)
qed

lemma send_events_shape: "pools_sized sv \<Longrightarrow> same_shape sv (snd (send_events submit ev cs sv))"
proof (induction cs arbitrary: sv)
  case (Cons c cs)
  let ?sv = "snd (send_event (submit c) ev c sv)"
  have f: "same_shape sv ?sv" by (rule send_event_shape [OF Cons.prems])
  then have "same_shape ?sv (snd (send_events submit ev cs ?sv))"
    using Cons.IH [of ?sv] same_shape_sized [OF f] Cons.prems by simp
  then have "same_shape sv (snd (send_events submit ev cs ?sv))" by (rule same_shape_trans [OF f])
  then show ?case unfolding send_events.simps by (rule and_then_state [of "same_shape sv", OF f])
qed simp

lemma queue_shape [simp]: "same_shape sv (queue_context_switch_for_piggyback cs q f sv)"
  by (simp add: queue_context_switch_for_piggyback_def Let_def)

lemma notify_shape:
  assumes "pools_sized sv"
  shows "same_shape sv (snd (notify_context_switch submit cs q f sv))"
proof -
  let ?sv = "queue_context_switch_for_piggyback cs q f sv"
  have "same_shape sv ?sv" by simp
  from same_shape_trans [OF this send_events_shape] same_shape_sized [OF this] assms show ?thesis
    by (simp add: notify_context_switch_def Let_def)
qed

lemma reset_shape [simp]: "same_shape sv (reset_next_expected_slots cs sv)"
proof -
  let ?reset = "\<lambda>nx c. if get_connection (sv_mapping sv) c \<noteq> None \<and> c < length nx then nx[c := 0] else nx"
  have "length (foldl ?reset nx cs) = length nx" for nx :: "nat list"
    by (induction cs arbitrary: nx) auto
  then show ?thesis by (simp add: reset_next_expected_slots_def Let_def same_shape_def)
qed

text \<open>The device writes inside the warmup region.\<close>

definition exec_in_place :: "(nat \<Rightarrow> rdma_wr list \<Rightarrow> bytes \<Rightarrow> bytes \<times> bool) \<Rightarrow> bool" where
  "exec_in_place exec \<longleftrightarrow> (\<forall>c wrs mem. length (fst (exec c wrs mem)) = length mem)"

lemma issue_warmup_read_shape: "same_shape sv (snd (issue_warmup_read submit c info i sv))"
  by (auto simp: issue_warmup_read_def Let_def split: option.split prod.split)

lemma issue_warmup_reads_shape: "same_shape sv (snd (issue_warmup_reads submit c info is sv))"
proof (induction "is" arbitrary: sv)
  case (Cons i "is")
  show ?case unfolding issue_warmup_reads.simps
    by (rule and_then_state [of "same_shape sv", OF issue_warmup_read_shape])
      (rule same_shape_trans [OF issue_warmup_read_shape Cons.IH])
qed simp

lemma fetch_warmup_batch_shape:
  assumes "exec_in_place exec"
  shows "same_shape sv (snd (fetch_warmup_batch exec submit c info n sv))"
proof (cases "n = 0")
  case False
  let ?sv = "snd (issue_warmup_reads submit c info [0..<unat n] sv)"
  let ?pub = "\<lambda>_ sv1. case server_conn sv1 c of
      None \<Rightarrow> (Err (ConnectionNotFound c), sv1)
    | Some conn \<Rightarrow>
        let published = drop (cn_sq_rung conn) (cn_sq conn);
            (mem, in_time) = exec c published (pl_mem (sv_warmup_pool sv1));
            sv1 = set_server_conn c (ring_sq_doorbell conn) sv1;
            sv1 = sv1\<lparr>sv_warmup_pool := (sv_warmup_pool sv1)\<lparr>pl_mem := mem\<rparr>\<rparr>
        in if in_time then (Ok (unat n), sv1) else (Err (Protocol ''RDMA READ batch timeout''), sv1)"
  have "same_shape sv1 (snd (?pub u sv1))" for u :: unit and sv1
  proof (cases "server_conn sv1 c")
    case (Some conn)
    obtain mem b where e: "exec c (drop (cn_sq_rung conn) (cn_sq conn)) (pl_mem (sv_warmup_pool sv1)) = (mem, b)"
      by fastforce
    have "length mem = length (pl_mem (sv_warmup_pool sv1))" using assms e by (metis exec_in_place_def fst_conv)
    then show ?thesis using Some e by (simp add: Let_def same_shape_def set_server_conn_def)
  qed simp
  then have "same_shape sv (snd (?pub u ?sv))" for u
    by (rule same_shape_trans [OF issue_warmup_reads_shape])
  then show ?thesis using False
    by (simp only: fetch_warmup_batch_def if_False) (rule and_then_state [of "same_shape sv", OF issue_warmup_reads_shape])
qed (simp add: fetch_warmup_batch_def)

lemma fetch_connections_shape:
  assumes "exec_in_place exec"
  shows "same_shape sv (snd (fetch_connections exec submit cs acc sv))"
proof (induction cs arbitrary: acc sv)
  case (Cons c cs)
  obtain n q where acc: "acc = (n, q)" by fastforce
  show ?case
  proof (cases "sv_endpoint_entries sv")
    case None
    then show ?thesis using Cons.IH by (simp add: acc)
  next
    case (Some entries)
    obtain b entries' where b: "has_new_batch c entries = (b, entries')" by fastforce
    let ?sv = "sv\<lparr>sv_endpoint_entries := Some entries'\<rparr>"
    have sv: "same_shape sv ?sv" by simp
    show ?thesis
    proof (cases "b = None \<or> get_flat (sv_warmup_buffer_infos ?sv) c = None \<or> server_conn ?sv c = None")
      case True
      then have "fetch_connections exec submit (c # cs) acc sv = fetch_connections exec submit cs acc ?sv"
        using Some b by (auto simp: acc Let_def split: option.splits)
      then show ?thesis using same_shape_trans [OF sv Cons.IH] by (simp only:)
    next
      case False
      then obtain entry info conn where e: "b = Some entry" "get_flat (sv_warmup_buffer_infos ?sv) c = Some info"
        "server_conn ?sv c = Some conn" by auto
      let ?k = "min (ee_batch_size entry) (wi_slots info)"
      let ?rest = "\<lambda>m sv. fetch_connections exec submit cs (n + m, ee_seq entry)
        (sv\<lparr>sv_endpoint_entries := map_option (clear_entry c) (sv_endpoint_entries sv)\<rparr>)"
      let ?batch = "fetch_warmup_batch exec (submit c) c info ?k ?sv"
      have f: "same_shape sv (snd ?batch)"
        by (rule same_shape_trans [OF sv fetch_warmup_batch_shape [OF assms]])
      then have "same_shape sv ((snd ?batch)\<lparr>sv_endpoint_entries := ee\<rparr>)" for ee by simp
      then have "same_shape sv (snd (?rest m (snd ?batch)))" for m by (rule same_shape_trans [OF _ Cons.IH])
      with f have "same_shape sv (snd (and_then ?batch ?rest))" by (rule and_then_state)
      moreover have "fetch_connections exec submit (c # cs) acc sv = and_then ?batch ?rest"
        using Some b e by (simp add: acc)
      ultimately show ?thesis by (simp only:)
    qed
  qed
qed (cases acc; simp)

lemma fetch_warmup_requests_shape:
  assumes "exec_in_place exec"
  shows "same_shape sv (snd (fetch_warmup_requests exec submit sv))"
proof (cases "next_group_connections (sv_scheduler sv)")
  case (Some conns)
  have "same_shape sv (sv\<lparr>sv_conn_buf := conns\<rparr>)" by simp
  from same_shape_trans [OF this fetch_connections_shape [OF assms]] Some show ?thesis
    by (simp add: fetch_warmup_requests_def)
qed (simp add: fetch_warmup_requests_def)

lemma clear_valid_same: "pool_sized p \<Longrightarrow> s < pl_num_slots p \<Longrightarrow> same_pool p (clear_valid s p)"
  using clear_valid_sized [of p s] by (simp add: same_pool_def pool_sized_def)

lemma drain_slots_same: "pool_sized p \<Longrightarrow> same_pool p (snd (drain_slots is p))"
proof (induction "is" arbitrary: p)
  case (Cons i "is")
  let ?q = "snd (check_slot_for_request i p)"
  have q: "same_pool p ?q"
    using Cons.prems clear_valid_same [of p i] by (auto simp: check_slot_for_request_eq waits_def)
  then have "same_pool ?q (snd (drain_slots is ?q))" using Cons same_pool_sized [OF q] by simp
  with q show ?case by (auto simp: Let_def intro: same_pool_trans split: prod.splits)
qed simp

lemma drain_processing_pool_shape: "pools_sized sv \<Longrightarrow> same_shape sv (snd (drain_processing_pool sv))"
  using drain_slots_same [of "sv_processing_pool sv"]
  by (simp add: drain_processing_pool_def Let_def case_prod_unfold pools_sized_def same_shape_pools)

lemma check_warmup_slot_same:
  assumes "pool_sized p"
  shows "same_pool p (snd (check_warmup_slot i p))"
proof (cases "i < pl_num_slots p")
  case True
  let ?m = "write_at (i * 4096 + 16) (le_bytes 4 (0 :: u32)) (pl_mem p)"
  have m: "length ?m = length (pl_mem p)" using length_slot_write [OF assms True, of 16] by simp
  then have "pool_sized (p\<lparr>pl_mem := ?m\<rparr>)" using assms by (simp add: pool_sized_def)
  from length_slot_write [OF this, of i 4092 "le_bytes 4 (0 :: u32)"] m True show ?thesis
    by (simp add: check_warmup_slot_def get_slot_def data_ptr_def block_sizes Let_def add.commute split: prod.split)
qed (simp add: check_warmup_slot_def get_slot_def)

lemma drain_warmup_slots_same: "pool_sized p \<Longrightarrow> same_pool p (snd (drain_warmup_slots is p))"
proof (induction "is" arbitrary: p)
  case (Cons i "is")
  let ?q = "snd (check_warmup_slot i p)"
  have q: "same_pool p ?q" by (rule check_warmup_slot_same [OF Cons.prems])
  then have "same_pool ?q (snd (drain_warmup_slots is ?q))" using Cons same_pool_sized [OF q] by simp
  with q show ?case by (auto simp: Let_def intro: same_pool_trans split: prod.splits)
qed simp

lemma drain_warmup_pool_shape: "pools_sized sv \<Longrightarrow> same_shape sv (snd (drain_warmup_pool sv))"
  using drain_warmup_slots_same [of "sv_warmup_pool sv"]
  by (simp add: drain_warmup_pool_def Let_def case_prod_unfold pools_sized_def same_shape_pools)

end
