(* ===== verification/Scalerpc_Server_Typing.thy ===== *)
theory Scalerpc_Server_Typing
  imports Scalerpc_Server_Safety
begin

text \<open>
  Every state a server of \<^verbatim>\<open>scalerpc/src/server.rs\<close> reaches is well formed: the three pools have
  the same number of whole slots, connection \<open>c\<close> owns exactly its block of slots and sits in
  exactly one group, and the indices of the scheduler are in range.  In a well-formed server
  polling cannot panic, and the processing loop ends with no request left.
\<close>

definition slots_per_conn :: "rpc_server \<Rightarrow> nat" where
  "slots_per_conn sv = pl_num_slots (sv_processing_pool sv) div sv_max_connections sv"

definition sched_wf :: "nat \<Rightarrow> group_scheduler \<Rightarrow> bool" where
  "sched_wf n sc \<longleftrightarrow>
     (let g = length (gs_groups sc)
      in 0 < g \<and> gs_current_group sc < g \<and> gs_next_group sc < g \<and>
         map gc_connections (gs_groups sc) = map (\<lambda>i. filter (\<lambda>c. c mod g = i) [0..<n]) [0..<g])"

definition map_wf :: "nat \<Rightarrow> nat \<Rightarrow> virtual_mapping \<Rightarrow> bool" where
  "map_wf n k m \<longleftrightarrow> vm_inv m \<and>
     (\<forall>c. map_option me_slots (get_connection m c) = (if c < n then Some [c * k..<c * k + k] else None))"

definition server_wf :: "rpc_server \<Rightarrow> bool" where
  "server_wf sv \<longleftrightarrow> pools_sized sv \<and>
     pl_num_slots (sv_warmup_pool sv) = pl_num_slots (sv_processing_pool sv) \<and>
     pl_num_slots (sv_response_pool sv) = pl_num_slots (sv_processing_pool sv) \<and>
     length (sv_connections sv) \<le> sv_max_connections sv \<and>
     length (sv_next_expected_slot sv) = length (sv_connections sv) \<and>
     sched_wf (length (sv_connections sv)) (sv_scheduler sv) \<and>
     map_wf (length (sv_connections sv)) (slots_per_conn sv) (sv_mapping sv)"

lemma server_wf_shape: "server_wf sv \<Longrightarrow> same_shape sv sv' \<Longrightarrow> server_wf sv'"
  using same_shape_sized [of sv sv']
  by (simp add: server_wf_def same_shape_def same_pool_def slots_per_conn_def)

section \<open>The scheduler\<close>

lemma skip_empty_range: "next < length groups \<Longrightarrow> skip_empty k groups next < length groups"
proof (induction k groups "next" rule: skip_empty.induct)
  case (2 k groups "next")
  then have "(next + 1) mod length groups < length groups" by (intro mod_less_divisor) linarith
  with 2 show ?case by simp
qed simp

lemma sched_wf_switch:
  assumes "sched_wf n sc" "do_context_switch now sc = Some (q, sc1) \<or> context_switch now sc = Some (q, sc1)"
  shows "sched_wf n sc1"
proof -
  have g: "length (gs_groups sc1) = length (gs_groups sc)" using switch_effect(2) [OF assms(2)] by (metis length_map)
  have pos: "0 < length (gs_groups sc)" using assms(1) by (simp add: sched_wf_def Let_def)
  then have "next_current sc < length (gs_groups sc)"
    unfolding next_current_def by (intro skip_empty_range) simp
  with pos assms(1) show ?thesis
    by (simp add: sched_wf_def Let_def g switch_effect(1,2,3) [OF assms(2)])
qed

lemma sched_wf_add:
  assumes "sched_wf n sc"
  shows "\<exists>sc1. scheduler_add_connection n sc = Some (n mod length (gs_groups sc), sc1) \<and> sched_wf (Suc n) sc1"
proof -
  let ?g = "length (gs_groups sc)" and ?gs = "gs_groups sc"
  let ?i = "n mod ?g"
  let ?sc = "sc\<lparr>gs_groups := ?gs[?i := group_add_connection n (?gs ! ?i)]\<rparr>"
  have wf: "0 < ?g" "gs_current_group sc < ?g" "gs_next_group sc < ?g"
    "map gc_connections ?gs = map (\<lambda>i. filter (\<lambda>c. c mod ?g = i) [0..<n]) [0..<?g]"
    using assms by (simp_all add: sched_wf_def Let_def)
  have nth: "gc_connections (?gs ! j) = filter (\<lambda>c. c mod ?g = j) [0..<n]" if "j < ?g" for j
    using arg_cong [OF wf(4), of "\<lambda>xs. xs ! j"] that by simp
  have "map gc_connections (gs_groups ?sc) = map (\<lambda>i. filter (\<lambda>c. c mod ?g = i) [0..<Suc n]) [0..<?g]"
    by (rule nth_equalityI) (auto simp: nth nth_list_update group_add_connection_def)
  with wf have "sched_wf (Suc n) ?sc" by (simp add: sched_wf_def Let_def)
  with wf(1) show ?thesis by (auto simp: scheduler_add_connection_def Let_def)
qed

lemma current_conns:
  assumes "sched_wf n sc"
  shows "current_group_connections sc =
    Some (filter (\<lambda>c. c mod length (gs_groups sc) = gs_current_group sc) [0..<n])"
proof -
  let ?gs = "gs_groups sc"
  have "map gc_connections ?gs ! gs_current_group sc =
      map (\<lambda>i. filter (\<lambda>c. c mod length ?gs = i) [0..<n]) [0..<length ?gs] ! gs_current_group sc"
    using assms by (simp only: sched_wf_def Let_def)
  moreover have "gs_current_group sc < length ?gs" using assms by (simp add: sched_wf_def Let_def)
  ultimately show ?thesis by (simp add: current_group_connections_def get_opt_def)
qed

section \<open>Adding a connection\<close>

lemma bind_slots_Ok:
  assumes "get_connection m c = Some e" "\<forall>s\<in>set ss. get_slot_owner m s = None" "distinct ss" "vm_inv m"
  shows "\<exists>m'. bind_slots c ss m = (Ok (), m') \<and> vm_inv m' \<and>
    get_connection m' = (get_connection m)(c \<mapsto> e\<lparr>me_slots := me_slots e @ ss\<rparr>)"
  using assms
proof (induction ss arbitrary: m e)
  case Nil
  then show ?case by (simp add: map_upd_triv)
next
  case (Cons s ss)
  obtain m1 where m1: "bind_slot c s m = (Ok (), m1)" "get_connection m1 = (get_connection m)(c \<mapsto> add_slot s e)"
    "get_slot_owner m1 = (get_slot_owner m)(s \<mapsto> c)"
    using Cons.prems(1,2) that [of "snd (bind_slot c s m)"]
    by (cases rule: bind_slot_cases [of m s c]) (auto simp: prod_eq_iff)
  have "vm_inv m1" using vm_inv_bind [OF Cons.prems(4), of c s] m1(1) by simp
  moreover have "\<forall>s'\<in>set ss. get_slot_owner m1 s' = None" using Cons.prems(2,3) m1(3) by auto
  moreover have "get_connection m1 c = Some (add_slot s e)" "distinct ss" using m1(2) Cons.prems(3) by simp_all
  ultimately obtain m2 where "bind_slots c ss m1 = (Ok (), m2)" "vm_inv m2"
    "get_connection m2 = (get_connection m1)(c \<mapsto> (add_slot s e)\<lparr>me_slots := me_slots (add_slot s e) @ ss\<rparr>)"
    using Cons.IH [of m1 "add_slot s e"] by blast
  with m1 show ?case by (simp add: outcome_simps add_slot_def fun_eq_iff)
qed

lemma map_wf_add:
  assumes "map_wf n k m"
  shows "\<exists>m'. bind_slots n [n * k..<n * k + k] (register_connection n m) = (Ok (), m') \<and> map_wf (Suc n) k m'"
proof -
  let ?m = "register_connection n m"
  have conn: "map_option me_slots (get_connection m c) = (if c < n then Some [c * k..<c * k + k] else None)" for c
    using assms by (simp add: map_wf_def)
  have none: "get_connection m n = None" using conn [of n] by simp
  have inv: "vm_inv ?m" using assms none by (intro vm_inv_register) (simp add: map_wf_def)
  have free: "get_slot_owner ?m s = None" if "s \<in> set [n * k..<n * k + k]" for s
  proof (rule ccontr)
    assume "get_slot_owner ?m s \<noteq> None"
    then obtain c e where "get_connection m c = Some e" "s \<in> set (me_slots e)"
      using assms by (auto simp: map_wf_def vm_inv_def)
    then have "c < n" "s < c * k + k" using conn [of c] by (auto split: if_splits)
    then have "s < n * k" using mult_le_mono1 [of "Suc c" n k] by simp
    with that show False by simp
  qed
  have "get_connection ?m n = Some (entry_new n)" by (simp add: get_connection_register)
  from bind_slots_Ok [OF this _ _ inv, of "[n * k..<n * k + k]"] free obtain m' where
    m': "bind_slots n [n * k..<n * k + k] ?m = (Ok (), m')" "vm_inv m'"
      "get_connection m' = (get_connection ?m)(n \<mapsto> (entry_new n)\<lparr>me_slots := me_slots (entry_new n) @ [n * k..<n * k + k]\<rparr>)"
    by auto
  have "map_wf (Suc n) k m'"
    using m'(2) by (simp add: map_wf_def m'(3) get_connection_register entry_new_def less_Suc_eq conn
        del: map_option_eq_Some)
  with m'(1) show ?thesis by blast
qed

lemma length_resize_one: "length xs = n \<Longrightarrow> length (resize (n + 1) x xs) = Suc n"
  by (simp add: resize_def)

lemma add_connection_wf:
  assumes "server_wf sv"
  shows "server_wf (snd (server_add_connection cqs qp sv)) \<and>
    fst (server_add_connection cqs qp sv) =
      (if length (sv_connections sv) \<ge> sv_max_connections sv then Err (Protocol ''max_connections limit reached'')
       else if \<not> sv_shared_cqs sv \<and> \<not> cqs \<or> qp = None then Err IoError
       else Ok (length (sv_connections sv)))"
proof -
  let ?n = "length (sv_connections sv)" and ?k = "slots_per_conn sv"
  obtain m' where m': "bind_slots ?n [?n * ?k..<?n * ?k + ?k] (register_connection ?n (sv_mapping sv)) = (Ok (), m')"
    "map_wf (Suc ?n) ?k m'"
    using map_wf_add [of ?n ?k "sv_mapping sv"] assms by (auto simp: server_wf_def)
  obtain sc g where sc: "scheduler_add_connection ?n (sv_scheduler sv) = Some (g, sc)" "sched_wf (Suc ?n) sc"
    using sched_wf_add [of ?n "sv_scheduler sv"] assms by (auto simp: server_wf_def)
  have len: "length (sv_next_expected_slot sv) = ?n" using assms by (simp add: server_wf_def)
  show ?thesis
    using assms m' sc len
    by (cases qp)
      (auto simp: server_add_connection_def Let_def connection_new_def slots_per_conn_def server_wf_def
        pools_sized_def length_resize_one)
qed

section \<open>The other operations\<close>

lemma map_wf_remote: "map_wf n k m \<Longrightarrow> map_wf n k (snd (set_remote_slot c a r m))"
proof -
  assume m: "map_wf n k m"
  have "map_option me_slots (get_connection (snd (set_remote_slot c a r m)) c') = map_option me_slots (get_connection m c')" for c'
    by (auto simp: set_remote_effect set_remote_def split: option.split)
  with m show ?thesis by (simp add: map_wf_def vm_inv_set_remote)
qed

lemma register_event_buffer_shape [simp]: "same_shape sv (register_event_buffer c a r sv') \<longleftrightarrow> same_shape sv sv'"
  by (simp add: register_event_buffer_def)

lemma server_connect_wf:
  assumes "server_wf sv"
  shows "server_wf (snd (server_connect ok c remote sv))"
proof -
  obtain r m where r: "set_remote_slot c (re_slot_addr remote) (re_slot_rkey remote) (sv_mapping sv) = (r, m)" by fastforce
  let ?sv = "sv\<lparr>sv_mapping := m\<rparr>"
  have "map_wf (length (sv_connections sv)) (slots_per_conn sv) m"
    using map_wf_remote [of _ _ "sv_mapping sv" c "re_slot_addr remote" "re_slot_rkey remote"] assms r
    by (simp add: server_wf_def)
  then have wf: "server_wf ?sv" using assms by (simp add: server_wf_def pools_sized_def slots_per_conn_def)
  have "same_shape ?sv (snd (server_connect ok c remote sv))"
    by (cases r) (auto simp: server_connect_def r Let_def split: option.split prod.split)
  with wf show ?thesis by (rule server_wf_shape)
qed

lemma server_wf_sched:
  "server_wf sv \<Longrightarrow> do_context_switch now (sv_scheduler sv) = Some (q, sc) \<or>
     context_switch now (sv_scheduler sv) = Some (q, sc) \<Longrightarrow> server_wf (sv\<lparr>sv_scheduler := sc\<rparr>)"
  using sched_wf_switch [of _ "sv_scheduler sv" now q sc]
  by (simp add: server_wf_def pools_sized_def slots_per_conn_def)

lemma server_wf_swap: "server_wf sv \<Longrightarrow> server_wf (swap_pools sv)"
  by (auto simp: server_wf_def pools_sized_def slots_per_conn_def swap_pools_def)

lemma server_wf_clear:
  assumes "server_wf sv"
  shows "server_wf (sv\<lparr>sv_warmup_pool := clear_pool_valid_flags (sv_warmup_pool sv)\<rparr>)"
proof -
  have "same_pool (sv_warmup_pool sv) (clear_pool_valid_flags (sv_warmup_pool sv))"
    using assms by (intro clear_pool_valid_flags_same) (simp add: server_wf_def pools_sized_def)
  from server_wf_shape [OF assms same_shape_pools(2) [OF this]] show ?thesis .
qed

lemma check_and_switch_wf: "server_wf sv \<Longrightarrow> server_wf (snd (check_and_switch now sv))"
  by (auto simp: check_and_switch_def intro!: server_wf_swap intro: server_wf_sched split: option.split)

lemma perform_context_switch_wf: "server_wf sv \<Longrightarrow> server_wf (snd (perform_context_switch now sv))"
proof -
  assume wf: "server_wf sv"
  have wf1: "server_wf (sv\<lparr>sv_conn_buf := cs\<rparr>)" for cs
    using wf by (rule server_wf_shape) simp
  show ?thesis
  proof (cases "current_group_connections (sv_scheduler sv)")
    case (Some cs)
    show ?thesis
    proof (cases "context_switch now (sv_scheduler sv)")
      case s: (Some r)
      then obtain q sc where q: "context_switch now (sv_scheduler (sv\<lparr>sv_conn_buf := cs\<rparr>)) = Some (q, sc)" by (cases r) auto
      from server_wf_clear [OF server_wf_swap [OF server_wf_sched [OF wf1 disjI2 [OF q]]]] q Some wf show ?thesis
        by (simp add: perform_context_switch_def Let_def)
    qed (use Some wf wf1 in \<open>simp add: perform_context_switch_def\<close>)
  qed (use wf in \<open>simp add: perform_context_switch_def\<close>)
qed

lemma server_wf_sized: "server_wf sv \<Longrightarrow> pools_sized sv"
  by (simp add: server_wf_def)

lemma notify_wf: "server_wf sv \<Longrightarrow> server_wf (snd (notify_context_switch submit cs q f sv))"
  by (rule server_wf_shape [OF _ notify_shape]) (simp_all add: server_wf_sized)

lemma process_loop_wf:
  assumes "server_wf sv" "handler_in_place handler"
  shows "\<exists>r sv'. process_loop counted handler submit n sv = Some (r, sv') \<and> loop_frame sv sv' \<and> server_wf sv' \<and>
    (\<forall>k conns. r = Ok k \<longrightarrow> current_group_connections (sv_scheduler sv) = Some conns \<longrightarrow>
       polled_slots sv conns \<inter> waiting (sv_processing_pool sv') = {})"
proof -
  obtain conns where c: "current_group_connections (sv_scheduler sv) = Some conns"
    using current_conns assms(1) by (auto simp: server_wf_def)
  from process_loop_ends [OF server_wf_sized [OF assms(1)] assms(2) c, of counted submit n]
  obtain r sv' where r: "process_loop counted handler submit n sv = Some (r, sv')" "loop_frame sv sv'"
    "\<forall>k. r = Ok k \<longrightarrow> polled_slots sv conns \<inter> waiting (sv_processing_pool sv') = {}" by blast
  then have "server_wf sv'" using server_wf_shape [OF assms(1)] by (simp add: loop_frame_def)
  with r c show ?thesis by auto
qed

lemma server_flush_wf: "server_wf sv \<Longrightarrow> server_wf (clear_needs_flush (flush_doorbells sv))"
  by (erule server_wf_shape) simp

lemma flush_doorbells_pool [simp]: "sv_processing_pool (flush_doorbells sv) = sv_processing_pool sv"
proof -
  let ?ring = "\<lambda>c sv. case server_conn sv c of None \<Rightarrow> sv | Some conn \<Rightarrow> set_server_conn c (ring_sq_doorbell conn) sv"
  have "sv_processing_pool (fold ?ring cs sv') = sv_processing_pool sv'" for cs sv'
    by (induction cs arbitrary: sv') (auto simp: set_server_conn_def split: option.split)
  then show ?thesis by (simp add: flush_doorbells_def Let_def)
qed

lemma server_process_ends:
  assumes "server_wf sv" "handler_in_place handler"
  shows "\<exists>r sv'. server_process handler submit now sv = Some (r, sv') \<and> server_wf sv' \<and>
    (\<forall>k conns. r = Ok k \<longrightarrow> current_group_connections (sv_scheduler sv) = Some conns \<longrightarrow>
       polled_slots sv conns \<inter> waiting (sv_processing_pool sv') = {})"
proof -
  from process_loop_wf [OF assms, of fst submit 0]
  obtain r sv1 where r: "process_loop fst handler submit 0 sv = Some (r, sv1)" "server_wf sv1"
    and none: "\<forall>k conns. r = Ok k \<longrightarrow> current_group_connections (sv_scheduler sv) = Some conns \<longrightarrow>
       polled_slots sv conns \<inter> waiting (sv_processing_pool sv1) = {}"
    by blast
  show ?thesis
  proof (cases r)
    case (Ok n)
    let ?sv = "clear_needs_flush (flush_doorbells sv1)"
    have wf: "server_wf ?sv" by (rule server_flush_wf [OF r(2)])
    have pool: "sv_processing_pool ?sv = sv_processing_pool sv1" by (simp add: clear_needs_flush_def)
    show ?thesis
    proof (cases "should_switch now (sv_scheduler ?sv)")
      case False
      then have "server_process handler submit now sv = Some (Ok n, ?sv)"
        using Ok r by (simp add: server_process_def outcome_simps Let_def)
      with wf pool none Ok show ?thesis by simp
    next
      case True
      have "gs_groups (sv_scheduler ?sv) \<noteq> []" using wf by (auto simp: server_wf_def sched_wf_def Let_def)
      from do_context_switch_total [OF this] obtain q sc where
        q: "do_context_switch now (sv_scheduler ?sv) = Some (q, sc)" by blast
      then have "server_process handler submit now sv = Some (Ok n, ?sv\<lparr>sv_scheduler := sc\<rparr>)"
        using Ok r True by (simp add: server_process_def outcome_simps Let_def)
      with server_wf_sched [OF wf disjI1 [OF q]] pool none Ok show ?thesis by simp
    qed
  qed (use r in \<open>simp_all add: server_process_def outcome_simps\<close>)
qed

lemma fetch_wf: "server_wf sv \<Longrightarrow> exec_in_place exec \<Longrightarrow> server_wf (snd (fetch_warmup_requests exec submit sv))"
  by (erule server_wf_shape) (rule fetch_warmup_requests_shape)

lemma switch_to_fetched_wf: "server_wf sv \<Longrightarrow> server_wf (snd (switch_to_fetched submit now f sv))"
proof -
  assume wf: "server_wf sv"
  show ?thesis
  proof (cases "do_context_switch now (sv_scheduler sv)")
    case (Some r)
    then obtain q sc where q: "do_context_switch now (sv_scheduler sv) = Some (q, sc)" by (cases r) auto
    have wf1: "server_wf (sv\<lparr>sv_scheduler := sc\<rparr>)" by (rule server_wf_sched [OF wf disjI1 [OF q]])
    show ?thesis
    proof (cases "current_group_connections sc")
      case None
      with q wf1 show ?thesis by (simp add: switch_to_fetched_def)
    next
      case (Some cs)
      have "server_wf (sv\<lparr>sv_scheduler := sc, sv_conn_buf := cs\<rparr>)"
        using wf1 by (rule server_wf_shape) simp
      from server_wf_shape [OF server_wf_clear [OF server_wf_swap [OF this]] reset_shape]
      have wf2: "server_wf (reset_next_expected_slots cs
         ((swap_pools (sv\<lparr>sv_scheduler := sc, sv_conn_buf := cs\<rparr>))\<lparr>sv_warmup_pool :=
            clear_pool_valid_flags (sv_warmup_pool (swap_pools (sv\<lparr>sv_scheduler := sc, sv_conn_buf := cs\<rparr>)))\<rparr>))"
        (is "server_wf ?sv") .
      have "snd (switch_to_fetched submit now f sv) = snd (notify_context_switch submit cs q f ?sv)"
        using q Some by (simp add: switch_to_fetched_def Let_def split: prod.split outcome.split)
      with notify_wf [OF wf2] show ?thesis by (simp only:)
    qed
  qed (use wf in \<open>simp add: switch_to_fetched_def\<close>)
qed

lemma timed_switch_wf: "server_wf sv \<Longrightarrow> server_wf (snd (timed_switch submit now sv))"
  unfolding timed_switch_def
proof (rule and_then_state)
  assume wf: "server_wf sv"
  show wf1: "server_wf (snd (perform_context_switch now sv))" by (rule perform_context_switch_wf [OF wf])
  fix s
  show "server_wf (snd (case s of
       None \<Rightarrow> (Ok (), snd (perform_context_switch now sv))
     | Some seq \<Rightarrow>
         (case notify_context_switch submit (sv_conn_buf (snd (perform_context_switch now sv))) seq 0
             (snd (perform_context_switch now sv)) of
            (Panic, sv) \<Rightarrow> (Panic, sv) | (_, sv) \<Rightarrow> (Ok (), sv))))"
  proof (cases s)
    case (Some seq)
    let ?sv = "snd (perform_context_switch now sv)"
    obtain r sv1 where e: "notify_context_switch submit (sv_conn_buf ?sv) seq 0 ?sv = (r, sv1)" by fastforce
    have "server_wf sv1" using notify_wf [OF wf1, of submit "sv_conn_buf ?sv" seq 0] e by simp
    with e Some show ?thesis by (cases r) simp_all
  qed (simp add: wf1)
qed

text \<open>Polling after the fetch, as a chain of three steps.\<close>

lemma server_poll_steps:
  fixes sv handler exec submit now cqes
  defines "sv0 \<equiv> clear_needs_flush (flush_doorbells sv)"
  defines "f \<equiv> fetch_warmup_requests exec submit sv0"
  defines "fs \<equiv> case fst f of Ok r \<Rightarrow> r | _ \<Rightarrow> (0, 0)"
  defines "s \<equiv> if fst fs > 0 then switch_to_fetched submit now (snd fs) (snd f) else timed_switch submit now (snd f)"
  shows "server_poll handler exec submit now cqes sv =
    (if fst f = Panic then Some (Panic, snd f) else if fst s = Panic then Some (Panic, snd s)
     else map_option (\<lambda>r. and_then r (\<lambda>n sv. (Ok (if n > 0 then n else cqes), clear_needs_flush (flush_doorbells sv))))
       (process_loop snd handler submit 0 (snd s)))"
  unfolding server_poll_def f_def [symmetric] sv0_def [symmetric] Let_def
  by (simp add: case_prod_unfold s_def fs_def split: outcome.split)

lemma server_poll_wf:
  assumes "server_wf sv" "handler_in_place handler" "exec_in_place exec"
  shows "\<exists>r sv'. server_poll handler exec submit now cqes sv = Some (r, sv') \<and> server_wf sv'"
proof -
  define f where "f = fetch_warmup_requests exec submit (clear_needs_flush (flush_doorbells sv))"
  define fs where "fs = (case fst f of Ok r \<Rightarrow> r | _ \<Rightarrow> (0, 0))"
  define s where "s = (if fst fs > 0 then switch_to_fetched submit now (snd fs) (snd f) else timed_switch submit now (snd f))"
  have wf1: "server_wf (snd f)" unfolding f_def by (rule fetch_wf [OF server_flush_wf [OF assms(1)] assms(3)])
  have wf2: "server_wf (snd s)" unfolding s_def using switch_to_fetched_wf [OF wf1] timed_switch_wf [OF wf1] by simp
  obtain r sv3 where r: "process_loop snd handler submit 0 (snd s) = Some (r, sv3)" "server_wf sv3"
    using process_loop_wf [OF wf2 assms(2)] by blast
  have "\<exists>r' sv'. and_then (r, sv3) (\<lambda>n sv. (Ok (if n > 0 then n else cqes), clear_needs_flush (flush_doorbells sv))) = (r', sv') \<and>
      server_wf sv'"
    using r(2) server_flush_wf [OF r(2)] by (cases r) (simp_all add: outcome_simps)
  moreover have "server_poll handler exec submit now cqes sv =
      (if fst f = Panic then Some (Panic, snd f) else if fst s = Panic then Some (Panic, snd s)
       else Some (and_then (r, sv3) (\<lambda>n sv. (Ok (if n > 0 then n else cqes), clear_needs_flush (flush_doorbells sv)))))"
    using server_poll_steps [of handler exec submit now cqes sv, folded f_def, folded fs_def, folded s_def] r(1) by simp
  ultimately show ?thesis using wf1 wf2 by (cases "fst f = Panic"; cases "fst s = Panic") simp_all
qed

lemma run_scheduler_iteration_wf:
  assumes "server_wf sv" "handler_in_place handler" "exec_in_place exec"
  shows "\<exists>r sv'. run_scheduler_iteration handler exec submit now sv = Some (r, sv') \<and> server_wf sv'"
proof -
  obtain t sv1 where t: "timed_switch submit now sv = (t, sv1)" by fastforce
  have wf1: "server_wf sv1" using timed_switch_wf [OF assms(1), of submit now] t by simp
  obtain r sv2 where r: "server_process handler submit now sv1 = Some (r, sv2)" "server_wf sv2"
    using server_process_ends [OF wf1 assms(2)] by blast
  obtain f sv3 where f: "fetch_warmup_requests exec submit sv2 = (f, sv3)" by fastforce
  have "server_wf sv3" using fetch_wf [OF r(2) assms(3), of submit] f by simp
  with t wf1 r f show ?thesis
    by (cases t; cases r; cases f) (simp_all add: run_scheduler_iteration_def outcome_simps)
qed

lemma poll_request_wf:
  assumes "server_wf sv"
  shows "\<exists>r sv'. poll_request sv = (Ok r, sv') \<and> server_wf sv'"
proof -
  obtain conns where c: "current_group_connections (sv_scheduler sv) = Some conns"
    using current_conns assms by (auto simp: server_wf_def)
  show ?thesis
  proof (rule poll_connections_cases [of conns sv])
    fix s nx
    let ?sv = "sv\<lparr>sv_processing_pool := clear_valid s (sv_processing_pool sv), sv_next_expected_slot := nx\<rparr>"
    assume p: "poll_connections conns sv = (Some (incoming_of (request_read_from (pl_mem (sv_processing_pool sv)) (s * 4096 + 16))
        (s * 4096 + 16) s), ?sv)" "waits (sv_processing_pool sv) s" "length nx = length (sv_next_expected_slot sv)"
    then have "same_shape sv ?sv"
      using assms clear_valid_same [of "sv_processing_pool sv" s]
      by (simp add: same_shape_def server_wf_def pools_sized_def waits_def)
    then have "server_wf ?sv" by (rule server_wf_shape [OF assms])
    with c p(1) show ?thesis by (simp add: poll_request_def)
  qed (use assms c in \<open>simp add: poll_request_def\<close>)
qed

lemma server_new_wf:
  assumes "server_new now mr1 mr2 mr3 mr4 n sz mc g ts = Ok sv" "0 < g"
  shows "server_wf sv"
proof -
  have sized: "pool_sized p" "pl_num_slots p = n" if "pool_new mr n sz = Ok p" for mr p
    using that pool_new_inv [of _ n sz p]
    by (auto simp: pool_inv_def pool_sized_def pool_new_def Let_def split: option.splits)
  have "sched_wf 0 (scheduler_new now g ts)"
    using assms(2) by (auto simp: sched_wf_def scheduler_new_def Let_def comp_def group_new_def)
  moreover have "map_wf 0 k vm_new" for k
    by (simp add: map_wf_def vm_inv_new) (simp add: vm_new_def get_connection_def)
  ultimately show ?thesis
    using assms(1) sized
    by (auto simp: server_new_def server_wf_def pools_sized_def split: outcome.splits)
qed

section \<open>Every reachable server is well formed\<close>

text \<open>
  All uses of a server with at least one group.  \<open>sr_write\<close> is any change the device makes to
  the bytes of the processing pool for a client, \<open>sr_announce\<close> one to the endpoint entries.
\<close>

inductive server_run :: "handler \<Rightarrow> (nat \<Rightarrow> rdma_wr list \<Rightarrow> bytes \<Rightarrow> bytes \<times> bool) \<Rightarrow> rpc_server \<Rightarrow> bool"
  for handler exec where
  sr_new: "server_new now mr1 mr2 mr3 mr4 n sz mc (Suc g) ts = Ok sv \<Longrightarrow> server_run handler exec sv"
| sr_add: "server_run handler exec sv \<Longrightarrow> server_run handler exec (snd (server_add_connection cqs qp sv))"
| sr_connect: "server_run handler exec sv \<Longrightarrow> server_run handler exec (snd (server_connect ok c remote sv))"
| sr_event_buffer: "server_run handler exec sv \<Longrightarrow> server_run handler exec (register_event_buffer c a k sv)"
| sr_switch: "server_run handler exec sv \<Longrightarrow> server_run handler exec (snd (check_and_switch now sv))"
| sr_perform: "server_run handler exec sv \<Longrightarrow> server_run handler exec (snd (perform_context_switch now sv))"
| sr_notify: "server_run handler exec sv \<Longrightarrow> server_run handler exec (snd (notify_context_switch submit cs q f sv))"
| sr_recv: "server_run handler exec sv \<Longrightarrow> server_run handler exec (snd (server_recv sv))"
| sr_reply: "server_run handler exec sv \<Longrightarrow> server_run handler exec (snd (server_reply submit' rq st payload sv))"
| sr_drain: "server_run handler exec sv \<Longrightarrow> server_run handler exec (snd (drain_processing_pool sv))"
| sr_drain_warmup: "server_run handler exec sv \<Longrightarrow> server_run handler exec (snd (drain_warmup_pool sv))"
| sr_drained: "server_run handler exec sv \<Longrightarrow>
    server_run handler exec (snd (process_drained_requests handler submit rqs sv))"
| sr_fetch: "server_run handler exec sv \<Longrightarrow> server_run handler exec (snd (fetch_warmup_requests exec submit sv))"
| sr_process: "server_run handler exec sv \<Longrightarrow> server_process handler submit now sv = Some (r, sv') \<Longrightarrow>
    server_run handler exec sv'"
| sr_poll: "server_run handler exec sv \<Longrightarrow> server_poll handler exec submit now cqes sv = Some (r, sv') \<Longrightarrow>
    server_run handler exec sv'"
| sr_iterate: "server_run handler exec sv \<Longrightarrow> run_scheduler_iteration handler exec submit now sv = Some (r, sv') \<Longrightarrow>
    server_run handler exec sv'"
| sr_write: "server_run handler exec sv \<Longrightarrow> length mem = length (pl_mem (sv_processing_pool sv)) \<Longrightarrow>
    server_run handler exec (sv\<lparr>sv_processing_pool := (sv_processing_pool sv)\<lparr>pl_mem := mem\<rparr>\<rparr>)"
| sr_announce: "server_run handler exec sv \<Longrightarrow> server_run handler exec (sv\<lparr>sv_endpoint_entries := ee\<rparr>)"

lemma response_frame_wf: "server_wf sv \<Longrightarrow> response_frame sv sv' \<Longrightarrow> server_wf sv'"
  by (simp add: response_frame_def server_wf_shape)

lemma server_run_wf:
  assumes "server_run handler exec sv" "handler_in_place handler" "exec_in_place exec"
  shows "server_wf sv"
  using assms(1)
proof (induction rule: server_run.induct)
  case (sr_new now mr1 mr2 mr3 mr4 n sz mc g ts sv)
  then show ?case by (rule server_new_wf) simp
next
  case (sr_add sv cqs qp)
  then show ?case using add_connection_wf by blast
next
  case (sr_connect sv ok c remote)
  then show ?case by (intro server_connect_wf)
next
  case (sr_event_buffer sv c a k)
  from sr_event_buffer.IH show ?case by (rule server_wf_shape) simp
next
  case (sr_switch sv now)
  then show ?case by (intro check_and_switch_wf)
next
  case (sr_perform sv now)
  then show ?case by (intro perform_context_switch_wf)
next
  case (sr_notify sv submit cs q f)
  then show ?case by (intro notify_wf)
next
  case (sr_recv sv)
  then show ?case using poll_request_wf [of sv] by (auto simp: server_recv_def)
next
  case (sr_reply sv submit' rq st payload)
  from response_frame_wf [OF sr_reply.IH send_response_frame [OF server_wf_sized [OF sr_reply.IH]]]
  show ?case by (simp add: server_reply_def)
next
  case (sr_drain sv)
  then show ?case by (intro server_wf_shape [OF _ drain_processing_pool_shape] server_wf_sized)
next
  case (sr_drain_warmup sv)
  then show ?case by (intro server_wf_shape [OF _ drain_warmup_pool_shape] server_wf_sized)
next
  case (sr_drained sv submit rqs)
  then show ?case by (intro response_frame_wf [OF _ process_drained_frame [OF _ assms(2)]] server_wf_sized)
next
  case (sr_fetch sv submit)
  then show ?case by (intro fetch_wf assms(3))
next
  case (sr_process sv submit now r sv')
  then show ?case using server_process_ends [OF sr_process.IH assms(2), of submit now] by auto
next
  case (sr_poll sv submit now cqes r sv')
  then show ?case using server_poll_wf [OF sr_poll.IH assms(2,3), of submit now cqes] by auto
next
  case (sr_iterate sv submit now r sv')
  then show ?case using run_scheduler_iteration_wf [OF sr_iterate.IH assms(2,3), of submit now] by auto
next
  case (sr_write sv mem)
  then show ?case by (intro server_wf_shape [OF _ same_shape_pools(1)]) simp_all
next
  case (sr_announce sv ee)
  from sr_announce.IH show ?case by (rule server_wf_shape) simp
qed


definition echo_handler :: handler where
  "echo_handler t payload buf =
     (let n = min (length payload) (length buf) in ((0, n), take n payload @ drop n buf))"

definition idle_exec :: "nat \<Rightarrow> rdma_wr list \<Rightarrow> bytes \<Rightarrow> bytes \<times> bool" where
  "idle_exec c wrs mem = (mem, True)"

lemma in_place_examples: "handler_in_place echo_handler" "exec_in_place idle_exec"
  by (auto simp: handler_in_place_def exec_in_place_def echo_handler_def idle_exec_def Let_def min_def)

lemma sample_server:
  "\<exists>sv. server_new 0 (Some (0x10000, 1, 2)) (Some (0x20000, 3, 4)) (Some (0x30000, 5, 6)) (Some (0x40000, 7, 8)) 8 4080 4 2 100 = Ok sv \<and>
     sv_connections sv = [] \<and> sv_max_connections sv = 4"
  by (simp add: server_new_def pool_new_def entry_pool_new_def Let_def)




end
