(* ===== verification/Scalerpc_Roundtrip.thy ===== *)
theory Scalerpc_Roundtrip
  imports Scalerpc_Client_Safety Scalerpc_Server_Typing
begin

text \<open>
  The ScaleRPC client and server together: a direct call, the WRITE of its block by the device,
  polling and answering on the server, the WRITE of the response, and polling on the client.
\<close>

section \<open>Copies between pools\<close>

lemma slot_data_addr_mem [simp]: "slot_data_addr (p\<lparr>pl_mem := m\<rparr>) i = slot_data_addr p i"
  by (simp add: slot_data_addr_def)

text \<open>What a WRITE from one pool into a slot of another does.\<close>

lemma rdma_write_between:
  assumes "pool_placed P" "slot_data_addr P j = Some (wr_local_addr wr)" "pool_placed Q"
    and "slot_data_addr Q s = Some (wr_remote_addr wr)" "unat (wr_len wr) = n" "n \<le> 4080"
  defines "mem \<equiv> rdma_write_place wr (pl_base P, pl_mem P) (pl_base Q, pl_mem Q)"
  shows "length mem = length (pl_mem Q)"
    and "read_at (s * 4096 + 16) n mem = read_at (j * 4096 + 16) n (pl_mem P)"
    and "\<And>p k. p + k \<le> s * 4096 + 16 \<or> s * 4096 + 4096 \<le> p \<Longrightarrow> read_at p k mem = read_at p k (pl_mem Q)"
proof -
  let ?block = "read_at (j * 4096 + 16) n (pl_mem P)"
  have mem: "mem = write_at (s * 4096 + 16) ?block (pl_mem Q)"
    using slot_data_addr_offset(1) [OF assms(1,2)] slot_data_addr_offset(1) [OF assms(3,4)] assms(5)
    by (simp add: mem_def rdma_write_place_def)
  note room = slot_data_addr_offset(3) [OF assms(1,2)] slot_data_addr_offset(3) [OF assms(3,4)]
  have len: "length ?block = n" using room(1) assms(6) by (intro length_read_at) simp
  show "length mem = length (pl_mem Q)" unfolding mem using room(2) assms(6) len by (intro length_write_at) simp
  show "read_at (s * 4096 + 16) n mem = ?block"
    unfolding mem using read_write_same [of "s * 4096 + 16" ?block "pl_mem Q"] room(2) assms(6) len by simp
  show "read_at p k mem = read_at p k (pl_mem Q)" if "p + k \<le> s * 4096 + 16 \<or> s * 4096 + 4096 \<le> p" for p k
    unfolding mem using that room(2) assms(6) len by (intro read_write_at) auto
qed

lemma unat_u32_small: "n < 2 ^ 32 \<Longrightarrow> unat (word_of_nat n :: u32) = n"
  by (subst unat_of_nat) simp

lemma unat_u16_small: "n < 2 ^ 16 \<Longrightarrow> unat (word_of_nat n :: u16) = n"
  by (subst unat_of_nat) simp

lemma waits_holds:
  assumes "holds_request (pl_mem Q) (s * 4096 + 16) h payload" "s < pl_num_slots Q" "length payload \<le> 4032"
  shows "waits Q s"
proof -
  have "unat (word_of_nat (40 + length payload) :: u32) \<noteq> 0"
    using assms(3) by (subst unat_u32_small) simp_all
  then have "(word_of_nat (40 + length payload) :: u32) \<noteq> 0" by fastforce
  with assms show ?thesis by (simp add: waits_def holds_request_def MESSAGE_VALID_def block_sizes)
qed

lemma waits_elsewhere:
  assumes "\<And>p k. p + k \<le> s * 4096 + 16 \<or> s * 4096 + 4096 \<le> p \<Longrightarrow> read_at p k mem = read_at p k (pl_mem Q)" "t \<noteq> s"
  shows "waits (Q\<lparr>pl_mem := mem\<rparr>) t \<longleftrightarrow> waits Q t"
proof -
  have "t * 4096 + 4096 \<le> s * 4096 \<or> s * 4096 + 4096 \<le> t * 4096" using assms(2) slot_span [of s t] by linarith
  then have "read_at (t * 4096 + 4088) 4 mem = read_at (t * 4096 + 4088) 4 (pl_mem Q)"
    "read_at (t * 4096 + 4092) 4 mem = read_at (t * 4096 + 4092) 4 (pl_mem Q)"
    by (intro assms(1); linarith)+
  then show ?thesis
    by (simp add: waits_def trailer_read_from_def block_sizes Let_def read_u32_def add.commute)
qed

section \<open>The request arrives and is polled\<close>

lemma poll_only_request:
  assumes "current_group_connections (sv_scheduler sv) = Some conns" "s \<in> polled_slots sv conns"
    and "waits (sv_processing_pool sv) s" "polled_slots sv conns \<inter> waiting (sv_processing_pool sv) \<subseteq> {s}"
  obtains nx where "poll_request sv =
      (Ok (Some (incoming_of (request_read_from (pl_mem (sv_processing_pool sv)) (s * 4096 + 16)) (s * 4096 + 16) s)),
       sv\<lparr>sv_processing_pool := clear_valid s (sv_processing_pool sv), sv_next_expected_slot := nx\<rparr>)"
proof (rule poll_connections_cases [of conns sv])
  assume "polled_slots sv conns \<inter> waiting (sv_processing_pool sv) = {}"
  then show thesis using assms(2,3) by (auto simp: waiting_def)
next
  fix s' nx
  assume p: "poll_connections conns sv =
      (Some (incoming_of (request_read_from (pl_mem (sv_processing_pool sv)) (s' * 4096 + 16)) (s' * 4096 + 16) s'),
       sv\<lparr>sv_processing_pool := clear_valid s' (sv_processing_pool sv), sv_next_expected_slot := nx\<rparr>)"
    "s' \<in> polled_slots sv conns" "waits (sv_processing_pool sv) s'"
  then have "s' = s" using assms(4) by (auto simp: waiting_def)
  with p assms(1) that [of nx] show thesis by (simp add: poll_request_def)
qed

text \<open>What was polled is what was written.\<close>

lemma polled_request:
  assumes "holds_request (pl_mem Q) (s * 4096 + 16) h payload" "rq_payload_len h = word_of_nat (length payload)"
    and "length payload \<le> 4032" "pool_sized Q" "s < pl_num_slots Q"
  defines "rq \<equiv> incoming_of (request_read_from (pl_mem Q) (s * 4096 + 16)) (s * 4096 + 16) s"
  shows "ir_req_id rq = rq_req_id h \<and> ir_rpc_type rq = rq_rpc_type h \<and> ir_slot_index rq = s \<and>
    ir_conn_id rq = unat (rq_sender_conn_id h) \<and> ir_client_slot_addr rq = rq_client_slot_addr h \<and>
    ir_client_slot_rkey rq = rq_client_slot_rkey h \<and> ir_slot_seq rq = rq_slot_seq h \<and>
    ir_payload (clear_valid s Q) rq = Some payload"
proof -
  have h: "request_read_from (pl_mem Q) (s * 4096 + 16) = h"
    and p: "read_at (s * 4096 + 56) (length payload) (pl_mem Q) = payload"
    using assms(1) by (simp_all add: holds_request_def block_sizes add.assoc)
  have len: "unat (rq_payload_len h) = length payload" using assms(2,3) by (simp add: unat_u16_small)
  note room = slot_in_range [OF assms(4,5)]
  have "length (pl_mem (clear_valid s Q)) = length (pl_mem Q)"
    using clear_valid_same [OF assms(4,5)] by (simp add: same_pool_def)
  moreover have "read_at (s * 4096 + 56) (length payload) (pl_mem (clear_valid s Q)) = payload"
    using clear_valid_read [OF assms(4,5), of "s * 4096 + 56" "length payload"] p assms(3) by simp
  ultimately show ?thesis
    using room assms(3) len unfolding rq_def h
    by (simp add: incoming_of_def ir_payload_def block_sizes add.commute)
qed

section \<open>The response\<close>

lemma response_header_fields:
  assumes "response_header_for rq st len ack sv = (h, sv')"
  shows "rs_magic h = RESPONSE_MAGIC" "rs_req_id h = ir_req_id rq" "rs_status h = st" "rs_payload_len h = len"
    "rs_acked_slot_seq h = ack" "has_credit_ack h"
  using assms
  by (auto simp: response_header_for_def with_credit_ack_def with_context_switch_and_credit_ack_def
      with_processing_pool_info_and_credit_ack_def has_credit_ack_def flag_defs
      split: prod.splits option.splits if_splits)

lemma ack_processed_ge:
  assumes "ack_processed rq sv = (a, sv')"
  shows "ir_slot_seq rq \<le> a"
proof -
  let ?seqs = "grow_to (ir_conn_id rq) 0 (sv_last_processed_seq sv)"
  have "ir_conn_id rq < length ?seqs" by (simp add: grow_to_def)
  then show ?thesis using assms by (auto simp: ack_processed_def Let_def)
qed

text \<open>The answer of the server to a polled request: its work request and the bytes it sends.\<close>

lemma handle_request_responds:
  assumes "pool_sized (sv_response_pool sv)" "ir_slot_index rq < pl_num_slots (sv_response_pool sv)"
    and "server_conn sv (ir_conn_id rq) = Some conn" "submit (ir_conn_id rq) (cn_sq_attempts conn) = None"
    and "ir_payload (sv_processing_pool sv) rq = Some payload" "handler_in_place handler"
    and "\<And>buf. snd (fst (handler (ir_rpc_type rq) payload buf)) \<le> length buf"
  obtains sv' conn' buf h wr where
    "handle_request handler submit rq sv = (Ok (True, True), sv')"
    "server_conn sv' (ir_conn_id rq) = Some conn'" "cn_sq conn' = cn_sq conn @ [wr]"
    "same_pool (sv_response_pool sv) (sv_response_pool sv')" "pl_base (sv_response_pool sv') = pl_base (sv_response_pool sv)"
    "slot_data_addr (sv_response_pool sv') (ir_slot_index rq) = Some (wr_local_addr wr)"
    "wr_remote_addr wr = ir_client_slot_addr rq"
    "wr_len wr = word_of_nat (56 + snd (fst (handler (ir_rpc_type rq) payload buf)))" "length buf = 4016"
    "read_at (ir_slot_index rq * 4096 + 16) 56 (pl_mem (sv_response_pool sv')) = response_image h"
    "read_at (ir_slot_index rq * 4096 + 72) (snd (fst (handler (ir_rpc_type rq) payload buf))) (pl_mem (sv_response_pool sv')) =
       take (snd (fst (handler (ir_rpc_type rq) payload buf))) (snd (handler (ir_rpc_type rq) payload buf))"
    "rs_magic h = RESPONSE_MAGIC" "rs_req_id h = ir_req_id rq" "rs_status h = fst (fst (handler (ir_rpc_type rq) payload buf))"
    "rs_payload_len h = word_of_nat (snd (fst (handler (ir_rpc_type rq) payload buf)))" "has_credit_ack h"
    "ir_slot_seq rq \<le> rs_acked_slot_seq h"
proof -
  define s where "s = ir_slot_index rq"
  define P where "P = sv_response_pool sv"
  define buf where "buf = read_at (s * 4096 + 72) 4016 (pl_mem P)"
  obtain st len out where h: "handler (ir_rpc_type rq) payload buf = ((st, len), out)" by (metis prod.exhaust)
  have room: "s * 4096 + 4096 \<le> length (pl_mem P)" using slot_in_range [OF assms(1,2)] by (simp add: s_def P_def)
  have buf: "length buf = 4016" unfolding buf_def using room by (intro length_read_at) simp
  have out: "length out = 4016" using assms(6) h buf by (metis handler_in_place_def snd_conv)
  have len: "len \<le> 4016" using assms(7) [of buf] h buf by simp
  define m1 where "m1 = write_at (s * 4096 + 72) out (pl_mem P)"
  have l1: "length m1 = length (pl_mem P)" unfolding m1_def using room out by (intro length_write_at) simp
  let ?sv1 = "sv\<lparr>sv_response_pool := P\<lparr>pl_mem := m1\<rparr>\<rparr>"
  obtain a sv2 where a: "ack_processed rq ?sv1 = (a, sv2)" by fastforce
  obtain hd sv3 where hd: "response_header_for rq st (word_of_nat len) a sv2 = (hd, sv3)" by fastforce
  have f2: "sv2 = ?sv1\<lparr>sv_last_processed_seq := sv_last_processed_seq sv2\<rparr>" by (rule ack_processed_frame [OF a])
  have f3: "sv3 = sv2\<lparr>sv_pending_context_switch := sv_pending_context_switch sv3\<rparr>" by (rule response_header_frame [OF hd])
  have sv3: "sv_response_pool sv3 = P\<lparr>pl_mem := m1\<rparr>" "sv_connections sv3 = sv_connections sv"
    by (subst f3, subst f2, simp)+
  define m2 where "m2 = write_at (s * 4096 + 16) (response_image hd) m1"
  have l2: "length m2 = length (pl_mem P)" unfolding m2_def using room l1 by (subst length_write_at) (simp_all add: block_sizes)
  obtain addr where addr: "slot_data_addr P s = Some addr" using assms(2) by (simp add: slot_data_addr_def s_def P_def)
  let ?wr = "\<lparr>wr_op = RdmaWrite, wr_remote_addr = ir_client_slot_addr rq, wr_rkey = ir_client_slot_rkey rq,
      wr_local_addr = addr, wr_len = word_of_nat (56 + len), wr_lkey = pl_lkey P, wr_signaled = ir_req_id rq\<rparr>"
  let ?conn = "conn\<lparr>cn_sq_attempts := cn_sq_attempts conn + 1, cn_sq := cn_sq conn @ [?wr]\<rparr>"
  let ?sv4 = "server_mark_needs_flush (ir_conn_id rq)
      (set_server_conn (ir_conn_id rq) ?conn (sv3\<lparr>sv_response_pool := P\<lparr>pl_mem := m2\<rparr>\<rparr>))"
  have c1: "server_conn ?sv1 (ir_conn_id rq) = Some conn" using assms(3) by (simp add: server_conn_def)
  have gs: "get_slot (P\<lparr>pl_mem := m1\<rparr>) s = Some (s * 4096)" "slot_data_addr (P\<lparr>pl_mem := m1\<rparr>) s = Some addr"
    using assms(2) addr by (simp_all add: get_slot_def block_sizes s_def P_def)
  have send: "send_response_zero_copy (submit (ir_conn_id rq)) rq st len ?sv1 = (Ok (), ?sv4)"
    using c1 gs a hd sv3 assms(4)
    by (simp add: send_response_zero_copy_def emit_wqe_def response_write_to_def data_ptr_def block_sizes m2_def
        flip: s_def)
  have gs0: "get_slot P s = Some (s * 4096)" using assms(2) by (simp add: get_slot_def block_sizes s_def P_def)
  have off: "data_ptr (s * 4096) + RESPONSE_HEADER_SIZE = s * 4096 + 72"
    "MESSAGE_BLOCK_SIZE - (RESPONSE_HEADER_SIZE + 8) = 4016" by (simp_all add: data_ptr_def block_sizes)
  have hr: "handle_request handler submit rq sv = (Ok (True, True), ?sv4)"
    using gs0 assms(5) h send unfolding buf_def m1_def
    by (simp add: handle_request_def off Let_def flip: s_def P_def)
  have conn': "server_conn ?sv4 (ir_conn_id rq) = Some ?conn"
    using assms(3) sv3(2) by (auto simp: server_conn_def get_flat_def set_server_conn_def server_mark_needs_flush_def split: if_splits)
  have rp: "sv_response_pool ?sv4 = P\<lparr>pl_mem := m2\<rparr>"
    by (simp add: set_server_conn_def server_mark_needs_flush_def)
  have image: "read_at (s * 4096 + 16) 56 m2 = response_image hd"
    unfolding m2_def using read_write_same [of "s * 4096 + 16" "response_image hd" m1] room l1 by (simp add: block_sizes)
  have "read_at (s * 4096 + 72) 4016 m1 = out"
    unfolding m1_def using read_write_same [of "s * 4096 + 72" out "pl_mem P"] room out by simp
  then have "read_at (s * 4096 + 72) len m1 = take len out"
    using len by (metis min.absorb1 read_at_def take_take)
  then have body: "read_at (s * 4096 + 72) len m2 = take len out"
    unfolding m2_def using room l1 by (subst read_write_at) (simp_all add: block_sizes)
  show thesis
    by (rule that [OF hr conn', of ?wr buf hd])
      (use l2 rp addr image body h len buf response_header_fields [OF hd] ack_processed_ge [OF a] in
        \<open>simp_all add: same_pool_def flip: s_def P_def\<close>)
qed

section \<open>The round trip\<close>

text \<open>
  Connection \<open>c\<close> of the client leads to connection \<open>sc\<close> of the server: the client knows the
  address of the pool and the number of the connection, and the slot of its next direct call
  is one the server polls for that connection in the active group.
\<close>

definition direct_link :: "rpc_client \<Rightarrow> nat \<Rightarrow> connection_state \<Rightarrow> rpc_server \<Rightarrow> nat \<Rightarrow> nat list \<Rightarrow> bool" where
  "direct_link cl c cs sv sc conns \<longleftrightarrow>
     get_conn_state cl c = Some cs \<and>
     (\<exists>entry. get_connection (cl_mapping cl) c = Some entry \<and>
        slot_data_addr (sv_processing_pool sv) 0 = Some (me_remote_slot_addr entry)) \<and>
     cs_server_conn_id cs = word_of_nat sc \<and> sc < 2 ^ 32 \<and>
     current_group_connections (sv_scheduler sv) = Some conns \<and> sc \<in> set conns \<and>
     (\<exists>e. get_connection (sv_mapping sv) sc = Some e \<and> server_slot_idx cs \<in> set (me_slots e)) \<and>
     server_slot_idx cs < pl_num_slots (sv_processing_pool sv)"

definition region :: "message_pool \<Rightarrow> u64 \<times> bytes" where
  "region p = (pl_base p, pl_mem p)"

text \<open>The state of the server after the device has executed a work request of the client.\<close>

definition deliver_request :: "rdma_wr \<Rightarrow> rpc_client \<Rightarrow> rpc_server \<Rightarrow> rpc_server" where
  "deliver_request wr cl sv =
     sv\<lparr>sv_processing_pool := (sv_processing_pool sv)
          \<lparr>pl_mem := rdma_write_place wr (region (cl_pool cl)) (region (sv_processing_pool sv))\<rparr>\<rparr>"

text \<open>The pool of the client after the device has executed a response of the server.\<close>

definition deliver_response :: "rdma_wr \<Rightarrow> rpc_server \<Rightarrow> rpc_client \<Rightarrow> message_pool" where
  "deliver_response wr sv cl =
     (cl_pool cl)\<lparr>pl_mem := rdma_write_place wr (region (sv_response_pool sv)) (region (cl_pool cl))\<rparr>"

lemma request_delivered:
  assumes "call_direct submit c t payload cl = (Ok pn, cl')" "direct_link cl c cs sv sc conns"
    and "pool_placed (cl_pool cl)" "pool_placed (sv_processing_pool sv)" "length payload \<le> 4032"
    and "get_conn cl' c = Some conn'" "polled_slots sv conns \<inter> waiting (sv_processing_pool sv) = {}"
  obtains rq nx raddr where
    "poll_request (deliver_request (last (cn_sq conn')) cl' sv) =
       (Ok (Some rq), (deliver_request (last (cn_sq conn')) cl' sv)
          \<lparr>sv_processing_pool := clear_valid (server_slot_idx cs) (sv_processing_pool (deliver_request (last (cn_sq conn')) cl' sv)),
           sv_next_expected_slot := nx\<rparr>)"
    "ir_payload (clear_valid (server_slot_idx cs) (sv_processing_pool (deliver_request (last (cn_sq conn')) cl' sv))) rq = Some payload"
    "ir_rpc_type rq = t" "ir_conn_id rq = sc" "ir_slot_index rq = server_slot_idx cs" "ir_req_id rq = pn_req_id pn"
    "ir_slot_seq rq = cs_next_slot_seq cs" "ir_client_slot_addr rq = raddr"
    "slot_data_addr (cl_pool cl') (pn_slot_index pn) = Some raddr" "pool_placed (cl_pool cl')"
proof (rule call_direct_Ok [OF assms(1)])
  fix conn cs0 entry i j raddr laddr mem
  assume o: "get_conn_state cl c = Some cs0" "get_connection (cl_mapping cl) c = Some entry"
    "slot_data_addr (cl_pool cl) i = Some raddr" "slot_data_addr (cl_pool cl) j = Some laddr"
    "put_request (data_ptr (j * 4096)) (direct_header cl cs0 t payload raddr) payload (pl_mem (cl_pool cl)) = Some mem"
    "pn = \<lparr>pn_slot_index = i, pn_req_id = cl_next_req_id cl, pn_conn_id = c, pn_send_slot_index = None\<rparr>"
    "cl_pool cl' = (cl_pool cl)\<lparr>pl_mem := mem\<rparr>"
    "get_conn cl' c = Some (conn\<lparr>cn_sq_attempts := cn_sq_attempts conn + 1,
       cn_sq := cn_sq conn @ [direct_wr cl entry cs0 laddr]\<rparr>)"
  have cs: "cs0 = cs" using o(1) assms(2) by (simp add: direct_link_def)
  define s where "s = server_slot_idx cs"
  define Q where "Q = sv_processing_pool sv"
  define h where "h = direct_header cl cs t payload raddr"
  let ?wr = "direct_wr cl entry cs laddr"
  have wr: "last (cn_sq conn') = ?wr" using o(8) assms(6) cs by simp
  have link: "slot_data_addr Q 0 = Some (me_remote_slot_addr entry)" "cs_server_conn_id cs = word_of_nat sc" "sc < 2 ^ 32"
    "current_group_connections (sv_scheduler sv) = Some conns" "s \<in> polled_slots sv conns" "s < pl_num_slots Q"
    using assms(2) o(2) by (auto simp: direct_link_def polled_slots_def s_def Q_def)
  have room: "j * 4096 + 16 + 4080 \<le> length (pl_mem (cl_pool cl))"
    using slot_data_addr_offset(3) [OF assms(3) o(4)] by simp
  obtain mem' where m: "put_request (j * 4096 + 16) h payload (pl_mem (cl_pool cl)) = Some mem'"
    "length mem' = length (pl_mem (cl_pool cl))" "holds_request mem' (j * 4096 + 16) h payload"
    using put_request_Some [OF room assms(5)] by metis
  then have mem: "mem' = mem" using o(5) by (simp add: h_def cs data_ptr_def block_sizes)
  have placed: "pool_placed (cl_pool cl')" using assms(3) m(2) by (simp add: o(7) pool_placed_def mem)
  have raddr: "slot_data_addr (cl_pool cl') i = Some raddr" "slot_data_addr (cl_pool cl') j = Some (wr_local_addr ?wr)"
    using o(3,4) by (simp_all add: o(7) direct_wr_def)
  have remote: "slot_data_addr Q s = Some (wr_remote_addr ?wr)"
    using link(1,6) by (auto simp: slot_data_addr_def direct_wr_def s_def block_sizes split: if_splits)
  have len: "unat (wr_len ?wr) = 4080" by (simp add: direct_wr_def block_sizes)
  define mem2 where "mem2 = rdma_write_place ?wr (pl_base (cl_pool cl'), pl_mem (cl_pool cl')) (pl_base Q, pl_mem Q)"
  note copy = rdma_write_between [OF placed raddr(2) assms(4) [folded Q_def] remote len order.refl, folded mem2_def]
  let ?Q = "Q\<lparr>pl_mem := mem2\<rparr>"
  have sv1: "deliver_request (last (cn_sq conn')) cl' sv = sv\<lparr>sv_processing_pool := ?Q\<rparr>"
    by (simp add: deliver_request_def wr region_def mem2_def flip: Q_def)
  have sized: "pool_sized ?Q" using copy(1) assms(4) by (simp add: pool_sized_def pool_placed_def Q_def)
  have s1: "s * 4096 + 16 + 4080 \<le> length mem2" "j * 4096 + 16 + 4080 \<le> length mem"
    using slot_in_range [OF sized, of s] link(6) room m(2) mem by simp_all
  have holds: "holds_request (pl_mem ?Q) (s * 4096 + 16) h payload"
    using holds_request_copy [of "j * 4096 + 16" mem "s * 4096 + 16" mem2 h payload] copy(2) m(3) assms(5) s1
    by (simp add: o(7) mem)
  have waits: "waits ?Q s" using waits_holds [OF holds _ assms(5)] link(6) by simp
  have others: "waits ?Q s' \<longleftrightarrow> waits Q s'" if "s' \<noteq> s" for s'
    using waits_elsewhere [OF copy(3) that] .
  have "polled_slots sv conns \<inter> waiting ?Q \<subseteq> {s}"
    using assms(7) others by (auto simp: waiting_def simp flip: Q_def)
  then obtain nx where poll: "poll_request (sv\<lparr>sv_processing_pool := ?Q\<rparr>) =
      (Ok (Some (incoming_of (request_read_from (pl_mem ?Q) (s * 4096 + 16)) (s * 4096 + 16) s)),
       sv\<lparr>sv_processing_pool := clear_valid s ?Q, sv_next_expected_slot := nx\<rparr>)"
    using poll_only_request [of "sv\<lparr>sv_processing_pool := ?Q\<rparr>" conns s] link(4,5) waits
    by (auto simp: polled_slots_def)
  have fields: "rq_payload_len h = word_of_nat (length payload)" "rq_req_id h = pn_req_id pn" "rq_rpc_type h = t"
    "rq_sender_conn_id h = word_of_nat sc" "rq_client_slot_addr h = raddr" "rq_slot_seq h = cs_next_slot_seq cs"
    using link(2) o(6) by (simp_all add: h_def direct_header_def request_new_with_seq_def)
  have pr: "s < pl_num_slots ?Q" using link(6) by simp
  from polled_request [OF holds fields(1) assms(5) sized pr] poll sv1 fields raddr(1) placed o(6) link(3)
  show thesis
    by (intro that) (auto simp: unat_u32_small simp flip: s_def)
qed

lemma read_at_add: "read_at off (a + b) buf = read_at off a buf @ read_at (off + a) b buf"
  by (simp add: read_at_def take_add add.commute [of off])

text \<open>A response block written into the slot a call waits for is what the call polls.\<close>

lemma response_polled:
  assumes "read_at (i * 4096 + 16) (56 + n) mem = img @ body" "img = response_image h" "length body = n"
    and "i < pl_num_slots p" "length mem = pl_num_slots p * 4096" "n \<le> 4016"
    and "pn_slot_index pn = i" "rs_magic h = RESPONSE_MAGIC" "rs_req_id h = pn_req_id pn"
    and "rs_payload_len h = word_of_nat n" "has_credit_ack h"
  shows "\<exists>resp. pending_poll (p\<lparr>pl_mem := mem\<rparr>) pn = Some resp \<and> rp_header resp = h \<and>
    rp_payload (p\<lparr>pl_mem := mem\<rparr>) resp = body \<and> rp_acked_slot_seq resp = Some (rs_acked_slot_seq h)"
proof -
  have split: "read_at (i * 4096 + 16) (56 + n) mem = read_at (i * 4096 + 16) 56 mem @ read_at (i * 4096 + 72) n mem"
    using read_at_add [of "i * 4096 + 16" 56 n mem] by (simp add: add.commute)
  have "i * 4096 + 4096 \<le> length mem"
    using mult_le_mono1 [of "Suc i" "pl_num_slots p" 4096] assms(4,5) by simp
  then have "length (read_at (i * 4096 + 16) 56 mem) = length img" by (simp add: assms(2) length_read_at block_sizes)
  then have im: "read_at (i * 4096 + 16) 56 mem = img" "read_at (i * 4096 + 72) n mem = body"
    using assms(1) split by simp_all
  then have h: "response_read_from mem (i * 4096 + 16) = h"
    using rsh.reader_at [of "i * 4096 + 16" mem h] by (simp add: assms(2) block_sizes)
  then have "read_u32 mem (i * 4096 + 16) = RESPONSE_MAGIC"
    using assms(8) by (auto simp: response_read_from_def)
  moreover have "unat (rs_payload_len h) = n" using assms(6,10) by (simp add: unat_u32_small)
  ultimately show ?thesis
    using assms(4,7,9,11) h im(2)
    by (simp add: pending_poll_def get_slot_def data_ptr_def block_sizes rp_payload_def add.commute)
qed

lemma response_delivered:
  assumes placed: "pool_placed P" "slot_data_addr P s = Some (wr_local_addr wr)"
    and remote: "pool_placed C" "slot_data_addr C (pn_slot_index pn) = Some (wr_remote_addr wr)"
    and wl: "wr_len wr = word_of_nat (56 + len)" "len \<le> 4016" "length out = 4016"
    and block: "read_at (s * 4096 + 16) 56 (pl_mem P) = response_image h" "read_at (s * 4096 + 72) len (pl_mem P) = take len out"
    and h: "rs_magic h = RESPONSE_MAGIC" "rs_req_id h = pn_req_id pn" "rs_payload_len h = word_of_nat len" "has_credit_ack h"
  obtains resp where "pending_poll (C\<lparr>pl_mem := rdma_write_place wr (region P) (region C)\<rparr>) pn = Some resp"
    "rp_header resp = h" "rp_acked_slot_seq resp = Some (rs_acked_slot_seq h)"
    "rp_payload (C\<lparr>pl_mem := rdma_write_place wr (region P) (region C)\<rparr>) resp = take len out"
proof -
  let ?mem = "rdma_write_place wr (pl_base P, pl_mem P) (pl_base C, pl_mem C)"
  have "unat (wr_len wr) = 56 + len" unfolding wl(1) by (rule unat_u32_small) (use wl in simp)
  note copy = rdma_write_between [OF placed remote this]
  have "read_at (s * 4096 + 16) (56 + len) (pl_mem P) = response_image h @ take len out"
    using read_at_add [of "s * 4096 + 16" 56 len "pl_mem P"] block by (simp add: add.commute)
  then have m: "read_at (pn_slot_index pn * 4096 + 16) (56 + len) ?mem = response_image h @ take len out"
    using copy(2) wl(2) by simp
  have i: "pn_slot_index pn < pl_num_slots C" "length ?mem = pl_num_slots C * 4096"
    using slot_data_addr_offset(2) [OF remote] copy(1) remote(1) wl(2) by (simp_all add: pool_placed_def)
  from response_polled [OF m refl _ i wl(2) refl h] wl that show thesis by (auto simp: region_def)
qed


text \<open>A server with eight slots and one connection, for the client of the earlier example.\<close>

definition sample_pool :: "u64 \<Rightarrow> message_pool" where
  "sample_pool base =
     \<lparr>pl_base = base, pl_mem = replicate (8 * 4096) 0, pl_lkey = 1, pl_rkey = 2, pl_num_slots = 8,
      pl_slot_data_size = 4080, pl_free_list = [0..<8]\<rparr>"

definition sample_rpc_server :: rpc_server where
  "sample_rpc_server =
     \<lparr>sv_processing_pool = sample_pool 0x8FFF0, sv_warmup_pool = sample_pool 0xA0000,
      sv_response_pool = sample_pool 0xB0000, sv_mapping = vm_new, sv_connections = [], sv_max_connections = 4,
      sv_scheduler = scheduler_new 0 2 100, sv_event_buffer_addrs = [], sv_needs_flush = [],
      sv_warmup_buffer_infos = [], sv_shared_cqs = False, sv_endpoint_entries = None,
      sv_pending_context_switch = [], sv_next_expected_slot = [], sv_conn_buf = [], sv_last_processed_seq = []\<rparr>"

lemma sample_pool_ok: "pool_placed (sample_pool 0x8FFF0)" "pool_placed (sample_pool 0xB0000)" "pool_sized (sample_pool b)"
  "pl_num_slots (sample_pool b) = 8"
  by (simp_all add: pool_placed_def sample_pool_def pool_sized_def)

lemma read_zeros: "p + 4 \<le> n \<Longrightarrow> read_u32 (replicate n 0) p = 0"
  by (simp add: read_u32_def read_at_def le_word_def numeral_eq_Suc)

lemma sample_pool_idle: "waiting (sample_pool b) = {}"
proof -
  have "\<not> waits (sample_pool b) t" for t
    using mult_le_mono1 [of "Suc t" 8 4096]
    by (auto simp: waits_def sample_pool_def trailer_read_from_def block_sizes Let_def read_zeros)
  then show ?thesis by (simp add: waiting_def)
qed

lemma map_wf_new: "map_wf 0 k vm_new"
  by (simp add: map_wf_def vm_inv_new) (simp add: vm_new_def get_connection_def)

lemma sample_rpc_server_wf: "server_wf sample_rpc_server"
proof -
  have "sched_wf 0 (scheduler_new 0 2 100)"
    by (auto simp: sched_wf_def scheduler_new_def Let_def comp_def group_new_def)
  then show ?thesis
    by (simp add: map_wf_new sample_rpc_server_def server_wf_def pools_sized_def sample_pool_ok)
qed

lemma sample_server_connected:
  obtains sv sconn where "server_wf sv" "sv_processing_pool sv = sample_pool 0x8FFF0"
    "sv_response_pool sv = sample_pool 0xB0000" "server_conn sv 0 = Some sconn"
    "direct_link sample_client 0 sample_state sv 0 [0]"
proof -
  let ?sv = "snd (server_add_connection True (Some (7, 1)) sample_rpc_server)"
  have wf: "server_wf ?sv" using add_connection_wf [OF sample_rpc_server_wf] by blast
  obtain m where m: "bind_slots 0 [0..<2] (register_connection 0 vm_new) = (Ok (), m)"
    using map_wf_add [OF map_wf_new, of 2] unfolding mult_0 add_0 by blast
  have d: "sv_processing_pool ?sv = sample_pool 0x8FFF0 \<and> sv_response_pool ?sv = sample_pool 0xB0000 \<and>
      (\<exists>sconn. sv_connections ?sv = [Some sconn]) \<and>
      gs_current_group (sv_scheduler ?sv) = 0 \<and> length (gs_groups (sv_scheduler ?sv)) = 2 \<and> sv_max_connections ?sv = 4"
    using m
    by (simp add: server_add_connection_def sample_rpc_server_def Let_def connection_new_def sample_pool_ok
        scheduler_add_connection_def scheduler_new_def)
  then obtain sconn where c: "server_conn ?sv 0 = Some sconn" by (auto simp: server_conn_def get_flat_def)
  have conns: "current_group_connections (sv_scheduler ?sv) = Some [0]"
    using current_conns [of 1 "sv_scheduler ?sv"] wf d by (auto simp: server_wf_def)
  have "map_option me_slots (get_connection (sv_mapping ?sv) 0) = Some [0..<2]"
    using wf d by (auto simp: server_wf_def map_wf_def slots_per_conn_def sample_pool_ok upt_rec
        simp del: map_option_eq_Some)
  then obtain e where e: "get_connection (sv_mapping ?sv) 0 = Some e" "me_slots e = [0..<2]" by auto
  have "server_slot_idx sample_state = 0"
    by (simp add: server_slot_idx_def sample_state_fields)
  moreover have "cs_server_conn_id sample_state = 0" by (simp add: sample_state_def connection_state_new_def)
  ultimately have "direct_link sample_client 0 sample_state ?sv 0 [0]"
    using conns e d sample_lookup
    by (auto simp: direct_link_def slot_data_addr_def sample_pool_def block_sizes)
  with that [OF wf] d c show thesis by blast
qed


end
