(* ===== verification/Ipc.thy ===== *)
theory Ipc
  imports Mempc_Onesided Outcome
begin

text \<open>
  Calls between processes over shared memory (\<^verbatim>\<open>ipc/src/lib.rs\<close>).  The region holds a header and
  one block per client: a flag, a ring of requests, a ring of responses and an extra buffer.
  The rings are those of \<^verbatim>\<open>mempc/src/onesided.rs\<close>; a ring of the model carries the slots together
  with the position of its one sender and of its one receiver, which in the source are fields of
  the server and of the client.  Every access to a ring is one step: the sender makes a value
  visible with its last write, the one of the generation.  Creating and mapping the region is
  the business of the operating system and enters as a flag that tells whether it succeeded.
\<close>

section \<open>Header and layout\<close>

definition MAGIC :: u64 where "MAGIC = 0x5250435346465721"
definition VERSION :: u32 where "VERSION = 3"
definition HEADER_SIZE :: u64 where "HEADER_SIZE = 64"
definition CACHE_LINE_SIZE :: u64 where "CACHE_LINE_SIZE = 64"

definition align_up :: "u64 \<Rightarrow> u64 \<Rightarrow> u64" where
  "align_up val align = (val + align - 1) AND NOT (align - 1)"

record header =
  hd_magic :: u64
  hd_version :: u32
  hd_max_clients :: u32
  hd_ring_depth :: u32
  hd_req_slot_size :: u32
  hd_resp_slot_size :: u32
  hd_extra_buffer_size :: u32
  hd_server_alive :: bool
  hd_next_client_id :: u32

definition per_client_block_size :: "u64 \<Rightarrow> u64 \<Rightarrow> u32 \<Rightarrow> u32 \<Rightarrow> u64" where
  "per_client_block_size req_slot_size resp_slot_size ring_depth extra_buffer_size =
     (let control_size = CACHE_LINE_SIZE;
          req_ring_size = req_slot_size * ucast ring_depth;
          resp_ring_size = resp_slot_size * ucast ring_depth
      in align_up (control_size + req_ring_size + resp_ring_size + ucast extra_buffer_size) CACHE_LINE_SIZE)"

definition total_shm_size :: "u64 \<Rightarrow> u64 \<Rightarrow> u32 \<Rightarrow> u32 \<Rightarrow> u32 \<Rightarrow> u64" where
  "total_shm_size req_slot_size resp_slot_size max_clients ring_depth extra_buffer_size =
     HEADER_SIZE +
     per_client_block_size req_slot_size resp_slot_size ring_depth extra_buffer_size * ucast max_clients"

text \<open>Where the parts of the block of client \<open>i\<close> begin, as both sides compute it.\<close>

definition block_base :: "u64 \<Rightarrow> u64 \<Rightarrow> u32 \<Rightarrow> u32 \<Rightarrow> u64 \<Rightarrow> u64" where
  "block_base req_slot_size resp_slot_size ring_depth extra_buffer_size i =
     HEADER_SIZE + i * per_client_block_size req_slot_size resp_slot_size ring_depth extra_buffer_size"

definition req_ring_base :: "u64 \<Rightarrow> u64" where
  "req_ring_base base = base + CACHE_LINE_SIZE"

definition resp_ring_base :: "u64 \<Rightarrow> u32 \<Rightarrow> u64 \<Rightarrow> u64" where
  "resp_ring_base req_slot_size ring_depth base = base + (CACHE_LINE_SIZE + ucast ring_depth * req_slot_size)"

definition extra_base :: "u64 \<Rightarrow> u64 \<Rightarrow> u32 \<Rightarrow> u64 \<Rightarrow> u64" where
  "extra_base req_slot_size resp_slot_size ring_depth base =
     base + (CACHE_LINE_SIZE + req_slot_size * ucast ring_depth + resp_slot_size * ucast ring_depth)"

section \<open>The shared region\<close>

record ('q, 'p) client_block =
  cb_alive :: bool
  cb_req :: "'q onesided"
  cb_resp :: "'p response onesided"

record ('q, 'p) shared =
  sh_header :: header
  sh_blocks :: "('q, 'p) client_block list"

datatype ipc_call_error = ServerDisconnected

datatype connect_error = ServerNotAlive | ServerFull | LayoutMismatch | IoFailed

section \<open>The server\<close>

record ipc_server =
  isv_max_clients :: u32
  isv_ring_depth :: u32
  isv_extra_ptrs :: "u64 list"
  isv_extra_buffer_size :: u32
  isv_scan_pos :: nat
  isv_recv_scan_pos :: nat
  isv_req_avail :: "nat list"
  isv_recv_start :: nat

record request_token =
  tk_client_id :: u32
  tk_slot_idx :: u64

record 'q recv_handle =
  rh_client_idx :: nat
  rh_slot_idx :: nat
  rh_data :: 'q

definition block_init :: "u32 \<Rightarrow> ('q, 'p) client_block" where
  "block_init ring_depth =
     \<lparr>cb_alive = False, cb_req = create_spsc (unat ring_depth), cb_resp = create_spsc (unat ring_depth)\<rparr>"

definition server_create ::
  "bool \<Rightarrow> u64 \<Rightarrow> u64 \<Rightarrow> u32 \<Rightarrow> u32 \<Rightarrow> u32 \<Rightarrow> (ipc_server \<times> ('q, 'p) shared, unit) outcome" where
  "server_create shm_ok req_slot_size resp_slot_size max_clients ring_depth extra_buffer_size =
     (if \<not> is_pow2 (unat ring_depth) then Panic
      else if max_clients = 0 then Panic
      else if \<not> shm_ok then Err ()
      else Ok
        (\<lparr>isv_max_clients = max_clients, isv_ring_depth = ring_depth,
          isv_extra_ptrs = map (\<lambda>i. extra_base req_slot_size resp_slot_size ring_depth
            (block_base req_slot_size resp_slot_size ring_depth extra_buffer_size (word_of_nat i))) [0..<unat max_clients],
          isv_extra_buffer_size = extra_buffer_size, isv_scan_pos = 0, isv_recv_scan_pos = 0,
          isv_req_avail = replicate (unat max_clients) 0, isv_recv_start = 0\<rparr>,
         \<lparr>sh_header = \<lparr>hd_magic = MAGIC, hd_version = VERSION, hd_max_clients = max_clients,
            hd_ring_depth = ring_depth, hd_req_slot_size = ucast req_slot_size,
            hd_resp_slot_size = ucast resp_slot_size, hd_extra_buffer_size = extra_buffer_size,
            hd_server_alive = True, hd_next_client_id = 0\<rparr>,
          sh_blocks = replicate (unat max_clients) (block_init ring_depth)\<rparr>))"

text \<open>
  The loops of \<^verbatim>\<open>poll\<close> and \<^verbatim>\<open>poll_with_skip\<close>: the number of requests found, the scan position and
  the number of requests per client.  The positions stay below the number of clients.
\<close>

primrec poll_loop ::
  "nat \<Rightarrow> ipc_server \<Rightarrow> ('q, 'p) shared \<Rightarrow> u32 \<times> nat \<times> nat list \<Rightarrow> u32 \<times> nat \<times> nat list" where
  "poll_loop 0 sv mem st = st"
| "poll_loop (Suc n) sv mem st =
     (let (count, scan, req_avail) = st;
          idx = scan;
          scan = (scan + 1) mod unat (isv_max_clients sv);
          block = sh_blocks mem ! idx
      in if \<not> cb_alive block then poll_loop n sv mem (count, scan, req_avail[idx := 0])
         else let avail = count_available (isv_ring_depth sv) (cb_req block)
              in poll_loop n sv mem (count + word_of_nat avail, scan, req_avail[idx := avail]))"

definition server_poll :: "ipc_server \<Rightarrow> ('q, 'p) shared \<Rightarrow> u32 \<times> ipc_server" where
  "server_poll sv mem =
     (let (count, scan, req_avail) =
            poll_loop (unat (isv_max_clients sv)) sv mem (0, isv_scan_pos sv, isv_req_avail sv)
      in (count, sv\<lparr>isv_req_avail := req_avail, isv_scan_pos := scan, isv_recv_start := scan,
                    isv_recv_scan_pos := 0\<rparr>))"

primrec skip_loop ::
  "bool list \<Rightarrow> nat \<Rightarrow> ipc_server \<Rightarrow> ('q, 'p) shared \<Rightarrow> u32 \<times> nat \<times> nat list \<Rightarrow> u32 \<times> nat \<times> nat list" where
  "skip_loop skip 0 sv mem st = st"
| "skip_loop skip (Suc n) sv mem st =
     (let (count, scan, req_avail) = st;
          idx = scan;
          scan = (scan + 1) mod unat (isv_max_clients sv);
          block = sh_blocks mem ! idx
      in if idx < length skip \<and> skip ! idx then skip_loop skip n sv mem (count, scan, req_avail[idx := 0])
         else if \<not> cb_alive block then skip_loop skip n sv mem (count, scan, req_avail[idx := 0])
         else let avail = count_available (isv_ring_depth sv) (cb_req block)
              in skip_loop skip n sv mem (count + word_of_nat avail, scan, req_avail[idx := avail]))"

definition poll_with_skip :: "bool list \<Rightarrow> ipc_server \<Rightarrow> ('q, 'p) shared \<Rightarrow> u32 \<times> ipc_server" where
  "poll_with_skip skip sv mem =
     (let (count, scan, req_avail) =
            skip_loop skip (unat (isv_max_clients sv)) sv mem (0, isv_scan_pos sv, isv_req_avail sv)
      in (count, sv\<lparr>isv_req_avail := req_avail, isv_scan_pos := scan, isv_recv_start := scan,
                    isv_recv_scan_pos := 0\<rparr>))"

function server_recv ::
  "ipc_server \<Rightarrow> ('q, 'p) shared \<Rightarrow> 'q recv_handle option \<times> ipc_server \<times> ('q, 'p) shared" where
  "server_recv sv mem =
     (if isv_recv_scan_pos sv < unat (isv_max_clients sv) then
        let client_idx = (isv_recv_start sv + isv_recv_scan_pos sv) mod unat (isv_max_clients sv);
            next = sv\<lparr>isv_recv_scan_pos := isv_recv_scan_pos sv + 1\<rparr>
        in if 0 < isv_req_avail sv ! client_idx then
             let block = sh_blocks mem ! client_idx
             in case raw_try_recv (cb_req block) of
                  (Some (slot_idx, data), ring) \<Rightarrow>
                    (Some \<lparr>rh_client_idx = client_idx, rh_slot_idx = slot_idx, rh_data = data\<rparr>,
                     sv\<lparr>isv_req_avail := (isv_req_avail sv)[client_idx := isv_req_avail sv ! client_idx - 1]\<rparr>,
                     mem\<lparr>sh_blocks := (sh_blocks mem)[client_idx := block\<lparr>cb_req := ring\<rparr>]\<rparr>)
                | (None, ring) \<Rightarrow> server_recv next mem
           else server_recv next mem
      else (None, sv, mem))"
  by pat_completeness auto

termination server_recv
  by (relation "measure (\<lambda>(sv, mem). unat (isv_max_clients sv) - isv_recv_scan_pos sv)") auto

declare server_recv.simps [simp del]

definition into_token :: "'q recv_handle \<Rightarrow> request_token" where
  "into_token h = \<lparr>tk_client_id = word_of_nat (rh_client_idx h), tk_slot_idx = word_of_nat (rh_slot_idx h)\<rparr>"

definition send_response :: "u64 \<Rightarrow> 'p \<Rightarrow> ('q, 'p) client_block \<Rightarrow> ('q, 'p) client_block" where
  "send_response token resp b =
     b\<lparr>cb_resp := os_publish (snd (raw_try_send \<lparr>rs_token = token, rs_data = resp\<rparr> (cb_resp b)))\<rparr>"

text \<open>\<open>None\<close>: the index is out of range and the server panics.\<close>

definition handle_reply :: "'q recv_handle \<Rightarrow> 'p \<Rightarrow> ('q, 'p) shared \<Rightarrow> ('q, 'p) shared option" where
  "handle_reply h resp mem =
     (let idx = rh_client_idx h
      in if idx < length (sh_blocks mem)
         then Some (mem\<lparr>sh_blocks := (sh_blocks mem)
                [idx := send_response (word_of_nat (rh_slot_idx h)) resp (sh_blocks mem ! idx)]\<rparr>)
         else None)"

definition server_reply :: "request_token \<Rightarrow> 'p \<Rightarrow> ('q, 'p) shared \<Rightarrow> ('q, 'p) shared option" where
  "server_reply token resp mem =
     (let idx = unat (tk_client_id token)
      in if idx < length (sh_blocks mem)
         then Some (mem\<lparr>sh_blocks := (sh_blocks mem)
                [idx := send_response (tk_slot_idx token) resp (sh_blocks mem ! idx)]\<rparr>)
         else None)"

definition is_client_connected :: "ipc_server \<Rightarrow> ('q, 'p) shared \<Rightarrow> u32 \<Rightarrow> bool" where
  "is_client_connected sv mem client_id =
     (let client_idx = unat client_id
      in if client_idx \<ge> unat (isv_max_clients sv) then False else cb_alive (sh_blocks mem ! client_idx))"

definition connected_clients :: "ipc_server \<Rightarrow> ('q, 'p) shared \<Rightarrow> nat" where
  "connected_clients sv mem =
     length (filter (\<lambda>i. is_client_connected sv mem (word_of_nat i)) [0..<unat (isv_max_clients sv)])"

definition client_extra_buffer :: "ipc_server \<Rightarrow> u32 \<Rightarrow> u64 option" where
  "client_extra_buffer sv client_id =
     (let idx = unat client_id
      in if isv_extra_buffer_size sv = 0 \<or> idx \<ge> unat (isv_max_clients sv) then None
         else Some (isv_extra_ptrs sv ! idx))"

definition server_drop :: "('q, 'p) shared \<Rightarrow> ('q, 'p) shared" where
  "server_drop mem = mem\<lparr>sh_header := (sh_header mem)\<lparr>hd_server_alive := False\<rparr>\<rparr>"

section \<open>The client\<close>

text \<open>\<open>icl_responses\<close> are the calls of the callback \<^verbatim>\<open>on_response\<close>, the oldest first.\<close>

record ('u, 'p) ipc_client =
  icl_client_id :: u32
  icl_ring_depth :: u32
  icl_extra_ptr :: u64
  icl_extra_buffer_size :: u32
  icl_in_flight :: u32
  icl_user_data :: "'u option list"
  icl_responses :: "('u \<times> 'p) list"

text \<open>
  \<open>open_header\<close> and \<open>open_all\<close> tell whether mapping the header and then the whole region succeeds;
  the sizes are those of the slots of the client's own types.
\<close>

definition client_connect ::
  "bool \<Rightarrow> bool \<Rightarrow> u64 \<Rightarrow> u64 \<Rightarrow> ('q, 'p) shared
     \<Rightarrow> (('u, 'p) ipc_client, connect_error) outcome \<times> ('q, 'p) shared" where
  "client_connect open_header open_all req_size resp_size mem =
     (let h = sh_header mem
      in if \<not> open_header then (Err IoFailed, mem)
         else if hd_magic h \<noteq> MAGIC then (Err LayoutMismatch, mem)
         else if hd_version h \<noteq> VERSION then (Err LayoutMismatch, mem)
         else if \<not> hd_server_alive h then (Err ServerNotAlive, mem)
         else if hd_req_slot_size h \<noteq> ucast req_size \<or> hd_resp_slot_size h \<noteq> ucast resp_size
         then (Err LayoutMismatch, mem)
         else if \<not> open_all then (Err IoFailed, mem)
         else
           let client_idx = hd_next_client_id h;
               mem = mem\<lparr>sh_header := h\<lparr>hd_next_client_id := client_idx + 1\<rparr>\<rparr>
           in if client_idx \<ge> hd_max_clients h then (Err ServerFull, mem)
              else
                let rd = hd_ring_depth h;
                    base = block_base (ucast (hd_req_slot_size h)) (ucast (hd_resp_slot_size h)) rd
                      (hd_extra_buffer_size h) (ucast client_idx);
                    b = sh_blocks mem ! unat client_idx;
                    b = b\<lparr>cb_alive := True,
                          cb_req := (cb_req b)\<lparr>os_mask := ucast rd - 1, os_head := 0, os_sends_since_publish := 0\<rparr>,
                          cb_resp := (cb_resp b)\<lparr>os_mask := ucast rd - 1, os_tail := 0\<rparr>\<rparr>
                in (Ok \<lparr>icl_client_id = client_idx, icl_ring_depth = rd,
                       icl_extra_ptr = extra_base (ucast (hd_req_slot_size h)) (ucast (hd_resp_slot_size h)) rd base,
                       icl_extra_buffer_size = hd_extra_buffer_size h, icl_in_flight = 0,
                       icl_user_data = replicate (unat rd) None, icl_responses = []\<rparr>,
                    mem\<lparr>sh_blocks := (sh_blocks mem)[unat client_idx := b]\<rparr>))"

definition is_server_alive :: "header \<Rightarrow> bool" where
  "is_server_alive h = hd_server_alive h"

text \<open>The operations of a client work on the client and its block.\<close>

type_synonym ('q, 'p, 'u) endpoint = "('u, 'p) ipc_client \<times> ('q, 'p) client_block"

function drain_responses ::
  "u32 \<Rightarrow> ('q, 'p, 'u) endpoint \<Rightarrow> (u32, ipc_call_error) outcome \<times> ('q, 'p, 'u) endpoint" where
  "drain_responses count (cl, b) =
     (if 0 < icl_in_flight cl then
        case raw_try_recv (cb_resp b) of
          (Some (_, response), ring) \<Rightarrow>
            let b1 = b\<lparr>cb_resp := ring\<rparr>;
                cl1 = cl\<lparr>icl_in_flight := icl_in_flight cl - 1\<rparr>;
                ud_idx = unat (rs_token response)
            in if ud_idx \<ge> length (icl_user_data cl1) then (Panic, (cl1, b1))
               else (case icl_user_data cl1 ! ud_idx of
                       None \<Rightarrow> (Panic, (cl1, b1))
                     | Some user_data \<Rightarrow>
                         drain_responses (count + 1)
                           (cl1\<lparr>icl_user_data := (icl_user_data cl1)[ud_idx := None],
                                icl_responses := icl_responses cl1 @ [(user_data, rs_data response)]\<rparr>, b1))
        | (None, ring) \<Rightarrow> (Ok count, (cl, b\<lparr>cb_resp := ring\<rparr>))
      else (Ok count, (cl, b)))"
  by pat_completeness auto

termination drain_responses
  by (relation "measure (\<lambda>(count, cl, b). unat (icl_in_flight cl))") (auto simp: unat_minus_one unat_gt_0 word_less_nat_alt)

declare drain_responses.simps [simp del]

definition client_poll ::
  "header \<Rightarrow> ('q, 'p, 'u) endpoint \<Rightarrow> (u32, ipc_call_error) outcome \<times> ('q, 'p, 'u) endpoint" where
  "client_poll h s =
     and_then (drain_responses 0 s)
       (\<lambda>count s. if count = 0 \<and> 0 < icl_in_flight (fst s) \<and> \<not> is_server_alive h
                  then (Err ServerDisconnected, s) else (Ok count, s))"

text \<open>
  One turn of the loop of \<^verbatim>\<open>call\<close>: with the next slot free the request is sent and the call ends
  (\<open>True\<close>), otherwise the client polls.
\<close>

definition call_turn ::
  "header \<Rightarrow> 'q \<Rightarrow> 'u \<Rightarrow> ('q, 'p, 'u) endpoint \<Rightarrow> (bool, ipc_call_error) outcome \<times> ('q, 'p, 'u) endpoint" where
  "call_turn h req user_data = (\<lambda>(cl, b).
     let mask = ucast (icl_ring_depth cl) - 1;
         next_slot = unat (os_head (cb_req b) AND mask)
     in if next_slot \<ge> length (icl_user_data cl) then (Panic, (cl, b))
        else if icl_user_data cl ! next_slot = None then
          case raw_try_send req (cb_req b) of
            (None, ring) \<Rightarrow> (Panic, (cl, b\<lparr>cb_req := ring\<rparr>))
          | (Some slot_idx, ring) \<Rightarrow>
              let b = b\<lparr>cb_req := os_publish ring\<rparr>
              in if slot_idx \<ge> length (icl_user_data cl) then (Panic, (cl, b))
                 else (Ok True,
                       (cl\<lparr>icl_user_data := (icl_user_data cl)[slot_idx := Some user_data],
                           icl_in_flight := icl_in_flight cl + 1\<rparr>, b))
        else and_then (client_poll h (cl, b)) (\<lambda>_ s. (Ok False, s)))"

text \<open>
  The loop, for \<open>n\<close> turns; before the turn with \<open>n\<close> left the server changes the block with \<open>env n\<close>
  and the header is \<open>hds n\<close>.  \<open>None\<close>: the call is still waiting.
\<close>

primrec call_loop ::
  "(nat \<Rightarrow> ('q, 'p) client_block \<Rightarrow> ('q, 'p) client_block) \<Rightarrow> (nat \<Rightarrow> header) \<Rightarrow> nat \<Rightarrow> 'q \<Rightarrow> 'u
     \<Rightarrow> ('q, 'p, 'u) endpoint \<Rightarrow> ((unit, ipc_call_error) outcome \<times> ('q, 'p, 'u) endpoint) option" where
  "call_loop env hds 0 req user_data s = None"
| "call_loop env hds (Suc n) req user_data s =
     (case call_turn (hds n) req user_data (fst s, env n (snd s)) of
        (Ok True, s) \<Rightarrow> Some (Ok (), s)
      | (Ok False, s) \<Rightarrow> call_loop env hds n req user_data s
      | (Err e, s) \<Rightarrow> Some (Err e, s)
      | (Panic, s) \<Rightarrow> Some (Panic, s))"

definition client_call ::
  "(nat \<Rightarrow> ('q, 'p) client_block \<Rightarrow> ('q, 'p) client_block) \<Rightarrow> (nat \<Rightarrow> header) \<Rightarrow> nat \<Rightarrow> 'q \<Rightarrow> 'u
     \<Rightarrow> ('q, 'p, 'u) endpoint \<Rightarrow> ((unit, ipc_call_error) outcome \<times> ('q, 'p, 'u) endpoint) option" where
  "client_call env hds n req user_data s =
     (if \<not> is_server_alive (hds n) then Some (Err ServerDisconnected, s)
      else call_loop env hds n req user_data s)"

definition pending_count :: "('u, 'p) ipc_client \<Rightarrow> u32" where
  "pending_count cl = icl_in_flight cl"

definition client_drop :: "('q, 'p) client_block \<Rightarrow> ('q, 'p) client_block" where
  "client_drop b = b\<lparr>cb_alive := False\<rparr>"

text \<open>
  A synchronous call: the wait for room, the request, and one turn of the wait for the response
  (\<open>None\<close>: none yet).
\<close>

definition blocking_room ::
  "header \<Rightarrow> ('q, 'p, unit) endpoint \<Rightarrow> (bool, ipc_call_error) outcome \<times> ('q, 'p, unit) endpoint" where
  "blocking_room h s =
     (if icl_in_flight (fst s) \<ge> icl_ring_depth (fst s)
      then and_then (client_poll h s) (\<lambda>_ s. (Ok False, s)) else (Ok True, s))"

definition blocking_send :: "'q \<Rightarrow> ('q, 'p, unit) endpoint \<Rightarrow> ('q, 'p, unit) endpoint" where
  "blocking_send req = (\<lambda>(cl, b).
     (cl\<lparr>icl_in_flight := icl_in_flight cl + 1\<rparr>, b\<lparr>cb_req := os_publish (snd (raw_try_send req (cb_req b)))\<rparr>))"

definition blocking_turn ::
  "header \<Rightarrow> ('q, 'p, unit) endpoint \<Rightarrow> (('p, ipc_call_error) outcome) option \<times> ('q, 'p, unit) endpoint" where
  "blocking_turn h = (\<lambda>(cl, b).
     case raw_try_recv (cb_resp b) of
       (Some (_, response), ring) \<Rightarrow>
         (Some (Ok (rs_data response)), (cl\<lparr>icl_in_flight := icl_in_flight cl - 1\<rparr>, b\<lparr>cb_resp := ring\<rparr>))
     | (None, ring) \<Rightarrow>
         if \<not> is_server_alive h then (Some (Err ServerDisconnected), (cl, b\<lparr>cb_resp := ring\<rparr>))
         else (None, (cl, b\<lparr>cb_resp := ring\<rparr>)))"

primrec room_loop ::
  "(nat \<Rightarrow> ('q, 'p) client_block \<Rightarrow> ('q, 'p) client_block) \<Rightarrow> (nat \<Rightarrow> header) \<Rightarrow> nat \<Rightarrow> ('q, 'p, unit) endpoint
     \<Rightarrow> ((unit, ipc_call_error) outcome \<times> ('q, 'p, unit) endpoint \<times> nat) option" where
  "room_loop env hds 0 s = None"
| "room_loop env hds (Suc n) s =
     (case blocking_room (hds n) (fst s, env n (snd s)) of
        (Ok True, s) \<Rightarrow> Some (Ok (), s, n)
      | (Ok False, s) \<Rightarrow> room_loop env hds n s
      | (Err e, s) \<Rightarrow> Some (Err e, s, n)
      | (Panic, s) \<Rightarrow> Some (Panic, s, n))"

primrec wait_loop ::
  "(nat \<Rightarrow> ('q, 'p) client_block \<Rightarrow> ('q, 'p) client_block) \<Rightarrow> (nat \<Rightarrow> header) \<Rightarrow> nat \<Rightarrow> ('q, 'p, unit) endpoint
     \<Rightarrow> (('p, ipc_call_error) outcome \<times> ('q, 'p, unit) endpoint) option" where
  "wait_loop env hds 0 s = None"
| "wait_loop env hds (Suc n) s =
     (case blocking_turn (hds n) (fst s, env n (snd s)) of
        (Some r, s) \<Rightarrow> Some (r, s)
      | (None, s) \<Rightarrow> wait_loop env hds n s)"

definition call_blocking ::
  "(nat \<Rightarrow> ('q, 'p) client_block \<Rightarrow> ('q, 'p) client_block) \<Rightarrow> (nat \<Rightarrow> header) \<Rightarrow> nat \<Rightarrow> 'q
     \<Rightarrow> ('q, 'p, unit) endpoint \<Rightarrow> (('p, ipc_call_error) outcome \<times> ('q, 'p, unit) endpoint) option" where
  "call_blocking env hds n req s =
     (if \<not> is_server_alive (hds n) then Some (Err ServerDisconnected, s)
      else case room_loop env hds n s of
             None \<Rightarrow> None
           | Some (Ok _, s, n) \<Rightarrow> wait_loop env hds n (blocking_send req s)
           | Some (Err e, s, _) \<Rightarrow> Some (Err e, s)
           | Some (Panic, s, _) \<Rightarrow> Some (Panic, s))"

end
