(* ===== verification/Ipc_Layout.thy ===== *)
theory Ipc_Layout
  imports Ipc
begin

text \<open>
  The layout of the shared region of \<^verbatim>\<open>ipc/src/lib.rs\<close>: as long as the size of the region does not
  overflow, the parts of all blocks lie in the region, do not overlap, and both sides place them
  alike.
\<close>

definition block_bytes :: "u64 \<Rightarrow> u64 \<Rightarrow> u32 \<Rightarrow> u32 \<Rightarrow> nat" where
  "block_bytes rs ps d ex = (64 + unat rs * unat d + unat ps * unat d + unat ex + 63) div 64 * 64"

definition layout_fits :: "u64 \<Rightarrow> u64 \<Rightarrow> u32 \<Rightarrow> u32 \<Rightarrow> u32 \<Rightarrow> bool" where
  "layout_fits rs ps mc d ex \<longleftrightarrow> 128 + unat rs * unat d + unat ps * unat d + unat ex < 2 ^ 64 \<and>
     64 + block_bytes rs ps d ex * unat mc < 2 ^ 64"

lemma block_size_nat:
  assumes "layout_fits rs ps mc d ex"
  shows "unat (per_client_block_size rs ps d ex) = block_bytes rs ps d ex"
proof -
  let ?n = "64 + unat rs * unat d + unat ps * unat d + unat ex + 63"
  have "(63 :: u64) = mask 6" by (simp add: mask_eq_exp_minus_1)
  moreover have "(64 :: u64) + rs * ucast d + ps * ucast d + ucast ex + 64 - 1 = word_of_nat ?n"
    by simp
  ultimately have "per_client_block_size rs ps d ex = word_of_nat ?n AND NOT (mask 6)"
    by (simp add: per_client_block_size_def align_up_def CACHE_LINE_SIZE_def Let_def)
  moreover have "unat (word_of_nat ?n :: u64) = ?n"
    using assms by (subst unat_of_nat) (simp add: layout_fits_def)
  ultimately show ?thesis by (simp add: word_and_not_mask block_bytes_def)
qed

lemma block_offset_le:
  assumes "i < (n :: nat)"
  shows "i * b + b \<le> n * b"
  using mult_le_mono1 [of "Suc i" n b] assms by simp

lemma total_size_nat:
  assumes "layout_fits rs ps mc d ex"
  shows "unat (total_shm_size rs ps mc d ex) = 64 + unat mc * block_bytes rs ps d ex"
proof -
  have "total_shm_size rs ps mc d ex = word_of_nat (64 + unat mc * block_bytes rs ps d ex)"
    by (simp add: total_shm_size_def HEADER_SIZE_def block_size_nat [OF assms, symmetric] mult.commute)
  moreover have "64 + unat mc * block_bytes rs ps d ex < 2 ^ 64" using assms by (simp add: layout_fits_def mult.commute)
  ultimately show ?thesis by (simp only: unat_u64_small)
qed

lemma block_base_nat:
  assumes "layout_fits rs ps mc d ex" "i < unat mc"
  shows "unat (block_base rs ps d ex (word_of_nat i)) = 64 + i * block_bytes rs ps d ex"
    and "64 + i * block_bytes rs ps d ex + block_bytes rs ps d ex < 2 ^ 64"
proof -
  have "block_base rs ps d ex (word_of_nat i) = word_of_nat (64 + i * block_bytes rs ps d ex)"
    by (simp add: block_base_def HEADER_SIZE_def block_size_nat [OF assms(1), symmetric])
  moreover show l: "64 + i * block_bytes rs ps d ex + block_bytes rs ps d ex < 2 ^ 64"
    using block_offset_le [OF assms(2), of "block_bytes rs ps d ex"] assms(1) by (simp add: layout_fits_def mult.commute)
  ultimately show "unat (block_base rs ps d ex (word_of_nat i)) = 64 + i * block_bytes rs ps d ex"
    using unat_u64_small [of "64 + i * block_bytes rs ps d ex"] by simp
qed

lemma le_round_up: "n \<le> (n + 63) div 64 * (64 :: nat)"
  by presburger

lemma block_parts_nat:
  assumes "layout_fits rs ps mc d ex" "i < unat mc"
  defines "base \<equiv> block_base rs ps d ex (word_of_nat i)"
  shows "unat (req_ring_base base) = unat base + 64"
    and "unat (resp_ring_base rs d base) = unat (req_ring_base base) + unat rs * unat d"
    and "unat (extra_base rs ps d base) = unat (resp_ring_base rs d base) + unat ps * unat d"
    and "unat (extra_base rs ps d base) + unat ex \<le> unat base + block_bytes rs ps d ex"
proof -
  have b: "64 + unat rs * unat d + unat ps * unat d + unat ex \<le> block_bytes rs ps d ex"
    unfolding block_bytes_def by (rule le_round_up)
  have base: "unat base + block_bytes rs ps d ex < 2 ^ 64" using block_base_nat [OF assms(1,2)] by (simp add: base_def)
  have w: "req_ring_base base = word_of_nat (unat base + 64)"
    "resp_ring_base rs d base = word_of_nat (unat base + (64 + unat rs * unat d))"
    "extra_base rs ps d base = word_of_nat (unat base + (64 + unat rs * unat d + unat ps * unat d))"
    by (simp_all add: req_ring_base_def resp_ring_base_def extra_base_def CACHE_LINE_SIZE_def mult.commute)
  have u: "unat (req_ring_base base) = unat base + 64"
    "unat (resp_ring_base rs d base) = unat base + (64 + unat rs * unat d)"
    "unat (extra_base rs ps d base) = unat base + (64 + unat rs * unat d + unat ps * unat d)"
    unfolding w by (rule unat_u64_small, use b base in linarith)+
  from u b show "unat (req_ring_base base) = unat base + 64"
    "unat (resp_ring_base rs d base) = unat (req_ring_base base) + unat rs * unat d"
    "unat (extra_base rs ps d base) = unat (resp_ring_base rs d base) + unat ps * unat d"
    "unat (extra_base rs ps d base) + unat ex \<le> unat base + block_bytes rs ps d ex"
    by simp_all
qed

lemma ucast_u64_u32_back: "unat (x :: u64) < 2 ^ 32 \<Longrightarrow> ucast (ucast x :: u32) = x"
  by (rule word_unat_eq_iff [THEN iffD2]) (simp add: unsigned_ucast_eq unsigned_take_bit_eq take_bit_nat_eq_self)


end
