(* ===== verification/Ipc_Safety.thy ===== *)
theory Ipc_Safety
  imports Ipc
begin

text \<open>
  Clients and a server of \<^verbatim>\<open>ipc/src/lib.rs\<close> at work: \<open>ipc_run\<close> lets the parties take steps in any
  order.  A client numbers its calls from 0; the sequences of calls and of answers, and the number
  of the call a token stands for, are kept beside the state to say which response belongs to
  which call.
\<close>

section \<open>One client and its block\<close>

text \<open>The calls whose response the client has not taken: \<open>C\<close> calls, \<open>n\<close> of the answers \<open>A\<close> taken.\<close>

definition outstanding :: "('q \<times> 'u) list \<Rightarrow> (nat \<times> 'p) list \<Rightarrow> nat \<Rightarrow> nat set" where
  "outstanding C A n = {..<length C} - fst ` set (take n A)"

definition answer_slot :: "nat \<Rightarrow> nat \<times> 'p \<Rightarrow> 'p response" where
  "answer_slot d = (\<lambda>(k, p). \<lparr>rs_token = word_of_nat (k mod d), rs_data = p\<rparr>)"

text \<open>\<open>r\<close> calls were received by the server, which holds tokens for the calls \<open>ks\<close>.\<close>

definition block_inv ::
  "nat \<Rightarrow> ('q \<times> 'u) list \<Rightarrow> nat \<Rightarrow> nat list \<Rightarrow> (nat \<times> 'p) list \<Rightarrow> nat \<Rightarrow> ('q, 'p) client_block \<Rightarrow> bool" where
  "block_inv d C r ks A n b \<longleftrightarrow>
     os_wf (cb_req b) \<and> os_wf (cb_resp b) \<and> length (os_slots (cb_req b)) = d \<and> length (os_slots (cb_resp b)) = d \<and>
     os_head (cb_req b) = word_of_nat (length C) \<and> os_tail (cb_req b) = word_of_nat r \<and> r \<le> length C \<and>
     os_contents (cb_req b) = map fst (drop r C) \<and>
     os_contents (cb_resp b) = map (answer_slot d) (drop n A) \<and> n \<le> length A \<and>
     distinct (ks @ map fst A) \<and> set ks \<union> fst ` set A \<subseteq> {..<r}"

definition client_inv :: "nat \<Rightarrow> ('q \<times> 'u) list \<Rightarrow> (nat \<times> 'p) list \<Rightarrow> ('u, 'p) ipc_client \<Rightarrow> bool" where
  "client_inv d C A cl \<longleftrightarrow>
     (let n = length (icl_responses cl); out = outstanding C A n
      in unat (icl_ring_depth cl) = d \<and> length (icl_user_data cl) = d \<and>
         icl_responses cl = map (\<lambda>(k, p). (snd (C ! k), p)) (take n A) \<and>
         inj_on (\<lambda>k. k mod d) out \<and> (\<forall>k\<in>out. icl_user_data cl ! (k mod d) = Some (snd (C ! k))) \<and>
         (\<forall>j<d. icl_user_data cl ! j \<noteq> None \<longrightarrow> (\<exists>k\<in>out. k mod d = j)) \<and>
         unat (icl_in_flight cl) = card out)"

definition lane_inv ::
  "nat \<Rightarrow> ('q \<times> 'u) list \<Rightarrow> nat \<Rightarrow> nat list \<Rightarrow> (nat \<times> 'p) list \<Rightarrow> ('q, 'p, 'u) endpoint \<Rightarrow> bool" where
  "lane_inv d C r ks A s \<longleftrightarrow>
     is_pow2 d \<and> d < 2 ^ 32 \<and> client_inv d C A (fst s) \<and> block_inv d C r ks A (length (icl_responses (fst s))) (snd s)"

lemma outstanding_finite [simp]: "finite (outstanding C A n)"
  by (simp add: outstanding_def)

lemma outstanding_snoc: "set (map fst (take n A)) \<subseteq> {..<length C} \<Longrightarrow>
    outstanding (C @ [c]) A n = insert (length C) (outstanding C A n)"
  by (auto simp: outstanding_def)

lemma outstanding_taken: "n < length A \<Longrightarrow> outstanding C A (Suc n) = outstanding C A n - {fst (A ! n)}"
  by (auto simp: outstanding_def take_Suc_conv_app_nth)

lemma outstanding_answer: "n \<le> length A \<Longrightarrow> outstanding C (A @ [a]) n = outstanding C A n"
  by (simp add: outstanding_def)

lemma card_outstanding_le:
  assumes "inj_on (\<lambda>k. k mod d) (outstanding C A n)" "0 < d"
  shows "card (outstanding C A n) \<le> d"
proof -
  have "card ((\<lambda>k. k mod d) ` outstanding C A n) \<le> card {..<d}" by (rule card_mono) (use assms(2) in auto)
  then show ?thesis using card_image [OF assms(1)] by simp
qed

text \<open>The answers not taken yet belong to outstanding calls.\<close>

lemma untaken_outstanding:
  assumes "block_inv d C r ks A n b"
  shows "set (map fst (drop n A)) \<union> set ks \<subseteq> outstanding C A n"
proof -
  have d: "distinct (ks @ map fst A)" "set ks \<union> fst ` set A \<subseteq> {..<r}" "r \<le> length C"
    using assms by (auto simp: block_inv_def)
  have "distinct (map fst (take n A) @ map fst (drop n A))"
    using d(1) by (simp flip: map_append)
  then have "fst ` set (take n A) \<inter> fst ` set (drop n A) = {}" by (simp add: distinct_append)
  moreover have "fst ` set (take n A) \<inter> set ks = {}" using d(1) set_take_subset [of n A] by auto
  moreover have "fst ` set (drop n A) \<subseteq> {..<length C}" using d(2,3) set_drop_subset [of n A] by fastforce
  moreover have "set ks \<subseteq> {..<length C}" using d(2,3) by fastforce
  ultimately show ?thesis by (auto simp: outstanding_def)
qed

lemma unat_slot: "0 < d \<Longrightarrow> d < 2 ^ 32 \<Longrightarrow> unat (word_of_nat (k mod d) :: u64) = k mod d"
  by (rule unat_u64_small, rule less_trans [OF mod_less_divisor]) simp_all

lemma os_head_publish [simp]: "os_head (os_publish s) = os_head s" "os_tail (os_publish s) = os_tail s"
  by (simp_all add: os_publish_def)

lemma raw_try_send_fields:
  "fst (raw_try_send v s) = Some (unat (os_head s AND os_mask s))"
  "os_head (snd (raw_try_send v s)) = os_head s + 1" "os_tail (snd (raw_try_send v s)) = os_tail s"
  "length (os_slots (snd (raw_try_send v s))) = length (os_slots s)"
  by (simp_all add: raw_try_send_def Let_def)

lemma raw_try_recv_fields:
  "os_head (snd (raw_try_recv s)) = os_head s"
  "length (os_slots (snd (raw_try_recv s))) = length (os_slots s)"
  by (simp_all add: raw_try_recv_def Let_def)

section \<open>Responses\<close>

lemma client_takes:
  assumes ci: "client_inv d C A cl" and n: "length (icl_responses cl) < length A" "A ! length (icl_responses cl) = (k, p)"
    and k: "k \<in> outstanding C A (length (icl_responses cl))" and d0: "0 < d"
  shows "0 < icl_in_flight cl" "k mod d < length (icl_user_data cl)" "icl_user_data cl ! (k mod d) = Some (snd (C ! k))"
    "client_inv d C A
       (cl\<lparr>icl_in_flight := icl_in_flight cl - 1, icl_user_data := (icl_user_data cl)[k mod d := None],
          icl_responses := icl_responses cl @ [(snd (C ! k), p)]\<rparr>)" (is "client_inv d C A ?cl")
proof -
  let ?n = "length (icl_responses cl)"
  let ?out = "outstanding C A ?n"
  have u: "icl_user_data cl ! (k mod d) = Some (snd (C ! k))" "length (icl_user_data cl) = d" "inj_on (\<lambda>k. k mod d) ?out"
    "unat (icl_in_flight cl) = card ?out"
    using ci k by (auto simp: client_inv_def Let_def)
  have "0 < card ?out" using k by (auto simp: card_gt_0_iff)
  then have nz: "icl_in_flight cl \<noteq> 0" using u(4) by auto
  then show "0 < icl_in_flight cl" "k mod d < length (icl_user_data cl)" "icl_user_data cl ! (k mod d) = Some (snd (C ! k))"
    using u d0 by (simp_all add: word_gt_0)
  have out': "outstanding C A (Suc ?n) = ?out - {k}" using outstanding_taken [OF n(1)] n(2) by simp
  have "unat (icl_in_flight cl - 1) = card (?out - {k})" using u(4) k nz by (simp add: unat_minus_one)
  moreover have "icl_user_data ?cl ! (j mod d) = Some (snd (C ! j))" if "j \<in> ?out - {k}" for j
  proof -
    have "j mod d \<noteq> k mod d" using u(3) k that by (auto dest: inj_onD)
    then show ?thesis using ci that by (simp add: client_inv_def Let_def)
  qed
  moreover have "\<exists>i\<in>?out - {k}. i mod d = j" if "j < d" "icl_user_data ?cl ! j \<noteq> None" for j
    using ci that u(2) by (auto simp: client_inv_def Let_def nth_list_update split: if_splits)
  moreover have "inj_on (\<lambda>k. k mod d) (?out - {k})" using u(3) by (rule inj_on_subset) blast
  moreover have "icl_responses cl @ [(snd (C ! k), p)] = map (\<lambda>(k, p). (snd (C ! k), p)) (take (Suc ?n) A)"
    using ci n by (simp add: client_inv_def Let_def take_Suc_conv_app_nth)
  moreover have "min (length A) (Suc ?n) = Suc ?n" using n by simp
  ultimately show "client_inv d C A ?cl" using ci out' by (simp add: client_inv_def Let_def)
qed

lemma response_taken:
  assumes inv: "lane_inv d C r ks A (cl, b)" and got: "raw_try_recv (cb_resp b) = (Some (x, rsp), ring)"
  obtains k p u where "rs_data rsp = p" "unat (rs_token rsp) = k mod d" "k mod d < length (icl_user_data cl)"
    "icl_user_data cl ! (k mod d) = Some u" "0 < icl_in_flight cl"
    "lane_inv d C r ks A
       (cl\<lparr>icl_in_flight := icl_in_flight cl - 1, icl_user_data := (icl_user_data cl)[k mod d := None],
          icl_responses := icl_responses cl @ [(u, p)]\<rparr>, b\<lparr>cb_resp := ring\<rparr>)"
    "os_contents (cb_resp b) = rsp # os_contents ring"
proof -
  let ?n = "length (icl_responses cl)"
  have ci: "client_inv d C A cl" and bi: "block_inv d C r ks A ?n b" and d: "is_pow2 d" "d < 2 ^ 32"
    using inv by (auto simp: lane_inv_def)
  have d0: "0 < d" using d(1) by (rule is_pow2_pos)
  have wf: "os_wf (cb_resp b)" using bi by (simp add: block_inv_def)
  have c: "os_contents (cb_resp b) = rsp # os_contents ring" "os_wf ring" "ring = snd (raw_try_recv (cb_resp b))"
    by (cases rule: raw_try_recv_cases [OF wf]; use got in auto)+
  then have map: "map (answer_slot d) (drop ?n A) = rsp # os_contents ring" using bi by (simp add: block_inv_def)
  then have n: "?n < length A" by (cases "?n < length A") auto
  obtain k p where kp: "A ! ?n = (k, p)" by (cases "A ! ?n")
  have drop: "drop ?n A = (k, p) # drop (Suc ?n) A" using Cons_nth_drop_Suc [OF n] kp by simp
  then have rsp: "rsp = answer_slot d (k, p)" and rest: "os_contents ring = map (answer_slot d) (drop (Suc ?n) A)"
    using map by auto
  have k: "k \<in> outstanding C A ?n" using untaken_outstanding [OF bi] drop by auto
  note cl = client_takes [OF ci n kp k d0]
  have "block_inv d C r ks A (Suc ?n) (b\<lparr>cb_resp := ring\<rparr>)"
    using bi c rest n raw_try_recv_fields(2) [of "cb_resp b"] by (simp add: block_inv_def)
  with cl(4) d show thesis
    by (intro that [of p k "snd (C ! k)"] cl c(1)) (simp_all add: lane_inv_def rsp answer_slot_def unat_slot [OF d0 d(2)])
qed

lemma drain_keeps:
  assumes "lane_inv d C r ks A (cl, b)"
  shows "\<exists>c cl' b'. drain_responses count (cl, b) = (Ok c, (cl', b')) \<and> lane_inv d C r ks A (cl', b') \<and>
     os_contents (cb_resp b') = [] \<and> cb_req b' = cb_req b \<and> cb_alive b' = cb_alive b"
  using assms
proof (induction count "(cl, b)" arbitrary: cl b rule: drain_responses.induct)
  case (1 count cl b)
  note prems = "1.prems" and hyps = "1.hyps"
  have bi: "block_inv d C r ks A (length (icl_responses cl)) b" and ci: "client_inv d C A cl"
    using prems by (simp_all add: lane_inv_def)
  have wf: "os_wf (cb_resp b)" using bi by (simp add: block_inv_def)
  show ?case
  proof (cases rule: raw_try_recv_cases [OF wf])
    case 1
    then show ?thesis using prems by (subst drain_responses.simps) simp
  next
    case got: (2 rsp)
    from response_taken [OF prems got(2)] obtain k p u where r: "rs_data rsp = p" "unat (rs_token rsp) = k mod d"
      "k mod d < length (icl_user_data cl)" "icl_user_data cl ! (k mod d) = Some u" "0 < icl_in_flight cl"
      "lane_inv d C r ks A
         (cl\<lparr>icl_in_flight := icl_in_flight cl - 1, icl_user_data := (icl_user_data cl)[k mod d := None],
            icl_responses := icl_responses cl @ [(u, p)]\<rparr>, b\<lparr>cb_resp := (cb_resp b)\<lparr>os_tail := os_tail (cb_resp b) + 1\<rparr>\<rparr>)"
      by blast
    note ih = hyps [OF r(5) got(2) [symmetric] refl refl refl refl refl]
    show ?thesis
      using ih [of u] r got(2) by (subst drain_responses.simps) (simp add: Let_def r(1))
  qed
qed

lemma client_poll_keeps:
  assumes "lane_inv d C r ks A (cl, b)"
  obtains out cl' b' where "client_poll h (cl, b) = (out, (cl', b'))" "out \<noteq> Panic" "lane_inv d C r ks A (cl', b')"
    "os_contents (cb_resp b') = []" "cb_req b' = cb_req b" "cb_alive b' = cb_alive b"
    "is_server_alive h \<longrightarrow> (\<exists>c. out = Ok c)"
proof -
  from drain_keeps [OF assms, of 0] obtain c cl' b' where dr: "drain_responses 0 (cl, b) = (Ok c, (cl', b'))"
    and r: "lane_inv d C r ks A (cl', b')" "os_contents (cb_resp b') = []" "cb_req b' = cb_req b" "cb_alive b' = cb_alive b"
    by blast
  let ?out = "if c = 0 \<and> 0 < icl_in_flight cl' \<and> \<not> is_server_alive h then Err ServerDisconnected else Ok c"
  have "client_poll h (cl, b) = (?out, (cl', b'))" using dr by (simp add: client_poll_def outcome_simps)
  then show thesis by (rule that) (use r in simp_all)
qed

section \<open>Calls\<close>

lemma lane_mask:
  assumes "lane_inv d C r ks A (cl, b)"
  shows "unat (os_head (cb_req b) AND (ucast (icl_ring_depth cl) - 1)) = length C mod d"
    and "unat (os_head (cb_req b) AND os_mask (cb_req b)) = length C mod d"
proof -
  have b: "os_wf (cb_req b)" "length (os_slots (cb_req b)) = d" "os_head (cb_req b) = word_of_nat (length C)"
    and depth: "unat (icl_ring_depth cl) = d" and d: "is_pow2 d"
    using assms by (auto simp: lane_inv_def block_inv_def client_inv_def Let_def)
  have cap: "os_cap (cb_req b)" using b(1) by (simp add: os_wf_def)
  show "unat (os_head (cb_req b) AND os_mask (cb_req b)) = length C mod d"
    using os_slot_eq [OF cap, of "length C"] b by simp
  moreover have "word_of_nat (d - 1) = (ucast (icl_ring_depth cl) - 1 :: u64)"
    using is_pow2_pos [OF d] by (simp add: of_nat_diff flip: depth)
  then have "os_mask (cb_req b) = ucast (icl_ring_depth cl) - 1" using cap b(2) by (simp add: os_cap_def)
  ultimately show "unat (os_head (cb_req b) AND (ucast (icl_ring_depth cl) - 1)) = length C mod d" by simp
qed

lemma free_slot_room:
  assumes inv: "lane_inv d C r ks A (cl, b)" and free: "icl_user_data cl ! (length C mod d) = None"
  shows "os_count (cb_req b) < d" "\<forall>k \<in> outstanding C A (length (icl_responses cl)). k mod d \<noteq> length C mod d"
proof -
  let ?out = "outstanding C A (length (icl_responses cl))"
  have bi: "block_inv d C r ks A (length (icl_responses cl)) b" and ud: "\<forall>k\<in>?out. icl_user_data cl ! (k mod d) \<noteq> None"
    and d0: "0 < d"
    using inv is_pow2_pos by (auto simp: lane_inv_def client_inv_def Let_def)
  show apart: "\<forall>k \<in> ?out. k mod d \<noteq> length C mod d" using ud free by metis
  have "length (os_contents (cb_req b)) = length C - r" using bi by (simp add: block_inv_def)
  then have cnt: "os_count (cb_req b) = length C - r" by simp
  show "os_count (cb_req b) < d"
  proof (rule ccontr)
    assume "\<not> os_count (cb_req b) < d"
    then have k: "r \<le> length C - d" "length C - d < length C" "d \<le> length C" using cnt d0 by auto
    have "fst ` set (take (length (icl_responses cl)) A) \<subseteq> {..<r}"
      using bi set_take_subset by (fastforce simp: block_inv_def)
    then have "length C - d \<in> ?out" using k by (auto simp: outstanding_def)
    moreover have "(length C - d) mod d = length C mod d" using k(3) by (simp add: le_mod_geq)
    ultimately show False using apart by blast
  qed
qed

lemma client_calls:
  assumes ci: "client_inv d C A cl" and free: "icl_user_data cl ! (length C mod d) = None"
    and apart: "\<forall>k \<in> outstanding C A (length (icl_responses cl)). k mod d \<noteq> length C mod d"
    and A: "fst ` set A \<subseteq> {..<length C}" and d: "0 < d" "d < 2 ^ 32"
  shows "client_inv d (C @ [(req, u)]) A
    (cl\<lparr>icl_user_data := (icl_user_data cl)[length C mod d := Some u], icl_in_flight := icl_in_flight cl + 1\<rparr>)"
proof -
  let ?n = "length (icl_responses cl)"
  let ?out = "outstanding C A ?n"
  have c: "length (icl_user_data cl) = d" "inj_on (\<lambda>k. k mod d) ?out" "unat (icl_in_flight cl) = card ?out"
    "\<forall>k\<in>?out. icl_user_data cl ! (k mod d) = Some (snd (C ! k))"
    "\<forall>j<d. icl_user_data cl ! j \<noteq> None \<longrightarrow> (\<exists>k\<in>?out. k mod d = j)"
    using ci by (auto simp: client_inv_def Let_def)
  have taken: "icl_responses cl = map (\<lambda>(k, p). (snd (C ! k), p)) (take ?n A)"
    using ci unfolding client_inv_def Let_def by blast
  have sub: "set (map fst (take ?n A)) \<subseteq> {..<length C}" using A set_take_subset by fastforce
  note out = outstanding_snoc [OF sub, of "(req, u)"]
  have nin: "length C \<notin> ?out" by (simp add: outstanding_def)
  have lt: "k < length C" if "k \<in> ?out" for k using that by (simp add: outstanding_def)
  have img: "(\<lambda>k. k mod d) ` insert (length C) ?out \<subseteq> {..<d}" using d by auto
  have inj: "inj_on (\<lambda>k. k mod d) (insert (length C) ?out)" using c(2) apart nin by (auto simp: inj_on_insert)
  have "card (insert (length C) ?out) \<le> d" using card_inj_on_le [OF inj img] by simp
  then have "Suc (card ?out) \<le> d" using nin by simp
  then have fl: "unat (icl_in_flight cl + 1) = Suc (card ?out)" using d(2) c(3) by (simp add: unat_word_ariths)
  have "map (\<lambda>(k, p). (snd ((C @ [(req, u)]) ! k), p)) (take ?n A) = map (\<lambda>(k, p). (snd (C ! k), p)) (take ?n A)"
    using sub by (auto simp: nth_append)
  then have resp: "icl_responses cl = map (\<lambda>(k, p). (snd ((C @ [(req, u)]) ! k), p)) (take ?n A)"
    by (rule trans [OF taken sym])
  have "(icl_user_data cl)[length C mod d := Some u] ! (k mod d) = Some (snd ((C @ [(req, u)]) ! k))"
    if "k \<in> insert (length C) ?out" for k
    using that c(1,4) apart lt d by (auto simp: nth_append nth_list_update)
  moreover have "\<exists>k\<in>insert (length C) ?out. k mod d = j"
    if "j < d" "(icl_user_data cl)[length C mod d := Some u] ! j \<noteq> None" for j
    using that c(1,5) by (cases "j = length C mod d") (auto simp: nth_list_update)
  ultimately show ?thesis
    using ci out inj fl resp nin unfolding client_inv_def Let_def by auto
qed

lemma call_turn_keeps:
  assumes inv: "lane_inv d C r ks A (cl, b)"
  obtains (sent) cl' b' where "call_turn h req u (cl, b) = (Ok True, (cl', b'))"
      "lane_inv d (C @ [(req, u)]) r ks A (cl', b')" "cb_alive b' = cb_alive b"
  | (waits) out cl' b' where "call_turn h req u (cl, b) = (out, (cl', b'))" "out \<noteq> Panic" "out \<noteq> Ok True"
      "lane_inv d C r ks A (cl', b')" "cb_alive b' = cb_alive b" "icl_user_data cl ! (length C mod d) \<noteq> None"
      "os_contents (cb_resp b') = []" "cb_req b' = cb_req b" "is_server_alive h \<longrightarrow> out = Ok False"
proof (cases "icl_user_data cl ! (length C mod d) = None")
  case True
  let ?n = "length (icl_responses cl)"
  have bi: "block_inv d C r ks A ?n b" and ci: "client_inv d C A cl" and d: "is_pow2 d" "0 < d" "d < 2 ^ 32"
    using inv is_pow2_pos by (auto simp: lane_inv_def)
  have len: "length (icl_user_data cl) = d" using ci by (simp add: client_inv_def Let_def)
  define ring where "ring = snd (raw_try_send req (cb_req b))"
  let ?cl = "cl\<lparr>icl_user_data := (icl_user_data cl)[length C mod d := Some u], icl_in_flight := icl_in_flight cl + 1\<rparr>"
  have "raw_try_send req (cb_req b) = (Some (length C mod d), ring)"
    using raw_try_send_fields(1) [of req "cb_req b"] lane_mask(2) [OF inv] by (simp add: ring_def prod_eq_iff)
  then have turn: "call_turn h req u (cl, b) = (Ok True, (?cl, b\<lparr>cb_req := os_publish ring\<rparr>))"
    using True len d(2) lane_mask(1) [OF inv] by (simp add: call_turn_def Let_def not_le)
  note room = free_slot_room [OF inv True]
  have q: "os_wf (cb_req b)" "os_count (cb_req b) < length (os_slots (cb_req b))"
    using bi room(1) by (simp_all add: block_inv_def)
  note e = raw_try_send_effect [OF q, of req]
  have "fst ` set A \<subseteq> {..<length C}" using bi by (fastforce simp: block_inv_def)
  note cl = client_calls [OF ci True room(2) this d(2,3), of req u]
  have "block_inv d (C @ [(req, u)]) r ks A ?n (b\<lparr>cb_req := os_publish ring\<rparr>)"
    using bi e raw_try_send_fields [of req "cb_req b"] by (simp add: block_inv_def ring_def add.commute)
  then have "lane_inv d (C @ [(req, u)]) r ks A (?cl, b\<lparr>cb_req := os_publish ring\<rparr>)"
    using cl d by (simp add: lane_inv_def)
  then show thesis by (rule sent [OF turn]) simp
next
  case False
  then obtain y where y: "icl_user_data cl ! (length C mod d) = Some y" by auto
  have "length C mod d < length (icl_user_data cl)"
    using inv is_pow2_pos by (auto simp: lane_inv_def client_inv_def Let_def)
  moreover obtain out cl' b' where p: "client_poll h (cl, b) = (out, (cl', b'))" "out \<noteq> Panic" "lane_inv d C r ks A (cl', b')"
      "os_contents (cb_resp b') = []" "cb_req b' = cb_req b" "cb_alive b' = cb_alive b" "is_server_alive h \<longrightarrow> (\<exists>c. out = Ok c)"
    by (rule client_poll_keeps [OF inv, of h])
  ultimately have "call_turn h req u (cl, b) =
      ((case out of Ok _ \<Rightarrow> Ok False | Err e \<Rightarrow> Err e | Panic \<Rightarrow> Panic), (cl', b'))"
    using y lane_mask(1) [OF inv] by (cases out) (simp_all add: call_turn_def Let_def outcome_simps not_le)
  then show thesis by (rule waits) (use p False in \<open>auto split: outcome.splits\<close>)
qed

section \<open>The server's side of a lane\<close>

lemma lane_receive:
  assumes inv: "lane_inv d C r ks A (cl, b)" and got: "raw_try_recv (cb_req b) = (Some (slot, data), ring)"
  shows "slot = r mod d" "r < length C" "data = fst (C ! r)" "lane_inv d C (Suc r) (ks @ [r]) A (cl, b\<lparr>cb_req := ring\<rparr>)"
proof -
  have bi: "block_inv d C r ks A (length (icl_responses cl)) b" using inv by (simp add: lane_inv_def)
  have wf: "os_wf (cb_req b)" using bi by (simp add: block_inv_def)
  have g: "os_contents (cb_req b) = data # os_contents ring" "os_wf ring" "ring = (cb_req b)\<lparr>os_tail := os_tail (cb_req b) + 1\<rparr>"
    "slot = unat (os_tail (cb_req b) AND os_mask (cb_req b))"
    by (cases rule: raw_try_recv_cases [OF wf]; use got in auto)+
  have cap: "os_cap (cb_req b)" using wf by (simp add: os_wf_def)
  show "slot = r mod d" using os_slot_eq [OF cap, of r] bi g(4) by (simp add: block_inv_def)
  have m: "map fst (drop r C) = data # os_contents ring" using bi g(1) by (simp add: block_inv_def)
  then show r: "r < length C" by (cases "r < length C") auto
  have dr: "drop r C = C ! r # drop (Suc r) C" using Cons_nth_drop_Suc [OF r] by simp
  with m show "data = fst (C ! r)" by simp
  have "os_contents ring = map fst (drop (Suc r) C)" using m dr by simp
  then have "block_inv d C (Suc r) (ks @ [r]) A (length (icl_responses cl)) (b\<lparr>cb_req := ring\<rparr>)"
    using bi g(2) r by (auto simp: block_inv_def g(3) add.commute)
  then show "lane_inv d C (Suc r) (ks @ [r]) A (cl, b\<lparr>cb_req := ring\<rparr>)" using inv by (simp add: lane_inv_def)
qed

lemma lane_forget: "lane_inv d C r ks A s \<Longrightarrow> lane_inv d C r (remove1 k ks) A s"
  using set_remove1_subset [of k ks] by (auto simp: lane_inv_def block_inv_def distinct_remove1)

lemma lane_reply:
  assumes inv: "lane_inv d C r ks A (cl, b)" and k: "k \<in> set ks"
  shows "lane_inv d C r (remove1 k ks) (A @ [(k, p)]) (cl, send_response (word_of_nat (k mod d)) p b)"
proof -
  let ?n = "length (icl_responses cl)"
  let ?out = "outstanding C A ?n"
  have bi: "block_inv d C r ks A ?n b" and ci: "client_inv d C A cl" and d: "is_pow2 d" "0 < d"
    using inv is_pow2_pos by (auto simp: lane_inv_def)
  have n: "?n \<le> length A" and dist: "distinct (ks @ map fst A)" using bi by (auto simp: block_inv_def)
  have fin: "distinct (k # map fst (drop ?n A))"
    using dist k set_drop_subset [of ?n "map fst A"] by (auto simp: distinct_drop simp flip: drop_map)
  have sub: "set (k # map fst (drop ?n A)) \<subseteq> ?out" using untaken_outstanding [OF bi] k by auto
  have "Suc (length A - ?n) \<le> card ?out"
    using card_mono [OF outstanding_finite sub] distinct_card [OF fin] by simp
  also have "\<dots> \<le> d" using ci d(2) by (intro card_outstanding_le) (simp_all add: client_inv_def Let_def)
  finally have "length (os_contents (cb_resp b)) < d" using bi by (simp add: block_inv_def)
  then have room: "os_wf (cb_resp b)" "os_count (cb_resp b) < length (os_slots (cb_resp b))"
    using bi by (simp_all add: block_inv_def)
  note e = raw_try_send_effect [OF room, of "\<lparr>rs_token = word_of_nat (k mod d), rs_data = p\<rparr>"]
  have "block_inv d C r (remove1 k ks) (A @ [(k, p)]) ?n (send_response (word_of_nat (k mod d)) p b)"
    using bi e k dist n set_remove1_subset [of k ks]
    by (auto simp: block_inv_def send_response_def answer_slot_def distinct_remove1 raw_try_send_fields(4))
  moreover have "client_inv d C (A @ [(k, p)]) cl"
    using ci n outstanding_answer [OF n, of C "(k, p)"] by (simp add: client_inv_def Let_def)
  ultimately show ?thesis using inv by (simp add: lane_inv_def)
qed

section \<open>The whole system\<close>

text \<open>
  \<open>is_tokens\<close> are the tokens the server's program holds, each with the number of the call it
  stands for; \<open>is_calls\<close>, \<open>is_received\<close> and \<open>is_answers\<close> record for every client its calls, how many
  of them the server has received, and the answers in the order they were given.
\<close>

record ('q, 'p, 'u) ipc_sys =
  is_mem :: "('q, 'p) shared"
  is_server :: ipc_server
  is_clients :: "nat \<Rightarrow> ('u, 'p) ipc_client option"
  is_tokens :: "(request_token \<times> nat) list"
  is_calls :: "nat \<Rightarrow> ('q \<times> 'u) list"
  is_received :: "nat \<Rightarrow> nat"
  is_answers :: "nat \<Rightarrow> (nat \<times> 'p) list"

definition sys_block :: "('q, 'p, 'u) ipc_sys \<Rightarrow> nat \<Rightarrow> ('q, 'p) client_block" where
  "sys_block s i = sh_blocks (is_mem s) ! i"

definition sys_header :: "('q, 'p, 'u) ipc_sys \<Rightarrow> header" where
  "sys_header s = sh_header (is_mem s)"

text \<open>Client \<open>i\<close> is there: it is connected and not dropped.\<close>

definition sys_client :: "('q, 'p, 'u) ipc_sys \<Rightarrow> nat \<Rightarrow> ('u, 'p) ipc_client \<Rightarrow> bool" where
  "sys_client s i cl \<longleftrightarrow> is_clients s i = Some cl \<and> cb_alive (sys_block s i)"

definition put_client :: "nat \<Rightarrow> ('q, 'p, 'u) endpoint \<Rightarrow> ('q, 'p, 'u) ipc_sys \<Rightarrow> ('q, 'p, 'u) ipc_sys" where
  "put_client i = (\<lambda>(cl, b) s. s\<lparr>is_clients := (is_clients s)(i := Some cl),
     is_mem := (is_mem s)\<lparr>sh_blocks := (sh_blocks (is_mem s))[i := b]\<rparr>\<rparr>)"

definition ipc_start :: "ipc_server \<Rightarrow> ('q, 'p) shared \<Rightarrow> ('q, 'p, 'u) ipc_sys" where
  "ipc_start sv mem = \<lparr>is_mem = mem, is_server = sv, is_clients = (\<lambda>_. None), is_tokens = [],
     is_calls = (\<lambda>_. []), is_received = (\<lambda>_. 0), is_answers = (\<lambda>_. [])\<rparr>"

text \<open>
  A server operates until it is dropped.  The counter that numbers the clients is 32 bits wide;
  the runs considered make fewer attempts to connect than that.
\<close>

inductive ipc_run :: "u64 \<Rightarrow> u64 \<Rightarrow> u32 \<Rightarrow> u32 \<Rightarrow> u32 \<Rightarrow> ('q, 'p, 'u) ipc_sys \<Rightarrow> bool"
  for rs ps mc d ex where
  ir_create: "server_create True rs ps mc d ex = Ok (sv, mem) \<Longrightarrow> ipc_run rs ps mc d ex (ipc_start sv mem)"
| ir_connect: "ipc_run rs ps mc d ex s \<Longrightarrow> hd_next_client_id (sys_header s) + 1 \<noteq> 0 \<Longrightarrow>
    client_connect o1 o2 rs' ps' (is_mem s) = (Ok cl, mem) \<Longrightarrow>
    ipc_run rs ps mc d ex (s\<lparr>is_mem := mem, is_clients := (is_clients s)(unat (hd_next_client_id (sys_header s)) := Some cl)\<rparr>)"
| ir_refused: "ipc_run rs ps mc d ex s \<Longrightarrow> hd_next_client_id (sys_header s) + 1 \<noteq> 0 \<Longrightarrow>
    client_connect o1 o2 rs' ps' (is_mem s) = ((Err e :: (('u, 'p) ipc_client, connect_error) outcome), mem) \<Longrightarrow>
    ipc_run rs ps mc d ex (s\<lparr>is_mem := mem\<rparr>)"
| ir_called: "ipc_run rs ps mc d ex s \<Longrightarrow> sys_client s i cl \<Longrightarrow>
    call_turn (sys_header s) req u (cl, sys_block s i) = (Ok True, e) \<Longrightarrow>
    ipc_run rs ps mc d ex ((put_client i e s)\<lparr>is_calls := (is_calls s)(i := is_calls s i @ [(req, u)])\<rparr>)"
| ir_waits: "ipc_run rs ps mc d ex s \<Longrightarrow> sys_client s i cl \<Longrightarrow>
    call_turn (sys_header s) req u (cl, sys_block s i) = (out, e) \<Longrightarrow> out \<noteq> Ok True \<Longrightarrow>
    ipc_run rs ps mc d ex (put_client i e s)"
| ir_polls: "ipc_run rs ps mc d ex s \<Longrightarrow> sys_client s i cl \<Longrightarrow>
    client_poll (sys_header s) (cl, sys_block s i) = (out, e) \<Longrightarrow> ipc_run rs ps mc d ex (put_client i e s)"
| ir_leaves: "ipc_run rs ps mc d ex s \<Longrightarrow> sys_client s i cl \<Longrightarrow>
    ipc_run rs ps mc d ex (put_client i (cl, client_drop (sys_block s i)) s)"
| ir_server_polls: "ipc_run rs ps mc d ex s \<Longrightarrow> hd_server_alive (sys_header s) \<Longrightarrow>
    ipc_run rs ps mc d ex (s\<lparr>is_server := snd (server_poll (is_server s) (is_mem s))\<rparr>)"
| ir_server_skips: "ipc_run rs ps mc d ex s \<Longrightarrow> hd_server_alive (sys_header s) \<Longrightarrow>
    ipc_run rs ps mc d ex (s\<lparr>is_server := snd (poll_with_skip skip (is_server s) (is_mem s))\<rparr>)"
| ir_receives: "ipc_run rs ps mc d ex s \<Longrightarrow> hd_server_alive (sys_header s) \<Longrightarrow>
    server_recv (is_server s) (is_mem s) = (Some h, sv, mem) \<Longrightarrow> i = rh_client_idx h \<Longrightarrow>
    ipc_run rs ps mc d ex (s\<lparr>is_server := sv, is_mem := mem,
      is_tokens := is_tokens s @ [(into_token h, is_received s i)],
      is_received := (is_received s)(i := is_received s i + 1)\<rparr>)"
| ir_nothing: "ipc_run rs ps mc d ex s \<Longrightarrow> hd_server_alive (sys_header s) \<Longrightarrow>
    server_recv (is_server s) (is_mem s) = (None, sv, mem) \<Longrightarrow>
    ipc_run rs ps mc d ex (s\<lparr>is_server := sv, is_mem := mem\<rparr>)"
| ir_replies: "ipc_run rs ps mc d ex s \<Longrightarrow> hd_server_alive (sys_header s) \<Longrightarrow> (tk, k) \<in> set (is_tokens s) \<Longrightarrow>
    server_reply tk p (is_mem s) = Some mem \<Longrightarrow> i = unat (tk_client_id tk) \<Longrightarrow>
    ipc_run rs ps mc d ex (s\<lparr>is_mem := mem, is_tokens := remove1 (tk, k) (is_tokens s),
      is_answers := (is_answers s)(i := is_answers s i @ [(k, p)])\<rparr>)"
| ir_forgets: "ipc_run rs ps mc d ex s \<Longrightarrow> (tk, k) \<in> set (is_tokens s) \<Longrightarrow>
    ipc_run rs ps mc d ex (s\<lparr>is_tokens := remove1 (tk, k) (is_tokens s)\<rparr>)"
| ir_server_leaves: "ipc_run rs ps mc d ex s \<Longrightarrow> ipc_run rs ps mc d ex (s\<lparr>is_mem := server_drop (is_mem s)\<rparr>)"

definition held_calls :: "('q, 'p, 'u) ipc_sys \<Rightarrow> nat \<Rightarrow> nat list" where
  "held_calls s i = map snd (filter (\<lambda>(tk, k). unat (tk_client_id tk) = i) (is_tokens s))"

definition sys_lane :: "nat \<Rightarrow> ('q, 'p, 'u) ipc_sys \<Rightarrow> nat \<Rightarrow> bool" where
  "sys_lane d s i \<longleftrightarrow> (case is_clients s i of
     None \<Rightarrow> is_calls s i = [] \<and> is_received s i = 0 \<and> is_answers s i = [] \<and> held_calls s i = [] \<and>
       sys_block s i = \<lparr>cb_alive = False, cb_req = create_spsc d, cb_resp = create_spsc d\<rparr>
   | Some cl \<Rightarrow> lane_inv d (is_calls s i) (is_received s i) (held_calls s i) (is_answers s i) (cl, sys_block s i))"

definition sys_inv :: "nat \<Rightarrow> nat \<Rightarrow> ('q, 'p, 'u) ipc_sys \<Rightarrow> bool" where
  "sys_inv mc d s \<longleftrightarrow>
     is_pow2 d \<and> d < 2 ^ 32 \<and> 0 < mc \<and> mc < 2 ^ 32 \<and>
     length (sh_blocks (is_mem s)) = mc \<and> unat (hd_max_clients (sys_header s)) = mc \<and> unat (hd_ring_depth (sys_header s)) = d \<and>
     unat (isv_max_clients (is_server s)) = mc \<and>
     (\<forall>i < mc. sys_lane d s i) \<and> (\<forall>i. mc \<le> i \<or> unat (hd_next_client_id (sys_header s)) \<le> i \<longrightarrow> is_clients s i = None) \<and>
     (\<forall>(tk, k) \<in> set (is_tokens s). unat (tk_client_id tk) < mc \<and> tk_slot_idx tk = word_of_nat (k mod d))"

lemma sys_invD:
  assumes "sys_inv mc d s"
  shows "is_pow2 d" "d < 2 ^ 32" "0 < mc" "mc < 2 ^ 32" "length (sh_blocks (is_mem s)) = mc"
    "unat (hd_max_clients (sys_header s)) = mc" "unat (hd_ring_depth (sys_header s)) = d"
    "unat (isv_max_clients (is_server s)) = mc" "i < mc \<Longrightarrow> sys_lane d s i"
    "unat (hd_next_client_id (sys_header s)) \<le> i \<Longrightarrow> is_clients s i = None"
    "(tk, k) \<in> set (is_tokens s) \<Longrightarrow> unat (tk_client_id tk) < mc \<and> tk_slot_idx tk = word_of_nat (k mod d)"
    "mc \<le> i \<Longrightarrow> is_clients s i = None"
  using assms by (auto simp: sys_inv_def)

definition same_lane :: "('q, 'p, 'u) ipc_sys \<Rightarrow> ('q, 'p, 'u) ipc_sys \<Rightarrow> nat \<Rightarrow> bool" where
  "same_lane s s' j \<longleftrightarrow> is_clients s' j = is_clients s j \<and> is_calls s' j = is_calls s j \<and> is_received s' j = is_received s j \<and>
     is_answers s' j = is_answers s j \<and> held_calls s' j = held_calls s j \<and> sys_block s' j = sys_block s j"

lemma same_lane_keeps: "same_lane s s' j \<Longrightarrow> sys_lane d s j \<Longrightarrow> sys_lane d s' j"
  by (auto simp: same_lane_def sys_lane_def split: option.splits)

lemma sys_inv_lane_step:
  assumes inv: "sys_inv mc d s" and i: "i < mc" "is_clients s i \<noteq> None" "sys_lane d s' i"
    and same: "\<And>j. j \<noteq> i \<Longrightarrow> same_lane s s' j"
    and shape: "length (sh_blocks (is_mem s')) = length (sh_blocks (is_mem s))" "sys_header s' = sys_header s"
      "isv_max_clients (is_server s') = isv_max_clients (is_server s)"
    and tokens: "set (is_tokens s') \<subseteq> set (is_tokens s) \<union> {(tk, k). unat (tk_client_id tk) = i \<and> tk_slot_idx tk = word_of_nat (k mod d)}"
  shows "sys_inv mc d s'"
  unfolding sys_inv_def
proof (intro conjI allI impI)
  fix j assume "j < mc"
  then show "sys_lane d s' j" using i(3) same_lane_keeps [OF same sys_invD(9) [OF inv]] by (cases "j = i") auto
next
  fix j assume "mc \<le> j \<or> unat (hd_next_client_id (sys_header s')) \<le> j"
  then have "is_clients s j = None" using sys_invD(10,12) [OF inv] shape(2) by auto
  then show "is_clients s' j = None" using i(2) same [of j] by (cases "j = i") (auto simp: same_lane_def)
next
  show "\<forall>(tk, k)\<in>set (is_tokens s'). unat (tk_client_id tk) < mc \<and> tk_slot_idx tk = word_of_nat (k mod d)"
    using sys_invD(11) [OF inv] tokens i(1) by blast
qed (use sys_invD [OF inv] shape in simp_all)

lemma sys_inv_same:
  assumes "sys_inv mc d s" "is_mem s' = is_mem s" "is_clients s' = is_clients s" "is_tokens s' = is_tokens s"
    "is_calls s' = is_calls s" "is_received s' = is_received s" "is_answers s' = is_answers s"
    "isv_max_clients (is_server s') = isv_max_clients (is_server s)"
  shows "sys_inv mc d s'"
proof -
  have "same_lane s s' j" for j using assms by (simp add: same_lane_def held_calls_def sys_block_def)
  then have "sys_lane d s' j" if "j < mc" for j using same_lane_keeps sys_invD(9) [OF assms(1) that] by blast
  then show ?thesis using assms by (simp add: sys_inv_def sys_header_def)
qed

section \<open>Every step keeps the invariant\<close>

lemma create_inv:
  assumes "server_create True rs ps mc d ex = Ok (sv, mem)"
  shows "sys_inv (unat mc) (unat d) (ipc_start sv mem)"
  using assms unat_u32_lt [of mc] unat_u32_lt [of d]
  by (auto simp: server_create_def ipc_start_def sys_inv_def sys_lane_def sys_block_def sys_header_def
      held_calls_def block_init_def unat_gt_0 split: if_splits)

lemma unat_add_one: "x + 1 \<noteq> (0 :: u32) \<Longrightarrow> unat (x + 1) = unat x + 1"
  using unatSuc [of x] by (simp add: add.commute)

lemma fresh_lane:
  assumes "is_pow2 d" "d < 2 ^ 32" "unat rd = d"
  shows "lane_inv d [] 0 [] []
    (\<lparr>icl_client_id = ci, icl_ring_depth = rd, icl_extra_ptr = ep, icl_extra_buffer_size = es, icl_in_flight = 0,
      icl_user_data = replicate d None, icl_responses = []\<rparr>,
     \<lparr>cb_alive = True,
      cb_req = (create_spsc d)\<lparr>os_mask := ucast rd - 1, os_head := 0, os_sends_since_publish := 0\<rparr>,
      cb_resp = (create_spsc d)\<lparr>os_mask := ucast rd - 1, os_tail := 0\<rparr>\<rparr>)"
proof -
  have "word_of_nat (d - 1) = (ucast rd - 1 :: u64)"
    using is_pow2_pos [OF assms(1)] by (simp add: of_nat_diff flip: assms(3))
  then have eq: "(create_spsc d)\<lparr>os_mask := ucast rd - 1, os_head := 0, os_sends_since_publish := 0\<rparr> = (create_spsc d :: 'x onesided)"
    "(create_spsc d)\<lparr>os_mask := ucast rd - 1, os_tail := 0\<rparr> = (create_spsc d :: 'y onesided)"
    by (simp_all add: create_spsc_def)
  have "d < 2 ^ 64" using assms(2) by simp
  note wf = create_spsc_wf [OF assms(1) this]
  show ?thesis
    using assms by (simp add: eq wf lane_inv_def client_inv_def block_inv_def outstanding_def)
      (simp add: create_spsc_def)
qed

lemma ipc_connect_inv:
  assumes inv: "sys_inv mc d s" and nz: "hd_next_client_id (sys_header s) + 1 \<noteq> 0"
    and con: "client_connect o1 o2 rs ps (is_mem s) = (Ok cl, mem)"
  shows "sys_inv mc d (s\<lparr>is_mem := mem, is_clients := (is_clients s)(unat (hd_next_client_id (sys_header s)) := Some cl)\<rparr>)"
    (is "sys_inv mc d ?s")
proof -
  let ?h = "sys_header s"
  let ?i = "unat (hd_next_client_id ?h)"
  have i: "?i < mc" using con sys_invD(6) [OF inv]
    by (auto simp: client_connect_def Let_def sys_header_def word_less_nat_alt not_le split: if_splits)
  have none: "is_clients s ?i = None" using sys_invD(10) [OF inv] by simp
  then have fresh: "is_calls s ?i = []" "is_received s ?i = 0" "is_answers s ?i = []" "held_calls s ?i = []"
    "sys_block s ?i = \<lparr>cb_alive = False, cb_req = create_spsc d, cb_resp = create_spsc d\<rparr>"
    using sys_invD(9) [OF inv i] by (simp_all add: sys_lane_def)
  have lane: "lane_inv d [] 0 [] [] (cl, sys_block ?s ?i)"
    and hdr: "sys_header ?s = ?h\<lparr>hd_next_client_id := hd_next_client_id ?h + 1\<rparr>"
    and blocks: "sh_blocks mem = (sh_blocks (is_mem s))[?i := sys_block ?s ?i]"
    using con i fresh(5) sys_invD(5) [OF inv] fresh_lane [OF sys_invD(1,2,7) [OF inv]] sys_invD(7) [OF inv]
    by (auto simp: client_connect_def Let_def sys_header_def sys_block_def split: if_splits)
  have lanes: "sys_lane d ?s j" if "j < mc" for j
  proof (cases "j = ?i")
    case True
    then show ?thesis using lane fresh by (simp add: sys_lane_def held_calls_def)
  next
    case False
    then have "sh_blocks mem ! j = sh_blocks (is_mem s) ! j" by (subst blocks) simp
    then have "same_lane s ?s j" using False by (simp add: same_lane_def held_calls_def sys_block_def)
    then show ?thesis by (rule same_lane_keeps [OF _ sys_invD(9) [OF inv that]])
  qed
  have nxt: "unat (hd_next_client_id ?h + 1) = ?i + 1" by (rule unat_add_one [OF nz])
  have "is_clients ?s j = None" if "mc \<le> j \<or> unat (hd_next_client_id (sys_header ?s)) \<le> j" for j
    using sys_invD(10,12) [OF inv, of j] that nxt hdr i by auto
  with lanes sys_invD [OF inv] hdr blocks show ?thesis by (auto simp: sys_inv_def)
qed

lemma refused_inv:
  assumes inv: "sys_inv mc d s" and nz: "hd_next_client_id (sys_header s) + 1 \<noteq> 0"
    and con: "client_connect o1 o2 rs ps (is_mem s) = (Err e, mem)"
  shows "sys_inv mc d (s\<lparr>is_mem := mem\<rparr>)"
proof -
  have nxt: "unat (hd_next_client_id (sys_header s) + 1) = unat (hd_next_client_id (sys_header s)) + 1"
    by (rule unat_add_one [OF nz])
  have "sh_blocks mem = sh_blocks (is_mem s) \<and>
      (sh_header mem = sys_header s \<or> sh_header mem = (sys_header s)\<lparr>hd_next_client_id := hd_next_client_id (sys_header s) + 1\<rparr>)"
    using con by (auto simp: client_connect_def Let_def sys_header_def split: if_splits)
  then have h: "sh_blocks mem = sh_blocks (is_mem s)" "hd_max_clients (sh_header mem) = hd_max_clients (sys_header s)"
    "hd_ring_depth (sh_header mem) = hd_ring_depth (sys_header s)"
    "unat (hd_next_client_id (sys_header s)) \<le> unat (hd_next_client_id (sh_header mem))"
    using nxt by auto
  have "sys_lane d (s\<lparr>is_mem := mem\<rparr>) j" if "j < mc" for j
    by (rule same_lane_keeps [OF _ sys_invD(9) [OF inv that]]) (simp add: same_lane_def sys_block_def held_calls_def h)
  then show ?thesis using inv h by (auto simp: sys_inv_def sys_header_def)
qed

lemma put_client_fields [simp]:
  "is_clients (put_client i (cl, b) s) = (is_clients s)(i := Some cl)"
  "is_mem (put_client i (cl, b) s) = (is_mem s)\<lparr>sh_blocks := (sh_blocks (is_mem s))[i := b]\<rparr>"
  "is_server (put_client i (cl, b) s) = is_server s" "is_tokens (put_client i (cl, b) s) = is_tokens s"
  "is_calls (put_client i (cl, b) s) = is_calls s" "is_received (put_client i (cl, b) s) = is_received s"
  "is_answers (put_client i (cl, b) s) = is_answers s"
  by (simp_all add: put_client_def)

lemma sys_client_lane:
  assumes "sys_inv mc d s" "sys_client s i cl"
  shows "lane_inv d (is_calls s i) (is_received s i) (held_calls s i) (is_answers s i) (cl, sys_block s i)" "i < mc"
proof -
  have c: "is_clients s i = Some cl" using assms(2) by (simp add: sys_client_def)
  then show "i < mc" using sys_invD(12) [OF assms(1), of i] by (cases "i < mc") auto
  then show "lane_inv d (is_calls s i) (is_received s i) (held_calls s i) (is_answers s i) (cl, sys_block s i)"
    using sys_invD(9) [OF assms(1), of i] c by (simp add: sys_lane_def)
qed

lemma client_step_inv:
  assumes inv: "sys_inv mc d s" and cl: "sys_client s i cl"
    and lane: "lane_inv d (C i) (is_received s i) (held_calls s i) (is_answers s i) (cl', b')"
    and C: "\<And>j. j \<noteq> i \<Longrightarrow> C j = is_calls s j"
  shows "sys_inv mc d ((put_client i (cl', b') s)\<lparr>is_calls := C\<rparr>)" (is "sys_inv mc d ?s")
proof -
  have i: "i < mc" by (rule sys_client_lane(2) [OF inv cl])
  have "is_clients s i \<noteq> None" using cl by (simp add: sys_client_def)
  moreover have "sys_lane d ?s i"
    using lane i sys_invD(5) [OF inv] by (simp add: sys_lane_def sys_block_def held_calls_def)
  moreover have "same_lane s ?s j" if "j \<noteq> i" for j
    using that C by (simp add: same_lane_def sys_block_def held_calls_def)
  ultimately show ?thesis by (rule sys_inv_lane_step [OF inv i]) (simp_all add: sys_header_def)
qed

lemma put_client_calls: "(put_client i e s)\<lparr>is_calls := is_calls s\<rparr> = put_client i e s"
  by (cases e) (simp add: put_client_def)

text \<open>A receive takes the oldest request of one client, or finds nothing and changes no ring.\<close>

lemma server_recv_result:
  assumes "server_recv sv mem = (r, sv', mem')" "0 < unat (isv_max_clients sv)"
  shows "isv_max_clients sv' = isv_max_clients sv \<and>
    (case r of
       None \<Rightarrow> mem' = mem
     | Some h \<Rightarrow> rh_client_idx h < unat (isv_max_clients sv) \<and>
         (\<exists>ring. raw_try_recv (cb_req (sh_blocks mem ! rh_client_idx h)) = (Some (rh_slot_idx h, rh_data h), ring) \<and>
            mem' = mem\<lparr>sh_blocks := (sh_blocks mem)[rh_client_idx h := (sh_blocks mem ! rh_client_idx h)\<lparr>cb_req := ring\<rparr>]\<rparr>))"
  using assms
proof (induction sv mem rule: server_recv.induct)
  case (1 sv mem)
  show ?case
    using 1
    by (subst (asm) (3) server_recv.simps) (auto simp: Let_def split: if_splits option.splits prod.splits)
qed

lemma server_poll_shape [simp]:
  "isv_max_clients (snd (server_poll sv mem)) = isv_max_clients sv"
  "isv_max_clients (snd (poll_with_skip skip sv mem)) = isv_max_clients sv"
  by (simp_all add: server_poll_def poll_with_skip_def split: prod.splits)

lemma unconnected_empty:
  assumes "sys_inv mc d s" "i < mc" "raw_try_recv (cb_req (sys_block s i)) = (Some x, ring)"
  shows "is_clients s i \<noteq> None"
proof
  assume "is_clients s i = None"
  then have b: "cb_req (sys_block s i) = create_spsc d" using sys_invD(9) [OF assms(1,2)] by (simp add: sys_lane_def)
  have "d < 2 ^ 64" using sys_invD(2) [OF assms(1)] by simp
  note wf = create_spsc_wf [OF sys_invD(1) [OF assms(1)] this]
  have "os_wf (cb_req (sys_block s i))" "os_contents (cb_req (sys_block s i)) = []" by (simp_all add: b wf)
  then show False using raw_try_recv_effect(3) [of "cb_req (sys_block s i)"] assms(3) by simp
qed

lemma receive_inv:
  assumes inv: "sys_inv mc d s" and recv: "server_recv (is_server s) (is_mem s) = (Some h, sv, mem)" and i: "i = rh_client_idx h"
  shows "sys_inv mc d (s\<lparr>is_server := sv, is_mem := mem, is_tokens := is_tokens s @ [(into_token h, is_received s i)],
      is_received := (is_received s)(i := is_received s i + 1)\<rparr>)" (is "sys_inv mc d ?s")
    and "is_received s i < length (is_calls s i) \<and> rh_data h = fst (is_calls s i ! is_received s i) \<and> i < mc"
proof -
  have "0 < unat (isv_max_clients (is_server s))" using sys_invD(3,8) [OF inv] by simp
  from server_recv_result [OF recv this] obtain ring where r: "isv_max_clients sv = isv_max_clients (is_server s)" "i < mc"
    "raw_try_recv (cb_req (sys_block s i)) = (Some (rh_slot_idx h, rh_data h), ring)"
    "mem = (is_mem s)\<lparr>sh_blocks := (sh_blocks (is_mem s))[i := (sys_block s i)\<lparr>cb_req := ring\<rparr>]\<rparr>"
    using i sys_invD(8) [OF inv] by (auto simp: sys_block_def)
  obtain cl where cl: "is_clients s i = Some cl" using unconnected_empty [OF inv r(2,3)] by auto
  then have lane: "lane_inv d (is_calls s i) (is_received s i) (held_calls s i) (is_answers s i) (cl, sys_block s i)"
    using sys_invD(9) [OF inv r(2)] by (simp add: sys_lane_def)
  note e = lane_receive [OF lane r(3)]
  show "is_received s i < length (is_calls s i) \<and> rh_data h = fst (is_calls s i ! is_received s i) \<and> i < mc"
    using e(2,3) r(2) by simp
  have tk: "unat (tk_client_id (into_token h)) = i"
    using r(2) sys_invD(4) [OF inv] by (simp add: into_token_def unat_of_nat flip: i)
  have "sys_lane d ?s i"
    using e(4) cl tk r(2,4) sys_invD(5) [OF inv] by (simp add: sys_lane_def sys_block_def held_calls_def)
  moreover have "same_lane s ?s j" if "j \<noteq> i" for j
    using that tk r(4) by (simp add: same_lane_def sys_block_def held_calls_def)
  ultimately show "sys_inv mc d ?s"
    by (intro sys_inv_lane_step [OF inv r(2)])
      (use cl r tk e(1) in \<open>auto simp: sys_header_def into_token_def\<close>)
qed

lemma map_remove1: "distinct (map f xs) \<Longrightarrow> x \<in> set xs \<Longrightarrow> map f (remove1 x xs) = remove1 (f x) (map f xs)"
  by (induction xs) (auto simp: image_iff)

lemma held_calls_remove:
  assumes "(tk, k) \<in> set (is_tokens s)" "distinct (held_calls s (unat (tk_client_id tk)))"
  shows "map snd (filter (\<lambda>(tk, k). unat (tk_client_id tk) = i) (remove1 (tk, k) (is_tokens s))) =
    (if i = unat (tk_client_id tk) then remove1 k (held_calls s i) else held_calls s i)"
    and "k \<in> set (held_calls s (unat (tk_client_id tk)))"
  using assms by (auto simp: held_calls_def filter_remove1 map_remove1 remove1_idem image_iff)

lemma token_lane:
  assumes inv: "sys_inv mc d s" and tk: "(tk, k) \<in> set (is_tokens s)"
  defines "i \<equiv> unat (tk_client_id tk)"
  obtains cl where "i < mc" "is_clients s i = Some cl"
    "lane_inv d (is_calls s i) (is_received s i) (held_calls s i) (is_answers s i) (cl, sys_block s i)"
    "distinct (held_calls s i)" "k \<in> set (held_calls s i)"
proof -
  have i: "i < mc" using sys_invD(11) [OF inv tk] by (simp add: i_def)
  have k: "k \<in> set (held_calls s i)" using tk by (force simp: held_calls_def i_def)
  then obtain cl where cl: "is_clients s i = Some cl"
    using sys_invD(9) [OF inv i] by (cases "is_clients s i") (auto simp: sys_lane_def)
  then have lane: "lane_inv d (is_calls s i) (is_received s i) (held_calls s i) (is_answers s i) (cl, sys_block s i)"
    using sys_invD(9) [OF inv i] by (simp add: sys_lane_def)
  then have "distinct (held_calls s i)" by (simp add: lane_inv_def block_inv_def)
  with i k cl lane that show thesis by blast
qed

lemma ipc_reply_inv:
  assumes inv: "sys_inv mc d s" and tk: "(tk, k) \<in> set (is_tokens s)" and reply: "server_reply tk p (is_mem s) = Some mem"
    and i: "i = unat (tk_client_id tk)"
  shows "sys_inv mc d (s\<lparr>is_mem := mem, is_tokens := remove1 (tk, k) (is_tokens s),
      is_answers := (is_answers s)(i := is_answers s i @ [(k, p)])\<rparr>)" (is "sys_inv mc d ?s")
proof (rule token_lane [OF inv tk, folded i])
  fix cl assume c: "i < mc" "is_clients s i = Some cl"
    "lane_inv d (is_calls s i) (is_received s i) (held_calls s i) (is_answers s i) (cl, sys_block s i)"
    "distinct (held_calls s i)" "k \<in> set (held_calls s i)"
  note held = held_calls_remove(1) [OF tk, folded i, OF c(4)]
  have slot: "tk_slot_idx tk = word_of_nat (k mod d)" using sys_invD(11) [OF inv tk] by simp
  have mem: "mem = (is_mem s)\<lparr>sh_blocks := (sh_blocks (is_mem s))[i := send_response (word_of_nat (k mod d)) p (sys_block s i)]\<rparr>"
    using reply slot by (auto simp: server_reply_def Let_def sys_block_def i split: if_splits)
  have "sys_lane d ?s i"
    using lane_reply [OF c(3,5), of p] c mem held [of i] sys_invD(5) [OF inv]
    by (simp add: sys_lane_def sys_block_def) (simp add: held_calls_def)
  moreover have "same_lane s ?s j" if "j \<noteq> i" for j
    using that mem held [of j] by (simp add: same_lane_def sys_block_def) (simp add: held_calls_def)
  ultimately show ?thesis
    by (intro sys_inv_lane_step [OF inv c(1)]) (use c mem set_remove1_subset [of "(tk, k)" "is_tokens s"] in \<open>auto simp: sys_header_def\<close>)
qed

lemma forget_inv:
  assumes inv: "sys_inv mc d s" and tk: "(tk, k) \<in> set (is_tokens s)"
  shows "sys_inv mc d (s\<lparr>is_tokens := remove1 (tk, k) (is_tokens s)\<rparr>)" (is "sys_inv mc d ?s")
proof (rule token_lane [OF inv tk])
  let ?i = "unat (tk_client_id tk)"
  fix cl assume c: "?i < mc" "is_clients s ?i = Some cl"
    "lane_inv d (is_calls s ?i) (is_received s ?i) (held_calls s ?i) (is_answers s ?i) (cl, sys_block s ?i)"
    "distinct (held_calls s ?i)" "k \<in> set (held_calls s ?i)"
  note held = held_calls_remove(1) [OF tk c(4)]
  have "sys_lane d ?s ?i"
    using lane_forget [OF c(3), of k] c held [of ?i] by (simp add: sys_lane_def sys_block_def) (simp add: held_calls_def)
  moreover have "same_lane s ?s j" if "j \<noteq> ?i" for j
    using that held [of j] by (simp add: same_lane_def sys_block_def) (simp add: held_calls_def)
  ultimately show ?thesis
    by (intro sys_inv_lane_step [OF inv c(1)]) (use c set_remove1_subset [of "(tk, k)" "is_tokens s"] in \<open>auto simp: sys_header_def\<close>)
qed

lemma server_drop_inv: "sys_inv mc d s \<Longrightarrow> sys_inv mc d (s\<lparr>is_mem := server_drop (is_mem s)\<rparr>)"
proof -
  assume inv: "sys_inv mc d s"
  let ?s = "s\<lparr>is_mem := server_drop (is_mem s)\<rparr>"
  have "sys_lane d ?s j" if "j < mc" for j
    by (rule same_lane_keeps [OF _ sys_invD(9) [OF inv that]])
      (simp add: same_lane_def sys_block_def held_calls_def server_drop_def)
  then show ?thesis using inv by (simp add: sys_inv_def sys_header_def server_drop_def)
qed

lemma ipc_run_inv: "ipc_run rs ps mc d ex s \<Longrightarrow> sys_inv (unat mc) (unat d) s"
proof (induction rule: ipc_run.induct)
  case (ir_create sv mem)
  then show ?case by (rule create_inv)
next
  case (ir_connect s o1 o2 rs' ps' cl mem)
  show ?case by (rule ipc_connect_inv [OF ir_connect.IH ir_connect.hyps(2,3)])
next
  case (ir_refused s o1 o2 rs' ps' e mem)
  show ?case by (rule refused_inv [OF ir_refused.IH ir_refused.hyps(2,3)])
next
  case (ir_called s i cl req u e)
  note lane = sys_client_lane(1) [OF ir_called.IH ir_called.hyps(2)]
  show ?case
    by (cases rule: call_turn_keeps [OF lane, of "sys_header s" req u])
      (use ir_called.hyps(3) in \<open>auto intro: client_step_inv [OF ir_called.IH ir_called.hyps(2)]\<close>)
next
  case (ir_waits s i cl req u out e)
  note lane = sys_client_lane(1) [OF ir_waits.IH ir_waits.hyps(2)]
  have "sys_inv (unat mc) (unat d) ((put_client i e s)\<lparr>is_calls := is_calls s\<rparr>)"
    by (cases rule: call_turn_keeps [OF lane, of "sys_header s" req u])
      (use ir_waits.hyps(3,4) in \<open>auto intro: client_step_inv [OF ir_waits.IH ir_waits.hyps(2)]\<close>)
  then show ?case by (simp only: put_client_calls)
next
  case (ir_polls s i cl out e)
  note lane = sys_client_lane(1) [OF ir_polls.IH ir_polls.hyps(2)]
  have "sys_inv (unat mc) (unat d) ((put_client i e s)\<lparr>is_calls := is_calls s\<rparr>)"
    by (rule client_poll_keeps [OF lane, of "sys_header s"])
      (use ir_polls.hyps(3) in \<open>auto intro: client_step_inv [OF ir_polls.IH ir_polls.hyps(2)]\<close>)
  then show ?case by (simp only: put_client_calls)
next
  case (ir_leaves s i cl)
  have "lane_inv (unat d) (is_calls s i) (is_received s i) (held_calls s i) (is_answers s i) (cl, client_drop (sys_block s i))"
    using sys_client_lane(1) [OF ir_leaves.IH ir_leaves.hyps(2)] by (simp add: lane_inv_def block_inv_def client_drop_def)
  from client_step_inv [where C = "is_calls s", OF ir_leaves.IH ir_leaves.hyps(2) this] show ?case by (simp only: put_client_calls)
next
  case (ir_server_polls s)
  show ?case by (rule sys_inv_same [OF ir_server_polls.IH]) simp_all
next
  case (ir_server_skips s skip)
  show ?case by (rule sys_inv_same [OF ir_server_skips.IH]) simp_all
next
  case (ir_receives s h sv mem i)
  show ?case by (rule receive_inv(1) [OF ir_receives.IH ir_receives.hyps(3,4)])
next
  case (ir_nothing s sv mem)
  have "0 < unat (isv_max_clients (is_server s))" using sys_invD(3,8) [OF ir_nothing.IH] by simp
  from server_recv_result [OF ir_nothing.hyps(3) this] show ?case
    by (intro sys_inv_same [OF ir_nothing.IH]) simp_all
next
  case (ir_replies s tk k p mem i)
  show ?case by (rule ipc_reply_inv [OF ir_replies.IH ir_replies.hyps(3,4,5)])
next
  case (ir_forgets s tk k)
  show ?case by (rule forget_inv [OF ir_forgets.IH ir_forgets.hyps(2)])
next
  case (ir_server_leaves s)
  show ?case by (rule server_drop_inv [OF ir_server_leaves.IH])
qed

end
