(* ===== verification/Ipc_Service.thy ===== *)
theory Ipc_Service
  imports Ipc_Safety
begin

text \<open>
  What the clients and the server of \<^verbatim>\<open>ipc/src/lib.rs\<close> can rely on: responses reach the user data of
  their own call, a call returns once its slot is answered, one round of the server takes every
  waiting request, and a synchronous call gets its answer.
\<close>

section \<open>Responses and calls\<close>

lemma lane_counts:
  assumes "lane_inv d C r ks A (cl, b)"
  shows "length (icl_responses cl) + unat (icl_in_flight cl) = length C"
proof -
  let ?n = "length (icl_responses cl)"
  have b: "?n \<le> length A" "distinct (map fst A)" "fst ` set A \<subseteq> {..<length C}"
    using assms by (fastforce simp: lane_inv_def block_inv_def)+
  have sub: "fst ` set (take ?n A) \<subseteq> {..<length C}" using b(3) set_take_subset [of ?n A] by fastforce
  have "card (set (take ?n (map fst A))) = ?n" using b distinct_card [OF distinct_take [OF b(2)], of ?n] by simp
  then have "card (fst ` set (take ?n A)) = ?n" by (simp add: take_map)
  then have "card (outstanding C A ?n) = length C - ?n"
    unfolding outstanding_def using sub by (simp add: card_Diff_subset)
  moreover have "?n \<le> length C" using card_mono [OF _ sub] \<open>card (fst ` set (take ?n A)) = ?n\<close> by simp
  ultimately show ?thesis using assms by (simp add: lane_inv_def client_inv_def Let_def)
qed

text \<open>
  C15.  Every response reaches its call.  In every run, whatever the clients and the server do and
  however long tokens are held and in whatever order they are answered, the callback of a client
  was called for a prefix of the answers given to it, each time with the user data of the very
  call that was answered; no call is answered twice; the requests the server receives are
  the calls of the client in order; the calls without response are counted exactly; and neither
  a poll nor a call panics, although slots of the rings and of the user data are reused.
\<close>

theorem ipc_responses_matched:
  assumes "ipc_run rs ps mc d ex s" "sys_client s i cl"
  shows "icl_responses cl = map (\<lambda>(k, p). (snd (is_calls s i ! k), p)) (take (length (icl_responses cl)) (is_answers s i)) \<and>
    distinct (map fst (is_answers s i)) \<and> fst ` set (is_answers s i) \<subseteq> {..<length (is_calls s i)} \<and>
    length (icl_responses cl) + unat (pending_count cl) = length (is_calls s i) \<and>
    fst (client_poll (sys_header s) (cl, sys_block s i)) \<noteq> Panic \<and>
    fst (call_turn (sys_header s) req u (cl, sys_block s i)) \<noteq> Panic \<and>
    (\<forall>h sv mem. server_recv (is_server s) (is_mem s) = (Some h, sv, mem) \<and> rh_client_idx h = i \<longrightarrow>
       is_received s i < length (is_calls s i) \<and> rh_data h = fst (is_calls s i ! is_received s i))"
proof -
  note inv = ipc_run_inv [OF assms(1)]
  note lane = sys_client_lane(1) [OF inv assms(2)]
  have "icl_responses cl = map (\<lambda>(k, p). (snd (is_calls s i ! k), p)) (take (length (icl_responses cl)) (is_answers s i))"
    using lane unfolding lane_inv_def client_inv_def Let_def fst_conv by blast
  moreover have "distinct (map fst (is_answers s i))" "fst ` set (is_answers s i) \<subseteq> {..<length (is_calls s i)}"
    using lane by (fastforce simp: lane_inv_def block_inv_def)+
  moreover have "fst (client_poll (sys_header s) (cl, sys_block s i)) \<noteq> Panic"
    by (rule client_poll_keeps [OF lane, of "sys_header s"]) simp
  moreover have "fst (call_turn (sys_header s) req u (cl, sys_block s i)) \<noteq> Panic"
    by (cases rule: call_turn_keeps [OF lane, of "sys_header s" req u]) simp_all
  ultimately show ?thesis
    using lane_counts [OF lane] receive_inv(2) [OF inv] by (simp add: pending_count_def) blast
qed

text \<open>A server with room for one client, the client connected and with one call made.\<close>

lemma demo_connected:
  obtains s :: "(nat, nat, nat) ipc_sys" and cl where "ipc_run 24 32 1 2 0 s" "sys_client s 0 cl"
    "icl_user_data cl = replicate 2 None" "icl_responses cl = []" "is_calls s 0 = []" "hd_server_alive (sys_header s)"
proof -
  have "is_pow2 2" using is_pow2_double [OF is_pow2_1] by simp
  then obtain sv and mem :: "(nat, nat) shared" where c: "server_create True 24 32 1 2 0 = Ok (sv, mem)"
    by (simp add: server_create_def)
  then have h: "hd_magic (sh_header mem) = MAGIC" "hd_version (sh_header mem) = VERSION" "hd_server_alive (sh_header mem)"
    "hd_req_slot_size (sh_header mem) = 24" "hd_resp_slot_size (sh_header mem) = 32" "hd_next_client_id (sh_header mem) = 0"
    "hd_max_clients (sh_header mem) = 1" "hd_ring_depth (sh_header mem) = 2" "length (sh_blocks mem) = 1"
    by (auto simp: server_create_def split: if_splits)
  obtain cl :: "(nat, nat) ipc_client" and mem' where con: "client_connect True True 24 32 mem = (Ok cl, mem')"
    and cl: "icl_user_data cl = replicate 2 None" "icl_responses cl = []" "cb_alive (sh_blocks mem' ! 0)" "hd_server_alive (sh_header mem')"
    using h by (simp add: client_connect_def Let_def)
  have "ipc_run 24 32 1 2 0 (ipc_start sv mem :: (nat, nat, nat) ipc_sys)" by (rule ir_create [OF c])
  then have "ipc_run 24 32 1 2 0 ((ipc_start sv mem)\<lparr>is_mem := mem', is_clients := (is_clients (ipc_start sv mem))
      (unat (hd_next_client_id (sys_header (ipc_start sv mem :: (nat, nat, nat) ipc_sys))) := Some cl)\<rparr>)"
    by (rule ir_connect) (use h con in \<open>simp_all add: ipc_start_def sys_header_def\<close>)
  then show thesis
    by (rule that) (use cl h in \<open>simp_all add: ipc_start_def sys_header_def sys_client_def sys_block_def\<close>)
qed

lemma demo_called:
  obtains s :: "(nat, nat, nat) ipc_sys" and cl where "ipc_run 24 32 1 2 0 s" "sys_client s 0 cl" "is_calls s 0 = [(5, 7)]"
proof (rule demo_connected)
  fix s :: "(nat, nat, nat) ipc_sys" and cl
  assume s: "ipc_run 24 32 1 2 0 s" "sys_client s 0 cl" "icl_user_data cl = replicate 2 None" "icl_responses cl = []" "is_calls s 0 = []"
  note inv = ipc_run_inv [OF s(1)]
  note lane = sys_client_lane(1) [OF inv s(2)]
  show thesis
  proof (cases rule: call_turn_keeps [OF lane, of "sys_header s" 5 7])
    case (1 cl' b')
    have "sys_client (put_client 0 (cl', b') s) 0 cl'"
      using s(2) 1(3) sys_client_lane(2) [OF inv s(2)] sys_invD(5) [OF inv] by (simp add: sys_client_def sys_block_def)
    then show ?thesis using ir_called [OF s(1,2) 1(1)] s(5) by (intro that) (auto simp: sys_client_def sys_block_def)
  next
    case (2 out cl' b')
    then show ?thesis using s(3,5) by simp
  qed
qed

theorem ipc_responses_matched_witness:
  "\<exists>(s :: (nat, nat, nat) ipc_sys) cl. ipc_run 24 32 1 2 0 s \<and> sys_client s 0 cl \<and> is_calls s 0 = [(5, 7)] \<and>
     length (icl_responses cl) + unat (pending_count cl) = 1"
proof (rule demo_called)
  fix s :: "(nat, nat, nat) ipc_sys" and cl
  assume s: "ipc_run 24 32 1 2 0 s" "sys_client s 0 cl" "is_calls s 0 = [(5, 7)]"
  from ipc_responses_matched [OF s(1,2)] s show ?thesis by auto
qed



section \<open>A round of the server\<close>

text \<open>The requests of client \<open>i\<close> that a poll finds.\<close>

definition waiting_requests :: "('q, 'p) shared \<Rightarrow> nat \<Rightarrow> 'q list" where
  "waiting_requests mem i = (if cb_alive (sh_blocks mem ! i) then os_contents (cb_req (sh_blocks mem ! i)) else [])"

definition rings_ok :: "ipc_server \<Rightarrow> ('q, 'p) shared \<Rightarrow> bool" where
  "rings_ok sv mem \<longleftrightarrow>
     0 < unat (isv_max_clients sv) \<and> length (sh_blocks mem) = unat (isv_max_clients sv) \<and>
     length (isv_req_avail sv) = unat (isv_max_clients sv) \<and>
     (\<forall>i < unat (isv_max_clients sv). os_wf (cb_req (sh_blocks mem ! i)) \<and>
        length (os_slots (cb_req (sh_blocks mem ! i))) = unat (isv_ring_depth sv))"

lemma os_count_le: "os_wf s \<Longrightarrow> os_count s \<le> length (os_slots s)"
  using os_count_at by (fastforce simp: os_wf_def os_at_def)

lemma count_waiting:
  assumes "rings_ok sv mem" "i < unat (isv_max_clients sv)"
  shows "count_available (isv_ring_depth sv) (cb_req (sh_blocks mem ! i)) = length (os_contents (cb_req (sh_blocks mem ! i)))"
  using assms os_count_le [of "cb_req (sh_blocks mem ! i)"] by (simp add: rings_ok_def count_available_eq)

lemma poll_loop_counts:
  assumes "rings_ok sv mem" "scan < unat (isv_max_clients sv)" "length av = unat (isv_max_clients sv)"
  shows "\<exists>av'. poll_loop n sv mem (c, scan, av) =
      (c + word_of_nat (\<Sum>j<n. length (waiting_requests mem ((scan + j) mod unat (isv_max_clients sv)))),
       (scan + n) mod unat (isv_max_clients sv), av') \<and> length av' = unat (isv_max_clients sv) \<and>
    (\<forall>i < unat (isv_max_clients sv). av' ! i =
       (if \<exists>j<n. (scan + j) mod unat (isv_max_clients sv) = i then length (waiting_requests mem i) else av ! i))"
  using assms(2,3)
proof (induction n arbitrary: c scan av)
  case (Suc n)
  let ?m = "unat (isv_max_clients sv)"
  let ?w = "length (waiting_requests mem scan)"
  have step: "poll_loop (Suc n) sv mem (c, scan, av) = poll_loop n sv mem (c + word_of_nat ?w, (scan + 1) mod ?m, av[scan := ?w])"
    using count_waiting [OF assms(1) Suc.prems(1)] by (simp add: Let_def waiting_requests_def)
  have m: "(scan + 1) mod ?m < ?m" using Suc.prems(1) by simp
  from Suc.IH [OF m, of "av[scan := ?w]" "c + word_of_nat ?w"] Suc.prems(2) obtain av' where
    av: "poll_loop (Suc n) sv mem (c, scan, av) =
      (c + word_of_nat ?w + word_of_nat (\<Sum>j<n. length (waiting_requests mem (((scan + 1) mod ?m + j) mod ?m))),
       ((scan + 1) mod ?m + n) mod ?m, av')" "length av' = ?m"
    "\<forall>i < ?m. av' ! i = (if \<exists>j<n. ((scan + 1) mod ?m + j) mod ?m = i then length (waiting_requests mem i) else av[scan := ?w] ! i)"
    unfolding step by auto
  have shift: "((scan + 1) mod ?m + j) mod ?m = (scan + Suc j) mod ?m" for j by (simp add: mod_simps)
  have "(\<Sum>j<Suc n. length (waiting_requests mem ((scan + j) mod ?m))) =
      ?w + (\<Sum>j<n. length (waiting_requests mem ((scan + Suc j) mod ?m)))"
    using Suc.prems(1) by (simp add: sum.lessThan_Suc_shift del: sum.lessThan_Suc)
  then have cnt: "c + word_of_nat ?w + word_of_nat (\<Sum>j<n. length (waiting_requests mem ((scan + Suc j) mod ?m))) =
      (c + word_of_nat (\<Sum>j<Suc n. length (waiting_requests mem ((scan + j) mod ?m))) :: u32)"
    by (simp only: of_nat_add add.assoc)
  have "(\<exists>j<Suc n. (scan + j) mod ?m = i) \<longleftrightarrow> i = scan \<or> (\<exists>j<n. (scan + Suc j) mod ?m = i)" for i
    using Suc.prems(1) by (auto simp: less_Suc_eq_0_disj)
  then show ?case
    using av Suc.prems cnt unfolding shift by (intro exI [of _ av']) (auto simp: nth_list_update)
qed simp

text \<open>The loop of a server's program: receive until nothing is left, at most \<open>n\<close> times.\<close>

primrec serve :: "nat \<Rightarrow> ipc_server \<Rightarrow> ('q, 'p) shared \<Rightarrow> 'q recv_handle list" where
  "serve 0 sv mem = []"
| "serve (Suc n) sv mem =
     (case server_recv sv mem of (Some h, sv', mem') \<Rightarrow> h # serve n sv' mem' | (None, _, _) \<Rightarrow> [])"

text \<open>What the receives of this round still return: lane by lane, at most as many as were counted.\<close>

definition lane_rest :: "ipc_server \<Rightarrow> ('q, 'p) shared \<Rightarrow> nat \<Rightarrow> (nat \<times> 'q) list" where
  "lane_rest sv mem j =
     (let i = (isv_recv_start sv + j) mod unat (isv_max_clients sv)
      in map (Pair i) (take (isv_req_avail sv ! i) (os_contents (cb_req (sh_blocks mem ! i)))))"

definition round_rest :: "ipc_server \<Rightarrow> ('q, 'p) shared \<Rightarrow> (nat \<times> 'q) list" where
  "round_rest sv mem = concat (map (lane_rest sv mem) [isv_recv_scan_pos sv..<unat (isv_max_clients sv)])"

lemma lane_rest_pos [simp]: "lane_rest (sv\<lparr>isv_recv_scan_pos := q\<rparr>) mem = lane_rest sv mem"
  by (simp add: fun_eq_iff lane_rest_def)

lemma round_rest_step:
  "isv_recv_scan_pos sv < unat (isv_max_clients sv) \<Longrightarrow>
     round_rest sv mem = lane_rest sv mem (isv_recv_scan_pos sv) @
       round_rest (sv\<lparr>isv_recv_scan_pos := isv_recv_scan_pos sv + 1\<rparr>) mem"
  by (simp add: round_rest_def upt_conv_Cons)

text \<open>A receive returns the first of them.\<close>

definition recv_follows :: "ipc_server \<Rightarrow> ('q, 'p) shared \<Rightarrow> bool" where
  "recv_follows sv mem \<longleftrightarrow>
     (case round_rest sv mem of
        [] \<Rightarrow> fst (server_recv sv mem) = None
      | x # xs \<Rightarrow> \<exists>h sv' mem'. server_recv sv mem = (Some h, sv', mem') \<and> (rh_client_idx h, rh_data h) = x \<and>
          round_rest sv' mem' = xs \<and> rings_ok sv' mem')"

definition recv_idx :: "ipc_server \<Rightarrow> nat" where
  "recv_idx sv = (isv_recv_start sv + isv_recv_scan_pos sv) mod unat (isv_max_clients sv)"

definition recv_ready :: "ipc_server \<Rightarrow> ('q, 'p) shared \<Rightarrow> bool" where
  "recv_ready sv mem \<longleftrightarrow>
     0 < isv_req_avail sv ! recv_idx sv \<and> os_contents (cb_req (sh_blocks mem ! recv_idx sv)) \<noteq> []"

lemma recv_idx_ring:
  assumes "rings_ok sv mem"
  shows "recv_idx sv < unat (isv_max_clients sv)" "os_wf (cb_req (sh_blocks mem ! recv_idx sv))"
  using assms by (simp_all add: rings_ok_def recv_idx_def)

lemma recv_takes:
  assumes ok: "rings_ok sv mem" and q: "isv_recv_scan_pos sv < unat (isv_max_clients sv)" and ready: "recv_ready sv mem"
  shows "recv_follows sv mem"
proof -
  let ?m = "unat (isv_max_clients sv)" and ?q = "isv_recv_scan_pos sv" and ?i = "recv_idx sv"
  let ?b = "sh_blocks mem ! ?i"
  note i = recv_idx_ring [OF ok]
  obtain v vs where c: "os_contents (cb_req ?b) = v # vs" using ready by (cases "os_contents (cb_req ?b)") (auto simp: recv_ready_def)
  obtain ring slot where ring: "raw_try_recv (cb_req ?b) = (Some (slot, v), ring)" "os_contents ring = vs" "os_wf ring"
      "length (os_slots ring) = length (os_slots (cb_req ?b))"
    by (cases rule: raw_try_recv_cases [OF i(2)]) (use c raw_try_recv_fields(2) [of "cb_req ?b"] in auto)
  let ?h = "\<lparr>rh_client_idx = ?i, rh_slot_idx = slot, rh_data = v\<rparr>"
  let ?sv = "sv\<lparr>isv_req_avail := (isv_req_avail sv)[?i := isv_req_avail sv ! ?i - 1]\<rparr>"
  let ?mem = "mem\<lparr>sh_blocks := (sh_blocks mem)[?i := ?b\<lparr>cb_req := ring\<rparr>]\<rparr>"
  have recv: "server_recv sv mem = (Some ?h, ?sv, ?mem)"
    by (subst server_recv.simps) (use q ready ring(1) in \<open>simp add: Let_def recv_ready_def recv_idx_def\<close>)
  have ok': "rings_ok ?sv ?mem" using ok ring(3,4) i by (auto simp: rings_ok_def nth_list_update)
  have here: "lane_rest sv mem ?q = (?i, v) # lane_rest ?sv ?mem ?q"
    using ready c ring(2) i ok
    by (cases "isv_req_avail sv ! ?i") (simp_all add: lane_rest_def Let_def rings_ok_def recv_ready_def recv_idx_def)
  have other: "lane_rest ?sv ?mem j = lane_rest sv mem j" if "?q < j" "j < ?m" for j
  proof -
    have "(isv_recv_start sv + j) mod ?m \<noteq> ?i"
      using mod_add_inj_le [of "isv_recv_start sv" ?q ?m j] that by (auto simp: recv_idx_def)
    then show ?thesis by (simp add: lane_rest_def Let_def)
  qed
  have "map (lane_rest ?sv ?mem) [Suc ?q..<?m] = map (lane_rest sv mem) [Suc ?q..<?m]" using other by simp
  then have "round_rest sv mem = (?i, v) # round_rest ?sv ?mem"
    using q here by (simp add: round_rest_def upt_conv_Cons del: map_eq_conv)
  then show ?thesis using recv ok' by (simp add: recv_follows_def)
qed

lemma recv_skips:
  assumes ok: "rings_ok sv mem" and q: "isv_recv_scan_pos sv < unat (isv_max_clients sv)" and "\<not> recv_ready sv mem"
  defines "next \<equiv> sv\<lparr>isv_recv_scan_pos := isv_recv_scan_pos sv + 1\<rparr>"
  shows "server_recv sv mem = server_recv next mem" "round_rest sv mem = round_rest next mem" "rings_ok next mem"
proof -
  let ?b = "sh_blocks mem ! recv_idx sv"
  have none: "raw_try_recv (cb_req ?b) = (None, cb_req ?b)" if "0 < isv_req_avail sv ! recv_idx sv"
    by (cases rule: raw_try_recv_cases [OF recv_idx_ring(2) [OF ok]]) (use assms(3) that in \<open>simp_all add: recv_ready_def\<close>)
  show "server_recv sv mem = server_recv next mem"
    by (subst server_recv.simps) (use q none in \<open>simp add: Let_def next_def recv_idx_def\<close>)
  have "lane_rest sv mem (isv_recv_scan_pos sv) = []"
    using assms(3) by (auto simp: lane_rest_def Let_def recv_ready_def recv_idx_def)
  then show "round_rest sv mem = round_rest next mem" using round_rest_step [OF q, of mem] by (simp add: next_def)
  show "rings_ok next mem" using ok by (simp add: next_def rings_ok_def)
qed

lemma server_recv_rest: "rings_ok sv mem \<Longrightarrow> recv_follows sv mem"
proof (induction "unat (isv_max_clients sv) - isv_recv_scan_pos sv" arbitrary: sv)
  case 0
  then have "fst (server_recv sv mem) = None" by (subst server_recv.simps) simp
  then show ?case using 0 by (simp add: recv_follows_def round_rest_def)
next
  case (Suc n)
  then have q: "isv_recv_scan_pos sv < unat (isv_max_clients sv)" by simp
  show ?case
  proof (cases "recv_ready sv mem")
    case True
    then show ?thesis by (rule recv_takes [OF Suc.prems q])
  next
    case False
    note skip = recv_skips [OF Suc.prems q False]
    have "recv_follows (sv\<lparr>isv_recv_scan_pos := isv_recv_scan_pos sv + 1\<rparr>) mem"
      using Suc.hyps(2) by (intro Suc.hyps(1) skip(3)) simp
    then show ?thesis by (simp only: recv_follows_def skip(1,2))
  qed
qed

lemma serve_rest:
  assumes "rings_ok sv mem" "length (round_rest sv mem) \<le> n"
  shows "map (\<lambda>h. (rh_client_idx h, rh_data h)) (serve n sv mem) = round_rest sv mem"
  using assms
proof (induction n arbitrary: sv mem)
  case (Suc n)
  show ?case
  proof (cases "round_rest sv mem")
    case Nil
    then have "fst (server_recv sv mem) = None" using server_recv_rest [OF Suc.prems(1)] by (simp add: recv_follows_def)
    then show ?thesis using Nil by (cases "server_recv sv mem") simp
  next
    case (Cons x xs)
    then obtain h sv' mem' where "server_recv sv mem = (Some h, sv', mem')" "(rh_client_idx h, rh_data h) = x"
      "round_rest sv' mem' = xs" "rings_ok sv' mem'"
      using server_recv_rest [OF Suc.prems(1)] by (auto simp: recv_follows_def)
    then show ?thesis using Suc.IH [of sv' mem'] Suc.prems(2) Cons by auto
  qed
qed simp

text \<open>
  The server's tables keep their shape, and with the invariant of the system every ring is in order.
\<close>

lemma skip_loop_length: "length (snd (snd (skip_loop skip n sv mem (c, scan, av)))) = length av"
  by (induction n arbitrary: c scan av) (simp_all add: Let_def)

lemma skip_loop_scan: "scan < unat (isv_max_clients sv) \<Longrightarrow>
    fst (snd (skip_loop skip n sv mem (c, scan, av))) < unat (isv_max_clients sv)"
  by (induction n arbitrary: c scan av) (simp_all add: Let_def)

lemma poll_is_skip_nothing: "server_poll sv mem = poll_with_skip [] sv mem"
proof -
  have "poll_loop n sv mem st = skip_loop [] n sv mem st" for n st
    by (induction n arbitrary: st) (simp_all add: Let_def split: prod.splits)
  then show ?thesis by (simp add: server_poll_def poll_with_skip_def)
qed

definition tables_ok :: "ipc_server \<Rightarrow> bool" where
  "tables_ok sv \<longleftrightarrow> length (isv_req_avail sv) = unat (isv_max_clients sv) \<and> isv_scan_pos sv < unat (isv_max_clients sv)"

lemma tables_poll: "tables_ok sv \<Longrightarrow> tables_ok (snd (poll_with_skip skip sv mem)) \<and> isv_ring_depth (snd (poll_with_skip skip sv mem)) = isv_ring_depth sv"
  using skip_loop_length [of skip "unat (isv_max_clients sv)" sv mem 0 "isv_scan_pos sv" "isv_req_avail sv"]
    skip_loop_scan [of "isv_scan_pos sv" sv skip "unat (isv_max_clients sv)" mem 0 "isv_req_avail sv"]
  by (auto simp: tables_ok_def poll_with_skip_def split: prod.splits)

lemma tables_recv: "server_recv sv mem = (r, sv', mem') \<Longrightarrow> tables_ok sv \<Longrightarrow> tables_ok sv' \<and> isv_ring_depth sv' = isv_ring_depth sv"
proof (induction sv mem rule: server_recv.induct)
  case (1 sv mem)
  show ?case
    using 1 by (subst (asm) (3) server_recv.simps)
      (auto simp: Let_def tables_ok_def split: if_splits option.splits prod.splits)
qed

lemma ipc_run_tables: "ipc_run rs ps mc d ex s \<Longrightarrow> tables_ok (is_server s) \<and> isv_ring_depth (is_server s) = d"
proof (induction rule: ipc_run.induct)
  case (ir_create sv mem)
  then show ?case by (auto simp: server_create_def tables_ok_def ipc_start_def unat_gt_0 split: if_splits)
next
  case (ir_server_polls s)
  then show ?case using tables_poll [of "is_server s" "[]" "is_mem s"] by (simp add: poll_is_skip_nothing)
next
  case (ir_server_skips s skip)
  then show ?case using tables_poll [of "is_server s" skip "is_mem s"] by simp
next
  case (ir_receives s h sv mem i)
  then show ?case using tables_recv [OF ir_receives.hyps(3)] by simp
next
  case (ir_nothing s sv mem)
  then show ?case using tables_recv [OF ir_nothing.hyps(3)] by simp
qed (auto simp: put_client_def split: prod.splits)

lemma ipc_run_rings:
  assumes "ipc_run rs ps mc d ex s"
  shows "rings_ok (is_server s) (is_mem s)"
proof -
  note inv = ipc_run_inv [OF assms]
  have "os_wf (cb_req (sys_block s i)) \<and> length (os_slots (cb_req (sys_block s i))) = unat d" if "i < unat mc" for i
  proof (cases "is_clients s i")
    case None
    then have "cb_req (sys_block s i) = create_spsc (unat d)" using sys_invD(9) [OF inv that] by (simp add: sys_lane_def)
    moreover have "unat d < 2 ^ 64" using unat_u32_lt [of d] by simp
    ultimately show ?thesis using create_spsc_wf(1) [OF sys_invD(1) [OF inv]] by simp
  next
    case (Some cl)
    then show ?thesis using sys_invD(9) [OF inv that] by (simp add: sys_lane_def lane_inv_def block_inv_def)
  qed
  then show ?thesis
    using ipc_run_tables [OF assms] sys_invD(3,5,8) [OF inv] by (simp add: rings_ok_def tables_ok_def sys_block_def)
qed

text \<open>
  C17.  A round of the server leaves nothing behind.  In every run a poll counts the requests that
  wait in the rings of the clients that are there, and the receives that follow return exactly
  these: client after client, beginning where the last round ended, and the requests of a
  client in the order it made them.
\<close>

theorem ipc_round_serves_all:
  assumes "ipc_run rs ps mc d ex s" "server_poll (is_server s) (is_mem s) = (count, sv)"
    and "length round \<le> n"
    and "round = concat (map (\<lambda>j. let i = (isv_scan_pos (is_server s) + j) mod unat mc
                               in map (Pair i) (waiting_requests (is_mem s) i)) [0..<unat mc])"
  shows "map (\<lambda>h. (rh_client_idx h, rh_data h)) (serve n sv (is_mem s)) = round \<and> count = word_of_nat (length round)"
proof -
  let ?sv = "is_server s" and ?mem = "is_mem s" and ?m = "unat mc"
  note inv = ipc_run_inv [OF assms(1)] and ok = ipc_run_rings [OF assms(1)]
  have m: "unat (isv_max_clients ?sv) = ?m" by (rule sys_invD(8) [OF inv])
  let ?p = "isv_scan_pos ?sv"
  have p: "?p < ?m" using ipc_run_tables [OF assms(1)] m by (simp add: tables_ok_def)
  obtain av where av: "poll_loop ?m ?sv ?mem (0, ?p, isv_req_avail ?sv) =
      (word_of_nat (\<Sum>j<?m. length (waiting_requests ?mem ((?p + j) mod ?m))), ?p, av)" "length av = ?m"
    "\<And>i. i < ?m \<Longrightarrow> av ! i = (if \<exists>j<?m. (?p + j) mod ?m = i then length (waiting_requests ?mem i) else isv_req_avail ?sv ! i)"
    using poll_loop_counts [OF ok, of ?p "isv_req_avail ?sv" ?m 0] p ok m by (auto simp: rings_ok_def)
  have sv: "sv = ?sv\<lparr>isv_req_avail := av, isv_scan_pos := ?p, isv_recv_start := ?p, isv_recv_scan_pos := 0\<rparr>"
    and count: "count = word_of_nat (\<Sum>j<?m. length (waiting_requests ?mem ((?p + j) mod ?m)))"
    using assms(2) av(1) m by (auto simp: server_poll_def)
  have "av ! ((?p + j) mod ?m) = length (waiting_requests ?mem ((?p + j) mod ?m))" if "j < ?m" for j
    using av(3) [of "(?p + j) mod ?m"] that p by auto
  then have "lane_rest sv ?mem j = map (Pair ((?p + j) mod ?m)) (waiting_requests ?mem ((?p + j) mod ?m))" if "j < ?m" for j
    using that by (simp add: lane_rest_def sv m Let_def) (simp add: waiting_requests_def)
  then have lanes: "map (lane_rest sv ?mem) [0..<?m] =
      map (\<lambda>j. map (Pair ((?p + j) mod ?m)) (waiting_requests ?mem ((?p + j) mod ?m))) [0..<?m]" by simp
  have "isv_recv_scan_pos sv = 0" "unat (isv_max_clients sv) = ?m" by (simp_all add: sv m)
  then have rest: "round_rest sv ?mem = round"
    unfolding assms(4) round_rest_def Let_def by (simp only: lanes)
  have "rings_ok sv ?mem" using ok av(2) m by (simp add: sv rings_ok_def)
  from serve_rest [OF this, of n] rest assms(3)
  have "map (\<lambda>h. (rh_client_idx h, rh_data h)) (serve n sv ?mem) = round" by simp
  moreover have "length round = (\<Sum>j<?m. length (waiting_requests ?mem ((?p + j) mod ?m)))"
    unfolding assms(4) by (simp add: length_concat Let_def comp_def sum_list_sum_nth atLeast0LessThan)
  ultimately show ?thesis using count by simp
qed

theorem ipc_round_serves_all_witness:
  "\<exists>(s :: (nat, nat, nat) ipc_sys) count sv. ipc_run 24 32 1 2 0 s \<and> server_poll (is_server s) (is_mem s) = (count, sv) \<and>
     map (\<lambda>h. (rh_client_idx h, rh_data h)) (serve (length (waiting_requests (is_mem s) 0)) sv (is_mem s)) =
       map (Pair 0) (waiting_requests (is_mem s) 0) \<and> is_calls s 0 = [(5, 7)]"
proof (rule demo_called)
  fix s :: "(nat, nat, nat) ipc_sys" and cl
  assume s: "ipc_run 24 32 1 2 0 s" "sys_client s 0 cl" "is_calls s 0 = [(5, 7)]"
  obtain count sv where p: "server_poll (is_server s) (is_mem s) = (count, sv)" by (cases "server_poll (is_server s) (is_mem s)")
  from ipc_round_serves_all [OF s(1) p _ refl, of "length (waiting_requests (is_mem s) 0)"] s p
  show ?thesis by (auto simp: Let_def)
qed

section \<open>Immediate replies and synchronous calls\<close>

lemma handle_reply_token:
  "rh_client_idx h < 2 ^ 32 \<Longrightarrow> handle_reply h resp mem = server_reply (into_token h) resp mem"
  by (simp add: handle_reply_def server_reply_def into_token_def unat_of_nat Let_def)

text \<open>A server that answers the oldest request of a block with \<open>f\<close>.\<close>

definition serve_block :: "('q \<Rightarrow> 'p) \<Rightarrow> ('q, 'p) client_block \<Rightarrow> ('q, 'p) client_block" where
  "serve_block f b =
     (case raw_try_recv (cb_req b) of
        (Some (slot, x), ring) \<Rightarrow> send_response (word_of_nat slot) (f x) (b\<lparr>cb_req := ring\<rparr>)
      | (None, _) \<Rightarrow> b)"

definition idle_block :: "('q, 'p) client_block \<Rightarrow> bool" where
  "idle_block b \<longleftrightarrow> os_wf (cb_req b) \<and> os_wf (cb_resp b) \<and> os_contents (cb_req b) = [] \<and> os_contents (cb_resp b) = []"

lemma os_wf_room: "os_wf s \<Longrightarrow> os_contents s = [] \<Longrightarrow> os_count s < length (os_slots s)"
  using ring_cap_pos length_os_contents [of s] by (auto simp: os_wf_def os_cap_def simp del: length_os_contents)

lemma ring_take_one:
  assumes "os_wf s" "os_contents s = [v]"
  obtains slot ring where "raw_try_recv s = (Some (slot, v), ring)" "os_wf ring" "os_contents ring = []"
  using assms(2) by (cases rule: raw_try_recv_cases [OF assms(1)]) (auto intro: that)

lemma served_block:
  fixes f :: "'q \<Rightarrow> 'p" and req :: 'q
  assumes "idle_block b"
  defines "b1 \<equiv> serve_block f (b\<lparr>cb_req := os_publish (snd (raw_try_send req (cb_req b)))\<rparr>)"
  obtains slot rsp ring where "raw_try_recv (cb_resp b1) = (Some (slot, rsp), ring)" "rs_data rsp = f req"
    "idle_block (b1\<lparr>cb_resp := ring\<rparr>)"
proof -
  have wf: "os_wf (cb_req b)" "os_wf (cb_resp b)" and empty: "os_contents (cb_req b) = []" "os_contents (cb_resp b) = []"
    using assms(1) by (simp_all add: idle_block_def)
  let ?q = "os_publish (snd (raw_try_send req (cb_req b)))"
  note send = raw_try_send_effect [OF wf(1) os_wf_room [OF wf(1) empty(1)], of req]
  obtain slot ring where q: "raw_try_recv ?q = (Some (slot, req), ring)" "os_wf ring" "os_contents ring = []"
    using ring_take_one [of ?q req] send empty(1) by auto
  let ?rsp = "\<lparr>rs_token = word_of_nat slot, rs_data = f req\<rparr>"
  let ?p = "os_publish (snd (raw_try_send ?rsp (cb_resp b)))"
  note reply = raw_try_send_effect [OF wf(2) os_wf_room [OF wf(2) empty(2)], of ?rsp]
  obtain slot' ring' where p: "raw_try_recv ?p = (Some (slot', ?rsp), ring')" "os_wf ring'" "os_contents ring' = []"
    using ring_take_one [of ?p ?rsp] reply empty(2) by auto
  have b1: "b1 = b\<lparr>cb_req := ring, cb_resp := ?p\<rparr>" using q(1) by (simp add: b1_def serve_block_def send_response_def)
  show thesis by (rule that [of slot' ?rsp ring']) (use p q in \<open>simp_all add: b1 idle_block_def\<close>)
qed

text \<open>A synchronous call on an idle connection returns the server's answer and leaves it idle.\<close>

lemma blocking_call_answered:
  assumes "idle_block b" "icl_in_flight cl = 0" "icl_ring_depth cl \<noteq> 0" "hd_server_alive h"
  shows "\<exists>b'. call_blocking (\<lambda>n. if n = 0 then serve_block f else id) (\<lambda>_. h) 2 req (cl, b) = Some (Ok (f req), (cl, b')) \<and>
    idle_block b'"
proof -
  obtain slot rsp ring where r:
    "raw_try_recv (cb_resp (serve_block f (b\<lparr>cb_req := os_publish (snd (raw_try_send req (cb_req b)))\<rparr>))) = (Some (slot, rsp), ring)"
    "rs_data rsp = f req"
    "idle_block ((serve_block f (b\<lparr>cb_req := os_publish (snd (raw_try_send req (cb_req b)))\<rparr>))\<lparr>cb_resp := ring\<rparr>)"
    by (rule served_block [OF assms(1)])
  then show ?thesis
    using assms(2-4) unfolding numeral_2_eq_2
    by (simp add: call_blocking_def is_server_alive_def blocking_room_def blocking_send_def blocking_turn_def not_le)
qed

end
