(* ===== verification/Spec2Isabelle.thy ===== *)
theory Spec2Isabelle
  imports Copyrpc_Ring Copyrpc_RC_Polling Copyrpc_DC_Polling Mempc_Lamport_Channel Mempc_FastForward Mempc_Onesided_Order
    Scalerpc_Roundtrip Ipc_Layout Ipc_Service
begin

text \<open>
  \<^bold>\<open>Verification of the locasta RPC stack\<close>

  locasta is a collection of Rust crates for remote procedure calls: \<^verbatim>\<open>copyrpc\<close> and \<^verbatim>\<open>scalerpc\<close> over
  RDMA, \<^verbatim>\<open>ipc\<close> between processes over shared memory, \<^verbatim>\<open>mempc\<close> between threads.  The development is
  a shallow embedding: a struct is a record, an enum a datatype, a method a function on the
  record; an operation that can fail returns an \<^const>\<open>Ok\<close>, \<^const>\<open>Err\<close> or \<^const>\<open>Panic\<close> and the state it
  leaves behind, where \<^const>\<open>Panic\<close> stands for a Rust panic and for an access outside an allocation.
  Integers keep their width wherever they can wrap.

  \<^bold>\<open>Parts and theories\<close>

  \<^item> Vocabulary: \<^verbatim>\<open>Prelude\<close> (machine integers, little-endian images, reads and writes of byte ranges,
    powers of two), \<^verbatim>\<open>Outcome\<close> (results and their chaining, answers of a send queue), \<^verbatim>\<open>Ring_Index\<close>
    (rings addressed by free-running counters, the locale \<open>fifo\<close>), \<^verbatim>\<open>Byte_Codec\<close> (the locale
    \<open>byte_codec\<close> of fixed-width wire records), \<^verbatim>\<open>Map_Interface\<close> (the locale \<open>keyed_map\<close>).
  \<^item> \<^verbatim>\<open>fastmap/src/lib.rs\<close>: \<^verbatim>\<open>FastMap\<close>, every method; it refines a partial function.
  \<^item> \<^verbatim>\<open>copyrpc/src/encoding.rs\<close>, \<^verbatim>\<open>ring.rs\<close>, \<^verbatim>\<open>error.rs\<close>: \<^verbatim>\<open>Copyrpc_Encoding\<close>, \<^verbatim>\<open>Copyrpc_Ring\<close>, \<^verbatim>\<open>Copyrpc_Framing\<close>.
    The last also holds the work requests, their placement by the device and the frames of a batch.
  \<^item> \<^verbatim>\<open>copyrpc/src/rc.rs\<close>, reliable connections: \<^verbatim>\<open>Copyrpc_RC\<close> (endpoint: call, reply, flush, wrap,
    credit), \<^verbatim>\<open>Copyrpc_RC_Context\<close> (completions, receive handles, dirty queue, poll).
    \<^verbatim>\<open>Copyrpc_RC_Safety\<close>: the layout invariant and the credit invariant, that nothing unread in the
    peer's ring is overwritten.  \<^verbatim>\<open>Copyrpc_RC_Delivery\<close>: a posted batch is delivered message by
    message with its flow control.  \<^verbatim>\<open>Copyrpc_RC_Polling\<close>: the dirty queue, the flush loop, receive buffers.
  \<^item> \<^verbatim>\<open>copyrpc/src/dc.rs\<close>, dynamic connections: \<^verbatim>\<open>Copyrpc_DC\<close> with \<^verbatim>\<open>Copyrpc_DC_Safety\<close>, \<^verbatim>\<open>Copyrpc_DC_Dirty\<close>
    (the intrusive list refines a queue), \<^verbatim>\<open>Copyrpc_DC_Delivery\<close> and \<^verbatim>\<open>Copyrpc_DC_Polling\<close>.
  \<^item> \<^verbatim>\<open>mlx5/src/srq.rs\<close>, the shared receive queue both transports post to: \<^verbatim>\<open>Mlx5_Srq\<close>.
  \<^item> \<^verbatim>\<open>mempc\<close>, channels of many callers and one server: \<^verbatim>\<open>Mempc_Lamport\<close> and \<^verbatim>\<open>Mempc_Lamport_Channel\<close>
    (\<^verbatim>\<open>lamport.rs\<close>), \<^verbatim>\<open>Mempc_FastForward\<close> (\<^verbatim>\<open>fastforward.rs\<close>, \<^verbatim>\<open>common.rs\<close>), \<^verbatim>\<open>Mempc_Onesided\<close> and
    \<^verbatim>\<open>Mempc_Onesided_Channel\<close> (\<^verbatim>\<open>onesided.rs\<close>), \<^verbatim>\<open>Mempc_User_Data\<close> (\<^verbatim>\<open>user_data.rs\<close>, proved over the locale
    \<open>mpsc_caller\<close>) and \<^verbatim>\<open>Mempc_Onesided_Order\<close> (both together).  The rings are queues; the bound on
    calls in flight keeps them from being overwritten; replies in order meet their user data.
  \<^item> \<^verbatim>\<open>ipc/src/lib.rs\<close>: \<^verbatim>\<open>Ipc\<close> (header, layout, server, asynchronous and synchronous client), \<^verbatim>\<open>Ipc_Layout\<close>
    (the parts of the region do not overlap), \<^verbatim>\<open>Ipc_Safety\<close> (the step relation \<open>ipc_run\<close> and its
    invariant) and \<^verbatim>\<open>Ipc_Service\<close> (responses meet their calls, calls return, a round serves all).
    It uses the one-sided rings of \<^verbatim>\<open>mempc\<close>.
  \<^item> \<^verbatim>\<open>scalerpc/src\<close>: \<^verbatim>\<open>Scalerpc_Protocol\<close> (\<^verbatim>\<open>protocol.rs\<close>), \<^verbatim>\<open>Scalerpc_Pool\<close> (\<^verbatim>\<open>pool.rs\<close>, \<^verbatim>\<open>error.rs\<close>),
    \<^verbatim>\<open>Scalerpc_Mapping\<close> (\<^verbatim>\<open>mapping.rs\<close>), \<^verbatim>\<open>Scalerpc_Connection\<close> (\<^verbatim>\<open>connection.rs\<close>), \<^verbatim>\<open>Scalerpc_Scheduler\<close> and
    \<^verbatim>\<open>Scalerpc_Server\<close> (\<^verbatim>\<open>server.rs\<close>), \<^verbatim>\<open>Scalerpc_Client\<close> (\<^verbatim>\<open>client.rs\<close>).  \<^verbatim>\<open>Scalerpc_Client_Safety\<close>: the
    credit window, and two ways in which a client goes wrong.  \<^verbatim>\<open>Scalerpc_Server_Safety\<close> and
    \<^verbatim>\<open>Scalerpc_Server_Typing\<close>: every reachable server is well formed, and processing ends with nothing
    left.  \<^verbatim>\<open>Scalerpc_Roundtrip\<close>: a direct call of a client through the server and back.

  \<^bold>\<open>What enters as a parameter\<close>

  Code outside the repository is an argument of the definitions that use it: whether the send
  queue accepts the \<open>n\<close>-th request (\<open>submit\<close>), the completions a poll returns, addresses and keys of
  registered memory, the key a slab chooses, whether mapping a region succeeds, the clock, the
  handler of a server.  Where a theorem relies on it -- a handler that stays inside its buffer, a
  placed write copies the bytes -- the reliance is a hypothesis or a definition, and a witness
  instantiates it.

  \<^bold>\<open>Loops and bounds\<close>

  Loops over data are structural or have a termination proof.  The flush loops of both copyrpc
  transports, the processing loop of the ScaleRPC server and the drain of the \<^verbatim>\<open>mempc\<close> adapter may
  in principle run on; they are
  \<open>partial_function (option)\<close>, and it is proved that they return.  The waiting loops of \<^verbatim>\<open>ipc\<close>
  run for a given number of turns between which the other side acts; two turns are enough once the
  slot is answered.  Positions of the copyrpc endpoints, which the source keeps in 64 bits and
  never wraps, are natural numbers; positions of the other rings wrap as in the source.

  \<^bold>\<open>Concurrency\<close>

  The channels are run by step relations in which the parties act in any order.  A step is one access
  to a ring or one operation of the source; memory orderings and fences below that are not modelled.

  \<^bold>\<open>Not modelled\<close>

  The lock-free queues of many producers in \<^verbatim>\<open>mempc\<close> (\<^verbatim>\<open>scq\<close>, \<^verbatim>\<open>wcq\<close>, \<^verbatim>\<open>wcq_cas2\<close>, \<^verbatim>\<open>lcrq\<close>, \<^verbatim>\<open>lprq\<close>,
  \<^verbatim>\<open>bbq\<close>, \<^verbatim>\<open>jiffy\<close>, \<^verbatim>\<open>fetch_add\<close>, \<^verbatim>\<open>hazard\<close>), whose correctness lies below the granularity of a step; the
  rest of \<^verbatim>\<open>mlx5\<close> (work-queue entries, completion queues, queue pairs, device set-up), which is
  an encoding for hardware; the bindings \<^verbatim>\<open>mlx5_sys\<close>, \<^verbatim>\<open>ibverbs_sys\<close>, \<^verbatim>\<open>ucx_sys\<close>; \<^verbatim>\<open>ipc/src/shm.rs\<close> and
  \<^verbatim>\<open>pmem\<close> (system calls); \<^verbatim>\<open>inproc\<close>, which forwards to the one-sided channel; \<^verbatim>\<open>aggfs\<close>; and the
  benchmarks \<^verbatim>\<open>benchkv\<close>, \<^verbatim>\<open>rpc_bench\<close>, \<^verbatim>\<open>tbb_bench\<close> with the binaries of the other crates.
\<close>

end
